(* ===== verification/Prelude.thy ===== *)
theory Prelude
  imports Main "HOL-Library.Word"
begin

section \<open>Prelude: outcomes, bytes, machine words, collections of hints\<close>

text \<open>
  What every component shares: the outcome of a C++ call (a value, an \<^verbatim>\<open>srs_error_t\<close>, or a
  panic), the byte view of a little-endian machine word that \<^verbatim>\<open>srs_kernel_buffer.cpp\<close> uses
  (\<^verbatim>\<open>char* pp = (char*)&value\<close>), the correspondence of \<^verbatim>\<open>char\<close>s and bytes, and the
  named collections the component proofs draw on.
\<close>

unbundle bit_operations_syntax

named_theorems buf_eval \<open>how a buffer operation evaluates on a well-formed buffer\<close>
named_theorems buf_wf \<open>operations keep a buffer well formed\<close>
named_theorems outcome_simps \<open>rewriting of sequenced calls\<close>

subsection \<open>Outcomes of a call\<close>

text \<open>
  An error is a code with the trail of messages its wrappings put around it, outermost first.
  The messages are the format strings of the source, their arguments are not filled in.
\<close>

datatype srs_error = SrsError (err_code: int) (err_trail: "string list")

definition srs_error_new :: "int \<Rightarrow> string \<Rightarrow> srs_error" where
  "srs_error_new code msg = SrsError code [msg]"

definition srs_error_wrap :: "srs_error \<Rightarrow> string \<Rightarrow> srs_error" where
  "srs_error_wrap e msg = SrsError (err_code e) (msg # err_trail e)"

lemma err_code_new [simp]: "err_code (srs_error_new c m) = c"
  by (simp add: srs_error_new_def)

lemma err_code_wrap [simp]: "err_code (srs_error_wrap e m) = err_code e"
  by (simp add: srs_error_wrap_def)

text \<open>
  A panic is the end of the program or of its meaning: a failed \<^verbatim>\<open>srs_assert\<close>, behaviour the
  language leaves undefined (an access outside the object, a null pointer, a cast out of range),
  among it, told apart, the overflow of a 64-bit signed integer where it is computed with, an
  exception of the standard library that nothing catches, or a model run out of fuel.
\<close>

datatype panic = AssertFailed | UndefinedBehaviour | IntOverflow | UncaughtException | OutOfFuel

datatype 'a outcome = Ok 'a | Err srs_error | Panic panic

fun is_ok :: "'a outcome \<Rightarrow> bool" where
  "is_ok (Ok x) = True"
| "is_ok _ = False"

fun is_panic :: "'a outcome \<Rightarrow> bool" where
  "is_panic (Panic q) = True"
| "is_panic _ = False"

fun map_outcome :: "('a \<Rightarrow> 'b) \<Rightarrow> 'a outcome \<Rightarrow> 'b outcome" where
  "map_outcome f (Ok x) = Ok (f x)"
| "map_outcome f (Err e) = Err e"
| "map_outcome f (Panic q) = Panic q"

text \<open>Sequencing of outcomes where no state is involved.\<close>

fun then_do :: "'a outcome \<Rightarrow> ('a \<Rightarrow> 'b outcome) \<Rightarrow> 'b outcome" where
  "then_do (Ok x) f = f x"
| "then_do (Err e) f = Err e"
| "then_do (Panic q) f = Panic q"

subsection \<open>Calls over a state\<close>

text \<open>A call reads and changes a state and has an outcome; the state is there after an error too.\<close>

type_synonym ('s, 'a) call = "'s \<Rightarrow> 'a outcome \<times> 's"

definition ret :: "'a \<Rightarrow> ('s, 'a) call" where
  "ret x s = (Ok x, s)"

definition fail :: "srs_error \<Rightarrow> ('s, 'a) call" where
  "fail e s = (Err e, s)"

definition panic :: "panic \<Rightarrow> ('s, 'a) call" where
  "panic q s = (Panic q, s)"

definition bind :: "('s, 'a) call \<Rightarrow> ('a \<Rightarrow> ('s, 'b) call) \<Rightarrow> ('s, 'b) call" where
  "bind m f s = (case m s of
      (Ok x, s') \<Rightarrow> f x s'
    | (Err e, s') \<Rightarrow> (Err e, s')
    | (Panic q, s') \<Rightarrow> (Panic q, s'))"

definition srs_assert :: "('s \<Rightarrow> bool) \<Rightarrow> ('s, unit) call" where
  "srs_assert P s = (if P s then (Ok (), s) else (Panic AssertFailed, s))"

definition gets :: "('s \<Rightarrow> 'a) \<Rightarrow> ('s, 'a) call" where
  "gets f s = (Ok (f s), s)"

text \<open>The idiom \<^verbatim>\<open>if ((err = f()) != srs_success) return srs_error_wrap(err, msg)\<close>.\<close>

definition wrap_err :: "string \<Rightarrow> ('s, 'a) call \<Rightarrow> ('s, 'a) call" where
  "wrap_err msg m s = (case m s of
      (Err e, s') \<Rightarrow> (Err (srs_error_wrap e msg), s')
    | (r, s') \<Rightarrow> (r, s'))"

text \<open>The idiom \<^verbatim>\<open>if (!cond) return srs_error_new(code, msg)\<close>.\<close>

definition ensure :: "('s \<Rightarrow> bool) \<Rightarrow> int \<Rightarrow> string \<Rightarrow> ('s, unit) call" where
  "ensure P code msg s = (if P s then (Ok (), s) else (Err (srs_error_new code msg), s))"

lemma ret_eval [simp]: "ret x s = (Ok x, s)"
  by (simp add: ret_def)

lemma gets_eval [simp]: "gets f s = (Ok (f s), s)"
  by (simp add: gets_def)

lemma bind_Ok [outcome_simps]: "m s = (Ok x, s') \<Longrightarrow> bind m f s = f x s'"
  by (simp add: bind_def)

lemma bind_Err [outcome_simps]: "m s = (Err e, s') \<Longrightarrow> bind m f s = (Err e, s')"
  by (simp add: bind_def)

lemma bind_Panic [outcome_simps]: "m s = (Panic q, s') \<Longrightarrow> bind m f s = (Panic q, s')"
  by (simp add: bind_def)

lemma bind_ret [simp]: "bind (ret x) f = f x"
  by (rule ext) (simp add: bind_def)

lemma bind_gets [simp]: "bind (gets g) f s = f (g s) s"
  by (simp add: bind_def)

lemma wrap_err_Ok [outcome_simps]: "m s = (Ok x, s') \<Longrightarrow> wrap_err msg m s = (Ok x, s')"
  by (simp add: wrap_err_def)

lemma wrap_err_Err [outcome_simps]:
  "m s = (Err e, s') \<Longrightarrow> wrap_err msg m s = (Err (srs_error_wrap e msg), s')"
  by (simp add: wrap_err_def)

lemma wrap_err_Panic [outcome_simps]: "m s = (Panic q, s') \<Longrightarrow> wrap_err msg m s = (Panic q, s')"
  by (simp add: wrap_err_def)

lemma ensure_True [outcome_simps]: "P s \<Longrightarrow> ensure P c m s = (Ok (), s)"
  by (simp add: ensure_def)

lemma ensure_False [outcome_simps]:
  "\<not> P s \<Longrightarrow> ensure P c m s = (Err (srs_error_new c m), s)"
  by (simp add: ensure_def)

lemma srs_assert_True [outcome_simps]: "P s \<Longrightarrow> srs_assert P s = (Ok (), s)"
  by (simp add: srs_assert_def)

lemma srs_assert_False [outcome_simps]: "\<not> P s \<Longrightarrow> srs_assert P s = (Panic AssertFailed, s)"
  by (simp add: srs_assert_def)

lemma bind_assoc: "bind (bind m f) g = bind m (\<lambda>x. bind (f x) g)"
  by (rule ext) (simp add: bind_def split: prod.split outcome.split)

text \<open>Calls on one part of a state of two parts.\<close>

definition on_fst :: "('s, 'a) call \<Rightarrow> ('s \<times> 't, 'a) call" where
  "on_fst m = (\<lambda>(s, t). case m s of (r, s) \<Rightarrow> (r, (s, t)))"

definition on_snd :: "('t, 'a) call \<Rightarrow> ('s \<times> 't, 'a) call" where
  "on_snd m = (\<lambda>(s, t). case m t of (r, t) \<Rightarrow> (r, (s, t)))"

text \<open>How a sequenced call can have ended.\<close>

lemma bind_cases:
  obtains (Ok) x t where "m s = (Ok x, t)" "bind m f s = f x t"
    | (Err) e t where "m s = (Err e, t)" "bind m f s = (Err e, t)"
    | (Panic) q t where "m s = (Panic q, t)" "bind m f s = (Panic q, t)"
proof -
  obtain r t where "m s = (r, t)" by (cases "m s")
  then show thesis using that by (cases r) (auto simp: bind_def)
qed

subsection \<open>Bytes of a word\<close>

text \<open>
  \<open>pp i v\<close> is \<^verbatim>\<open>((char*)&v)[i]\<close> on a little-endian machine, which the program asserts it runs
  on (\<^verbatim>\<open>srs_is_little_endian\<close> in \<^verbatim>\<open>srs_main_server.cpp\<close>); \<open>le_word\<close> is the value whose bytes,
  lowest address first, are the list, with zeros above.
\<close>

type_synonym byte = "8 word"

definition pp :: "nat \<Rightarrow> 'a::len word \<Rightarrow> byte" where
  "pp i v = ucast (drop_bit (8 * i) v)"

fun le_word :: "byte list \<Rightarrow> 'a::len word" where
  "le_word [] = 0"
| "le_word (b # bs) = ucast b OR push_bit 8 (le_word bs)"

lemma bit_pp: "bit (pp i v) k \<longleftrightarrow> k < 8 \<and> bit v (8 * i + k)"
  by (simp add: pp_def bit_simps)

lemma bit_le_word:
  "bit (le_word bs :: 'a::len word) n \<longleftrightarrow>
     n < LENGTH('a) \<and> n div 8 < length bs \<and> bit (bs ! (n div 8)) (n mod 8)"
proof (induction bs arbitrary: n)
  case Nil
  then show ?case by simp
next
  case (Cons b bs)
  show ?case
  proof (cases "n < 8")
    case True
    then show ?thesis by (auto simp: bit_simps)
  next
    case False
    then have "n div 8 = Suc ((n - 8) div 8)" and "(n - 8) mod 8 = n mod 8"
      by (auto simp: le_div_geq le_mod_geq)
    with False show ?thesis
      by (auto simp: bit_simps Cons.IH dest: bit_imp_le_length)
  qed
qed

lemma pp_le_word:
  assumes "i < length bs" and "8 * length bs \<le> LENGTH('a::len)"
  shows "pp i (le_word bs :: 'a word) = bs ! i"
proof (rule bit_word_eqI)
  fix k assume "k < LENGTH(8)"
  with assms show "bit (pp i (le_word bs :: 'a word)) k = bit (bs ! i) k"
    by (simp add: bit_pp bit_le_word)
qed

lemma le_word_pp:
  assumes "LENGTH('a::len) = 8 * n"
  shows "le_word (map (\<lambda>i. pp i v) [0..<n]) = (v :: 'a word)"
proof (rule bit_word_eqI)
  fix k assume "k < LENGTH('a)"
  with assms show "bit (le_word (map (\<lambda>i. pp i v) [0..<n]) :: 'a word) k = bit v k"
    by (simp add: bit_le_word bit_pp less_mult_imp_div_less)
qed

declare le_word.simps [simp del]

lemma le_word_pp_16 [simp]: "le_word [pp 0 v, pp (Suc 0) v] = (v :: 16 word)"
proof -
  have "[0..<2] = [0, Suc 0]" by (simp add: eval_nat_numeral upt_rec)
  then show ?thesis using le_word_pp [where n = 2 and v = v] by simp
qed

lemma le_word_pp_32 [simp]: "le_word [pp 0 v, pp (Suc 0) v, pp 2 v, pp 3 v] = (v :: 32 word)"
proof -
  have "[0..<4] = [0, Suc 0, 2, 3]" by (simp add: eval_nat_numeral upt_rec)
  then show ?thesis using le_word_pp [where n = 4 and v = v] by simp
qed

lemma le_word_pp_64 [simp]:
  "le_word [pp 0 v, pp (Suc 0) v, pp 2 v, pp 3 v, pp 4 v, pp 5 v, pp 6 v, pp 7 v] = (v :: 64 word)"
proof -
  have "[0..<8] = [0, Suc 0, 2, 3, 4, 5, 6, 7]" by (simp add: eval_nat_numeral upt_rec)
  then show ?thesis using le_word_pp [where n = 8 and v = v] by simp
qed

subsection \<open>Characters and bytes\<close>

text \<open>
  A \<^verbatim>\<open>std::string\<close> is a HOL \<open>string\<close>, whose characters are eight bits as C++'s are. A buffer holds
  bytes; \<open>byte_of_char\<close> and \<open>char_of_byte\<close> are the two readings of the same eight bits.
\<close>

definition byte_of_char :: "char \<Rightarrow> byte" where
  "byte_of_char c = word_of_nat (of_char c)"

definition char_of_byte :: "byte \<Rightarrow> char" where
  "char_of_byte b = char_of (unat b)"

lemma unat_byte_of_char: "unat (byte_of_char c) = of_char c"
  using nat_of_char_less_256 [of c] by (simp add: byte_of_char_def unat_of_nat)

lemma char_of_byte_of_char [simp]: "char_of_byte (byte_of_char c) = c"
  by (simp add: char_of_byte_def unat_byte_of_char)

lemma byte_of_char_of_byte [simp]: "byte_of_char (char_of_byte b) = b"
proof -
  have "unat b < 2 ^ LENGTH(8)" by (rule unsigned_less)
  then have "unat b < 256" by simp
  then have "unat (byte_of_char (char_of_byte b)) = unat b"
    by (simp add: unat_byte_of_char char_of_byte_def)
  then show ?thesis by (simp add: word_unat_eq_iff)
qed

lemma map_char_of_byte_of_char [simp]: "map (char_of_byte \<circ> byte_of_char) xs = xs"
  by (induction xs) simp_all

lemma map_byte_of_char_of_byte [simp]: "map (byte_of_char \<circ> char_of_byte) xs = xs"
  by (induction xs) simp_all

text \<open>What is left of a string that goes through a \<^verbatim>\<open>const char*\<close>.\<close>

definition c_str :: "string \<Rightarrow> string" where
  "c_str v = takeWhile (\<lambda>c. c \<noteq> CHR 0x00) v"

lemma c_str_c_str [simp]: "c_str (c_str v) = c_str v"
  by (simp add: c_str_def)

lemma c_str_id: "CHR 0x00 \<notin> set v \<Longrightarrow> c_str v = v"
  by (auto simp: c_str_def takeWhile_eq_all_conv)

text \<open>\<^verbatim>\<open>(int)n\<close> of a \<^verbatim>\<open>size_t\<close>: the low 32 bits, read as a signed number.\<close>

definition int_of_size :: "nat \<Rightarrow> int" where
  "int_of_size n = sint (word_of_nat n :: 32 word)"

lemma int_of_size_small: "n < 2 ^ 31 \<Longrightarrow> int_of_size n = int n"
  by (simp add: int_of_size_def signed_of_nat signed_take_bit_int_eq_self)

text \<open>The result of an operation on \<^verbatim>\<open>int64_t\<close>; an overflow is undefined.\<close>

definition i64 :: "int \<Rightarrow> int outcome" where
  "i64 x = (if - (2 ^ 63) \<le> x \<and> x < 2 ^ 63 then Ok x else Panic IntOverflow)"

subsection \<open>Decimal numerals\<close>

text \<open>A number as \<^verbatim>\<open>operator<<\<close> and \<^verbatim>\<open>"%d"\<close> print it, and the value of a list of digits.\<close>

definition digit_char :: "nat \<Rightarrow> char" where
  "digit_char d = char_of (48 + d)"

definition digit_val :: "char \<Rightarrow> nat" where
  "digit_val c = of_char c - 48"

definition is_digit :: "char \<Rightarrow> bool" where
  "is_digit c \<longleftrightarrow> 48 \<le> (of_char c :: nat) \<and> (of_char c :: nat) \<le> 57"

fun dec_of_nat :: "nat \<Rightarrow> string" where
  "dec_of_nat n = (if n < 10 then [digit_char n] else dec_of_nat (n div 10) @ [digit_char (n mod 10)])"

declare dec_of_nat.simps [simp del]

definition dec_of_int :: "int \<Rightarrow> string" where
  "dec_of_int i = (if i < 0 then CHR ''-'' # dec_of_nat (nat (- i)) else dec_of_nat (nat i))"

definition dec_value :: "string \<Rightarrow> nat" where
  "dec_value ds = foldl (\<lambda>v c. 10 * v + digit_val c) 0 ds"

lemma of_char_digit: "d < 10 \<Longrightarrow> of_char (digit_char d) = 48 + d"
  by (simp add: digit_char_def of_char_of)

lemma digit_chars [simp]:
  "digit_char 0 = CHR ''0''" "digit_char (Suc 0) = CHR ''1''" "digit_char 2 = CHR ''2''"
  "digit_char 3 = CHR ''3''" "digit_char 4 = CHR ''4''" "digit_char 5 = CHR ''5''"
  "digit_char 6 = CHR ''6''" "digit_char 7 = CHR ''7''" "digit_char 8 = CHR ''8''"
  "digit_char 9 = CHR ''9''" "digit_char 1 = CHR ''1''"
  by code_simp+

lemma digit_val_char [simp]: "d < 10 \<Longrightarrow> digit_val (digit_char d) = d"
  by (simp add: digit_val_def of_char_digit)

lemma is_digit_char [simp]: "d < 10 \<Longrightarrow> is_digit (digit_char d)"
  by (simp add: is_digit_def of_char_digit)

lemma dec_of_nat_digits: "list_all is_digit (dec_of_nat n)"
proof (induction n rule: dec_of_nat.induct)
  case (1 n)
  then show ?case by (cases "n < 10") (simp_all add: dec_of_nat.simps [of n])
qed

lemma dec_of_nat_not_Nil [simp]: "dec_of_nat n \<noteq> []"
  by (simp add: dec_of_nat.simps [of n])

lemma dec_value_snoc [simp]: "dec_value (ds @ [c]) = 10 * dec_value ds + digit_val c"
  by (simp add: dec_value_def)

lemma dec_value_of_nat [simp]: "dec_value (dec_of_nat n) = n"
proof (induction n rule: dec_of_nat.induct)
  case (1 n)
  show ?case
  proof (cases "n < 10")
    case True
    then show ?thesis by (simp add: dec_of_nat.simps [of n] dec_value_def)
  next
    case False
    with 1 show ?thesis by (simp add: dec_of_nat.simps [of n])
  qed
qed

end
