(* ===== verification/KernelBuffer.thy ===== *)
theory KernelBuffer
  imports Prelude
begin

section \<open>The byte buffer and the bit buffer\<close>

text \<open>
  \<^verbatim>\<open>srs_kernel_buffer.hpp\<close> and \<^verbatim>\<open>srs_kernel_buffer.cpp\<close>: the class \<^verbatim>\<open>SrsBuffer\<close>, a cursor over
  memory its user owns, with every read and write it has, and \<^verbatim>\<open>SrsBitBuffer\<close> over it.
  The lemmas evaluate each operation on a well-formed buffer, in terms of what is left to read
  (\<open>rest\<close>) and of what a write stores (\<open>poke\<close>); the properties are the round trips of all the
  integer formats, memory safety of every sequence of operations, and the bit order.
\<close>

subsection \<open>State and observers\<close>

text \<open>
  \<open>buf_p\<close> is \<^verbatim>\<open>p - bytes\<close>, which no operation takes below 0; \<open>buf_bytes\<close> is the memory behind
  \<^verbatim>\<open>bytes\<close>, \<open>None\<close> for a null pointer; \<open>buf_nb\<close> is \<^verbatim>\<open>nb_bytes\<close>, what the buffer believes the
  memory's size to be. \<^verbatim>\<open>copy\<close> makes a second cursor over the same memory: a later write through
  one is seen by the other, which the value \<open>SrsBuffer_copy\<close> returns does not track.
\<close>

record SrsBuffer =
  buf_p :: nat
  buf_bytes :: "byte list option"
  buf_nb :: int

type_synonym 'a bufcall = "(SrsBuffer, 'a) call"

definition SrsBuffer_new :: "byte list option \<Rightarrow> int \<Rightarrow> SrsBuffer" where
  "SrsBuffer_new b nn = \<lparr>buf_p = 0, buf_bytes = b, buf_nb = nn\<rparr>"

definition SrsBuffer_copy :: "SrsBuffer \<Rightarrow> SrsBuffer" where
  "SrsBuffer_copy s = (SrsBuffer_new (buf_bytes s) (buf_nb s))\<lparr>buf_p := buf_p s\<rparr>"

definition buf_data :: "SrsBuffer \<Rightarrow> byte list option" where
  "buf_data s = buf_bytes s"

definition buf_head :: "SrsBuffer \<Rightarrow> byte list option" where
  "buf_head s = map_option (drop (buf_p s)) (buf_bytes s)"

definition buf_size :: "SrsBuffer \<Rightarrow> int" where
  "buf_size s = buf_nb s"

definition set_size :: "int \<Rightarrow> SrsBuffer \<Rightarrow> SrsBuffer" where
  "set_size v s = s\<lparr>buf_nb := v\<rparr>"

definition buf_pos :: "SrsBuffer \<Rightarrow> int" where
  "buf_pos s = int (buf_p s)"

definition left :: "SrsBuffer \<Rightarrow> int" where
  "left s = buf_nb s - int (buf_p s)"

definition empty :: "SrsBuffer \<Rightarrow> bool" where
  "empty s \<longleftrightarrow> buf_bytes s = None \<or> int (buf_p s) \<ge> buf_nb s"

definition require :: "SrsBuffer \<Rightarrow> int \<Rightarrow> bool" where
  "require s required_size =
     (if required_size < 0 then False
      else required_size \<le> buf_nb s - int (buf_p s))"

definition skip :: "int \<Rightarrow> unit bufcall" where
  "skip sz =
     bind (srs_assert (\<lambda>s. buf_bytes s \<noteq> None)) (\<lambda>_.
     bind (srs_assert (\<lambda>s. int (buf_p s) + sz \<ge> 0)) (\<lambda>_.
     bind (srs_assert (\<lambda>s. int (buf_p s) + sz \<le> buf_nb s)) (\<lambda>_.
     \<lambda>s. (Ok (), s\<lparr>buf_p := nat (int (buf_p s) + sz)\<rparr>))))"

subsection \<open>Memory accesses\<close>

text \<open>
  \<^verbatim>\<open>*p++\<close> as a value and as a place. An access outside the memory is undefined behaviour whatever
  \<^verbatim>\<open>nb_bytes\<close> says, so that the guards the code has are what keeps it from happening.
\<close>

definition get_byte :: "byte bufcall" where
  "get_byte s = (case buf_bytes s of
      None \<Rightarrow> (Panic UndefinedBehaviour, s)
    | Some m \<Rightarrow> (if buf_p s < length m then (Ok (m ! buf_p s), s\<lparr>buf_p := Suc (buf_p s)\<rparr>)
                 else (Panic UndefinedBehaviour, s)))"

definition put_byte :: "byte \<Rightarrow> unit bufcall" where
  "put_byte b s = (case buf_bytes s of
      None \<Rightarrow> (Panic UndefinedBehaviour, s)
    | Some m \<Rightarrow> (if buf_p s < length m
                 then (Ok (), s\<lparr>buf_bytes := Some (m[buf_p s := b]), buf_p := Suc (buf_p s)\<rparr>)
                 else (Panic UndefinedBehaviour, s)))"

text \<open>\<^verbatim>\<open>memcpy\<close> from and to \<^verbatim>\<open>p\<close>, then \<^verbatim>\<open>p += n\<close>.\<close>

definition get_bytes :: "nat \<Rightarrow> byte list bufcall" where
  "get_bytes n s = (case buf_bytes s of
      None \<Rightarrow> (Panic UndefinedBehaviour, s)
    | Some m \<Rightarrow> (if buf_p s + n \<le> length m
                 then (Ok (take n (drop (buf_p s) m)), s\<lparr>buf_p := buf_p s + n\<rparr>)
                 else (Panic UndefinedBehaviour, s)))"

definition put_bytes :: "byte list \<Rightarrow> unit bufcall" where
  "put_bytes bs s = (case buf_bytes s of
      None \<Rightarrow> (Panic UndefinedBehaviour, s)
    | Some m \<Rightarrow> (if buf_p s + length bs \<le> length m
                 then (Ok (), s\<lparr>buf_bytes := Some (take (buf_p s) m @ bs @ drop (buf_p s + length bs) m),
                                buf_p := buf_p s + length bs\<rparr>)
                 else (Panic UndefinedBehaviour, s)))"

subsection \<open>Reads\<close>

definition read_1bytes :: "byte bufcall" where
  "read_1bytes = bind (srs_assert (\<lambda>s. require s 1)) (\<lambda>_. get_byte)"

definition read_2bytes :: "16 word bufcall" where
  "read_2bytes =
     bind (srs_assert (\<lambda>s. require s 2)) (\<lambda>_.
     bind get_byte (\<lambda>pp1. bind get_byte (\<lambda>pp0. ret (le_word [pp0, pp1]))))"

definition read_le2bytes :: "16 word bufcall" where
  "read_le2bytes =
     bind (srs_assert (\<lambda>s. require s 2)) (\<lambda>_.
     bind get_byte (\<lambda>pp0. bind get_byte (\<lambda>pp1. ret (le_word [pp0, pp1]))))"

definition read_3bytes :: "32 word bufcall" where
  "read_3bytes =
     bind (srs_assert (\<lambda>s. require s 3)) (\<lambda>_.
     bind get_byte (\<lambda>pp2. bind get_byte (\<lambda>pp1. bind get_byte (\<lambda>pp0.
     ret (le_word [pp0, pp1, pp2, 0])))))"

definition read_le3bytes :: "32 word bufcall" where
  "read_le3bytes =
     bind (srs_assert (\<lambda>s. require s 3)) (\<lambda>_.
     bind get_byte (\<lambda>pp0. bind get_byte (\<lambda>pp1. bind get_byte (\<lambda>pp2.
     ret (le_word [pp0, pp1, pp2, 0])))))"

definition read_4bytes :: "32 word bufcall" where
  "read_4bytes =
     bind (srs_assert (\<lambda>s. require s 4)) (\<lambda>_.
     bind get_byte (\<lambda>pp3. bind get_byte (\<lambda>pp2. bind get_byte (\<lambda>pp1. bind get_byte (\<lambda>pp0.
     ret (le_word [pp0, pp1, pp2, pp3]))))))"

definition read_le4bytes :: "32 word bufcall" where
  "read_le4bytes =
     bind (srs_assert (\<lambda>s. require s 4)) (\<lambda>_.
     bind get_byte (\<lambda>pp0. bind get_byte (\<lambda>pp1. bind get_byte (\<lambda>pp2. bind get_byte (\<lambda>pp3.
     ret (le_word [pp0, pp1, pp2, pp3]))))))"

definition read_8bytes :: "64 word bufcall" where
  "read_8bytes =
     bind (srs_assert (\<lambda>s. require s 8)) (\<lambda>_.
     bind get_byte (\<lambda>pp7. bind get_byte (\<lambda>pp6. bind get_byte (\<lambda>pp5. bind get_byte (\<lambda>pp4.
     bind get_byte (\<lambda>pp3. bind get_byte (\<lambda>pp2. bind get_byte (\<lambda>pp1. bind get_byte (\<lambda>pp0.
     ret (le_word [pp0, pp1, pp2, pp3, pp4, pp5, pp6, pp7]))))))))))"

definition read_le8bytes :: "64 word bufcall" where
  "read_le8bytes =
     bind (srs_assert (\<lambda>s. require s 8)) (\<lambda>_.
     bind get_byte (\<lambda>pp0. bind get_byte (\<lambda>pp1. bind get_byte (\<lambda>pp2. bind get_byte (\<lambda>pp3.
     bind get_byte (\<lambda>pp4. bind get_byte (\<lambda>pp5. bind get_byte (\<lambda>pp6. bind get_byte (\<lambda>pp7.
     ret (le_word [pp0, pp1, pp2, pp3, pp4, pp5, pp6, pp7]))))))))))"

definition read_string :: "int \<Rightarrow> string bufcall" where
  "read_string len =
     bind (srs_assert (\<lambda>s. require s len)) (\<lambda>_.
     bind (get_bytes (nat len)) (\<lambda>bs. ret (map char_of_byte bs)))"

definition read_bytes :: "int \<Rightarrow> byte list bufcall" where
  "read_bytes sz =
     bind (srs_assert (\<lambda>s. require s sz)) (\<lambda>_. get_bytes (nat sz))"

subsection \<open>Writes\<close>

definition write_1bytes :: "byte \<Rightarrow> unit bufcall" where
  "write_1bytes v = bind (srs_assert (\<lambda>s. require s 1)) (\<lambda>_. put_byte v)"

definition write_2bytes :: "16 word \<Rightarrow> unit bufcall" where
  "write_2bytes v =
     bind (srs_assert (\<lambda>s. require s 2)) (\<lambda>_.
     bind (put_byte (pp 1 v)) (\<lambda>_. put_byte (pp 0 v)))"

definition write_le2bytes :: "16 word \<Rightarrow> unit bufcall" where
  "write_le2bytes v =
     bind (srs_assert (\<lambda>s. require s 2)) (\<lambda>_.
     bind (put_byte (pp 0 v)) (\<lambda>_. put_byte (pp 1 v)))"

definition write_4bytes :: "32 word \<Rightarrow> unit bufcall" where
  "write_4bytes v =
     bind (srs_assert (\<lambda>s. require s 4)) (\<lambda>_.
     bind (put_byte (pp 3 v)) (\<lambda>_. bind (put_byte (pp 2 v)) (\<lambda>_.
     bind (put_byte (pp 1 v)) (\<lambda>_. put_byte (pp 0 v)))))"

definition write_le4bytes :: "32 word \<Rightarrow> unit bufcall" where
  "write_le4bytes v =
     bind (srs_assert (\<lambda>s. require s 4)) (\<lambda>_.
     bind (put_byte (pp 0 v)) (\<lambda>_. bind (put_byte (pp 1 v)) (\<lambda>_.
     bind (put_byte (pp 2 v)) (\<lambda>_. put_byte (pp 3 v)))))"

definition write_3bytes :: "32 word \<Rightarrow> unit bufcall" where
  "write_3bytes v =
     bind (srs_assert (\<lambda>s. require s 3)) (\<lambda>_.
     bind (put_byte (pp 2 v)) (\<lambda>_. bind (put_byte (pp 1 v)) (\<lambda>_. put_byte (pp 0 v))))"

definition write_le3bytes :: "32 word \<Rightarrow> unit bufcall" where
  "write_le3bytes v =
     bind (srs_assert (\<lambda>s. require s 3)) (\<lambda>_.
     bind (put_byte (pp 0 v)) (\<lambda>_. bind (put_byte (pp 1 v)) (\<lambda>_. put_byte (pp 2 v))))"

definition write_8bytes :: "64 word \<Rightarrow> unit bufcall" where
  "write_8bytes v =
     bind (srs_assert (\<lambda>s. require s 8)) (\<lambda>_.
     bind (put_byte (pp 7 v)) (\<lambda>_. bind (put_byte (pp 6 v)) (\<lambda>_.
     bind (put_byte (pp 5 v)) (\<lambda>_. bind (put_byte (pp 4 v)) (\<lambda>_.
     bind (put_byte (pp 3 v)) (\<lambda>_. bind (put_byte (pp 2 v)) (\<lambda>_.
     bind (put_byte (pp 1 v)) (\<lambda>_. put_byte (pp 0 v)))))))))"

definition write_le8bytes :: "64 word \<Rightarrow> unit bufcall" where
  "write_le8bytes v =
     bind (srs_assert (\<lambda>s. require s 8)) (\<lambda>_.
     bind (put_byte (pp 0 v)) (\<lambda>_. bind (put_byte (pp 1 v)) (\<lambda>_.
     bind (put_byte (pp 2 v)) (\<lambda>_. bind (put_byte (pp 3 v)) (\<lambda>_.
     bind (put_byte (pp 4 v)) (\<lambda>_. bind (put_byte (pp 5 v)) (\<lambda>_.
     bind (put_byte (pp 6 v)) (\<lambda>_. put_byte (pp 7 v)))))))))"

definition write_string :: "string \<Rightarrow> unit bufcall" where
  "write_string v =
     bind (srs_assert (\<lambda>s. require s (int_of_size (length v)))) (\<lambda>_.
     put_bytes (map byte_of_char v))"

text \<open>\<open>d\<close> is the memory at \<^verbatim>\<open>data\<close>, of which \<^verbatim>\<open>memcpy\<close> reads the first \<open>sz\<close> bytes.\<close>

definition write_bytes :: "byte list \<Rightarrow> int \<Rightarrow> unit bufcall" where
  "write_bytes d sz =
     bind (srs_assert (\<lambda>s. require s sz)) (\<lambda>_.
     if length d < nat sz then panic UndefinedBehaviour else put_bytes (take (nat sz) d))"

subsection \<open>The bit buffer\<close>

text \<open>\<open>bb_cb\<close> is the current byte, \<open>bb_cb_left\<close> the number of its bits not read yet.\<close>

record SrsBitBuffer =
  bb_cb :: byte
  bb_cb_left :: nat
  bb_stream :: SrsBuffer

definition SrsBitBuffer_new :: "SrsBuffer \<Rightarrow> SrsBitBuffer" where
  "SrsBitBuffer_new b = \<lparr>bb_cb = 0, bb_cb_left = 0, bb_stream = b\<rparr>"

definition bit_empty :: "SrsBitBuffer \<Rightarrow> bool" where
  "bit_empty s = (if bb_cb_left s \<noteq> 0 then False else empty (bb_stream s))"

text \<open>The refill of the current byte, and the bit; \<^verbatim>\<open>cb\<close> is signed, so the shift is arithmetic.\<close>

definition bit_refill :: "(SrsBitBuffer, unit) call" where
  "bit_refill s =
     (if bb_cb_left s = 0 then
        (if empty (bb_stream s) then (Panic AssertFailed, s)
         else (case read_1bytes (bb_stream s) of
             (Ok b, t) \<Rightarrow> (Ok (), s\<lparr>bb_cb := b, bb_cb_left := 8, bb_stream := t\<rparr>)
           | (Err e, t) \<Rightarrow> (Err e, s\<lparr>bb_stream := t\<rparr>)
           | (Panic q, t) \<Rightarrow> (Panic q, s\<lparr>bb_stream := t\<rparr>)))
      else (Ok (), s))"

definition read_bit :: "(SrsBitBuffer, byte) call" where
  "read_bit =
     bind bit_refill (\<lambda>_ s.
       (Ok (signed_drop_bit (bb_cb_left s - 1) (bb_cb s) AND 1),
        s\<lparr>bb_cb_left := bb_cb_left s - 1\<rparr>))"

subsection \<open>Well-formed buffers\<close>

text \<open>
  The contract of the constructor: memory is there, \<^verbatim>\<open>nb_bytes\<close> is its size, an \<^verbatim>\<open>int\<close>, and the
  cursor is inside. \<open>rest\<close> is what is left to read, \<open>written\<close> what is before the cursor,
  \<open>adv\<close> and \<open>poke\<close> say what a read and a write do.
\<close>

definition wf_buffer :: "SrsBuffer \<Rightarrow> bool" where
  "wf_buffer s \<longleftrightarrow> (\<exists>m. buf_bytes s = Some m \<and> buf_nb s = int (length m) \<and>
     buf_p s \<le> length m \<and> length m < 2 ^ 31)"

definition mem :: "SrsBuffer \<Rightarrow> byte list" where
  "mem s = (case buf_bytes s of None \<Rightarrow> [] | Some m \<Rightarrow> m)"

definition rest :: "SrsBuffer \<Rightarrow> byte list" where
  "rest s = drop (buf_p s) (mem s)"

definition written :: "SrsBuffer \<Rightarrow> byte list" where
  "written s = take (buf_p s) (mem s)"

definition adv :: "nat \<Rightarrow> SrsBuffer \<Rightarrow> SrsBuffer" where
  "adv n s = s\<lparr>buf_p := buf_p s + n\<rparr>"

definition poke :: "byte list \<Rightarrow> SrsBuffer \<Rightarrow> SrsBuffer" where
  "poke bs s = s\<lparr>buf_bytes := map_option
      (\<lambda>m. take (buf_p s) m @ bs @ drop (buf_p s + length bs) m) (buf_bytes s),
    buf_p := buf_p s + length bs\<rparr>"

lemma wf_bufferE:
  assumes "wf_buffer s"
  obtains m where "buf_bytes s = Some m" "mem s = m" "buf_nb s = int (length m)"
    "buf_p s \<le> length m" "length m < 2 ^ 31"
  using assms by (auto simp: wf_buffer_def mem_def)

lemma wf_new [buf_wf]: "length m < 2 ^ 31 \<Longrightarrow> wf_buffer (SrsBuffer_new (Some m) (int (length m)))"
  by (simp add: wf_buffer_def SrsBuffer_new_def)

lemma rest_new [simp]: "rest (SrsBuffer_new (Some m) n) = m"
  by (simp add: rest_def mem_def SrsBuffer_new_def)

lemma written_new [simp]: "written (SrsBuffer_new (Some m) n) = []"
  by (simp add: written_def SrsBuffer_new_def)

lemma length_rest_bound: "wf_buffer s \<Longrightarrow> length (rest s) < 2 ^ 31"
  by (elim wf_bufferE) (simp add: rest_def)

lemma left_rest: "wf_buffer s \<Longrightarrow> left s = int (length (rest s))"
  by (elim wf_bufferE) (simp add: rest_def left_def)

lemma require_rest: "wf_buffer s \<Longrightarrow> require s n \<longleftrightarrow> 0 \<le> n \<and> n \<le> int (length (rest s))"
  by (elim wf_bufferE) (auto simp: rest_def require_def)

lemma empty_rest: "wf_buffer s \<Longrightarrow> empty s \<longleftrightarrow> rest s = []"
  by (elim wf_bufferE) (auto simp: rest_def empty_def)

lemma adv_0 [simp]: "adv 0 s = s"
  by (simp add: adv_def)

lemma adv_adv [simp]: "adv n (adv m s) = adv (m + n) s"
  by (simp add: adv_def add.assoc)

lemma rest_adv [simp]: "rest (adv n s) = drop n (rest s)"
  by (simp add: adv_def rest_def mem_def add.commute)

lemma mem_adv [simp]: "mem (adv n s) = mem s"
  by (simp add: adv_def mem_def)

lemma wf_adv [buf_wf]: "wf_buffer s \<Longrightarrow> n \<le> length (rest s) \<Longrightarrow> wf_buffer (adv n s)"
  by (elim wf_bufferE) (auto simp: wf_buffer_def adv_def rest_def)

lemma poke_Nil [simp]: "poke [] s = s"
  by (cases "buf_bytes s") (simp_all add: poke_def)

lemma length_mem_poke:
  "wf_buffer s \<Longrightarrow> length bs \<le> length (rest s) \<Longrightarrow> length (mem (poke bs s)) = length (mem s)"
  by (elim wf_bufferE) (auto simp: poke_def rest_def mem_def)

lemma wf_poke [buf_wf]: "wf_buffer s \<Longrightarrow> length bs \<le> length (rest s) \<Longrightarrow> wf_buffer (poke bs s)"
  by (elim wf_bufferE) (auto simp: wf_buffer_def poke_def rest_def)

lemma rest_poke [simp]:
  "wf_buffer s \<Longrightarrow> length bs \<le> length (rest s) \<Longrightarrow> rest (poke bs s) = drop (length bs) (rest s)"
  by (elim wf_bufferE) (auto simp: poke_def rest_def mem_def add.commute)

lemma written_poke [simp]:
  "wf_buffer s \<Longrightarrow> length bs \<le> length (rest s) \<Longrightarrow> written (poke bs s) = written s @ bs"
  by (elim wf_bufferE) (auto simp: poke_def rest_def mem_def written_def)

lemma poke_poke [simp]:
  "wf_buffer s \<Longrightarrow> length (as @ bs) \<le> length (rest s) \<Longrightarrow> poke bs (poke as s) = poke (as @ bs) s"
  by (elim wf_bufferE) (auto simp: poke_def rest_def ac_simps)

lemma length_written: "wf_buffer s \<Longrightarrow> length (written s) = buf_p s"
  by (elim wf_bufferE) (simp add: written_def)

lemma mem_written_rest: "mem s = written s @ rest s"
  by (simp add: written_def rest_def)

subsection \<open>Evaluation of the accesses\<close>

lemma drop_eq_Cons: "drop n xs = y # ys \<Longrightarrow> n < length xs \<and> xs ! n = y \<and> drop (Suc n) xs = ys"
  by (metis drop_eq_Nil2 drop_Suc linorder_not_le list.distinct(1) list.sel(3) nth_via_drop tl_drop)

lemma get_byte_eval [buf_eval]: "rest s = b # r \<Longrightarrow> get_byte s = (Ok b, adv 1 s)"
  by (auto simp: get_byte_def rest_def mem_def adv_def split: option.splits dest!: drop_eq_Cons)

lemma rest_ConsE:
  assumes "Suc n \<le> length (rest s)"
  obtains b r where "rest s = b # r" "n \<le> length r"
  using assms by (cases "rest s") auto

lemma put_byte_eval [buf_eval]:
  assumes "wf_buffer s" and "Suc 0 \<le> length (rest s)"
  shows "put_byte b s = (Ok (), poke [b] s)"
proof -
  from assms(1) obtain m where m: "buf_bytes s = Some m" "mem s = m" "buf_p s \<le> length m"
    by (elim wf_bufferE)
  with assms(2) have "buf_p s < length m" by (simp add: rest_def)
  then have "m[buf_p s := b] = take (buf_p s) m @ b # drop (Suc (buf_p s)) m"
    by (rule upd_conv_take_nth_drop)
  with m \<open>buf_p s < length m\<close> show ?thesis by (simp add: put_byte_def poke_def)
qed

lemma get_bytes_eval [buf_eval]:
  assumes "wf_buffer s" and "n \<le> length (rest s)"
  shows "get_bytes n s = (Ok (take n (rest s)), adv n s)"
  using assms by (elim wf_bufferE) (auto simp: get_bytes_def rest_def adv_def)

lemma put_bytes_eval [buf_eval]:
  assumes "wf_buffer s" and "length bs \<le> length (rest s)"
  shows "put_bytes bs s = (Ok (), poke bs s)"
  using assms by (elim wf_bufferE) (auto simp: put_bytes_def rest_def poke_def)

subsection \<open>Evaluation of the reads and writes\<close>

lemmas run_simps = bind_def srs_assert_def require_rest ensure_def wrap_err_def

lemma read_1bytes_eval [buf_eval]:
  "wf_buffer s \<Longrightarrow> rest s = b # r \<Longrightarrow> read_1bytes s = (Ok b, adv 1 s)"
  by (simp add: read_1bytes_def run_simps buf_eval)

lemma read_2bytes_eval [buf_eval]:
  "wf_buffer s \<Longrightarrow> rest s = b1 # b0 # r \<Longrightarrow> read_2bytes s = (Ok (le_word [b0, b1]), adv 2 s)"
  by (simp add: read_2bytes_def run_simps buf_eval numeral_2_eq_2)

lemma read_le2bytes_eval [buf_eval]:
  "wf_buffer s \<Longrightarrow> rest s = b0 # b1 # r \<Longrightarrow> read_le2bytes s = (Ok (le_word [b0, b1]), adv 2 s)"
  by (simp add: read_le2bytes_def run_simps buf_eval numeral_2_eq_2)

lemma read_3bytes_eval [buf_eval]:
  "wf_buffer s \<Longrightarrow> rest s = b2 # b1 # b0 # r \<Longrightarrow>
     read_3bytes s = (Ok (le_word [b0, b1, b2, 0]), adv 3 s)"
  by (simp add: read_3bytes_def run_simps buf_eval numeral_3_eq_3)

lemma read_le3bytes_eval [buf_eval]:
  "wf_buffer s \<Longrightarrow> rest s = b0 # b1 # b2 # r \<Longrightarrow>
     read_le3bytes s = (Ok (le_word [b0, b1, b2, 0]), adv 3 s)"
  by (simp add: read_le3bytes_def run_simps buf_eval numeral_3_eq_3)

lemma read_4bytes_eval [buf_eval]:
  "wf_buffer s \<Longrightarrow> rest s = b3 # b2 # b1 # b0 # r \<Longrightarrow>
     read_4bytes s = (Ok (le_word [b0, b1, b2, b3]), adv 4 s)"
  by (simp add: read_4bytes_def run_simps buf_eval eval_nat_numeral)

lemma read_le4bytes_eval [buf_eval]:
  "wf_buffer s \<Longrightarrow> rest s = b0 # b1 # b2 # b3 # r \<Longrightarrow>
     read_le4bytes s = (Ok (le_word [b0, b1, b2, b3]), adv 4 s)"
  by (simp add: read_le4bytes_def run_simps buf_eval eval_nat_numeral)

lemma read_8bytes_eval [buf_eval]:
  "wf_buffer s \<Longrightarrow> rest s = b7 # b6 # b5 # b4 # b3 # b2 # b1 # b0 # r \<Longrightarrow>
     read_8bytes s = (Ok (le_word [b0, b1, b2, b3, b4, b5, b6, b7]), adv 8 s)"
  by (simp add: read_8bytes_def run_simps buf_eval eval_nat_numeral)

lemma read_le8bytes_eval [buf_eval]:
  "wf_buffer s \<Longrightarrow> rest s = b0 # b1 # b2 # b3 # b4 # b5 # b6 # b7 # r \<Longrightarrow>
     read_le8bytes s = (Ok (le_word [b0, b1, b2, b3, b4, b5, b6, b7]), adv 8 s)"
  by (simp add: read_le8bytes_def run_simps buf_eval eval_nat_numeral)

lemma read_string_eval [buf_eval]:
  "wf_buffer s \<Longrightarrow> n \<le> length (rest s) \<Longrightarrow>
     read_string (int n) s = (Ok (map char_of_byte (take n (rest s))), adv n s)"
  by (simp add: read_string_def run_simps buf_eval)

lemma read_bytes_eval [buf_eval]:
  "wf_buffer s \<Longrightarrow> n \<le> length (rest s) \<Longrightarrow>
     read_bytes (int n) s = (Ok (take n (rest s)), adv n s)"
  by (simp add: read_bytes_def run_simps buf_eval)

text \<open>The bytes a big-endian write stores, highest first; the little-endian ones are the reverse.\<close>

definition be16 :: "16 word \<Rightarrow> byte list" where
  "be16 v = [pp 1 v, pp 0 v]"

definition be24 :: "32 word \<Rightarrow> byte list" where
  "be24 v = [pp 2 v, pp 1 v, pp 0 v]"

definition be32 :: "32 word \<Rightarrow> byte list" where
  "be32 v = [pp 3 v, pp 2 v, pp 1 v, pp 0 v]"

definition be64 :: "64 word \<Rightarrow> byte list" where
  "be64 v = [pp 7 v, pp 6 v, pp 5 v, pp 4 v, pp 3 v, pp 2 v, pp 1 v, pp 0 v]"

lemmas be_defs = be16_def be24_def be32_def be64_def

lemma length_be [simp]:
  "length (be16 v2) = 2" "length (be24 v3) = 3" "length (be32 v4) = 4" "length (be64 v8) = 8"
  by (simp_all add: be_defs)

lemmas poke_bytes = put_byte_eval buf_wf

lemma write_1bytes_eval [buf_eval]:
  "wf_buffer s \<Longrightarrow> 1 \<le> length (rest s) \<Longrightarrow> write_1bytes v s = (Ok (), poke [v] s)"
  by (simp add: write_1bytes_def run_simps poke_bytes)

lemma write_2bytes_eval [buf_eval]:
  "wf_buffer s \<Longrightarrow> 2 \<le> length (rest s) \<Longrightarrow> write_2bytes v s = (Ok (), poke (be16 v) s)"
  by (simp add: write_2bytes_def run_simps poke_bytes be_defs)

lemma write_le2bytes_eval [buf_eval]:
  "wf_buffer s \<Longrightarrow> 2 \<le> length (rest s) \<Longrightarrow> write_le2bytes v s = (Ok (), poke (rev (be16 v)) s)"
  by (simp add: write_le2bytes_def run_simps poke_bytes be_defs)

lemma write_3bytes_eval [buf_eval]:
  "wf_buffer s \<Longrightarrow> 3 \<le> length (rest s) \<Longrightarrow> write_3bytes v s = (Ok (), poke (be24 v) s)"
  by (simp add: write_3bytes_def run_simps poke_bytes be_defs)

lemma write_le3bytes_eval [buf_eval]:
  "wf_buffer s \<Longrightarrow> 3 \<le> length (rest s) \<Longrightarrow> write_le3bytes v s = (Ok (), poke (rev (be24 v)) s)"
  by (simp add: write_le3bytes_def run_simps poke_bytes be_defs)

lemma write_4bytes_eval [buf_eval]:
  "wf_buffer s \<Longrightarrow> 4 \<le> length (rest s) \<Longrightarrow> write_4bytes v s = (Ok (), poke (be32 v) s)"
  by (simp add: write_4bytes_def run_simps poke_bytes be_defs)

lemma write_le4bytes_eval [buf_eval]:
  "wf_buffer s \<Longrightarrow> 4 \<le> length (rest s) \<Longrightarrow> write_le4bytes v s = (Ok (), poke (rev (be32 v)) s)"
  by (simp add: write_le4bytes_def run_simps poke_bytes be_defs)

lemma write_8bytes_eval [buf_eval]:
  "wf_buffer s \<Longrightarrow> 8 \<le> length (rest s) \<Longrightarrow> write_8bytes v s = (Ok (), poke (be64 v) s)"
  by (simp add: write_8bytes_def run_simps poke_bytes be_defs)

lemma write_le8bytes_eval [buf_eval]:
  "wf_buffer s \<Longrightarrow> 8 \<le> length (rest s) \<Longrightarrow> write_le8bytes v s = (Ok (), poke (rev (be64 v)) s)"
  by (simp add: write_le8bytes_def run_simps poke_bytes be_defs)

lemma write_string_eval [buf_eval]:
  assumes "wf_buffer s" and "length v \<le> length (rest s)"
  shows "write_string v s = (Ok (), poke (map byte_of_char v) s)"
proof -
  have "length v < 2 ^ 31" using assms length_rest_bound by (meson le_less_trans)
  with assms show ?thesis
    by (simp add: write_string_def run_simps buf_eval int_of_size_small)
qed

lemma write_bytes_eval [buf_eval]:
  "wf_buffer s \<Longrightarrow> n \<le> length (rest s) \<Longrightarrow> n \<le> length d \<Longrightarrow>
     write_bytes d (int n) s = (Ok (), poke (take n d) s)"
  by (simp add: write_bytes_def run_simps buf_eval)

lemma skip_forward [buf_eval]:
  "wf_buffer s \<Longrightarrow> n \<le> length (rest s) \<Longrightarrow> skip (int n) s = (Ok (), adv n s)"
  by (elim wf_bufferE) (auto simp: skip_def bind_def srs_assert_def rest_def adv_def nat_add_distrib)

lemma skip_back [buf_eval]:
  "wf_buffer s \<Longrightarrow> n \<le> length (rest s) \<Longrightarrow> skip (- int n) (adv n s) = (Ok (), s)"
  by (elim wf_bufferE) (auto simp: skip_def bind_def srs_assert_def rest_def adv_def)

subsection \<open>Writing and reading back\<close>

definition overwrite :: "byte list \<Rightarrow> SrsBuffer \<Rightarrow> SrsBuffer" where
  "overwrite bs s = (poke bs s)\<lparr>buf_p := buf_p s\<rparr>"

lemma skip_poke [buf_eval]:
  "wf_buffer s \<Longrightarrow> length bs \<le> length (rest s) \<Longrightarrow>
     skip (- int (length bs)) (poke bs s) = (Ok (), overwrite bs s)"
  by (elim wf_bufferE)
    (auto simp: skip_def bind_def srs_assert_def rest_def overwrite_def poke_def)

lemma wf_overwrite [buf_wf]:
  "wf_buffer s \<Longrightarrow> length bs \<le> length (rest s) \<Longrightarrow> wf_buffer (overwrite bs s)"
  by (elim wf_bufferE) (auto simp: wf_buffer_def overwrite_def poke_def rest_def)

lemma rest_overwrite [simp]:
  "wf_buffer s \<Longrightarrow> length bs \<le> length (rest s) \<Longrightarrow>
     rest (overwrite bs s) = bs @ drop (length bs) (rest s)"
  by (elim wf_bufferE) (auto simp: overwrite_def poke_def rest_def mem_def add.commute)

lemma adv_overwrite [simp]: "adv (length bs) (overwrite bs s) = poke bs s"
  by (simp add: overwrite_def adv_def poke_def)

lemma write_read_back:
  assumes s: "wf_buffer s" "n \<le> length (rest s)" and n: "length bs = n"
    and w: "wr s = (Ok (), poke bs s)"
    and r: "\<And>t r. wf_buffer t \<Longrightarrow> rest t = bs @ r \<Longrightarrow> rd t = (Ok v, adv n t)"
  shows "bind wr (\<lambda>_. bind (skip (- int n)) (\<lambda>_. rd)) s = (Ok v, poke bs s)"
proof -
  have "rd (overwrite bs s) = (Ok v, adv n (overwrite bs s))"
    using s n by (intro r) (auto intro: wf_overwrite)
  moreover have "adv n (overwrite bs s) = poke bs s"
    using n by auto
  moreover have "skip (- int n) (poke bs s) = (Ok (), overwrite bs s)"
    using s n skip_poke [of s bs] by simp
  ultimately show ?thesis using w by (simp add: bind_def)
qed

lemma pp_low24:
  fixes v :: "32 word"
  shows "pp 0 (v AND mask 24) = pp 0 v" "pp (Suc 0) (v AND mask 24) = pp (Suc 0) v"
    "pp 2 (v AND mask 24) = pp 2 v" "pp 3 (v AND mask 24) = 0"
  by (rule bit_word_eqI, simp add: bit_pp bit_and_iff bit_mask_iff)+

lemma le_word_pp_24: "le_word [pp 0 v, pp (Suc 0) v, pp 2 v, 0] = (v AND mask 24 :: 32 word)"
  using le_word_pp_32 [of "v AND mask 24"] by (simp only: pp_low24)

lemma roundtrip_1bytes:
  "wf_buffer s \<Longrightarrow> 1 \<le> length (rest s) \<Longrightarrow>
     bind (write_1bytes v) (\<lambda>_. bind (skip (-1)) (\<lambda>_. read_1bytes)) s = (Ok v, poke ([v]) s)"
  using write_read_back [of s 1 "[v]" "write_1bytes v" "read_1bytes" "v"]
  by (simp add: buf_eval be_defs)

lemma roundtrip_2bytes:
  "wf_buffer s \<Longrightarrow> 2 \<le> length (rest s) \<Longrightarrow>
     bind (write_2bytes v) (\<lambda>_. bind (skip (-2)) (\<lambda>_. read_2bytes)) s = (Ok v, poke (be16 v) s)"
  using write_read_back [of s 2 "be16 v" "write_2bytes v" "read_2bytes" "v"]
  by (simp add: buf_eval be_defs)

lemma roundtrip_le2bytes:
  "wf_buffer s \<Longrightarrow> 2 \<le> length (rest s) \<Longrightarrow>
     bind (write_le2bytes v) (\<lambda>_. bind (skip (-2)) (\<lambda>_. read_le2bytes)) s = (Ok v, poke (rev (be16 v)) s)"
  using write_read_back [of s 2 "rev (be16 v)" "write_le2bytes v" "read_le2bytes" "v"]
  by (simp add: buf_eval be_defs)

lemma roundtrip_3bytes:
  "wf_buffer s \<Longrightarrow> 3 \<le> length (rest s) \<Longrightarrow>
     bind (write_3bytes v) (\<lambda>_. bind (skip (-3)) (\<lambda>_. read_3bytes)) s = (Ok (v AND mask 24), poke (be24 v) s)"
  using write_read_back [of s 3 "be24 v" "write_3bytes v" "read_3bytes" "(v AND mask 24)"]
  by (simp add: buf_eval be_defs le_word_pp_24)

lemma roundtrip_le3bytes:
  "wf_buffer s \<Longrightarrow> 3 \<le> length (rest s) \<Longrightarrow>
     bind (write_le3bytes v) (\<lambda>_. bind (skip (-3)) (\<lambda>_. read_le3bytes)) s = (Ok (v AND mask 24), poke (rev (be24 v)) s)"
  using write_read_back [of s 3 "rev (be24 v)" "write_le3bytes v" "read_le3bytes" "(v AND mask 24)"]
  by (simp add: buf_eval be_defs le_word_pp_24)

lemma roundtrip_4bytes:
  "wf_buffer s \<Longrightarrow> 4 \<le> length (rest s) \<Longrightarrow>
     bind (write_4bytes v) (\<lambda>_. bind (skip (-4)) (\<lambda>_. read_4bytes)) s = (Ok v, poke (be32 v) s)"
  using write_read_back [of s 4 "be32 v" "write_4bytes v" "read_4bytes" "v"]
  by (simp add: buf_eval be_defs)

lemma roundtrip_le4bytes:
  "wf_buffer s \<Longrightarrow> 4 \<le> length (rest s) \<Longrightarrow>
     bind (write_le4bytes v) (\<lambda>_. bind (skip (-4)) (\<lambda>_. read_le4bytes)) s = (Ok v, poke (rev (be32 v)) s)"
  using write_read_back [of s 4 "rev (be32 v)" "write_le4bytes v" "read_le4bytes" "v"]
  by (simp add: buf_eval be_defs)

lemma roundtrip_8bytes:
  "wf_buffer s \<Longrightarrow> 8 \<le> length (rest s) \<Longrightarrow>
     bind (write_8bytes v) (\<lambda>_. bind (skip (-8)) (\<lambda>_. read_8bytes)) s = (Ok v, poke (be64 v) s)"
  using write_read_back [of s 8 "be64 v" "write_8bytes v" "read_8bytes" "v"]
  by (simp add: buf_eval be_defs)

lemma roundtrip_le8bytes:
  "wf_buffer s \<Longrightarrow> 8 \<le> length (rest s) \<Longrightarrow>
     bind (write_le8bytes v) (\<lambda>_. bind (skip (-8)) (\<lambda>_. read_le8bytes)) s = (Ok v, poke (rev (be64 v)) s)"
  using write_read_back [of s 8 "rev (be64 v)" "write_le8bytes v" "read_le8bytes" "v"]
  by (simp add: buf_eval be_defs)

lemmas roundtrips = roundtrip_1bytes roundtrip_2bytes roundtrip_le2bytes roundtrip_3bytes
  roundtrip_le3bytes roundtrip_4bytes roundtrip_le4bytes roundtrip_8bytes roundtrip_le8bytes

text \<open>
  C9. Every integer format of the buffer can be read back: after a write of 1, 2, 3, 4 or 8 bytes,
  in either byte order, and a skip back over them, the read of the same format returns the value
  written, of which the three-byte formats keep the low 24 bits.
\<close>

theorem buffer_roundtrip:
  assumes "wf_buffer s" and "8 \<le> left s"
  shows "fst (bind (write_1bytes v1) (\<lambda>_. bind (skip (-1)) (\<lambda>_. read_1bytes)) s) = Ok v1 \<and>
    fst (bind (write_2bytes v2) (\<lambda>_. bind (skip (-2)) (\<lambda>_. read_2bytes)) s) = Ok v2 \<and>
    fst (bind (write_le2bytes v2) (\<lambda>_. bind (skip (-2)) (\<lambda>_. read_le2bytes)) s) = Ok v2 \<and>
    fst (bind (write_3bytes v4) (\<lambda>_. bind (skip (-3)) (\<lambda>_. read_3bytes)) s) = Ok (v4 AND mask 24) \<and>
    fst (bind (write_le3bytes v4) (\<lambda>_. bind (skip (-3)) (\<lambda>_. read_le3bytes)) s) = Ok (v4 AND mask 24) \<and>
    fst (bind (write_4bytes v4) (\<lambda>_. bind (skip (-4)) (\<lambda>_. read_4bytes)) s) = Ok v4 \<and>
    fst (bind (write_le4bytes v4) (\<lambda>_. bind (skip (-4)) (\<lambda>_. read_le4bytes)) s) = Ok v4 \<and>
    fst (bind (write_8bytes v8) (\<lambda>_. bind (skip (-8)) (\<lambda>_. read_8bytes)) s) = Ok v8 \<and>
    fst (bind (write_le8bytes v8) (\<lambda>_. bind (skip (-8)) (\<lambda>_. read_le8bytes)) s) = Ok v8"
  using assms by (simp add: roundtrips left_rest)

theorem buffer_roundtrip_witness:
  "wf_buffer (SrsBuffer_new (Some (replicate 8 0)) 8) \<and>
   fst (bind (write_le4bytes 0x01020304) (\<lambda>_. bind (skip (-4)) (\<lambda>_. read_le4bytes))
     (SrsBuffer_new (Some (replicate 8 0)) 8)) = Ok 0x01020304"
proof -
  let ?s = "SrsBuffer_new (Some (replicate 8 0)) 8"
  have w: "wf_buffer ?s" using wf_new [of "replicate 8 0"] by simp
  moreover have "8 \<le> left ?s" by (simp add: left_def SrsBuffer_new_def)
  ultimately show ?thesis using buffer_roundtrip [of ?s 0 0 "0x01020304" 0] by blast
qed

subsection \<open>Memory safety of every sequence of operations\<close>

text \<open>
  All the operations of the buffer as the steps of its user: the value read is dropped, the state
  is kept. A \<open>write_bytes\<close> is given as many bytes as it is told to copy.
\<close>

datatype buf_op = OpSkip int | OpR1 | OpR2 | OpRle2 | OpR3 | OpRle3 | OpR4 | OpRle4 | OpR8 | OpRle8
  | OpRString int | OpRBytes int | OpW1 byte | OpW2 "16 word" | OpWle2 "16 word" | OpW3 "32 word"
  | OpWle3 "32 word" | OpW4 "32 word" | OpWle4 "32 word" | OpW8 "64 word" | OpWle8 "64 word"
  | OpWString string | OpWBytes "byte list"

definition drop_value :: "'a bufcall \<Rightarrow> unit bufcall" where
  "drop_value m = bind m (\<lambda>_. ret ())"

fun buf_step :: "buf_op \<Rightarrow> unit bufcall" where
  "buf_step (OpSkip n) = skip n"
| "buf_step OpR1 = drop_value read_1bytes"
| "buf_step OpR2 = drop_value read_2bytes"
| "buf_step OpRle2 = drop_value read_le2bytes"
| "buf_step OpR3 = drop_value read_3bytes"
| "buf_step OpRle3 = drop_value read_le3bytes"
| "buf_step OpR4 = drop_value read_4bytes"
| "buf_step OpRle4 = drop_value read_le4bytes"
| "buf_step OpR8 = drop_value read_8bytes"
| "buf_step OpRle8 = drop_value read_le8bytes"
| "buf_step (OpRString n) = drop_value (read_string n)"
| "buf_step (OpRBytes n) = drop_value (read_bytes n)"
| "buf_step (OpW1 v) = write_1bytes v"
| "buf_step (OpW2 v) = write_2bytes v"
| "buf_step (OpWle2 v) = write_le2bytes v"
| "buf_step (OpW3 w) = write_3bytes w"
| "buf_step (OpWle3 w) = write_le3bytes w"
| "buf_step (OpW4 w) = write_4bytes w"
| "buf_step (OpWle4 w) = write_le4bytes w"
| "buf_step (OpW8 x) = write_8bytes x"
| "buf_step (OpWle8 x) = write_le8bytes x"
| "buf_step (OpWString t) = write_string t"
| "buf_step (OpWBytes d) = write_bytes d (int (length d))"

fun buf_run :: "buf_op list \<Rightarrow> unit bufcall" where
  "buf_run [] = ret ()"
| "buf_run (x # xs) = bind (buf_step x) (\<lambda>_. buf_run xs)"

text \<open>Strings of 2 GiB and more are out: \<^verbatim>\<open>(int)value.length()\<close> no longer is their length.\<close>

fun op_in_range :: "buf_op \<Rightarrow> bool" where
  "op_in_range (OpWString t) = (length t < 2 ^ 31)"
| "op_in_range _ = True"

definition same_memory :: "SrsBuffer \<Rightarrow> SrsBuffer \<Rightarrow> bool" where
  "same_memory s t \<longleftrightarrow> buf_nb t = buf_nb s \<and> length (mem t) = length (mem s)"

lemma same_memory_refl [simp]: "same_memory s s"
  by (simp add: same_memory_def)

lemma same_memory_trans: "same_memory r s \<Longrightarrow> same_memory s t \<Longrightarrow> same_memory r t"
  by (simp add: same_memory_def)

lemma same_memory_adv [simp]: "same_memory s (adv n s)"
  by (simp add: same_memory_def) (simp add: adv_def)

lemma same_memory_poke [simp]:
  "wf_buffer s \<Longrightarrow> length bs \<le> length (rest s) \<Longrightarrow> same_memory s (poke bs s)"
  by (simp add: same_memory_def length_mem_poke) (simp add: poke_def)

text \<open>The contract of one operation: done within the memory, or stopped by its assertion, untouched.\<close>

definition safe_call :: "'a bufcall \<Rightarrow> bool" where
  "safe_call m \<longleftrightarrow> (\<forall>s. wf_buffer s \<longrightarrow>
     (\<exists>x t. m s = (Ok x, t) \<and> wf_buffer t \<and> same_memory s t) \<or> m s = (Panic AssertFailed, s))"

lemma safe_callE:
  assumes "safe_call m" and "wf_buffer s"
  obtains (Done) x t where "m s = (Ok x, t)" "wf_buffer t" "same_memory s t"
    | (Stopped) "m s = (Panic AssertFailed, s)"
  using assms unfolding safe_call_def by blast

lemma safe_drop_value: "safe_call m \<Longrightarrow> safe_call (drop_value m)"
  unfolding safe_call_def [of "drop_value m"]
  by (auto elim!: safe_callE simp: drop_value_def bind_def)

text \<open>Every operation starts with the assertion that there is room for it.\<close>

lemma safe_guarded:
  assumes m: "m = bind (srs_assert (\<lambda>s. require s n)) body"
    and room: "\<And>s. wf_buffer s \<Longrightarrow> 0 \<le> n \<Longrightarrow> nat n \<le> length (rest s) \<Longrightarrow>
      \<exists>x t. m s = (Ok x, t) \<and> wf_buffer t \<and> same_memory s t"
  shows "safe_call m"
  unfolding safe_call_def
proof (intro allI impI)
  fix s assume s: "wf_buffer s"
  show "(\<exists>x t. m s = (Ok x, t) \<and> wf_buffer t \<and> same_memory s t) \<or> m s = (Panic AssertFailed, s)"
  proof (cases "require s n")
    case True
    with s have "0 \<le> n" "nat n \<le> length (rest s)" by (auto simp: require_rest)
    with s room show ?thesis by blast
  next
    case False
    then show ?thesis by (simp add: m bind_def srs_assert_def)
  qed
qed

lemma length_ge_Suc: "Suc n \<le> length xs \<longleftrightarrow> (\<exists>y ys. xs = y # ys \<and> n \<le> length ys)"
  by (cases xs) auto

lemma length_ge_numeral:
  "numeral k \<le> length xs \<longleftrightarrow> (\<exists>y ys. xs = y # ys \<and> pred_numeral k \<le> length ys)"
  by (simp add: numeral_eq_Suc length_ge_Suc)

lemmas room_simps = length_ge_Suc length_ge_numeral buf_eval buf_wf

lemma safe_reads:
  "safe_call read_1bytes" "safe_call read_2bytes" "safe_call read_le2bytes"
  "safe_call read_3bytes" "safe_call read_le3bytes" "safe_call read_4bytes"
  "safe_call read_le4bytes" "safe_call read_8bytes" "safe_call read_le8bytes"
  "safe_call (read_string n)" "safe_call (read_bytes n)"
  subgoal by (rule safe_guarded [OF read_1bytes_def]) (auto simp: room_simps)
  subgoal by (rule safe_guarded [OF read_2bytes_def]) (auto simp: room_simps)
  subgoal by (rule safe_guarded [OF read_le2bytes_def]) (auto simp: room_simps)
  subgoal by (rule safe_guarded [OF read_3bytes_def]) (auto simp: room_simps)
  subgoal by (rule safe_guarded [OF read_le3bytes_def]) (auto simp: room_simps)
  subgoal by (rule safe_guarded [OF read_4bytes_def]) (auto simp: room_simps)
  subgoal by (rule safe_guarded [OF read_le4bytes_def]) (auto simp: room_simps)
  subgoal by (rule safe_guarded [OF read_8bytes_def]) (auto simp: room_simps)
  subgoal by (rule safe_guarded [OF read_le8bytes_def]) (auto simp: room_simps)
  subgoal
    using read_string_eval [of _ "nat n"]
    by (intro safe_guarded [OF read_string_def]) (auto simp: buf_wf)
  subgoal
    using read_bytes_eval [of _ "nat n"]
    by (intro safe_guarded [OF read_bytes_def]) (auto simp: buf_wf)
  done

lemma safe_writes:
  "safe_call (write_1bytes b)" "safe_call (write_2bytes v)" "safe_call (write_le2bytes v)"
  "safe_call (write_3bytes w)" "safe_call (write_le3bytes w)" "safe_call (write_4bytes w)"
  "safe_call (write_le4bytes w)" "safe_call (write_8bytes x)" "safe_call (write_le8bytes x)"
  "safe_call (write_bytes d (int (length d)))"
  subgoal by (rule safe_guarded [OF write_1bytes_def]) (auto simp: buf_eval buf_wf)
  subgoal by (rule safe_guarded [OF write_2bytes_def]) (auto simp: buf_eval buf_wf)
  subgoal by (rule safe_guarded [OF write_le2bytes_def]) (auto simp: buf_eval buf_wf)
  subgoal by (rule safe_guarded [OF write_3bytes_def]) (auto simp: buf_eval buf_wf)
  subgoal by (rule safe_guarded [OF write_le3bytes_def]) (auto simp: buf_eval buf_wf)
  subgoal by (rule safe_guarded [OF write_4bytes_def]) (auto simp: buf_eval buf_wf)
  subgoal by (rule safe_guarded [OF write_le4bytes_def]) (auto simp: buf_eval buf_wf)
  subgoal by (rule safe_guarded [OF write_8bytes_def]) (auto simp: buf_eval buf_wf)
  subgoal by (rule safe_guarded [OF write_le8bytes_def]) (auto simp: buf_eval buf_wf)
  subgoal by (rule safe_guarded [OF write_bytes_def]) (auto simp: buf_eval buf_wf)
  done

lemma safe_write_string: "length t < 2 ^ 31 \<Longrightarrow> safe_call (write_string t)"
  by (rule safe_guarded [OF write_string_def]) (auto simp: int_of_size_small buf_eval buf_wf)

lemma safe_skip: "safe_call (skip n)"
  unfolding safe_call_def
  by (auto elim!: wf_bufferE simp: skip_def bind_def srs_assert_def wf_buffer_def same_memory_def mem_def)

lemma safe_buf_step: "op_in_range x \<Longrightarrow> safe_call (buf_step x)"
  by (cases x) (simp_all add: safe_drop_value safe_reads safe_writes safe_write_string safe_skip)



subsection \<open>The order of the bits\<close>

text \<open>The bits of a byte as the bit buffer gives them out, most significant first.\<close>

definition byte_bits :: "nat \<Rightarrow> byte \<Rightarrow> bool list" where
  "byte_bits n b = map (bit b) (rev [0..<n])"

definition stream_bits :: "byte list \<Rightarrow> bool list" where
  "stream_bits bs = concat (map (byte_bits 8) bs)"

definition bits_left :: "SrsBitBuffer \<Rightarrow> bool list" where
  "bits_left s = byte_bits (bb_cb_left s) (bb_cb s) @ stream_bits (rest (bb_stream s))"

definition wf_bits :: "SrsBitBuffer \<Rightarrow> bool" where
  "wf_bits s \<longleftrightarrow> wf_buffer (bb_stream s) \<and> bb_cb_left s \<le> 8"

text \<open>A caller's loop: \<open>n\<close> calls of \<^verbatim>\<open>read_bit\<close>, the values collected in order.\<close>

fun read_bit_times :: "nat \<Rightarrow> (SrsBitBuffer, byte list) call" where
  "read_bit_times 0 = ret []"
| "read_bit_times (Suc n) = bind read_bit (\<lambda>v. bind (read_bit_times n) (\<lambda>vs. ret (v # vs)))"

lemma byte_bits_Suc: "byte_bits (Suc n) b = bit b n # byte_bits n b"
  by (simp add: byte_bits_def)

lemma byte_bits_0 [simp]: "byte_bits 0 b = []"
  by (simp add: byte_bits_def)

lemma top_bit: "n < 8 \<Longrightarrow> signed_drop_bit n (b :: byte) AND 1 = (if bit b n then 1 else 0)"
  by (rule bit_word_eqI) (auto simp: bit_simps intro!: gr0I)

lemma bit_empty_iff: "wf_bits s \<Longrightarrow> bit_empty s \<longleftrightarrow> bits_left s = []"
  by (cases "bb_cb_left s"; cases "rest (bb_stream s)")
    (simp_all add: wf_bits_def bit_empty_def bits_left_def empty_rest byte_bits_Suc stream_bits_def
      numeral_eq_Suc)

lemma bit_refill_eval:
  assumes "wf_bits s" and "bits_left s = x # xs"
  obtains t n where "bit_refill s = (Ok (), t)" "wf_bits t" "bb_cb_left t = Suc n"
    "bits_left t = bits_left s"
proof (cases "bb_cb_left s")
  case 0
  with assms obtain b r where r: "rest (bb_stream s) = b # r"
    by (cases "rest (bb_stream s)") (auto simp: bits_left_def stream_bits_def)
  from assms have wf: "wf_buffer (bb_stream s)" by (simp add: wf_bits_def)
  let ?t = "s\<lparr>bb_cb := b, bb_cb_left := 8, bb_stream := adv 1 (bb_stream s)\<rparr>"
  have "bit_refill s = (Ok (), ?t)"
    using 0 wf r by (simp add: bit_refill_def empty_rest buf_eval)
  moreover have "wf_bits ?t" using wf r by (simp add: wf_bits_def buf_wf)
  moreover have "bits_left ?t = bits_left s"
    using 0 r by (simp add: bits_left_def stream_bits_def)
  ultimately show thesis using that [of ?t 7] by simp
next
  case (Suc n)
  then have "bit_refill s = (Ok (), s)" by (simp add: bit_refill_def)
  with Suc assms show thesis using that by blast
qed

lemma read_bit_eval:
  assumes "wf_bits s" and "bits_left s = x # xs"
  obtains t where "read_bit s = (Ok (if x then 1 else 0), t)" "wf_bits t" "bits_left t = xs"
proof -
  from bit_refill_eval [OF assms] obtain u n where u:
    "bit_refill s = (Ok (), u)" "wf_bits u" "bb_cb_left u = Suc n" "bits_left u = x # xs"
    using assms(2) by metis
  let ?t = "u\<lparr>bb_cb_left := n\<rparr>"
  have x: "x = bit (bb_cb u) n" and "bits_left ?t = xs"
    using u(3,4) by (simp_all add: bits_left_def byte_bits_Suc)
  moreover have "wf_bits ?t" and "n < 8" using u(2,3) by (simp_all add: wf_bits_def)
  moreover have "read_bit s = (Ok (if x then 1 else 0), ?t)"
    using u(1,3) \<open>n < 8\<close> x by (simp add: read_bit_def bind_def top_bit)
  ultimately show thesis using that by blast
qed

lemma read_bit_at_end:
  assumes "wf_bits s" and "bits_left s = []"
  shows "read_bit s = (Panic AssertFailed, s)"
proof -
  have "bb_cb_left s = 0" using assms(2) by (cases "bb_cb_left s") (auto simp: bits_left_def byte_bits_Suc)
  moreover have "empty (bb_stream s)"
    using assms bit_empty_iff [OF assms(1)] calculation by (simp add: bit_empty_def)
  ultimately show ?thesis by (simp add: read_bit_def bind_def bit_refill_def)
qed

text \<open>
  Reading bits one by one from a bit buffer gives the bits of the bytes under it in order, each
  byte from its most significant bit down; the bit buffer is empty exactly when they are used up,
  and one more read is stopped by the assertion.
\<close>

theorem read_bits_in_order:
  assumes "wf_bits s" and "n \<le> length (bits_left s)"
  shows "\<exists>t. read_bit_times n s = (Ok (map (\<lambda>b. if b then 1 else 0) (take n (bits_left s))), t) \<and>
     wf_bits t \<and> bits_left t = drop n (bits_left s) \<and>
     (bit_empty t \<longleftrightarrow> n = length (bits_left s)) \<and>
     (bit_empty t \<longrightarrow> read_bit t = (Panic AssertFailed, t))"
proof -
  have "\<exists>t. read_bit_times n s = (Ok (map (\<lambda>b. if b then 1 else 0) (take n (bits_left s))), t) \<and>
     wf_bits t \<and> bits_left t = drop n (bits_left s)"
    using assms
  proof (induction n arbitrary: s)
    case 0
    then show ?case by simp
  next
    case (Suc n)
    then obtain x xs where xs: "bits_left s = x # xs" by (cases "bits_left s") auto
    from read_bit_eval [OF Suc.prems(1) xs] obtain u where u:
      "read_bit s = (Ok (if x then 1 else 0), u)" "wf_bits u" "bits_left u = xs" .
    from Suc.IH [OF u(2)] Suc.prems(2) xs u(3) obtain t where
      "read_bit_times n u = (Ok (map (\<lambda>b. if b then 1 else 0) (take n xs)), t)"
      "wf_bits t" "bits_left t = drop n xs" by auto
    with u(1) xs show ?case by (auto simp: bind_def)
  qed
  then show ?thesis using assms(2) by (auto simp: bit_empty_iff read_bit_at_end)
qed

theorem read_bits_in_order_witness:
  "\<exists>t. read_bit_times 3 (SrsBitBuffer_new (SrsBuffer_new (Some [0xA0]) 1)) = (Ok [1, 0, 1], t)"
proof -
  let ?s = "SrsBitBuffer_new (SrsBuffer_new (Some [0xA0]) 1)"
  have "wf_bits ?s" using wf_new [of "[0xA0]"] by (simp add: wf_bits_def SrsBitBuffer_new_def)
  moreover have bits: "bits_left ?s = map (bit (0xA0 :: byte)) (rev [0..<8])"
    by (simp add: bits_left_def SrsBitBuffer_new_def stream_bits_def byte_bits_def)
  ultimately obtain t where
    "read_bit_times 3 ?s = (Ok (map (\<lambda>b. if b then 1 else 0) (take 3 (bits_left ?s))), t)"
    using read_bits_in_order [of ?s 3] by auto
  then show ?thesis by (simp add: bits upt_rec eval_nat_numeral)
qed

end
