(* ===== verification/KernelError.thy ===== *)
theory KernelError
  imports Prelude
begin

section \<open>Error codes and the error object\<close>

text \<open>
  \<^verbatim>\<open>srs_kernel_error.hpp\<close> and \<^verbatim>\<open>srs_kernel_error.cpp\<close>: the table of error codes, and
  \<^verbatim>\<open>SrsCplxError\<close>, a chain of frames each of which says where an error passed and why. The lemmas
  show that the chain implements what the other components use of it, a code that no wrapper
  changes and the trail of messages (\<open>srs_error\<close> of the prelude), and what its description prints.
\<close>

subsection \<open>The codes\<close>

definition ERROR_SUCCESS :: int where
  "ERROR_SUCCESS = 0"

definition system_errors :: "(string \<times> int) list" where
  "system_errors = [
    (''ERROR_SOCKET_CREATE'', 1000),
    (''ERROR_SOCKET_SETREUSE'', 1001),
    (''ERROR_SOCKET_BIND'', 1002),
    (''ERROR_SOCKET_LISTEN'', 1003),
    (''ERROR_SOCKET_CLOSED'', 1004),
    (''ERROR_SOCKET_GET_PEER_NAME'', 1005),
    (''ERROR_SOCKET_GET_PEER_IP'', 1006),
    (''ERROR_SOCKET_READ'', 1007),
    (''ERROR_SOCKET_READ_FULLY'', 1008),
    (''ERROR_SOCKET_WRITE'', 1009),
    (''ERROR_SOCKET_WAIT'', 1010),
    (''ERROR_SOCKET_TIMEOUT'', 1011),
    (''ERROR_SOCKET_CONNECT'', 1012),
    (''ERROR_ST_SET_EPOLL'', 1013),
    (''ERROR_ST_INITIALIZE'', 1014),
    (''ERROR_ST_OPEN_SOCKET'', 1015),
    (''ERROR_ST_CREATE_LISTEN_THREAD'', 1016),
    (''ERROR_ST_CREATE_CYCLE_THREAD'', 1017),
    (''ERROR_ST_CONNECT'', 1018),
    (''ERROR_SYSTEM_PACKET_INVALID'', 1019),
    (''ERROR_SYSTEM_CLIENT_INVALID'', 1020),
    (''ERROR_SYSTEM_ASSERT_FAILED'', 1021),
    (''ERROR_READER_BUFFER_OVERFLOW'', 1022),
    (''ERROR_SYSTEM_CONFIG_INVALID'', 1023),
    (''ERROR_SYSTEM_CONFIG_DIRECTIVE'', 1024),
    (''ERROR_SYSTEM_CONFIG_BLOCK_START'', 1025),
    (''ERROR_SYSTEM_CONFIG_BLOCK_END'', 1026),
    (''ERROR_SYSTEM_CONFIG_EOF'', 1027),
    (''ERROR_SYSTEM_STREAM_BUSY'', 1028),
    (''ERROR_SYSTEM_IP_INVALID'', 1029),
    (''ERROR_SYSTEM_FORWARD_LOOP'', 1030),
    (''ERROR_SYSTEM_WAITPID'', 1031),
    (''ERROR_SYSTEM_BANDWIDTH_KEY'', 1032),
    (''ERROR_SYSTEM_BANDWIDTH_DENIED'', 1033),
    (''ERROR_SYSTEM_PID_ACQUIRE'', 1034),
    (''ERROR_SYSTEM_PID_ALREADY_RUNNING'', 1035),
    (''ERROR_SYSTEM_PID_LOCK'', 1036),
    (''ERROR_SYSTEM_PID_TRUNCATE_FILE'', 1037),
    (''ERROR_SYSTEM_PID_WRITE_FILE'', 1038),
    (''ERROR_SYSTEM_PID_GET_FILE_INFO'', 1039),
    (''ERROR_SYSTEM_PID_SET_FILE_INFO'', 1040),
    (''ERROR_SYSTEM_FILE_ALREADY_OPENED'', 1041),
    (''ERROR_SYSTEM_FILE_OPENE'', 1042),
    (''ERROR_SYSTEM_FILE_READ'', 1044),
    (''ERROR_SYSTEM_FILE_WRITE'', 1045),
    (''ERROR_SYSTEM_FILE_EOF'', 1046),
    (''ERROR_SYSTEM_FILE_RENAME'', 1047),
    (''ERROR_SYSTEM_CREATE_PIPE'', 1048),
    (''ERROR_SYSTEM_FILE_SEEK'', 1049),
    (''ERROR_SYSTEM_IO_INVALID'', 1050),
    (''ERROR_ST_EXCEED_THREADS'', 1051),
    (''ERROR_SYSTEM_SECURITY'', 1052),
    (''ERROR_SYSTEM_SECURITY_DENY'', 1053),
    (''ERROR_SYSTEM_SECURITY_ALLOW'', 1054),
    (''ERROR_SYSTEM_TIME'', 1055),
    (''ERROR_SYSTEM_DIR_EXISTS'', 1056),
    (''ERROR_SYSTEM_CREATE_DIR'', 1057),
    (''ERROR_SYSTEM_KILL'', 1058),
    (''ERROR_SYSTEM_CONFIG_PERSISTENCE'', 1059),
    (''ERROR_SYSTEM_CONFIG_RAW'', 1060),
    (''ERROR_SYSTEM_CONFIG_RAW_DISABLED'', 1061),
    (''ERROR_SYSTEM_CONFIG_RAW_NOT_ALLOWED'', 1062),
    (''ERROR_SYSTEM_CONFIG_RAW_PARAMS'', 1063),
    (''ERROR_SYSTEM_FILE_NOT_EXISTS'', 1064),
    (''ERROR_SYSTEM_HOURGLASS_RESOLUTION'', 1065),
    (''ERROR_SYSTEM_DNS_RESOLVE'', 1066),
    (''ERROR_SYSTEM_FRAGMENT_UNLINK'', 1067),
    (''ERROR_SYSTEM_FRAGMENT_RENAME'', 1068),
    (''ERROR_THREAD_DISPOSED'', 1069),
    (''ERROR_THREAD_INTERRUPED'', 1070),
    (''ERROR_THREAD_TERMINATED'', 1071),
    (''ERROR_THREAD_DUMMY'', 1072),
    (''ERROR_ASPROCESS_PPID'', 1073),
    (''ERROR_EXCEED_CONNECTIONS'', 1074),
    (''ERROR_SOCKET_SETKEEPALIVE'', 1075),
    (''ERROR_SOCKET_NO_NODELAY'', 1076),
    (''ERROR_SOCKET_SNDBUF'', 1077),
    (''ERROR_THREAD_STARTED'', 1078),
    (''ERROR_SOCKET_SETREUSEADDR'', 1079),
    (''ERROR_SOCKET_SETCLOSEEXEC'', 1080),
    (''ERROR_SOCKET_ACCEPT'', 1081)]"

definition rtmp_errors :: "(string \<times> int) list" where
  "rtmp_errors = [
    (''ERROR_RTMP_PLAIN_REQUIRED'', 2000),
    (''ERROR_RTMP_CHUNK_START'', 2001),
    (''ERROR_RTMP_MSG_INVALID_SIZE'', 2002),
    (''ERROR_RTMP_AMF0_DECODE'', 2003),
    (''ERROR_RTMP_AMF0_INVALID'', 2004),
    (''ERROR_RTMP_REQ_CONNECT'', 2005),
    (''ERROR_RTMP_REQ_TCURL'', 2006),
    (''ERROR_RTMP_MESSAGE_DECODE'', 2007),
    (''ERROR_RTMP_MESSAGE_ENCODE'', 2008),
    (''ERROR_RTMP_AMF0_ENCODE'', 2009),
    (''ERROR_RTMP_CHUNK_SIZE'', 2010),
    (''ERROR_RTMP_TRY_SIMPLE_HS'', 2011),
    (''ERROR_RTMP_CH_SCHEMA'', 2012),
    (''ERROR_RTMP_PACKET_SIZE'', 2013),
    (''ERROR_RTMP_VHOST_NOT_FOUND'', 2014),
    (''ERROR_RTMP_ACCESS_DENIED'', 2015),
    (''ERROR_RTMP_HANDSHAKE'', 2016),
    (''ERROR_RTMP_NO_REQUEST'', 2017),
    (''ERROR_RTMP_HS_SSL_REQUIRE'', 2018),
    (''ERROR_RTMP_DURATION_EXCEED'', 2019),
    (''ERROR_RTMP_EDGE_PLAY_STATE'', 2020),
    (''ERROR_RTMP_EDGE_PUBLISH_STATE'', 2021),
    (''ERROR_RTMP_EDGE_PROXY_PULL'', 2022),
    (''ERROR_RTMP_EDGE_RELOAD'', 2023),
    (''ERROR_RTMP_AGGREGATE'', 2024),
    (''ERROR_RTMP_BWTC_DATA'', 2025),
    (''ERROR_OpenSslCreateDH'', 2026),
    (''ERROR_OpenSslCreateP'', 2027),
    (''ERROR_OpenSslCreateG'', 2028),
    (''ERROR_OpenSslParseP1024'', 2029),
    (''ERROR_OpenSslSetG'', 2030),
    (''ERROR_OpenSslGenerateDHKeys'', 2031),
    (''ERROR_OpenSslCopyKey'', 2032),
    (''ERROR_OpenSslSha256Update'', 2033),
    (''ERROR_OpenSslSha256Init'', 2034),
    (''ERROR_OpenSslSha256Final'', 2035),
    (''ERROR_OpenSslSha256EvpDigest'', 2036),
    (''ERROR_OpenSslSha256DigestSize'', 2037),
    (''ERROR_OpenSslGetPeerPublicKey'', 2038),
    (''ERROR_OpenSslComputeSharedKey'', 2039),
    (''ERROR_RTMP_MIC_CHUNKSIZE_CHANGED'', 2040),
    (''ERROR_RTMP_MIC_CACHE_OVERFLOW'', 2041),
    (''ERROR_RTSP_TOKEN_NOT_NORMAL'', 2042),
    (''ERROR_RTSP_REQUEST_HEADER_EOF'', 2043),
    (''ERROR_RTP_HEADER_CORRUPT'', 2044),
    (''ERROR_RTP_TYPE96_CORRUPT'', 2045),
    (''ERROR_RTP_TYPE97_CORRUPT'', 2046),
    (''ERROR_RTSP_AUDIO_CONFIG'', 2047),
    (''ERROR_RTMP_STREAM_NOT_FOUND'', 2048),
    (''ERROR_RTMP_CLIENT_NOT_FOUND'', 2049),
    (''ERROR_OpenSslCreateHMAC'', 2050),
    (''ERROR_RTMP_STREAM_NAME_EMPTY'', 2051),
    (''ERROR_HTTP_HIJACK'', 2052),
    (''ERROR_RTMP_MESSAGE_CREATE'', 2053),
    (''ERROR_RTMP_PROXY_EXCEED'', 2054),
    (''ERROR_RTMP_CREATE_STREAM_DEPTH'', 2055),
    (''ERROR_CONTROL_REDIRECT'', 2997),
    (''ERROR_CONTROL_RTMP_CLOSE'', 2998),
    (''ERROR_CONTROL_REPUBLISH'', 2999)]"

definition app_errors :: "(string \<times> int) list" where
  "app_errors = [
    (''ERROR_HLS_METADATA'', 3000),
    (''ERROR_HLS_DECODE_ERROR'', 3001),
    (''ERROR_HLS_OPEN_FAILED'', 3003),
    (''ERROR_HLS_WRITE_FAILED'', 3004),
    (''ERROR_HLS_AAC_FRAME_LENGTH'', 3005),
    (''ERROR_HLS_AVC_SAMPLE_SIZE'', 3006),
    (''ERROR_HTTP_PARSE_URI'', 3007),
    (''ERROR_HTTP_DATA_INVALID'', 3008),
    (''ERROR_HTTP_PARSE_HEADER'', 3009),
    (''ERROR_HTTP_HANDLER_MATCH_URL'', 3010),
    (''ERROR_HTTP_HANDLER_INVALID'', 3011),
    (''ERROR_HTTP_API_LOGS'', 3012),
    (''ERROR_HTTP_REMUX_SEQUENCE_HEADER'', 3013),
    (''ERROR_HTTP_REMUX_OFFSET_OVERFLOW'', 3014),
    (''ERROR_ENCODER_VCODEC'', 3015),
    (''ERROR_ENCODER_OUTPUT'', 3016),
    (''ERROR_ENCODER_ACHANNELS'', 3017),
    (''ERROR_ENCODER_ASAMPLE_RATE'', 3018),
    (''ERROR_ENCODER_ABITRATE'', 3019),
    (''ERROR_ENCODER_ACODEC'', 3020),
    (''ERROR_ENCODER_VPRESET'', 3021),
    (''ERROR_ENCODER_VPROFILE'', 3022),
    (''ERROR_ENCODER_VTHREADS'', 3023),
    (''ERROR_ENCODER_VHEIGHT'', 3024),
    (''ERROR_ENCODER_VWIDTH'', 3025),
    (''ERROR_ENCODER_VFPS'', 3026),
    (''ERROR_ENCODER_VBITRATE'', 3027),
    (''ERROR_ENCODER_FORK'', 3028),
    (''ERROR_ENCODER_LOOP'', 3029),
    (''ERROR_FORK_OPEN_LOG'', 3030),
    (''ERROR_FORK_DUP2_LOG'', 3031),
    (''ERROR_ENCODER_PARSE'', 3032),
    (''ERROR_ENCODER_NO_INPUT'', 3033),
    (''ERROR_ENCODER_NO_OUTPUT'', 3034),
    (''ERROR_ENCODER_INPUT_TYPE'', 3035),
    (''ERROR_KERNEL_FLV_HEADER'', 3036),
    (''ERROR_KERNEL_FLV_STREAM_CLOSED'', 3037),
    (''ERROR_KERNEL_STREAM_INIT'', 3038),
    (''ERROR_EDGE_VHOST_REMOVED'', 3039),
    (''ERROR_HLS_AVC_TRY_OTHERS'', 3040),
    (''ERROR_H264_API_NO_PREFIXED'', 3041),
    (''ERROR_FLV_INVALID_VIDEO_TAG'', 3042),
    (''ERROR_H264_DROP_BEFORE_SPS_PPS'', 3043),
    (''ERROR_H264_DUPLICATED_SPS'', 3044),
    (''ERROR_H264_DUPLICATED_PPS'', 3045),
    (''ERROR_AAC_REQUIRED_ADTS'', 3046),
    (''ERROR_AAC_ADTS_HEADER'', 3047),
    (''ERROR_AAC_DATA_INVALID'', 3048),
    (''ERROR_HLS_TRY_MP3'', 3049),
    (''ERROR_HTTP_DVR_DISABLED'', 3050),
    (''ERROR_HTTP_DVR_REQUEST'', 3051),
    (''ERROR_HTTP_JSON_REQUIRED'', 3052),
    (''ERROR_HTTP_DVR_CREATE_REQUEST'', 3053),
    (''ERROR_HTTP_DVR_NO_TAEGET'', 3054),
    (''ERROR_ADTS_ID_NOT_AAC'', 3055),
    (''ERROR_HDS_OPEN_F4M_FAILED'', 3056),
    (''ERROR_HDS_WRITE_F4M_FAILED'', 3057),
    (''ERROR_HDS_OPEN_BOOTSTRAP_FAILED'', 3058),
    (''ERROR_HDS_WRITE_BOOTSTRAP_FAILED'', 3059),
    (''ERROR_HDS_OPEN_FRAGMENT_FAILED'', 3060),
    (''ERROR_HDS_WRITE_FRAGMENT_FAILED'', 3061),
    (''ERROR_HLS_NO_STREAM'', 3062),
    (''ERROR_JSON_LOADS'', 3063),
    (''ERROR_RESPONSE_CODE'', 3064),
    (''ERROR_RESPONSE_DATA'', 3065),
    (''ERROR_REQUEST_DATA'', 3066),
    (''ERROR_EDGE_PORT_INVALID'', 3067),
    (''ERROR_EXPECT_FILE_IO'', 3068),
    (''ERROR_MP4_BOX_OVERFLOW'', 3069),
    (''ERROR_MP4_BOX_REQUIRE_SPACE'', 3070),
    (''ERROR_MP4_BOX_ILLEGAL_TYPE'', 3071),
    (''ERROR_MP4_BOX_ILLEGAL_SCHEMA'', 3072),
    (''ERROR_MP4_BOX_STRING'', 3073),
    (''ERROR_MP4_BOX_ILLEGAL_BRAND'', 3074),
    (''ERROR_MP4_ESDS_SL_Config'', 3075),
    (''ERROR_MP4_ILLEGAL_MOOV'', 3076),
    (''ERROR_MP4_ILLEGAL_HANDLER'', 3077),
    (''ERROR_MP4_ILLEGAL_TRACK'', 3078),
    (''ERROR_MP4_MOOV_OVERFLOW'', 3079),
    (''ERROR_MP4_ILLEGAL_SAMPLES'', 3080),
    (''ERROR_MP4_ILLEGAL_TIMESTAMP'', 3081),
    (''ERROR_DVR_CANNOT_APPEND'', 3082),
    (''ERROR_DVR_ILLEGAL_PLAN'', 3083),
    (''ERROR_FLV_REQUIRE_SPACE'', 3084),
    (''ERROR_MP4_AVCC_CHANGE'', 3085),
    (''ERROR_MP4_ASC_CHANGE'', 3086),
    (''ERROR_DASH_WRITE_FAILED'', 3087),
    (''ERROR_TS_CONTEXT_NOT_READY'', 3088),
    (''ERROR_MP4_ILLEGAL_MOOF'', 3089),
    (''ERROR_MP4_ILLEGAL_MDAT'', 3090),
    (''ERROR_OCLUSTER_DISCOVER'', 3091),
    (''ERROR_OCLUSTER_REDIRECT'', 3092),
    (''ERROR_INOTIFY_CREATE'', 3093),
    (''ERROR_INOTIFY_OPENFD'', 3094),
    (''ERROR_INOTIFY_WATCH'', 3095),
    (''ERROR_HTTP_URL_UNESCAPE'', 3096)]"

definition http_errors :: "(string \<times> int) list" where
  "http_errors = [
    (''ERROR_HTTP_PATTERN_EMPTY'', 4000),
    (''ERROR_HTTP_PATTERN_DUPLICATED'', 4001),
    (''ERROR_HTTP_URL_NOT_CLEAN'', 4002),
    (''ERROR_HTTP_CONTENT_LENGTH'', 4003),
    (''ERROR_HTTP_LIVE_STREAM_EXT'', 4004),
    (''ERROR_HTTP_STATUS_INVALID'', 4005),
    (''ERROR_KERNEL_AAC_STREAM_CLOSED'', 4006),
    (''ERROR_AAC_DECODE_ERROR'', 4007),
    (''ERROR_KERNEL_MP3_STREAM_CLOSED'', 4008),
    (''ERROR_MP3_DECODE_ERROR'', 4009),
    (''ERROR_STREAM_CASTER_ENGINE'', 4010),
    (''ERROR_STREAM_CASTER_PORT'', 4011),
    (''ERROR_STREAM_CASTER_TS_HEADER'', 4012),
    (''ERROR_STREAM_CASTER_TS_SYNC_BYTE'', 4013),
    (''ERROR_STREAM_CASTER_TS_AF'', 4014),
    (''ERROR_STREAM_CASTER_TS_CRC32'', 4015),
    (''ERROR_STREAM_CASTER_TS_PSI'', 4016),
    (''ERROR_STREAM_CASTER_TS_PAT'', 4017),
    (''ERROR_STREAM_CASTER_TS_PMT'', 4018),
    (''ERROR_STREAM_CASTER_TS_PSE'', 4019),
    (''ERROR_STREAM_CASTER_TS_ES'', 4020),
    (''ERROR_STREAM_CASTER_TS_CODEC'', 4021),
    (''ERROR_STREAM_CASTER_AVC_SPS'', 4022),
    (''ERROR_STREAM_CASTER_AVC_PPS'', 4023),
    (''ERROR_STREAM_CASTER_FLV_TAG'', 4024),
    (''ERROR_HTTP_RESPONSE_EOF'', 4025),
    (''ERROR_HTTP_INVALID_CHUNK_HEADER'', 4026),
    (''ERROR_AVC_NALU_UEV'', 4027),
    (''ERROR_AAC_BYTES_INVALID'', 4028),
    (''ERROR_HTTP_REQUEST_EOF'', 4029),
    (''ERROR_HTTP_302_INVALID'', 4038),
    (''ERROR_BASE64_DECODE'', 4039),
    (''ERROR_HTTP_STREAM_EOF'', 4040),
    (''ERROR_HTTPS_NOT_SUPPORTED'', 4041),
    (''ERROR_HTTPS_HANDSHAKE'', 4042),
    (''ERROR_HTTPS_READ'', 4043),
    (''ERROR_HTTPS_WRITE'', 4044),
    (''ERROR_HTTPS_KEY_CRT'', 4045)]"

definition rtc_errors :: "(string \<times> int) list" where
  "rtc_errors = [
    (''ERROR_RTC_PORT'', 5000),
    (''ERROR_RTP_PACKET_CREATE'', 5001),
    (''ERROR_OpenSslCreateSSL'', 5002),
    (''ERROR_OpenSslBIOReset'', 5003),
    (''ERROR_OpenSslBIOWrite'', 5004),
    (''ERROR_OpenSslBIONew'', 5005),
    (''ERROR_RTC_RTP'', 5006),
    (''ERROR_RTC_RTCP'', 5007),
    (''ERROR_RTC_STUN'', 5008),
    (''ERROR_RTC_DTLS'', 5009),
    (''ERROR_RTC_UDP'', 5010),
    (''ERROR_RTC_RTP_MUXER'', 5011),
    (''ERROR_RTC_SDP_DECODE'', 5012),
    (''ERROR_RTC_SRTP_INIT'', 5013),
    (''ERROR_RTC_SRTP_PROTECT'', 5014),
    (''ERROR_RTC_SRTP_UNPROTECT'', 5015),
    (''ERROR_RTC_RTCP_CHECK'', 5016),
    (''ERROR_RTC_SOURCE_CHECK'', 5017),
    (''ERROR_RTC_SDP_EXCHANGE'', 5018),
    (''ERROR_RTC_API_BODY'', 5019),
    (''ERROR_RTC_SOURCE_BUSY'', 5020),
    (''ERROR_RTC_DISABLED'', 5021),
    (''ERROR_RTC_NO_SESSION'', 5022),
    (''ERROR_RTC_INVALID_PARAMS'', 5023),
    (''ERROR_RTC_DUMMY_BRIDGER'', 5024),
    (''ERROR_RTC_STREM_STARTED'', 5025),
    (''ERROR_RTC_TRACK_CODEC'', 5026),
    (''ERROR_RTC_NO_PLAYER'', 5027),
    (''ERROR_RTC_NO_PUBLISHER'', 5028),
    (''ERROR_RTC_DUPLICATED_SSRC'', 5029),
    (''ERROR_RTC_NO_TRACK'', 5030),
    (''ERROR_RTC_RTCP_EMPTY_RR'', 5031)]"

definition user_errors :: "(string \<times> int) list" where
  "user_errors = [
    (''ERROR_USER_START'', 9000),
    (''ERROR_SOURCE_NOT_FOUND'', 9002),
    (''ERROR_USER_END'', 9999)]"

definition error_table :: "(string \<times> int) list" where
  "error_table = system_errors @ rtmp_errors @ app_errors @ http_errors @ rtc_errors @ user_errors"

text \<open>The codes the modelled components return.\<close>

definition ERROR_RTMP_AMF0_DECODE :: int where
  "ERROR_RTMP_AMF0_DECODE = 2003"

definition ERROR_RTMP_AMF0_INVALID :: int where
  "ERROR_RTMP_AMF0_INVALID = 2004"

definition ERROR_RTMP_AMF0_ENCODE :: int where
  "ERROR_RTMP_AMF0_ENCODE = 2009"

subsection \<open>The error object\<close>

text \<open>
  \<open>e_wrapped\<close> is the pointer \<^verbatim>\<open>wrapped\<close>, \<open>None\<close> for null; an \<^verbatim>\<open>srs_error_t\<close> is such a pointer,
  null (\<^verbatim>\<open>srs_success\<close>) when there is no error.
\<close>

datatype SrsCplxError = SrsCplxError
  (e_code: int) (e_wrapped: "SrsCplxError option") (e_msg: string) (e_func: string)
  (e_file: string) (e_line: int) (e_cid: string) (e_rerrno: int) (e_desc: string)

type_synonym srs_error_t = "SrsCplxError option"

text \<open>
  What the constructors read of their surroundings: \<^verbatim>\<open>errno\<close>, and the id \<^verbatim>\<open>_srs_context\<close> gives
  when there is one. A location is the \<^verbatim>\<open>__FUNCTION__\<close>, \<^verbatim>\<open>__FILE__\<close> and \<^verbatim>\<open>__LINE__\<close> of the macro.
\<close>

record err_env =
  env_errno :: int
  env_context :: "string option"

type_synonym location = "string \<times> string \<times> int"

text \<open>
  The message after \<^verbatim>\<open>vsnprintf(buffer, 4096, fmt, ap)\<close> and \<^verbatim>\<open>err->msg = buffer\<close>: \<open>m\<close> is the
  formatted text, of which 4095 characters fit and the string ends at the first NUL.
\<close>

definition err_message :: "string \<Rightarrow> string" where
  "err_message m = takeWhile (\<lambda>c. c \<noteq> CHR 0x00) (take 4095 m)"

definition err_cid :: "err_env \<Rightarrow> string" where
  "err_cid env = (case env_context env of None \<Rightarrow> [] | Some c \<Rightarrow> c)"

definition err_create :: "err_env \<Rightarrow> location \<Rightarrow> int \<Rightarrow> string \<Rightarrow> SrsCplxError" where
  "err_create env loc code m = (case loc of (func, file, line) \<Rightarrow>
     SrsCplxError code None (err_message m) func file line (err_cid env) (env_errno env) [])"

definition err_wrap :: "err_env \<Rightarrow> location \<Rightarrow> srs_error_t \<Rightarrow> string \<Rightarrow> SrsCplxError" where
  "err_wrap env loc v m = (case loc of (func, file, line) \<Rightarrow>
     SrsCplxError (case v of None \<Rightarrow> ERROR_SUCCESS | Some w \<Rightarrow> e_code w) v
       (err_message m) func file line (err_cid env) (env_errno env) [])"

definition error_code :: "srs_error_t \<Rightarrow> int" where
  "error_code err = (case err of None \<Rightarrow> ERROR_SUCCESS | Some e \<Rightarrow> e_code e)"

text \<open>\<^verbatim>\<open>copy\<close> of a chain, field by field, down to the null pointer.\<close>

primrec err_copy :: "SrsCplxError \<Rightarrow> SrsCplxError" where
  "err_copy (SrsCplxError c w m fn fl l cid en d) =
     SrsCplxError c (map_option err_copy w) m fn fl l cid en d"

text \<open>The frames from this one inwards, as the loops over \<^verbatim>\<open>next = next->wrapped\<close> visit them.\<close>

fun err_frames :: "SrsCplxError \<Rightarrow> SrsCplxError list" where
  "err_frames (SrsCplxError c w m fn fl l cid en d) = SrsCplxError c w m fn fl l cid en d #
     (case w of None \<Rightarrow> [] | Some e \<Rightarrow> err_frames e)"

definition frame_line :: "int \<Rightarrow> SrsCplxError \<Rightarrow> string" where
  "frame_line pid e = ''thread ['' @ dec_of_int pid @ '']['' @ e_cid e @ '']: '' @ e_func e @
     ''() ['' @ e_file e @ '':'' @ dec_of_int (e_line e) @ '']'' @
     ''[errno='' @ dec_of_int (e_rerrno e) @ '']''"

fun join_lines :: "string list \<Rightarrow> string" where
  "join_lines [] = []"
| "join_lines [x] = x"
| "join_lines (x # y # ys) = x @ CHR ''\<newline>'' # join_lines (y # ys)"

definition err_text :: "int \<Rightarrow> SrsCplxError \<Rightarrow> string" where
  "err_text pid e = ''code='' @ dec_of_int (e_code e) @
     concat (map (\<lambda>f. '' : '' @ e_msg f) (err_frames e)) @ CHR ''\<newline>'' #
     join_lines (map (frame_line pid) (err_frames e))"

text \<open>The private \<^verbatim>\<open>description()\<close>: the text, built on the first call and kept in \<^verbatim>\<open>desc\<close>.\<close>

definition err_set_desc :: "string \<Rightarrow> SrsCplxError \<Rightarrow> SrsCplxError" where
  "err_set_desc d e = (case e of SrsCplxError c w m fn fl l cid en _ \<Rightarrow>
     SrsCplxError c w m fn fl l cid en d)"

definition err_description :: "int \<Rightarrow> SrsCplxError \<Rightarrow> string \<times> SrsCplxError" where
  "err_description pid e =
     (let e' = (if e_desc e = [] then err_set_desc (err_text pid e) e else e)
      in (e_desc e', e'))"

definition error_description :: "int \<Rightarrow> srs_error_t \<Rightarrow> string \<times> srs_error_t" where
  "error_description pid err = (case err of
      None \<Rightarrow> (''Success'', None)
    | Some e \<Rightarrow> (case err_description pid e of (d, e') \<Rightarrow> (d, Some e')))"

subsection \<open>The codes are told apart\<close>

text \<open>
  A table that ascends, from one code to the next, has no code twice; the check is one pass.
\<close>

fun ascending :: "int \<Rightarrow> int list \<Rightarrow> bool" where
  "ascending lo [] = True"
| "ascending lo (x # xs) = (lo < x \<and> ascending x xs)"

lemma ascending_bound: "ascending lo xs \<Longrightarrow> \<forall>x \<in> set xs. lo < x"
  by (induction lo xs rule: ascending.induct) auto

lemma ascending_distinct: "ascending lo xs \<Longrightarrow> distinct xs"
  by (induction lo xs rule: ascending.induct) (auto dest: ascending_bound)

lemma ascending_append:
  "ascending lo xs \<Longrightarrow> (\<forall>x \<in> set xs. x < m) \<Longrightarrow> lo < m \<Longrightarrow> ascending m ys \<Longrightarrow> ascending lo (xs @ m # ys)"
  by (induction lo xs rule: ascending.induct) auto

lemma error_table_ascending: "ascending 0 (map snd error_table)"
  by (simp add: error_table_def system_errors_def rtmp_errors_def app_errors_def http_errors_def
      rtc_errors_def user_errors_def)

text \<open>
  No two of the named error codes have the same number and none of them is the number of
  success, so the code of an error names its kind; the three codes of the AMF0 codec are in the table.
\<close>

theorem error_codes_distinct:
  "distinct (map snd error_table) \<and> ERROR_SUCCESS \<notin> set (map snd error_table) \<and>
   map_of error_table ''ERROR_RTMP_AMF0_DECODE'' = Some ERROR_RTMP_AMF0_DECODE \<and>
   map_of error_table ''ERROR_RTMP_AMF0_INVALID'' = Some ERROR_RTMP_AMF0_INVALID \<and>
   map_of error_table ''ERROR_RTMP_AMF0_ENCODE'' = Some ERROR_RTMP_AMF0_ENCODE"
proof -
  have "ERROR_SUCCESS \<notin> set (map snd error_table)"
    using ascending_bound [OF error_table_ascending] by (auto simp: ERROR_SUCCESS_def)
  moreover have "map_of error_table ''ERROR_RTMP_AMF0_DECODE'' = Some ERROR_RTMP_AMF0_DECODE"
    and "map_of error_table ''ERROR_RTMP_AMF0_INVALID'' = Some ERROR_RTMP_AMF0_INVALID"
    and "map_of error_table ''ERROR_RTMP_AMF0_ENCODE'' = Some ERROR_RTMP_AMF0_ENCODE"
    by (simp_all add: error_table_def system_errors_def rtmp_errors_def
        ERROR_RTMP_AMF0_DECODE_def ERROR_RTMP_AMF0_INVALID_def ERROR_RTMP_AMF0_ENCODE_def)
  ultimately show ?thesis
    using ascending_distinct [OF error_table_ascending] by blast
qed

subsection \<open>The chain implements a code with a trail\<close>

definition abs_error :: "SrsCplxError \<Rightarrow> srs_error" where
  "abs_error e = SrsError (e_code e) (map e_msg (err_frames e))"

lemma err_copy_same: "err_copy e = e"
proof (induction e)
  case (SrsCplxError c w m fn fl l cid en d)
  then show ?case by (cases w) simp_all
qed

lemma frames_create: "err_frames (err_create env loc c m) = [err_create env loc c m]"
  by (simp add: err_create_def split: prod.splits)

lemma frames_wrap:
  "err_frames (err_wrap env loc (Some e) m) = err_wrap env loc (Some e) m # err_frames e"
  by (cases loc) (simp add: err_wrap_def)

lemma set_desc_sel [simp]:
  "e_code (err_set_desc d e) = e_code e" "e_msg (err_set_desc d e) = e_msg e"
  "e_desc (err_set_desc d e) = d" "e_wrapped (err_set_desc d e) = e_wrapped e"
  "e_func (err_set_desc d e) = e_func e" "e_file (err_set_desc d e) = e_file e"
  "e_line (err_set_desc d e) = e_line e" "e_cid (err_set_desc d e) = e_cid e"
  "e_rerrno (err_set_desc d e) = e_rerrno e"
  by (simp_all add: err_set_desc_def split: SrsCplxError.split)

lemma frames_hd_tl: "err_frames e = e # tl (err_frames e)"
  by (cases e) simp

lemma frames_set_desc: "err_frames (err_set_desc d e) = err_set_desc d e # tl (err_frames e)"
  by (cases e) (simp add: err_set_desc_def)

lemma text_set_desc: "err_text pid (err_set_desc d e) = err_text pid e"
proof -
  have "map (frame_line pid) (err_frames (err_set_desc d e)) = map (frame_line pid) (err_frames e)"
    by (subst (2) frames_hd_tl) (simp add: frames_set_desc frame_line_def)
  moreover have "map (\<lambda>f. '' : '' @ e_msg f) (err_frames (err_set_desc d e)) =
      map (\<lambda>f. '' : '' @ e_msg f) (err_frames e)"
    by (subst (2) frames_hd_tl) (simp add: frames_set_desc)
  ultimately show ?thesis by (simp add: err_text_def)
qed

lemma err_text_not_Nil [simp]: "err_text pid e \<noteq> []"
  by (simp add: err_text_def)

lemma abs_create: "abs_error (err_create env loc c m) = srs_error_new c (err_message m)"
  by (simp add: abs_error_def frames_create srs_error_new_def)
     (simp add: err_create_def split: prod.splits)

lemma abs_wrap:
  "abs_error (err_wrap env loc (Some e) m) = srs_error_wrap (abs_error e) (err_message m)"
  by (simp add: abs_error_def frames_wrap srs_error_wrap_def)
     (simp add: err_wrap_def split: prod.splits)

lemma abs_set_desc: "abs_error (err_set_desc d e) = abs_error e"
proof -
  have "map e_msg (err_frames (err_set_desc d e)) = map e_msg (err_frames e)"
    by (subst (2) frames_hd_tl) (simp add: frames_set_desc)
  then show ?thesis by (simp add: abs_error_def)
qed

lemma snd_description: "snd (err_description pid e) =
    (if e_desc e = [] then err_set_desc (err_text pid e) e else e)"
  by (simp add: err_description_def Let_def)

text \<open>
  C38. The error object implements the errors the other components are modelled with: creating,
  wrapping, copying and describing chains of \<^verbatim>\<open>SrsCplxError\<close> is creating an error with a code and
  one message, putting a message in front of the trail, and twice leaving it as it is; the code an
  \<^verbatim>\<open>srs_error_t\<close> reports is that error's, and success reports \<^verbatim>\<open>ERROR_SUCCESS\<close>.
\<close>

theorem error_chain_refines:
  "abs_error (err_create env loc c m) = srs_error_new c (err_message m) \<and>
   abs_error (err_wrap env loc (Some e) m) = srs_error_wrap (abs_error e) (err_message m) \<and>
   abs_error (err_copy e) = abs_error e \<and> err_copy e = e \<and>
   abs_error (snd (err_description pid e)) = abs_error e \<and>
   error_code (Some e) = err_code (abs_error e) \<and> error_code None = ERROR_SUCCESS"
  by (simp add: abs_create abs_wrap err_copy_same snd_description abs_set_desc error_code_def)
     (simp add: abs_error_def)

text \<open>What every chain the program built knows of its description: none yet, or the text.\<close>

definition desc_ok :: "int \<Rightarrow> SrsCplxError \<Rightarrow> bool" where
  "desc_ok pid e \<longleftrightarrow> e_desc e = [] \<or> e_desc e = err_text pid e"

lemma description_text: "desc_ok pid e \<Longrightarrow> fst (err_description pid e) = err_text pid e"
  by (auto simp: desc_ok_def err_description_def)

inductive built_by :: "int \<Rightarrow> SrsCplxError \<Rightarrow> bool" for pid where
  by_create: "built_by pid (err_create env loc c m)"
| by_wrap: "built_by pid e \<Longrightarrow> built_by pid (err_wrap env loc (Some e) m)"
| by_copy: "built_by pid e \<Longrightarrow> built_by pid (err_copy e)"
| by_described: "built_by pid e \<Longrightarrow> built_by pid (snd (err_description pid e))"

lemma built_desc_ok: "built_by pid e \<Longrightarrow> desc_ok pid e"
proof (induction rule: built_by.induct)
  case (by_create env loc c m)
  then show ?case by (simp add: desc_ok_def err_create_def split: prod.splits)
next
  case (by_wrap e env loc m)
  then show ?case by (simp add: desc_ok_def err_wrap_def split: prod.splits)
next
  case (by_copy e)
  then show ?case by (simp add: err_copy_same)
next
  case (by_described e)
  then show ?case by (auto simp: snd_description desc_ok_def text_set_desc)
qed

lemma built_same_code: "built_by pid e \<Longrightarrow> f \<in> set (err_frames e) \<Longrightarrow> e_code f = e_code e"
proof (induction arbitrary: f rule: built_by.induct)
  case (by_create env loc c m)
  then show ?case by (simp add: frames_create)
next
  case (by_wrap e env loc m)
  then show ?case by (cases loc) (auto simp: frames_wrap err_wrap_def)
next
  case (by_copy e)
  then show ?case by (simp add: err_copy_same)
next
  case (by_described e)
  from by_described.prems have "f = e \<or> f = err_set_desc (err_text pid e) e \<or> f \<in> set (tl (err_frames e))"
    by (subst (asm) frames_hd_tl) (auto simp: snd_description frames_set_desc split: if_splits)
  moreover have "set (tl (err_frames e)) \<subseteq> set (err_frames e)"
    by (cases "err_frames e") auto
  ultimately show ?case using by_described.IH by (auto simp: snd_description)
qed

text \<open>
  The description of any chain the program has built, however it was wrapped, copied and
  described before, starts with the code and the messages, outermost first, on one line, and goes
  on with one line per frame; describing it again gives the same text and changes nothing, and
  every frame of the chain carries the same code.
\<close>

theorem error_description_text:
  assumes "built_by pid e"
  shows "fst (error_description pid (Some e)) =
      ''code='' @ dec_of_int (err_code (abs_error e)) @
      concat (map (\<lambda>m. '' : '' @ m) (err_trail (abs_error e))) @ CHR ''\<newline>'' #
      join_lines (map (frame_line pid) (err_frames e)) \<and>
    error_description pid (snd (error_description pid (Some e))) = error_description pid (Some e) \<and>
    (\<forall>f \<in> set (err_frames e). e_code f = e_code e)"
proof -
  have "fst (err_description pid e) = err_text pid e"
    using assms by (simp add: built_desc_ok description_text)
  moreover have "err_description pid (snd (err_description pid e)) = err_description pid e"
    by (simp add: err_description_def Let_def)
  moreover have "\<forall>f \<in> set (err_frames e). e_code f = e_code e"
    using assms built_same_code by blast
  ultimately show ?thesis
    by (cases "err_description pid e") (simp add: error_description_def abs_error_def err_text_def comp_def split: prod.splits)
qed

theorem error_description_text_witness:
  "let env = \<lparr>env_errno = 0, env_context = None\<rparr>;
       e = err_create env (''read'', ''amf0.cpp'', 597) 2003 ''EOF'';
       w = err_wrap env (''main'', ''main.cpp'', 10) (Some e) ''read''
   in fst (error_description 7 (Some w)) = ''code=2003 : read : EOF'' @ CHR ''\<newline>'' #
     ''thread [7][]: main() [main.cpp:10][errno=0]'' @ CHR ''\<newline>'' #
     ''thread [7][]: read() [amf0.cpp:597][errno=0]''"
proof -
  let ?env = "\<lparr>env_errno = 0, env_context = None\<rparr>"
  let ?e = "err_create ?env (''read'', ''amf0.cpp'', 597) 2003 ''EOF''"
  let ?w = "err_wrap ?env (''main'', ''main.cpp'', 10) (Some ?e) ''read''"
  have "built_by 7 ?w" by (intro by_wrap by_create)
  note error_description_text [OF this]
  then show ?thesis
    by (simp add: frames_wrap frames_create abs_create abs_wrap srs_error_new_def srs_error_wrap_def
        frame_line_def Let_def)
      (simp add: err_wrap_def err_create_def err_message_def err_cid_def dec_of_int_def
        dec_of_nat.simps)
qed

end
