(* ===== verification/PropTable.thy ===== *)
theory PropTable
  imports Prelude
begin

section \<open>The table of properties\<close>

text \<open>
  \<^verbatim>\<open>SrsUnSortedHashtable\<close> of \<^verbatim>\<open>srs_protocol_amf0.cpp\<close>: a vector of key and value pairs searched from
  the front, which objects and ECMA arrays of AMF0 keep their properties in. The values are the
  parameter \<open>'v\<close>: the table never looks into them, but for the type tests of
  \<^verbatim>\<open>ensure_property_*\<close>, which are a predicate here. The locale \<open>property_table\<close> is the interface its
  users rely on; the JSON object, whose vector is its own, provides it too.
\<close>

type_synonym 'v props = "(string \<times> 'v) list"

subsection \<open>Operations\<close>

definition props_count :: "'v props \<Rightarrow> int" where
  "props_count ps = int_of_size (length ps)"

definition props_clear :: "'v props \<Rightarrow> 'v props" where
  "props_clear ps = []"

text \<open>
  \<^verbatim>\<open>properties[index]\<close> behind \<^verbatim>\<open>srs_assert(index < count())\<close>: the assertion says nothing of a
  negative index, which is undefined behaviour.
\<close>

definition props_at :: "int \<Rightarrow> 'v props \<Rightarrow> (string \<times> 'v) outcome" where
  "props_at index ps =
     (if \<not> index < props_count ps then Panic AssertFailed
      else if index < 0 then Panic UndefinedBehaviour
      else Ok (ps ! nat index))"

definition key_at :: "int \<Rightarrow> 'v props \<Rightarrow> string outcome" where
  "key_at index ps = map_outcome fst (props_at index ps)"

definition value_at :: "int \<Rightarrow> 'v props \<Rightarrow> 'v outcome" where
  "value_at index ps = map_outcome snd (props_at index ps)"

text \<open>The first loop of \<^verbatim>\<open>set\<close>: erase the first pair with the key and stop.\<close>

fun erase_first :: "string \<Rightarrow> 'v props \<Rightarrow> 'v props" where
  "erase_first key [] = []"
| "erase_first key ((name, any) # ps) =
     (if key = name then ps else (name, any) # erase_first key ps)"

text \<open>\<open>None\<close> is a null pointer: the key is erased and nothing is put in its place.\<close>

definition props_set :: "string \<Rightarrow> 'v option \<Rightarrow> 'v props \<Rightarrow> 'v props" where
  "props_set key value ps = (case value of
      None \<Rightarrow> erase_first key ps
    | Some v \<Rightarrow> erase_first key ps @ [(key, v)])"

fun get_property :: "string \<Rightarrow> 'v props \<Rightarrow> 'v option" where
  "get_property name [] = None"
| "get_property name ((key, any) # ps) = (if key = name then Some any else get_property name ps)"

text \<open>\<^verbatim>\<open>ensure_property_string\<close> and the like; \<open>P\<close> is the test \<^verbatim>\<open>is_string()\<close>.\<close>

definition ensure_property :: "('v \<Rightarrow> bool) \<Rightarrow> string \<Rightarrow> 'v props \<Rightarrow> 'v option" where
  "ensure_property P name ps = (case get_property name ps of
      None \<Rightarrow> None
    | Some prop \<Rightarrow> if \<not> P prop then None else Some prop)"

fun props_remove :: "string \<Rightarrow> 'v props \<Rightarrow> 'v props" where
  "props_remove name [] = []"
| "props_remove name ((key, any) # ps) =
     (if key = name then props_remove name ps else (key, any) # props_remove name ps)"

text \<open>\<open>cp\<close> is the virtual \<^verbatim>\<open>copy()\<close> of the values, none of which returns null.\<close>

definition props_copy :: "('v \<Rightarrow> 'v) \<Rightarrow> 'v props \<Rightarrow> 'v props \<Rightarrow> 'v props" where
  "props_copy cp src ps = foldl (\<lambda>t (key, any). props_set key (Some (cp any)) t) ps src"

lemma props_copy_cong [fundef_cong]:
  assumes "src = src'" and "ps = ps'" and "\<And>k v. (k, v) \<in> set src' \<Longrightarrow> cp v = cp' v"
  shows "props_copy cp src ps = props_copy cp' src' ps'"
proof -
  have "foldl (\<lambda>t (k, v). props_set k (Some (cp v)) t) qs src' =
      foldl (\<lambda>t (k, v). props_set k (Some (cp' v)) t) qs src'" for qs
    by (rule foldl_cong) (auto simp: assms(3))
  with assms(1,2) show ?thesis by (simp add: props_copy_def)
qed

subsection \<open>Laws of the operations\<close>

lemma get_property_map_of: "get_property name ps = map_of ps name"
  by (induction name ps rule: get_property.induct) auto

lemma erase_first_notin: "key \<notin> fst ` set ps \<Longrightarrow> erase_first key ps = ps"
  by (induction key ps rule: erase_first.induct) auto

lemma erase_first_filter:
  "distinct (map fst ps) \<Longrightarrow> erase_first key ps = filter (\<lambda>(k, v). k \<noteq> key) ps"
proof (induction key ps rule: erase_first.induct)
  case (2 key name any ps)
  then have "key = name \<Longrightarrow> filter (\<lambda>(k, v). k \<noteq> key) ps = ps"
    by (force simp: filter_id_conv)
  with 2 show ?case by auto
qed simp

lemma props_remove_filter: "props_remove name ps = filter (\<lambda>(k, v). k \<noteq> name) ps"
  by (induction name ps rule: props_remove.induct) auto

lemma map_of_filter_key: "map_of (filter (\<lambda>(k, v). k \<noteq> key) ps) = (map_of ps)(key := None)"
  by (induction ps) (auto simp: fun_eq_iff)

lemma distinct_filter_key:
  "distinct (map fst ps) \<Longrightarrow> distinct (map fst (filter (\<lambda>(k, v). k \<noteq> key) ps))"
  by (induction ps) auto

lemma props_set_entries:
  "distinct (map fst ps) \<Longrightarrow> props_set key (Some v) ps = filter (\<lambda>(k, v). k \<noteq> key) ps @ [(key, v)]"
  by (simp add: props_set_def erase_first_filter)

lemma props_set_distinct:
  "distinct (map fst ps) \<Longrightarrow> distinct (map fst (props_set key value ps))"
  by (auto simp: props_set_def erase_first_filter distinct_filter_key split: option.split)

lemma props_set_map_of:
  "distinct (map fst ps) \<Longrightarrow> map_of (props_set key value ps) = (map_of ps)(key := value)"
  by (auto simp: props_set_def erase_first_filter map_of_filter_key map_add_def
      split: option.split)

lemma props_remove_distinct:
  "distinct (map fst ps) \<Longrightarrow> distinct (map fst (props_remove name ps))"
  by (simp add: props_remove_filter distinct_filter_key)

subsection \<open>The interface\<close>

text \<open>
  A table \<open>'t\<close> with an insertion, a lookup and the list of its entries: an entry put in goes to the
  end, any earlier one of its key goes away, and the lookup is that of the list.
\<close>

locale property_table =
  fixes put :: "string \<Rightarrow> 'v \<Rightarrow> 't \<Rightarrow> 't"
    and lookup :: "'t \<Rightarrow> string \<Rightarrow> 'v option"
    and entries :: "'t \<Rightarrow> (string \<times> 'v) list"
    and inv :: "'t \<Rightarrow> bool"
  assumes inv_put: "inv t \<Longrightarrow> inv (put k v t)"
    and inv_distinct: "inv t \<Longrightarrow> distinct (map fst (entries t))"
    and lookup_entries: "inv t \<Longrightarrow> lookup t k = map_of (entries t) k"
    and entries_put: "inv t \<Longrightarrow>
      entries (put k v t) = filter (\<lambda>(k', v). k' \<noteq> k) (entries t) @ [(k, v)]"
begin

definition fill :: "'t \<Rightarrow> (string \<times> 'v) list \<Rightarrow> 't" where
  "fill t kvs = foldl (\<lambda>t (k, v). put k v t) t kvs"

lemma fill_Nil [simp]: "fill t [] = t"
  by (simp add: fill_def)

lemma fill_Cons [simp]: "fill t ((k, v) # kvs) = fill (put k v t) kvs"
  by (simp add: fill_def)

lemma lookup_put: "inv t \<Longrightarrow> lookup (put k v t) k' = (if k' = k then Some v else lookup t k')"
  by (auto simp: lookup_entries inv_put entries_put map_of_filter_key map_add_def split: option.split)

lemma inv_fill: "inv t \<Longrightarrow> inv (fill t kvs)"
  by (induction kvs arbitrary: t) (auto simp: inv_put)

lemma lookup_fill: "inv t \<Longrightarrow>
    lookup (fill t kvs) k = (case map_of (rev kvs) k of None \<Rightarrow> lookup t k | Some v \<Rightarrow> Some v)"
  by (induction kvs arbitrary: t)
    (auto simp: inv_put lookup_put map_add_def split: option.split)

lemma entries_fill: "inv t \<Longrightarrow> distinct (map fst (entries t @ kvs)) \<Longrightarrow>
    entries (fill t kvs) = entries t @ kvs"
proof (induction kvs arbitrary: t)
  case (Cons kv kvs)
  obtain k v where kv: "kv = (k, v)" by (cases kv)
  with Cons.prems have "filter (\<lambda>(k', v). k' \<noteq> k) (entries t) = entries t"
    by (force simp: filter_id_conv)
  then have "entries (put k v t) = entries t @ [(k, v)]"
    using Cons.prems(1) by (simp add: entries_put)
  with Cons kv show ?case by (simp add: inv_put)
qed simp

text \<open>Putting the entries of a table into an empty one rebuilds it.\<close>

lemma rebuild: "inv e \<Longrightarrow> entries e = [] \<Longrightarrow> distinct (map fst kvs) \<Longrightarrow> entries (fill e kvs) = kvs"
  by (simp add: entries_fill)

end

interpretation hashtable: property_table "\<lambda>k v. props_set k (Some v)" "\<lambda>ps k. get_property k ps"
  "\<lambda>ps. ps" "\<lambda>ps. distinct (map fst ps)"
  by unfold_locales
    (auto simp: props_set_distinct get_property_map_of props_set_entries distinct_filter_key)

lemma props_copy_fill: "props_copy cp src ps = hashtable.fill ps (map (map_prod id cp) src)"
  unfolding props_copy_def by (induction src arbitrary: ps) auto

lemma props_copy_new: "distinct (map fst src) \<Longrightarrow> props_copy cp src [] = map (map_prod id cp) src"
  by (simp add: props_copy_fill hashtable.rebuild comp_def)

lemma props_copy_distinct: "distinct (map fst ps) \<Longrightarrow> distinct (map fst (props_copy cp src ps))"
  by (simp add: props_copy_fill hashtable.inv_fill)

subsection \<open>The table refines a map\<close>

datatype 'v table_op = TSet string "'v option" | TRemove string | TClear | TCopy "'v props"

fun table_step :: "('v \<Rightarrow> 'v) \<Rightarrow> 'v table_op \<Rightarrow> 'v props \<Rightarrow> 'v props" where
  "table_step cp (TSet k v) ps = props_set k v ps"
| "table_step cp (TRemove k) ps = props_remove k ps"
| "table_step cp TClear ps = props_clear ps"
| "table_step cp (TCopy src) ps = props_copy cp src ps"

fun map_step :: "('v \<Rightarrow> 'v) \<Rightarrow> 'v table_op \<Rightarrow> (string \<rightharpoonup> 'v) \<Rightarrow> (string \<rightharpoonup> 'v)" where
  "map_step cp (TSet k v) m = m(k := v)"
| "map_step cp (TRemove k) m = m(k := None)"
| "map_step cp TClear m = Map.empty"
| "map_step cp (TCopy src) m = m ++ (map_option cp \<circ> map_of (rev src))"

definition table_run :: "('v \<Rightarrow> 'v) \<Rightarrow> 'v table_op list \<Rightarrow> 'v props" where
  "table_run cp xs = fold (table_step cp) xs []"

definition map_run :: "('v \<Rightarrow> 'v) \<Rightarrow> 'v table_op list \<Rightarrow> (string \<rightharpoonup> 'v)" where
  "map_run cp xs = fold (map_step cp) xs Map.empty"

lemma table_step_distinct: "distinct (map fst ps) \<Longrightarrow> distinct (map fst (table_step cp x ps))"
  by (cases x) (simp_all add: props_set_distinct props_remove_distinct props_clear_def
      props_copy_distinct)

lemma map_of_prod_id: "map_of (map (map_prod id f) ps) k = map_option f (map_of ps k)"
  by (induction ps) auto

lemma table_step_map:
  assumes "distinct (map fst ps)"
  shows "map_of (table_step cp x ps) = map_step cp x (map_of ps)"
proof (cases x)
  case (TCopy src)
  have "map_of (props_copy cp src ps) k = (map_of ps ++ (map_option cp \<circ> map_of (rev src))) k" for k
    using assms hashtable.lookup_fill [OF assms, where kvs = "map (map_prod id cp) src" and k = k]
    by (simp add: props_copy_fill get_property_map_of map_add_def map_of_prod_id rev_map
        split: option.split)
  then show ?thesis by (simp add: TCopy fun_eq_iff)
next
  case (TRemove k)
  then show ?thesis by (simp add: props_remove_filter map_of_filter_key)
qed (simp_all add: assms props_set_map_of props_clear_def)

lemma table_run_map:
  "distinct (map fst (table_run cp xs)) \<and> map_of (table_run cp xs) = map_run cp xs"
proof (induction xs rule: rev_induct)
  case Nil
  then show ?case by (simp add: table_run_def map_run_def)
next
  case (snoc x xs)
  then show ?case
    by (simp add: table_run_def map_run_def table_step_map) (simp add: table_step_distinct)
qed

text \<open>
  C13. After any sequence of \<^verbatim>\<open>set\<close> (of a value or of null), \<^verbatim>\<open>remove\<close>, \<^verbatim>\<open>clear\<close> and \<^verbatim>\<open>copy\<close> into it,
  the table is the map the same sequence makes of an empty map: its keys are distinct, the lookup of
  a key is the map's, the count is the number of keys, and each index below the count gives the key
  and the value of one binding.
\<close>

theorem hashtable_refines_map:
  fixes xs :: "'v table_op list" and cp :: "'v \<Rightarrow> 'v"
  defines "ps \<equiv> table_run cp xs" and "m \<equiv> map_run cp xs"
  shows "(\<forall>k. get_property k ps = m k) \<and> props_count ps = int_of_size (card (dom m)) \<and>
    distinct (map fst ps) \<and>
    (\<forall>i. 0 \<le> i \<longrightarrow> i < props_count ps \<longrightarrow>
      (\<exists>k v. key_at i ps = Ok k \<and> value_at i ps = Ok v \<and> m k = Some v))"
proof -
  have d: "distinct (map fst ps)" and m: "map_of ps = m"
    using table_run_map by (auto simp: ps_def m_def)
  then have "card (dom m) = length ps"
    by (metis dom_map_of_conv_image_fst distinct_card length_map set_map)
  moreover have "\<exists>k v. key_at i ps = Ok k \<and> value_at i ps = Ok v \<and> m k = Some v"
    if "0 \<le> i" "i < props_count ps" for i
  proof -
    have "int_of_size (length ps) \<le> int (length ps)"
      by (simp add: int_of_size_def signed_of_nat signed_take_bit_int_less_eq_self_iff)
    with that have "nat i < length ps" by (simp add: props_count_def nat_less_iff)
    then have "ps ! nat i \<in> set ps" by simp
    then have "map_of ps (fst (ps ! nat i)) = Some (snd (ps ! nat i))"
      using d by (simp add: map_of_is_SomeI)
    with that m show ?thesis
      by (intro exI [of _ "fst (ps ! nat i)"] exI [of _ "snd (ps ! nat i)"])
        (simp add: key_at_def value_at_def props_at_def)
  qed
  ultimately show ?thesis using d m
    by (simp add: get_property_map_of props_count_def)
qed

theorem hashtable_refines_map_witness:
  "value_at 1 (table_run id [TSet ''a'' (Some (1 :: int)), TSet ''b'' (Some 2), TSet ''a'' (Some 3)]) = Ok 3"
proof -
  let ?xs = "[TSet ''a'' (Some (1 :: int)), TSet ''b'' (Some 2), TSet ''a'' (Some 3)]"
  have ps: "table_run id ?xs = [(''b'', 2), (''a'', 3)]"
    by (simp add: table_run_def props_set_def)
  have c: "props_count (table_run id ?xs) = 2"
    by (simp add: ps props_count_def int_of_size_small)
  have "\<exists>k v. key_at 1 (table_run id ?xs) = Ok k \<and> value_at 1 (table_run id ?xs) = Ok v \<and>
      map_run id ?xs k = Some v"
    using hashtable_refines_map [of id ?xs] by (simp add: c)
  then show ?thesis
    by (auto simp: c key_at_def props_at_def map_run_def) (simp add: ps)
qed

end
