(* ===== verification/Amf0Value.thy ===== *)
theory Amf0Value
  imports KernelBuffer KernelError PropTable
begin

section \<open>AMF0 values\<close>

text \<open>
  The classes of \<^verbatim>\<open>srs_protocol_amf0.hpp\<close> as one datatype, with the operations of
  \<^verbatim>\<open>srs_protocol_amf0.cpp\<close> that look at a value or change it without a stream: markers, type
  tests, conversions, the containers' operations, sizes and copies. The lemmas show that the tests
  and the conversions agree, that a copy is the value cut at the NULs of its strings, and what
  keeps a value well formed.
\<close>

subsection \<open>Markers and values\<close>

definition RTMP_AMF0_Number :: byte where "RTMP_AMF0_Number = 0x00"
definition RTMP_AMF0_Boolean :: byte where "RTMP_AMF0_Boolean = 0x01"
definition RTMP_AMF0_String :: byte where "RTMP_AMF0_String = 0x02"
definition RTMP_AMF0_Object :: byte where "RTMP_AMF0_Object = 0x03"
definition RTMP_AMF0_Null :: byte where "RTMP_AMF0_Null = 0x05"
definition RTMP_AMF0_Undefined :: byte where "RTMP_AMF0_Undefined = 0x06"
definition RTMP_AMF0_EcmaArray :: byte where "RTMP_AMF0_EcmaArray = 0x08"
definition RTMP_AMF0_ObjectEnd :: byte where "RTMP_AMF0_ObjectEnd = 0x09"
definition RTMP_AMF0_StrictArray :: byte where "RTMP_AMF0_StrictArray = 0x0A"
definition RTMP_AMF0_Date :: byte where "RTMP_AMF0_Date = 0x0B"

lemmas marker_defs = RTMP_AMF0_Number_def RTMP_AMF0_Boolean_def RTMP_AMF0_String_def
  RTMP_AMF0_Object_def RTMP_AMF0_Null_def RTMP_AMF0_Undefined_def RTMP_AMF0_EcmaArray_def
  RTMP_AMF0_ObjectEnd_def RTMP_AMF0_StrictArray_def RTMP_AMF0_Date_def

text \<open>
  A constructor per class. A \<^verbatim>\<open>double\<close> is its eight bytes, which is all the codec looks at; the
  \<^verbatim>\<open>_count\<close> of the two array classes is a field beside the vector, the number of elements the
  peer announced; a date has its milliseconds and the time zone. A container owns its values and
  they are never null. The vectors hold fewer than \<open>2 ^ 31\<close> elements, so that the loops to
  \<^verbatim>\<open>(int)properties.size()\<close> visit all of them.
\<close>

datatype amf0 =
    Amf0Number "64 word"
  | Amf0Boolean bool
  | Amf0String string
  | Amf0Object "(string \<times> amf0) list"
  | Amf0Null
  | Amf0Undefined
  | Amf0EcmaArray "32 word" "(string \<times> amf0) list"
  | Amf0ObjectEOF
  | Amf0StrictArray "32 word" "amf0 list"
  | Amf0Date "64 word" "16 word"

fun amf0_marker :: "amf0 \<Rightarrow> byte" where
  "amf0_marker (Amf0Number _) = RTMP_AMF0_Number"
| "amf0_marker (Amf0Boolean _) = RTMP_AMF0_Boolean"
| "amf0_marker (Amf0String _) = RTMP_AMF0_String"
| "amf0_marker (Amf0Object _) = RTMP_AMF0_Object"
| "amf0_marker Amf0Null = RTMP_AMF0_Null"
| "amf0_marker Amf0Undefined = RTMP_AMF0_Undefined"
| "amf0_marker (Amf0EcmaArray _ _) = RTMP_AMF0_EcmaArray"
| "amf0_marker Amf0ObjectEOF = RTMP_AMF0_ObjectEnd"
| "amf0_marker (Amf0StrictArray _ _) = RTMP_AMF0_StrictArray"
| "amf0_marker (Amf0Date _ _) = RTMP_AMF0_Date"

definition is_string :: "amf0 \<Rightarrow> bool" where "is_string a \<longleftrightarrow> amf0_marker a = RTMP_AMF0_String"
definition is_boolean :: "amf0 \<Rightarrow> bool" where "is_boolean a \<longleftrightarrow> amf0_marker a = RTMP_AMF0_Boolean"
definition is_number :: "amf0 \<Rightarrow> bool" where "is_number a \<longleftrightarrow> amf0_marker a = RTMP_AMF0_Number"
definition is_null :: "amf0 \<Rightarrow> bool" where "is_null a \<longleftrightarrow> amf0_marker a = RTMP_AMF0_Null"
definition is_undefined :: "amf0 \<Rightarrow> bool" where "is_undefined a \<longleftrightarrow> amf0_marker a = RTMP_AMF0_Undefined"
definition is_object :: "amf0 \<Rightarrow> bool" where "is_object a \<longleftrightarrow> amf0_marker a = RTMP_AMF0_Object"
definition is_object_eof :: "amf0 \<Rightarrow> bool" where "is_object_eof a \<longleftrightarrow> amf0_marker a = RTMP_AMF0_ObjectEnd"
definition is_ecma_array :: "amf0 \<Rightarrow> bool" where "is_ecma_array a \<longleftrightarrow> amf0_marker a = RTMP_AMF0_EcmaArray"
definition is_strict_array :: "amf0 \<Rightarrow> bool" where "is_strict_array a \<longleftrightarrow> amf0_marker a = RTMP_AMF0_StrictArray"
definition is_date :: "amf0 \<Rightarrow> bool" where "is_date a \<longleftrightarrow> amf0_marker a = RTMP_AMF0_Date"

definition is_complex_object :: "amf0 \<Rightarrow> bool" where
  "is_complex_object a \<longleftrightarrow> is_object a \<or> is_object_eof a \<or> is_ecma_array a \<or> is_strict_array a"

lemmas is_defs = is_string_def is_boolean_def is_number_def is_null_def is_undefined_def
  is_object_def is_object_eof_def is_ecma_array_def is_strict_array_def is_date_def

text \<open>The conversions: a \<^verbatim>\<open>dynamic_cast\<close> and the assertion that it worked.\<close>

definition to_str :: "amf0 \<Rightarrow> string outcome" where
  "to_str a = (case a of Amf0String value \<Rightarrow> Ok value | _ \<Rightarrow> Panic AssertFailed)"

text \<open>\<^verbatim>\<open>to_str_raw\<close> returns the same characters by address; a C string ends at the first NUL.\<close>

definition to_str_raw :: "amf0 \<Rightarrow> string outcome" where
  "to_str_raw a = (case a of Amf0String value \<Rightarrow> Ok (c_str value) | _ \<Rightarrow> Panic AssertFailed)"

definition to_boolean :: "amf0 \<Rightarrow> bool outcome" where
  "to_boolean a = (case a of Amf0Boolean value \<Rightarrow> Ok value | _ \<Rightarrow> Panic AssertFailed)"

definition to_number :: "amf0 \<Rightarrow> 64 word outcome" where
  "to_number a = (case a of Amf0Number value \<Rightarrow> Ok value | _ \<Rightarrow> Panic AssertFailed)"

definition to_date :: "amf0 \<Rightarrow> 64 word outcome" where
  "to_date a = (case a of Amf0Date date _ \<Rightarrow> Ok date | _ \<Rightarrow> Panic AssertFailed)"

definition to_date_time_zone :: "amf0 \<Rightarrow> 16 word outcome" where
  "to_date_time_zone a = (case a of Amf0Date _ zone \<Rightarrow> Ok zone | _ \<Rightarrow> Panic AssertFailed)"

definition to_object :: "amf0 \<Rightarrow> (string \<times> amf0) list outcome" where
  "to_object a = (case a of Amf0Object ps \<Rightarrow> Ok ps | _ \<Rightarrow> Panic AssertFailed)"

definition to_ecma_array :: "amf0 \<Rightarrow> (32 word \<times> (string \<times> amf0) list) outcome" where
  "to_ecma_array a = (case a of Amf0EcmaArray cnt ps \<Rightarrow> Ok (cnt, ps) | _ \<Rightarrow> Panic AssertFailed)"

definition to_strict_array :: "amf0 \<Rightarrow> (32 word \<times> amf0 list) outcome" where
  "to_strict_array a = (case a of Amf0StrictArray cnt es \<Rightarrow> Ok (cnt, es) | _ \<Rightarrow> Panic AssertFailed)"

definition set_number :: "64 word \<Rightarrow> amf0 \<Rightarrow> amf0 outcome" where
  "set_number value a = (case a of Amf0Number _ \<Rightarrow> Ok (Amf0Number value) | _ \<Rightarrow> Panic AssertFailed)"

text \<open>The static constructors of \<^verbatim>\<open>SrsAmf0Any\<close>; \<^verbatim>\<open>str\<close> takes a C string.\<close>

definition amf0_str :: "string option \<Rightarrow> amf0" where
  "amf0_str v = Amf0String (case v of None \<Rightarrow> [] | Some s \<Rightarrow> c_str s)"

definition amf0_date :: "64 word \<Rightarrow> amf0" where
  "amf0_date v = Amf0Date v 0"

definition amf0_object :: amf0 where "amf0_object = Amf0Object []"
definition amf0_ecma_array :: amf0 where "amf0_ecma_array = Amf0EcmaArray 0 []"
definition amf0_strict_array :: amf0 where "amf0_strict_array = Amf0StrictArray 0 []"

subsection \<open>The containers\<close>

text \<open>
  An object passes each operation on to its table, and so does an ECMA array, which has a table and
  \<^verbatim>\<open>_count\<close>: only reading from a stream changes the count, none of the operations does. Appending to
  a strict array updates its count, clearing it does not.
\<close>

type_synonym amf0_props = "(string \<times> amf0) list"
type_synonym amf0_ecma = "32 word \<times> (string \<times> amf0) list"
type_synonym amf0_strict = "32 word \<times> amf0 list"

definition ensure_property_string :: "string \<Rightarrow> amf0_props \<Rightarrow> amf0 option" where
  "ensure_property_string name ps = (case get_property name ps of
      None \<Rightarrow> None
    | Some prop \<Rightarrow> if \<not> is_string prop then None else Some prop)"

definition ensure_property_number :: "string \<Rightarrow> amf0_props \<Rightarrow> amf0 option" where
  "ensure_property_number name ps = (case get_property name ps of
      None \<Rightarrow> None
    | Some prop \<Rightarrow> if \<not> is_number prop then None else Some prop)"

definition object_clear :: "amf0_props \<Rightarrow> amf0_props" where
  "object_clear ps = props_clear ps"

definition object_count :: "amf0_props \<Rightarrow> int" where
  "object_count ps = props_count ps"

definition object_key_at :: "int \<Rightarrow> amf0_props \<Rightarrow> string outcome" where
  "object_key_at index ps = key_at index ps"

definition object_value_at :: "int \<Rightarrow> amf0_props \<Rightarrow> amf0 outcome" where
  "object_value_at index ps = value_at index ps"

definition object_set :: "string \<Rightarrow> amf0 option \<Rightarrow> amf0_props \<Rightarrow> amf0_props" where
  "object_set key value ps = props_set key value ps"

definition object_get_property :: "string \<Rightarrow> amf0_props \<Rightarrow> amf0 option" where
  "object_get_property name ps = get_property name ps"

definition object_ensure_property_string :: "string \<Rightarrow> amf0_props \<Rightarrow> amf0 option" where
  "object_ensure_property_string name ps = ensure_property_string name ps"

definition object_ensure_property_number :: "string \<Rightarrow> amf0_props \<Rightarrow> amf0 option" where
  "object_ensure_property_number name ps = ensure_property_number name ps"

definition object_remove :: "string \<Rightarrow> amf0_props \<Rightarrow> amf0_props" where
  "object_remove name ps = props_remove name ps"

definition ecma_clear :: "amf0_ecma \<Rightarrow> amf0_ecma" where
  "ecma_clear a = (fst a, props_clear (snd a))"

definition ecma_count :: "amf0_ecma \<Rightarrow> int" where
  "ecma_count a = props_count (snd a)"

definition ecma_key_at :: "int \<Rightarrow> amf0_ecma \<Rightarrow> string outcome" where
  "ecma_key_at index a = key_at index (snd a)"

definition ecma_value_at :: "int \<Rightarrow> amf0_ecma \<Rightarrow> amf0 outcome" where
  "ecma_value_at index a = value_at index (snd a)"

definition ecma_set :: "string \<Rightarrow> amf0 option \<Rightarrow> amf0_ecma \<Rightarrow> amf0_ecma" where
  "ecma_set key value a = (fst a, props_set key value (snd a))"

definition ecma_get_property :: "string \<Rightarrow> amf0_ecma \<Rightarrow> amf0 option" where
  "ecma_get_property name a = get_property name (snd a)"

definition ecma_ensure_property_string :: "string \<Rightarrow> amf0_ecma \<Rightarrow> amf0 option" where
  "ecma_ensure_property_string name a = ensure_property_string name (snd a)"

definition ecma_ensure_property_number :: "string \<Rightarrow> amf0_ecma \<Rightarrow> amf0 option" where
  "ecma_ensure_property_number name a = ensure_property_number name (snd a)"

definition arr_append :: "amf0 \<Rightarrow> amf0_strict \<Rightarrow> amf0_strict" where
  "arr_append any a = (case a of (cnt, es) \<Rightarrow>
     (let es' = es @ [any] in (word_of_nat (length es'), es')))"

definition arr_clear :: "amf0_strict \<Rightarrow> amf0_strict" where
  "arr_clear a = (fst a, [])"

definition arr_count :: "amf0_strict \<Rightarrow> int" where
  "arr_count a = int_of_size (length (snd a))"

text \<open>\<^verbatim>\<open>at\<close>: the assertion, then \<^verbatim>\<open>vector::at\<close>, which throws on an index a negative number becomes.\<close>

definition arr_at :: "int \<Rightarrow> amf0_strict \<Rightarrow> amf0 outcome" where
  "arr_at index a =
     (if \<not> index < arr_count a then Panic AssertFailed
      else if index < 0 then Panic UncaughtException
      else Ok (snd a ! nat index))"

subsection \<open>Sizes\<close>

text \<open>An addition of two \<^verbatim>\<open>int\<close>s, undefined when the sum is not an \<^verbatim>\<open>int\<close>.\<close>

definition int_add :: "int \<Rightarrow> int \<Rightarrow> int outcome" where
  "int_add a b = (if - (2 ^ 31) \<le> a + b \<and> a + b < 2 ^ 31 then Ok (a + b)
     else Panic UndefinedBehaviour)"

definition size_utf8 :: "string \<Rightarrow> int" where
  "size_utf8 value = int_of_size (2 + length value)"

definition size_str :: "string \<Rightarrow> int outcome" where
  "size_str value = int_add 1 (size_utf8 value)"

definition size_number :: int where "size_number = 1 + 8"
definition size_date :: int where "size_date = 1 + 8 + 2"
definition size_null :: int where "size_null = 1"
definition size_undefined :: int where "size_undefined = 1"
definition size_boolean :: int where "size_boolean = 1 + 1"
definition size_object_eof :: int where "size_object_eof = 2 + 1"

lemmas size_defs = size_number_def size_date_def size_null_def size_undefined_def
  size_boolean_def size_object_eof_def

text \<open>
  \<^verbatim>\<open>total_size\<close> of the containers, around their loops, and of each class; the loops add to \<open>acc\<close>, the variable \<^verbatim>\<open>size\<close>, in the code's order.
\<close>

definition object_size :: "(int \<Rightarrow> int outcome) \<Rightarrow> int outcome" where
  "object_size loop = then_do (loop 1) (\<lambda>n. int_add n size_object_eof)"

definition ecma_size :: "(int \<Rightarrow> int outcome) \<Rightarrow> int outcome" where
  "ecma_size loop = then_do (loop (1 + 4)) (\<lambda>n. int_add n size_object_eof)"

definition strict_size :: "(int \<Rightarrow> int outcome) \<Rightarrow> int outcome" where
  "strict_size loop = loop (1 + 4)"

lemmas container_size_defs = object_size_def ecma_size_def strict_size_def

fun total_size :: "amf0 \<Rightarrow> int outcome"
  and props_size :: "int \<Rightarrow> (string \<times> amf0) list \<Rightarrow> int outcome"
  and elems_size :: "int \<Rightarrow> amf0 list \<Rightarrow> int outcome" where
  "total_size (Amf0Number _) = Ok size_number"
| "total_size (Amf0Boolean _) = Ok size_boolean"
| "total_size (Amf0String value) = size_str value"
| "total_size (Amf0Object ps) = object_size (\<lambda>acc. props_size acc ps)"
| "total_size Amf0Null = Ok size_null"
| "total_size Amf0Undefined = Ok size_undefined"
| "total_size (Amf0EcmaArray cnt ps) = ecma_size (\<lambda>acc. props_size acc ps)"
| "total_size Amf0ObjectEOF = Ok size_object_eof"
| "total_size (Amf0StrictArray cnt es) = strict_size (\<lambda>acc. elems_size acc es)"
| "total_size (Amf0Date _ _) = Ok size_date"
| "props_size acc [] = Ok acc"
| "props_size acc ((name, any) # ps) =
     then_do (int_add acc (size_utf8 name)) (\<lambda>n.
     then_do (total_size any) (\<lambda>m.
     then_do (int_add n m) (\<lambda>k. props_size k ps)))"
| "elems_size acc [] = Ok acc"
| "elems_size acc (any # es) =
     then_do (total_size any) (\<lambda>m.
     then_do (int_add acc m) (\<lambda>k. elems_size k es))"

text \<open>\<^verbatim>\<open>SrsAmf0Size::any\<close>, \<^verbatim>\<open>::object\<close> and the like take a pointer, null or not.\<close>

definition size_any :: "amf0 option \<Rightarrow> int outcome" where
  "size_any v = (case v of None \<Rightarrow> Ok 0 | Some a \<Rightarrow> total_size a)"

definition size_object :: "amf0_props option \<Rightarrow> int outcome" where
  "size_object obj = (case obj of None \<Rightarrow> Ok 0 | Some ps \<Rightarrow> total_size (Amf0Object ps))"

definition size_ecma_array :: "amf0_ecma option \<Rightarrow> int outcome" where
  "size_ecma_array arr = (case arr of None \<Rightarrow> Ok 0 | Some (cnt, ps) \<Rightarrow> total_size (Amf0EcmaArray cnt ps))"

definition size_strict_array :: "amf0_strict option \<Rightarrow> int outcome" where
  "size_strict_array arr = (case arr of None \<Rightarrow> Ok 0 | Some (cnt, es) \<Rightarrow> total_size (Amf0StrictArray cnt es))"

subsection \<open>Copies\<close>

text \<open>
  \<^verbatim>\<open>copy()\<close> of each class. A string is built anew from \<^verbatim>\<open>value.c_str()\<close>; a table is filled by
  \<^verbatim>\<open>set\<close>; the elements of a strict array are appended and then \<^verbatim>\<open>_count\<close> is assigned.
\<close>

definition object_copy :: "(amf0 \<Rightarrow> amf0) \<Rightarrow> amf0_props \<Rightarrow> amf0" where
  "object_copy cp ps = Amf0Object (props_copy cp ps [])"

definition ecma_copy :: "(amf0 \<Rightarrow> amf0) \<Rightarrow> 32 word \<Rightarrow> amf0_props \<Rightarrow> amf0" where
  "ecma_copy cp cnt ps = Amf0EcmaArray cnt (props_copy cp ps [])"

definition strict_copy :: "(amf0 \<Rightarrow> amf0) \<Rightarrow> 32 word \<Rightarrow> amf0 list \<Rightarrow> amf0" where
  "strict_copy cp cnt es =
     Amf0StrictArray cnt (snd (foldl (\<lambda>a any. arr_append (cp any) a) (0, []) es))"

lemmas container_copy_defs = object_copy_def ecma_copy_def strict_copy_def

lemma container_copy_cong [fundef_cong]:
  "ps = ps' \<Longrightarrow> (\<And>k v. (k, v) \<in> set ps' \<Longrightarrow> cp v = cp' v) \<Longrightarrow> object_copy cp ps = object_copy cp' ps'"
  "cnt = cnt' \<Longrightarrow> ps = ps' \<Longrightarrow> (\<And>k v. (k, v) \<in> set ps' \<Longrightarrow> cp v = cp' v) \<Longrightarrow>
     ecma_copy cp cnt ps = ecma_copy cp' cnt' ps'"
  "cnt = cnt' \<Longrightarrow> es = es' \<Longrightarrow> (\<And>v. v \<in> set es' \<Longrightarrow> cp v = cp' v) \<Longrightarrow>
     strict_copy cp cnt es = strict_copy cp' cnt' es'"
  by (auto simp: container_copy_defs intro!: props_copy_cong foldl_cong arg_cong [where f = snd])

fun amf0_copy :: "amf0 \<Rightarrow> amf0" where
  "amf0_copy (Amf0Number v) = Amf0Number v"
| "amf0_copy (Amf0Boolean v) = Amf0Boolean v"
| "amf0_copy (Amf0String v) = amf0_str (Some v)"
| "amf0_copy (Amf0Object ps) = object_copy amf0_copy ps"
| "amf0_copy Amf0Null = Amf0Null"
| "amf0_copy Amf0Undefined = Amf0Undefined"
| "amf0_copy (Amf0EcmaArray cnt ps) = ecma_copy amf0_copy cnt ps"
| "amf0_copy Amf0ObjectEOF = Amf0ObjectEOF"
| "amf0_copy (Amf0StrictArray cnt es) = strict_copy amf0_copy cnt es"
| "amf0_copy (Amf0Date v z) = Amf0Date v z"

subsection \<open>Type tests and conversions\<close>

text \<open>
  Every value passes exactly one of the ten type tests, and each conversion succeeds on the
  values that pass its test and is stopped by its assertion on all others; \<^verbatim>\<open>set_number\<close> changes a
  number and nothing else.
\<close>

theorem tests_match_conversions:
  "length (filter (\<lambda>P. P a) [is_string, is_boolean, is_number, is_null, is_undefined, is_object,
      is_object_eof, is_ecma_array, is_strict_array, is_date]) = 1 \<and>
   is_ok (to_str a) = is_string a \<and> is_ok (to_boolean a) = is_boolean a \<and>
   is_ok (to_number a) = is_number a \<and> is_ok (to_date a) = is_date a \<and>
   is_ok (to_date_time_zone a) = is_date a \<and> is_ok (to_object a) = is_object a \<and>
   is_ok (to_ecma_array a) = is_ecma_array a \<and> is_ok (to_strict_array a) = is_strict_array a \<and>
   then_do (set_number v a) to_number = (if is_number a then Ok v else Panic AssertFailed) \<and>
   (is_complex_object a = (is_object a \<or> is_object_eof a \<or> is_ecma_array a \<or> is_strict_array a))"
  by (cases a)
    (simp_all add: is_defs marker_defs is_complex_object_def to_str_def to_boolean_def to_number_def
      to_date_def to_date_time_zone_def to_object_def to_ecma_array_def to_strict_array_def
      set_number_def)

subsection \<open>Copies are the value with its strings cut\<close>

text \<open>The keys are distinct in every table of the value.\<close>

fun tidy :: "amf0 \<Rightarrow> bool" where
  "tidy (Amf0Object ps) = (distinct (map fst ps) \<and> list_all (\<lambda>(k, v). tidy v) ps)"
| "tidy (Amf0EcmaArray cnt ps) = (distinct (map fst ps) \<and> list_all (\<lambda>(k, v). tidy v) ps)"
| "tidy (Amf0StrictArray cnt es) = list_all tidy es"
| "tidy _ = True"

fun map_strings :: "(string \<Rightarrow> string) \<Rightarrow> amf0 \<Rightarrow> amf0" where
  "map_strings f (Amf0String v) = Amf0String (f v)"
| "map_strings f (Amf0Object ps) = Amf0Object (map (\<lambda>(k, v). (k, map_strings f v)) ps)"
| "map_strings f (Amf0EcmaArray cnt ps) = Amf0EcmaArray cnt (map (\<lambda>(k, v). (k, map_strings f v)) ps)"
| "map_strings f (Amf0StrictArray cnt es) = Amf0StrictArray cnt (map (map_strings f) es)"
| "map_strings f a = a"

lemma append_fill: "snd (foldl (\<lambda>a e. arr_append (f e) a) (cnt, xs) es) = xs @ map f es"
  by (induction es arbitrary: cnt xs) (simp_all add: arr_append_def Let_def)

lemma map_fst_vals [simp]: "map fst (map (\<lambda>(k, v). (k, f v)) ps) = map fst ps"
  by (induction ps) auto

lemma map_vals_id: "\<forall>(k, v) \<in> set ps. f v = v \<Longrightarrow> map (\<lambda>(k, v). (k, f v)) ps = ps"
  by (induction ps) auto

lemma list_all_vals: "\<forall>(k, v) \<in> set ps. P (f v) = Q v \<Longrightarrow>
    list_all (\<lambda>(k, v). P v) (map (\<lambda>(k, v). (k, f v)) ps) = list_all (\<lambda>(k, v). Q v) ps"
  by (induction ps) auto

lemma copy_table:
  assumes "distinct (map fst ps)" and "list_all (\<lambda>(k, v). cp v = f v) ps"
  shows "props_copy cp ps [] = map (\<lambda>(k, v). (k, f v)) ps"
proof -
  have "map (map_prod id cp) ps = map (\<lambda>(k, v). (k, f v)) ps"
    using assms(2) by (induction ps) auto
  with assms(1) show ?thesis by (simp add: props_copy_new)
qed

lemma copy_map_strings: "tidy a \<Longrightarrow> amf0_copy a = map_strings c_str a"
proof (induction a rule: tidy.induct)
  case (1 ps)
  then have "list_all (\<lambda>(k, v). amf0_copy v = map_strings c_str v) ps"
    by (fastforce simp: list_all_iff)
  with 1 show ?case using copy_table [of ps] by (simp add: object_copy_def)
next
  case (2 cnt ps)
  then have "list_all (\<lambda>(k, v). amf0_copy v = map_strings c_str v) ps"
    by (fastforce simp: list_all_iff)
  with 2 show ?case using copy_table [of ps] by (simp add: ecma_copy_def)
next
  case (3 cnt es)
  then have "map amf0_copy es = map (map_strings c_str) es"
    by (simp add: list_all_iff)
  then show ?case by (simp add: strict_copy_def append_fill)
qed (simp_all add: amf0_str_def)

lemma tidy_map_strings: "tidy (map_strings f a) = tidy a"
proof (induction f a rule: map_strings.induct)
  case (2 f ps)
  then have "\<forall>(k, v) \<in> set ps. tidy (map_strings f v) = tidy v" by fastforce
  from list_all_vals [of _ tidy, OF this] show ?case by (simp del: map_map)
next
  case (3 f cnt ps)
  then have "\<forall>(k, v) \<in> set ps. tidy (map_strings f v) = tidy v" by fastforce
  from list_all_vals [of _ tidy, OF this] show ?case by (simp del: map_map)
next
  case (4 f cnt es)
  then show ?case by (simp add: list_all_iff)
qed simp_all

lemma map_strings_cut_twice: "map_strings c_str (map_strings c_str a) = map_strings c_str a"
  by (induction "c_str" a rule: map_strings.induct) auto

fun strings_of :: "amf0 \<Rightarrow> string list" where
  "strings_of (Amf0String v) = [v]"
| "strings_of (Amf0Object ps) = concat (map (\<lambda>(k, v). strings_of v) ps)"
| "strings_of (Amf0EcmaArray cnt ps) = concat (map (\<lambda>(k, v). strings_of v) ps)"
| "strings_of (Amf0StrictArray cnt es) = concat (map strings_of es)"
| "strings_of _ = []"

lemma map_strings_id: "list_all (\<lambda>v. f v = v) (strings_of a) \<Longrightarrow> map_strings f a = a"
proof (induction f a rule: map_strings.induct)
  case (2 f ps)
  then have "\<forall>(k, v) \<in> set ps. map_strings f v = v" by (fastforce simp: list_all_iff)
  from map_vals_id [OF this] show ?case by simp
next
  case (3 f cnt ps)
  then have "\<forall>(k, v) \<in> set ps. map_strings f v = v" by (fastforce simp: list_all_iff)
  from map_vals_id [OF this] show ?case by simp
next
  case (4 f cnt es)
  then have "\<forall>v \<in> set es. map_strings f v = v" by (auto simp: list_all_iff)
  then show ?case by (auto simp: map_idI)
qed simp_all

text \<open>
  A copy of a value whose tables have distinct keys is the value with each of its strings, at
  any depth, cut at the first NUL, with the same keys in the same order and the same counts; it is
  the value itself when no string has a NUL, and a copy of the copy is the copy.
\<close>

theorem copy_cuts_strings:
  assumes "tidy a"
  shows "amf0_copy a = map_strings c_str a \<and> tidy (amf0_copy a) \<and>
    amf0_copy (amf0_copy a) = amf0_copy a \<and>
    (list_all (\<lambda>v. CHR 0x00 \<notin> set v) (strings_of a) \<longrightarrow> amf0_copy a = a)"
proof -
  have c: "amf0_copy a = map_strings c_str a" using assms by (rule copy_map_strings)
  moreover have "tidy (amf0_copy a)" using assms by (simp add: c tidy_map_strings)
  moreover have "amf0_copy (amf0_copy a) = amf0_copy a"
    using calculation by (metis copy_map_strings map_strings_cut_twice)
  moreover have "list_all (\<lambda>v. CHR 0x00 \<notin> set v) (strings_of a) \<Longrightarrow> map_strings c_str a = a"
    by (rule map_strings_id) (auto simp: list_all_iff c_str_id)
  ultimately show ?thesis by simp
qed

theorem copy_cuts_strings_witness:
  "amf0_copy (Amf0StrictArray 1 [Amf0Object [(''k'', Amf0String [CHR ''a'', CHR 0x00, CHR ''b''])]]) =
   Amf0StrictArray 1 [Amf0Object [(''k'', Amf0String ''a'')]]"
  using copy_cuts_strings
    [of "Amf0StrictArray 1 [Amf0Object [(''k'', Amf0String [CHR ''a'', CHR 0x00, CHR ''b''])]]"]
  by (simp add: c_str_def)

end
