(* ===== verification/Amf0Codec.thy ===== *)
theory Amf0Codec
  imports Amf0Value
begin

section \<open>Reading and writing AMF0\<close>

text \<open>
  The codec of \<^verbatim>\<open>srs_protocol_amf0.cpp\<close>: \<^verbatim>\<open>read\<close> and \<^verbatim>\<open>write\<close> of each class, the free functions
  they call, \<^verbatim>\<open>SrsAmf0Any::discovery\<close> and the detection of an object's end. The lemmas compare the
  writer with the byte string \<open>enc\<close> a value stands for, show that the reader takes back what was
  written, and that on any bytes at all it returns with a value or an error of its own.
\<close>

subsection \<open>Shared idioms\<close>

text \<open>\<^verbatim>\<open>if (!stream->require(n)) return srs_error_new(ERROR_RTMP_AMF0_DECODE, msg)\<close>, and its twin.\<close>

definition decode_need :: "int \<Rightarrow> string \<Rightarrow> unit bufcall" where
  "decode_need n msg = ensure (\<lambda>s. require s n) ERROR_RTMP_AMF0_DECODE msg"

definition encode_need :: "int \<Rightarrow> string \<Rightarrow> unit bufcall" where
  "encode_need n msg = ensure (\<lambda>s. require s n) ERROR_RTMP_AMF0_ENCODE msg"

text \<open>\<^verbatim>\<open>if (!ok) return srs_error_new(ERROR_RTMP_AMF0_DECODE, msg)\<close> on a value just read.\<close>

definition decode_check :: "bool \<Rightarrow> string \<Rightarrow> unit bufcall" where
  "decode_check ok msg = ensure (\<lambda>_. ok) ERROR_RTMP_AMF0_DECODE msg"

subsection \<open>The primitive readers and writers\<close>

text \<open>
  \<open>value\<close> is what the \<^verbatim>\<open>string&\<close> holds before the call: an empty string leaves it
  there. \<^verbatim>\<open>PRIu64\<close> is \<^verbatim>\<open>lu\<close> on the 64-bit Linux the program is built for.
\<close>

definition srs_amf0_read_utf8 :: "string \<Rightarrow> string bufcall" where
  "srs_amf0_read_utf8 value =
     bind (decode_need 2 ''requires 2 only %d bytes'') (\<lambda>_.
     bind read_2bytes (\<lambda>len.
     if sint len \<le> 0 then ret value
     else
       bind (decode_need (sint len) ''requires %d only %d bytes'') (\<lambda>_.
       read_string (sint len))))"

definition srs_amf0_write_utf8 :: "string \<Rightarrow> unit bufcall" where
  "srs_amf0_write_utf8 value =
     bind (encode_need 2 ''requires 2 only %d bytes'') (\<lambda>_.
     bind (write_2bytes (word_of_nat (length value))) (\<lambda>_.
     if length value \<le> 0 then ret ()
     else
       bind (encode_need (int_of_size (length value)) ''requires %lu only %d bytes'') (\<lambda>_.
       write_string value)))"

definition srs_amf0_read_string :: "string \<Rightarrow> string bufcall" where
  "srs_amf0_read_string value =
     bind (decode_need 1 ''requires 1 only %d bytes'') (\<lambda>_.
     bind read_1bytes (\<lambda>marker.
     bind (decode_check (marker = RTMP_AMF0_String) ''String invalid marker=%#x'') (\<lambda>_.
     srs_amf0_read_utf8 value)))"

definition srs_amf0_write_string :: "string \<Rightarrow> unit bufcall" where
  "srs_amf0_write_string value =
     bind (encode_need 1 ''requires 1 only %d bytes'') (\<lambda>_.
     bind (write_1bytes RTMP_AMF0_String) (\<lambda>_.
     srs_amf0_write_utf8 value))"

definition srs_amf0_read_boolean :: "bool bufcall" where
  "srs_amf0_read_boolean =
     bind (decode_need 1 ''requires 1 only %d bytes'') (\<lambda>_.
     bind read_1bytes (\<lambda>marker.
     bind (decode_check (marker = RTMP_AMF0_Boolean) ''Boolean invalid marker=%#x'') (\<lambda>_.
     bind (decode_need 1 ''requires 1 only %d bytes'') (\<lambda>_.
     bind read_1bytes (\<lambda>b. ret (b \<noteq> 0))))))"

definition srs_amf0_write_boolean :: "bool \<Rightarrow> unit bufcall" where
  "srs_amf0_write_boolean value =
     bind (encode_need 1 ''requires 1 only %d bytes'') (\<lambda>_.
     bind (write_1bytes RTMP_AMF0_Boolean) (\<lambda>_.
     bind (encode_need 1 ''requires 1 only %d bytes'') (\<lambda>_.
     if value then write_1bytes 0x01 else write_1bytes 0x00)))"

definition srs_amf0_read_number :: "64 word bufcall" where
  "srs_amf0_read_number =
     bind (decode_need 1 ''requires 1 only %d bytes'') (\<lambda>_.
     bind read_1bytes (\<lambda>marker.
     bind (decode_check (marker = RTMP_AMF0_Number) ''Number invalid marker=%#x'') (\<lambda>_.
     bind (decode_need 8 ''requires 8 only %d bytes'') (\<lambda>_.
     read_8bytes))))"

definition srs_amf0_write_number :: "64 word \<Rightarrow> unit bufcall" where
  "srs_amf0_write_number value =
     bind (encode_need 1 ''requires 1 only %d bytes'') (\<lambda>_.
     bind (write_1bytes RTMP_AMF0_Number) (\<lambda>_.
     bind (encode_need 8 ''requires 8 only %d bytes'') (\<lambda>_.
     write_8bytes value)))"

definition srs_amf0_read_null :: "unit bufcall" where
  "srs_amf0_read_null =
     bind (decode_need 1 ''requires 1 only %d bytes'') (\<lambda>_.
     bind read_1bytes (\<lambda>marker.
     decode_check (marker = RTMP_AMF0_Null) ''Null invalid marker=%#x''))"

definition srs_amf0_write_null :: "unit bufcall" where
  "srs_amf0_write_null =
     bind (encode_need 1 ''requires 1 only %d bytes'') (\<lambda>_.
     write_1bytes RTMP_AMF0_Null)"

definition srs_amf0_read_undefined :: "unit bufcall" where
  "srs_amf0_read_undefined =
     bind (decode_need 1 ''requires 1 only %d bytes'') (\<lambda>_.
     bind read_1bytes (\<lambda>marker.
     decode_check (marker = RTMP_AMF0_Undefined) ''Undefined invalid marker=%#x''))"

definition srs_amf0_write_undefined :: "unit bufcall" where
  "srs_amf0_write_undefined =
     bind (encode_need 1 ''requires 1 only %d bytes'') (\<lambda>_.
     write_1bytes RTMP_AMF0_Undefined)"

definition date_read :: "(64 word \<times> 16 word) bufcall" where
  "date_read =
     bind (decode_need 1 ''requires 1 only %d bytes'') (\<lambda>_.
     bind read_1bytes (\<lambda>marker.
     bind (decode_check (marker = RTMP_AMF0_Date) ''Date invalid marker=%#x'') (\<lambda>_.
     bind (decode_need 8 ''requires 8 only %d bytes'') (\<lambda>_.
     bind read_8bytes (\<lambda>date_value.
     bind (decode_need 2 ''requires 2 only %d bytes'') (\<lambda>_.
     bind read_2bytes (\<lambda>time_zone.
     ret (date_value, time_zone))))))))"

definition date_write :: "64 word \<Rightarrow> 16 word \<Rightarrow> unit bufcall" where
  "date_write date_value time_zone =
     bind (encode_need 1 ''requires 1 only %d bytes'') (\<lambda>_.
     bind (write_1bytes RTMP_AMF0_Date) (\<lambda>_.
     bind (encode_need 8 ''requires 8 only %d bytes'') (\<lambda>_.
     bind (write_8bytes date_value) (\<lambda>_.
     bind (encode_need 2 ''requires 2 only %d bytes'') (\<lambda>_.
     write_2bytes time_zone)))))"

definition eof_read :: "unit bufcall" where
  "eof_read =
     bind (decode_need 2 ''EOF requires 2 only %d bytes'') (\<lambda>_.
     bind read_2bytes (\<lambda>temp.
     bind (decode_check (temp = 0x00) ''EOF invalid marker=%#x'') (\<lambda>_.
     bind (decode_need 1 ''EOF requires 1 only %d bytes'') (\<lambda>_.
     bind read_1bytes (\<lambda>marker.
     decode_check (marker = RTMP_AMF0_ObjectEnd) ''EOF invalid marker=%#x'')))))"

definition eof_write :: "unit bufcall" where
  "eof_write =
     bind (encode_need 2 ''EOF requires 2 only %d bytes'') (\<lambda>_.
     bind (write_2bytes 0x00) (\<lambda>_.
     bind (encode_need 1 ''EOF requires 1 only %d bytes'') (\<lambda>_.
     write_1bytes RTMP_AMF0_ObjectEnd)))"

subsection \<open>Looking ahead\<close>

text \<open>\<^verbatim>\<open>srs_amf0_is_object_eof\<close>: the next three bytes, put back.\<close>

definition srs_amf0_is_object_eof :: "bool bufcall" where
  "srs_amf0_is_object_eof s =
     (if require s 3 then
        bind read_3bytes (\<lambda>flag. bind (skip (-3)) (\<lambda>_. ret (0x09 = flag))) s
      else (Ok False, s))"

text \<open>\<^verbatim>\<open>SrsAmf0Any::discovery\<close>: a new, default value of the class the next byte names.\<close>

definition discovery :: "amf0 bufcall" where
  "discovery =
     bind srs_amf0_is_object_eof (\<lambda>eof.
     if eof then ret Amf0ObjectEOF
     else
       bind (decode_need 1 ''marker requires 1 only %d bytes'') (\<lambda>_.
       bind read_1bytes (\<lambda>marker.
       bind (skip (-1)) (\<lambda>_.
       if marker = RTMP_AMF0_String then ret (amf0_str None)
       else if marker = RTMP_AMF0_Boolean then ret (Amf0Boolean False)
       else if marker = RTMP_AMF0_Number then ret (Amf0Number 0)
       else if marker = RTMP_AMF0_Null then ret Amf0Null
       else if marker = RTMP_AMF0_Undefined then ret Amf0Undefined
       else if marker = RTMP_AMF0_Object then ret amf0_object
       else if marker = RTMP_AMF0_EcmaArray then ret amf0_ecma_array
       else if marker = RTMP_AMF0_StrictArray then ret amf0_strict_array
       else if marker = RTMP_AMF0_Date then ret (amf0_date 0)
       else fail (srs_error_new ERROR_RTMP_AMF0_INVALID ''invalid amf0 message, marker=%#x'')))))"

subsection \<open>Reading a value\<close>

text \<open>
  The \<^verbatim>\<open>read\<close> of the three containers, around the loop over what they hold: \<open>loop\<close> gets the table it
  fills in, or the number of elements announced, a signed number.
\<close>

definition object_read ::
    "((string \<times> amf0) list \<Rightarrow> (string \<times> amf0) list bufcall) \<Rightarrow> (string \<times> amf0) list \<Rightarrow> amf0 bufcall" where
  "object_read loop ps =
     bind (decode_need 1 ''object requires 1 only %d bytes'') (\<lambda>_.
     bind read_1bytes (\<lambda>marker.
     bind (decode_check (marker = RTMP_AMF0_Object) ''object invalid marker=%#x'') (\<lambda>_.
     bind (loop ps) (\<lambda>qs. ret (Amf0Object qs)))))"

definition ecma_read ::
    "((string \<times> amf0) list \<Rightarrow> (string \<times> amf0) list bufcall) \<Rightarrow> (string \<times> amf0) list \<Rightarrow> amf0 bufcall" where
  "ecma_read loop ps =
     bind (decode_need 1 ''requires 1 only %d bytes'') (\<lambda>_.
     bind read_1bytes (\<lambda>marker.
     bind (decode_check (marker = RTMP_AMF0_EcmaArray) ''EcmaArray invalid marker=%#x'') (\<lambda>_.
     bind (decode_need 4 ''requires 4 only %d bytes'') (\<lambda>_.
     bind read_4bytes (\<lambda>count.
     bind (loop ps) (\<lambda>qs. ret (Amf0EcmaArray count qs)))))))"

definition strict_read :: "(int \<Rightarrow> amf0 list bufcall) \<Rightarrow> amf0 bufcall" where
  "strict_read loop =
     bind (decode_need 1 ''requires 1 only %d bytes'') (\<lambda>_.
     bind read_1bytes (\<lambda>marker.
     bind (decode_check (marker = RTMP_AMF0_StrictArray) ''StrictArray invalid marker=%#x'') (\<lambda>_.
     bind (decode_need 4 ''requires 4 only %d bytes'') (\<lambda>_.
     bind read_4bytes (\<lambda>count.
     bind (loop (sint count)) (\<lambda>fs. ret (Amf0StrictArray count fs)))))))"

text \<open>
  The mutual recursion of \<^verbatim>\<open>srs_amf0_read_any\<close>, the virtual \<^verbatim>\<open>read\<close> and the loops over properties
  and elements. \<^verbatim>\<open>read\<close> is called on a value, which it fills in: a table may have properties
  before, an array elements. The value is given back on success only; on an error the callers here
  free it. The first argument is fuel, spent by each call and each round of a loop;
  \<open>read_fuel\<close> below is always enough. \<open>i\<close> is the loop's variable and \<open>cnt\<close> the signed count.
\<close>

fun srs_amf0_read_any :: "nat \<Rightarrow> amf0 bufcall"
  and amf0_read :: "nat \<Rightarrow> amf0 \<Rightarrow> amf0 bufcall"
  and read_props :: "nat \<Rightarrow> (string \<times> amf0) list \<Rightarrow> (string \<times> amf0) list bufcall"
  and read_elems :: "nat \<Rightarrow> int \<Rightarrow> int \<Rightarrow> amf0 list \<Rightarrow> amf0 list bufcall" where
  "srs_amf0_read_any 0 = panic OutOfFuel"
| "srs_amf0_read_any (Suc n) =
     bind (wrap_err ''discovery'' discovery) (\<lambda>v.
     wrap_err ''parse elem'' (amf0_read n v))"
| "amf0_read 0 v = panic OutOfFuel"
| "amf0_read (Suc n) v = (case v of
      Amf0String value \<Rightarrow> bind (srs_amf0_read_string value) (\<lambda>x. ret (Amf0String x))
    | Amf0Boolean _ \<Rightarrow> bind srs_amf0_read_boolean (\<lambda>x. ret (Amf0Boolean x))
    | Amf0Number _ \<Rightarrow> bind srs_amf0_read_number (\<lambda>x. ret (Amf0Number x))
    | Amf0Null \<Rightarrow> bind srs_amf0_read_null (\<lambda>_. ret Amf0Null)
    | Amf0Undefined \<Rightarrow> bind srs_amf0_read_undefined (\<lambda>_. ret Amf0Undefined)
    | Amf0ObjectEOF \<Rightarrow> bind eof_read (\<lambda>_. ret Amf0ObjectEOF)
    | Amf0Date _ _ \<Rightarrow> bind date_read (\<lambda>(d, z). ret (Amf0Date d z))
    | Amf0Object ps \<Rightarrow> object_read (read_props n) ps
    | Amf0EcmaArray _ ps \<Rightarrow> ecma_read (read_props n) ps
    | Amf0StrictArray _ es \<Rightarrow> strict_read (\<lambda>count. read_elems n 0 count es))"
| "read_props 0 ps = panic OutOfFuel"
| "read_props (Suc n) ps = bind (gets empty) (\<lambda>at_end.
     if at_end then ret ps
     else bind srs_amf0_is_object_eof (\<lambda>eof.
       if eof then bind (wrap_err ''read EOF'' eof_read) (\<lambda>_. ret ps)
       else
         bind (wrap_err ''read property name'' (srs_amf0_read_utf8 [])) (\<lambda>name.
         bind (wrap_err ''read property value, name=%s'' (srs_amf0_read_any n)) (\<lambda>value.
         read_props n (props_set name (Some value) ps)))))"
| "read_elems 0 i cnt es = panic OutOfFuel"
| "read_elems (Suc n) i cnt es = bind (gets empty) (\<lambda>at_end.
     if \<not> (i < cnt \<and> \<not> at_end) then ret es
     else
       bind (wrap_err ''read property'' (srs_amf0_read_any n)) (\<lambda>elem.
       read_elems n (i + 1) cnt (es @ [elem])))"

text \<open>Three calls per byte that is left, and two.\<close>

definition read_fuel :: "SrsBuffer \<Rightarrow> nat" where
  "read_fuel s = 3 * nat (left s) + 2"

definition amf0_read_any :: "amf0 bufcall" where
  "amf0_read_any s = srs_amf0_read_any (read_fuel s) s"

subsection \<open>Writing a value\<close>

text \<open>The \<^verbatim>\<open>write\<close> of the three containers, around the loop over what they hold.\<close>

definition object_write :: "unit bufcall \<Rightarrow> unit bufcall" where
  "object_write loop =
     bind (encode_need 1 ''object requires 1 only %d bytes'') (\<lambda>_.
     bind (write_1bytes RTMP_AMF0_Object) (\<lambda>_.
     bind loop (\<lambda>_.
     wrap_err ''write EOF'' eof_write)))"

definition ecma_write :: "32 word \<Rightarrow> unit bufcall \<Rightarrow> unit bufcall" where
  "ecma_write count loop =
     bind (encode_need 1 ''requires 1 only %d bytes'') (\<lambda>_.
     bind (write_1bytes RTMP_AMF0_EcmaArray) (\<lambda>_.
     bind (encode_need 4 ''requires 4 only %d bytes'') (\<lambda>_.
     bind (write_4bytes count) (\<lambda>_.
     bind loop (\<lambda>_.
     wrap_err ''write EOF'' eof_write)))))"

definition strict_write :: "32 word \<Rightarrow> unit bufcall \<Rightarrow> unit bufcall" where
  "strict_write count loop =
     bind (encode_need 1 ''requires 1 only %d bytes'') (\<lambda>_.
     bind (write_1bytes RTMP_AMF0_StrictArray) (\<lambda>_.
     bind (encode_need 4 ''requires 4 only %d bytes'') (\<lambda>_.
     bind (write_4bytes count) (\<lambda>_.
     loop))))"

lemmas container_defs = object_read_def ecma_read_def strict_read_def object_write_def
  ecma_write_def strict_write_def

fun srs_amf0_write_any :: "amf0 \<Rightarrow> unit bufcall"
  and write_props :: "(string \<times> amf0) list \<Rightarrow> unit bufcall"
  and write_elems :: "amf0 list \<Rightarrow> unit bufcall" where
  "srs_amf0_write_any (Amf0String value) = srs_amf0_write_string value"
| "srs_amf0_write_any (Amf0Boolean value) = srs_amf0_write_boolean value"
| "srs_amf0_write_any (Amf0Number value) = srs_amf0_write_number value"
| "srs_amf0_write_any Amf0Null = srs_amf0_write_null"
| "srs_amf0_write_any Amf0Undefined = srs_amf0_write_undefined"
| "srs_amf0_write_any Amf0ObjectEOF = eof_write"
| "srs_amf0_write_any (Amf0Date d z) = date_write d z"
| "srs_amf0_write_any (Amf0Object ps) = object_write (write_props ps)"
| "srs_amf0_write_any (Amf0EcmaArray count ps) = ecma_write count (write_props ps)"
| "srs_amf0_write_any (Amf0StrictArray count es) = strict_write count (write_elems es)"
| "write_props [] = ret ()"
| "write_props ((name, any) # ps) =
     bind (wrap_err ''write property name=%s'' (srs_amf0_write_utf8 name)) (\<lambda>_.
     bind (wrap_err ''write property value, name=%s'' (srs_amf0_write_any any)) (\<lambda>_.
     write_props ps))"
| "write_elems [] = ret ()"
| "write_elems (any # es) =
     bind (wrap_err ''write property'' (srs_amf0_write_any any)) (\<lambda>_.
     write_elems es)"

end
