(* ===== verification/Codec.thy ===== *)
theory Codec
  imports KernelBuffer
begin

section \<open>The interface of a codec\<close>

text \<open>
  What \<^verbatim>\<open>ISrsEncoder\<close> and \<^verbatim>\<open>ISrsCodec\<close> of \<^verbatim>\<open>srs_kernel_buffer.hpp\<close> are for: objects that write
  themselves to a buffer and read themselves back. The locale states the contract over the bytes an
  object stands for (\<open>wire\<close>), for the objects the format can represent (\<open>ok\<close>); what follows for
  sequences of objects in one buffer is proved once, here.
\<close>

locale codec =
  fixes encode :: "'a \<Rightarrow> unit bufcall"
    and decode :: "'a bufcall"
    and wire :: "'a \<Rightarrow> byte list"
    and ok :: "'a \<Rightarrow> bool"
  assumes encode_wire: "ok a \<Longrightarrow> wf_buffer s \<Longrightarrow> length (wire a) \<le> length (rest s) \<Longrightarrow>
      encode a s = (Ok (), poke (wire a) s)"
    and decode_wire: "ok a \<Longrightarrow> wf_buffer s \<Longrightarrow> rest s = wire a @ r \<Longrightarrow>
      decode s = (Ok a, adv (length (wire a)) s)"
begin

fun encode_all :: "'a list \<Rightarrow> unit bufcall" where
  "encode_all [] = ret ()"
| "encode_all (a # as) = bind (encode a) (\<lambda>_. encode_all as)"

fun decode_times :: "nat \<Rightarrow> 'a list bufcall" where
  "decode_times 0 = ret []"
| "decode_times (Suc n) = bind decode (\<lambda>a. bind (decode_times n) (\<lambda>as. ret (a # as)))"

definition wires :: "'a list \<Rightarrow> byte list" where
  "wires as = concat (map wire as)"

lemma wires_simps [simp]: "wires [] = []" "wires (a # as) = wire a @ wires as"
  by (simp_all add: wires_def)

lemma encode_all_wires:
  "list_all ok as \<Longrightarrow> wf_buffer s \<Longrightarrow> length (wires as) \<le> length (rest s) \<Longrightarrow>
     encode_all as s = (Ok (), poke (wires as) s)"
proof (induction as arbitrary: s)
  case (Cons a as)
  then have "encode a s = (Ok (), poke (wire a) s)" by (simp add: encode_wire)
  with Cons show ?case by (simp add: bind_def wf_poke)
qed simp

lemma decode_times_wires:
  "list_all ok as \<Longrightarrow> wf_buffer s \<Longrightarrow> rest s = wires as @ r \<Longrightarrow>
     decode_times (length as) s = (Ok as, adv (length (wires as)) s)"
proof (induction as arbitrary: s)
  case (Cons a as)
  then have "decode s = (Ok a, adv (length (wire a)) s)" by (simp add: decode_wire)
  moreover from Cons have
    "decode_times (length as) (adv (length (wire a)) s) = (Ok as, adv (length (wires as)) (adv (length (wire a)) s))"
    by (intro Cons.IH) (auto intro: wf_adv)
  ultimately show ?case by (simp add: bind_def)
qed simp

lemma sequence_roundtrip:
  assumes "list_all ok as" and "wf_buffer s" and "length (wires as) \<le> length (rest s)"
  shows "bind (encode_all as) (\<lambda>_. bind (skip (- int (length (wires as)))) (\<lambda>_.
      decode_times (length as))) s = (Ok as, poke (wires as) s)"
proof -
  let ?t = "overwrite (wires as) s"
  have "encode_all as s = (Ok (), poke (wires as) s)"
    using assms by (rule encode_all_wires)
  moreover have "skip (- int (length (wires as))) (poke (wires as) s) = (Ok (), ?t)"
    using assms by (simp add: skip_poke)
  moreover have "decode_times (length as) ?t = (Ok as, adv (length (wires as)) ?t)"
    using assms by (intro decode_times_wires) (auto intro: wf_overwrite)
  ultimately show ?thesis by (simp add: bind_def)
qed

text \<open>The format is self-delimiting: the bytes of two objects agree only when the objects do.\<close>

lemma wire_unique:
  assumes "ok a" and "ok b" and "wire a @ r = wire b @ q" and "length (wire a @ r) < 2 ^ 31"
  shows "a = b \<and> r = q"
proof -
  let ?s = "SrsBuffer_new (Some (wire a @ r)) (int (length (wire a @ r)))"
  have wf: "wf_buffer ?s" using assms(4) by (rule wf_new)
  have "decode ?s = (Ok a, adv (length (wire a)) ?s)"
    by (rule decode_wire [OF assms(1) wf]) (rule rest_new)
  moreover have "decode ?s = (Ok b, adv (length (wire b)) ?s)"
    using assms(3) by (intro decode_wire [OF assms(2) wf]) simp
  ultimately have "a = b" by simp
  with assms(3) show ?thesis by simp
qed

end

end
