(* ===== verification/Amf0Write.thy ===== *)
theory Amf0Write
  imports Amf0Codec Codec
begin

section \<open>What the AMF0 writer emits\<close>

text \<open>
  The byte string \<open>enc\<close> a value stands for, the calculus \<open>emits\<close> of calls that write a byte string
  or stop where the room ends, and the two theorems about \<^verbatim>\<open>write\<close> and \<^verbatim>\<open>total_size\<close>.
\<close>

subsection \<open>The format\<close>

definition enc_utf8 :: "string \<Rightarrow> byte list" where
  "enc_utf8 v = be16 (word_of_nat (length v)) @ map byte_of_char v"

definition enc_eof :: "byte list" where
  "enc_eof = [0, 0, RTMP_AMF0_ObjectEnd]"

fun enc :: "amf0 \<Rightarrow> byte list"
  and enc_props :: "(string \<times> amf0) list \<Rightarrow> byte list"
  and enc_elems :: "amf0 list \<Rightarrow> byte list" where
  "enc (Amf0Number w) = RTMP_AMF0_Number # be64 w"
| "enc (Amf0Boolean b) = [RTMP_AMF0_Boolean, if b then 1 else 0]"
| "enc (Amf0String v) = RTMP_AMF0_String # enc_utf8 v"
| "enc (Amf0Object ps) = RTMP_AMF0_Object # enc_props ps @ enc_eof"
| "enc Amf0Null = [RTMP_AMF0_Null]"
| "enc Amf0Undefined = [RTMP_AMF0_Undefined]"
| "enc (Amf0EcmaArray cnt ps) = RTMP_AMF0_EcmaArray # be32 cnt @ enc_props ps @ enc_eof"
| "enc Amf0ObjectEOF = enc_eof"
| "enc (Amf0StrictArray cnt es) = RTMP_AMF0_StrictArray # be32 cnt @ enc_elems es"
| "enc (Amf0Date d z) = RTMP_AMF0_Date # be64 d @ be16 z"
| "enc_props [] = []"
| "enc_props ((k, v) # ps) = enc_utf8 k @ enc v @ enc_props ps"
| "enc_elems [] = []"
| "enc_elems (v # vs) = enc v @ enc_elems vs"

text \<open>All the strings and keys are shorter than \<open>n\<close>.\<close>

fun short :: "nat \<Rightarrow> amf0 \<Rightarrow> bool"
  and short_props :: "nat \<Rightarrow> (string \<times> amf0) list \<Rightarrow> bool"
  and short_elems :: "nat \<Rightarrow> amf0 list \<Rightarrow> bool" where
  "short n (Amf0String v) = (length v < n)"
| "short n (Amf0Object ps) = short_props n ps"
| "short n (Amf0EcmaArray cnt ps) = short_props n ps"
| "short n (Amf0StrictArray cnt es) = short_elems n es"
| "short n _ = True"
| "short_props n [] = True"
| "short_props n ((k, v) # ps) = (length k < n \<and> short n v \<and> short_props n ps)"
| "short_elems n [] = True"
| "short_elems n (v # vs) = (short n v \<and> short_elems n vs)"

lemma length_enc_utf8 [simp]: "length (enc_utf8 v) = 2 + length v"
  by (simp add: enc_utf8_def)

lemma length_enc_eof [simp]: "length enc_eof = 3"
  by (simp add: enc_eof_def)

subsection \<open>Calls that emit a byte string\<close>

text \<open>
  A call emits \<open>bs\<close> when it stores exactly \<open>bs\<close> if there is room, and otherwise stores a prefix and
  returns an encoding error.
\<close>

definition emits :: "unit bufcall \<Rightarrow> byte list \<Rightarrow> bool" where
  "emits m bs \<longleftrightarrow> (\<forall>s. wf_buffer s \<longrightarrow>
     (if length bs \<le> length (rest s) then m s = (Ok (), poke bs s)
      else \<exists>e k. m s = (Err e, poke (take k bs) s) \<and> k \<le> length (rest s) \<and>
        err_code e = ERROR_RTMP_AMF0_ENCODE))"

lemma emitsI:
  assumes "\<And>s. wf_buffer s \<Longrightarrow> length bs \<le> length (rest s) \<Longrightarrow> m s = (Ok (), poke bs s)"
    and "\<And>s. wf_buffer s \<Longrightarrow> length (rest s) < length bs \<Longrightarrow>
      \<exists>e k. m s = (Err e, poke (take k bs) s) \<and> k \<le> length (rest s) \<and>
        err_code e = ERROR_RTMP_AMF0_ENCODE"
  shows "emits m bs"
  using assms unfolding emits_def by (simp add: not_le)

lemma emits_room: "emits m bs \<Longrightarrow> wf_buffer s \<Longrightarrow> length bs \<le> length (rest s) \<Longrightarrow> m s = (Ok (), poke bs s)"
  by (simp add: emits_def)

lemma emits_short:
  assumes "emits m bs" and "wf_buffer s" and "length (rest s) < length bs"
  obtains e k where "m s = (Err e, poke (take k bs) s)" "k \<le> length (rest s)"
    "err_code e = ERROR_RTMP_AMF0_ENCODE"
  using assms unfolding emits_def by (metis not_le)

lemma emits_ret: "emits (ret ()) []"
  by (simp add: emits_def)

lemma emits_bind:
  assumes m: "emits m as" and m': "emits m' bs"
  shows "emits (bind m (\<lambda>_. m')) (as @ bs)"
proof (rule emitsI)
  fix s assume s: "wf_buffer s" "length (as @ bs) \<le> length (rest s)"
  then have "m s = (Ok (), poke as s)" by (intro emits_room [OF m]) auto
  moreover have "m' (poke as s) = (Ok (), poke bs (poke as s))"
    using s by (intro emits_room [OF m']) (auto intro: wf_poke)
  ultimately show "bind m (\<lambda>_. m') s = (Ok (), poke (as @ bs) s)"
    using s by (simp add: bind_def)
next
  fix s assume s: "wf_buffer s" "length (rest s) < length (as @ bs)"
  show "\<exists>e k. bind m (\<lambda>_. m') s = (Err e, poke (take k (as @ bs)) s) \<and> k \<le> length (rest s) \<and>
      err_code e = ERROR_RTMP_AMF0_ENCODE"
  proof (cases "length as \<le> length (rest s)")
    case True
    then have ms: "m s = (Ok (), poke as s)" using s by (intro emits_room [OF m])
    have "wf_buffer (poke as s)" "length (rest (poke as s)) < length bs"
      using s True by (auto intro: wf_poke)
    from emits_short [OF m' this] obtain e k where
      e: "m' (poke as s) = (Err e, poke (take k bs) (poke as s))" "k \<le> length (rest (poke as s))"
        "err_code e = ERROR_RTMP_AMF0_ENCODE" .
    with s True have "poke (take k bs) (poke as s) = poke (take (length as + k) (as @ bs)) s"
      by (subst poke_poke) auto
    with ms e s True show ?thesis
      by (intro exI [of _ e] exI [of _ "length as + k"]) (auto simp: bind_def)
  next
    case False
    with s obtain e k where e: "m s = (Err e, poke (take k as) s)" "k \<le> length (rest s)"
      "err_code e = ERROR_RTMP_AMF0_ENCODE" using emits_short [OF m s(1)] by (metis not_le)
    with False show ?thesis by (intro exI [of _ e] exI [of _ k]) (simp add: bind_def)
  qed
qed

lemma emits_wrap: "emits m bs \<Longrightarrow> emits (wrap_err msg m) bs"
proof (rule emitsI)
  fix s assume "emits m bs" "wf_buffer s" "length bs \<le> length (rest s)"
  then show "wrap_err msg m s = (Ok (), poke bs s)" by (simp add: emits_room wrap_err_def)
next
  fix s assume s: "emits m bs" "wf_buffer s" "length (rest s) < length bs"
  then obtain e k where "m s = (Err e, poke (take k bs) s)" "k \<le> length (rest s)"
    "err_code e = ERROR_RTMP_AMF0_ENCODE" by (rule emits_short)
  then show "\<exists>e k. wrap_err msg m s = (Err e, poke (take k bs) s) \<and> k \<le> length (rest s) \<and>
      err_code e = ERROR_RTMP_AMF0_ENCODE"
    by (intro exI [of _ "srs_error_wrap e msg"] exI [of _ k]) (simp add: wrap_err_def)
qed

text \<open>A guarded write, alone and before a continuation.\<close>

definition stores :: "unit bufcall \<Rightarrow> byte list \<Rightarrow> bool" where
  "stores w bs \<longleftrightarrow> (\<forall>s. wf_buffer s \<longrightarrow> length bs \<le> length (rest s) \<longrightarrow> w s = (Ok (), poke bs s))"

lemma emits_guarded:
  assumes "stores w bs" and "n = int (length bs)"
  shows "emits (bind (encode_need n msg) (\<lambda>_. w)) bs"
proof (rule emitsI)
  fix s assume "wf_buffer s" "length bs \<le> length (rest s)"
  with assms show "bind (encode_need n msg) (\<lambda>_. w) s = (Ok (), poke bs s)"
    by (simp add: stores_def encode_need_def bind_def ensure_def require_rest)
next
  fix s assume "wf_buffer s" "length (rest s) < length bs"
  with assms have "bind (encode_need n msg) (\<lambda>_. w) s =
      (Err (srs_error_new ERROR_RTMP_AMF0_ENCODE msg), poke (take 0 bs) s)"
    by (simp add: encode_need_def bind_def ensure_def require_rest)
  then show "\<exists>e k. bind (encode_need n msg) (\<lambda>_. w) s = (Err e, poke (take k bs) s) \<and>
      k \<le> length (rest s) \<and> err_code e = ERROR_RTMP_AMF0_ENCODE"
    by (metis err_code_new le0)
qed

lemma emits_step:
  assumes "stores w as" and "n = int (length as)" and "emits m bs"
  shows "emits (bind (encode_need n msg) (\<lambda>_. bind w (\<lambda>_. m))) (as @ bs)"
  using emits_bind [OF emits_guarded [OF assms(1,2)] assms(3)] by (simp add: bind_assoc)

lemma stores_writes:
  "stores (write_1bytes b) [b]" "stores (write_2bytes v) (be16 v)"
  "stores (write_4bytes w) (be32 w)" "stores (write_8bytes x) (be64 x)"
  "stores (write_string t) (map byte_of_char t)"
  by (simp_all add: stores_def buf_eval)

lemmas emits_intros = emits_ret emits_wrap stores_writes

lemma emits_1: "emits m bs \<Longrightarrow>
    emits (bind (encode_need 1 msg) (\<lambda>_. bind (write_1bytes b) (\<lambda>_. m))) (b # bs)"
  using emits_step [OF stores_writes(1), of 1 b m bs] by simp

lemma emits_4: "emits m bs \<Longrightarrow>
    emits (bind (encode_need 4 msg) (\<lambda>_. bind (write_4bytes w) (\<lambda>_. m))) (be32 w @ bs)"
  using emits_step [OF stores_writes(3), of 4 w m bs] by simp

lemma emits_1_last: "emits (bind (encode_need 1 msg) (\<lambda>_. write_1bytes b)) [b]"
  by (rule emits_guarded) (simp_all add: stores_writes)

subsection \<open>The writer\<close>

lemma emits_utf8:
  assumes "length v < 2 ^ 31"
  shows "emits (srs_amf0_write_utf8 v) (enc_utf8 v)"
proof (cases "v = []")
  case True
  have "emits (bind (encode_need 2 ''requires 2 only %d bytes'') (\<lambda>_.
      bind (write_2bytes 0) (\<lambda>_. ret ()))) (be16 0 @ [])"
    by (intro emits_step emits_intros) simp
  with True show ?thesis by (simp add: srs_amf0_write_utf8_def enc_utf8_def)
next
  case False
  have "emits (bind (encode_need (int (length v)) ''requires %lu only %d bytes'') (\<lambda>_.
      write_string v)) (map byte_of_char v)"
    by (rule emits_guarded) (simp_all add: stores_writes)
  then have "emits (bind (encode_need 2 ''requires 2 only %d bytes'') (\<lambda>_.
      bind (write_2bytes (word_of_nat (length v))) (\<lambda>_.
      bind (encode_need (int (length v)) ''requires %lu only %d bytes'') (\<lambda>_. write_string v))))
      (be16 (word_of_nat (length v)) @ map byte_of_char v)"
    by (rule emits_step [OF stores_writes(2), rotated]) simp
  with False assms show ?thesis
    by (simp add: srs_amf0_write_utf8_def enc_utf8_def int_of_size_small)
qed

lemma emits_eof: "emits eof_write enc_eof"
proof -
  have "emits eof_write (be16 0 @ [RTMP_AMF0_ObjectEnd])"
    unfolding eof_write_def by (intro emits_step emits_1_last emits_intros) simp
  then show ?thesis by (simp add: enc_eof_def be16_def pp_def)
qed

lemma emits_date: "emits (date_write d z) (RTMP_AMF0_Date # be64 d @ be16 z)"
  unfolding date_write_def by (intro emits_1 emits_step emits_guarded emits_intros) simp_all

lemma emits_any:
  "short (2 ^ 31) a \<Longrightarrow> emits (srs_amf0_write_any a) (enc a)"
  "short_props (2 ^ 31) ps \<Longrightarrow> emits (write_props ps) (enc_props ps)"
  "short_elems (2 ^ 31) es \<Longrightarrow> emits (write_elems es) (enc_elems es)"
proof (induction a and ps and es rule: srs_amf0_write_any_write_props_write_elems.induct)
  case (1 v)
  then show ?case by (simp add: srs_amf0_write_string_def emits_1 emits_utf8)
next
  case (2 b)
  then show ?case by (simp add: srs_amf0_write_boolean_def emits_1 emits_1_last)
next
  case (3 w)
  then show ?case
    by (auto simp: srs_amf0_write_number_def intro!: emits_1 emits_guarded emits_intros)
next
  case 4
  then show ?case by (simp add: srs_amf0_write_null_def emits_1_last)
next
  case 5
  then show ?case by (simp add: srs_amf0_write_undefined_def emits_1_last)
next
  case 6
  then show ?case by (simp add: emits_eof)
next
  case (7 d z)
  then show ?case by (simp add: emits_date)
next
  case (8 ps)
  then show ?case by (auto simp: container_defs intro!: emits_1 emits_bind emits_wrap emits_eof)
next
  case (9 count ps)
  then show ?case by (simp add: container_defs emits_1 emits_4 emits_bind emits_wrap emits_eof)
next
  case (10 count es)
  then show ?case by (simp add: container_defs emits_1 emits_4)
next
  case 11
  then show ?case by (simp add: emits_def)
next
  case (12 k v ps)
  then show ?case by (auto intro!: emits_bind emits_wrap emits_utf8)
next
  case 13
  then show ?case by (simp add: emits_def)
next
  case (14 v es)
  then show ?case by (auto intro!: emits_bind emits_wrap)
qed

subsection \<open>Sizes\<close>

text \<open>The number the size functions compute, undefined from \<open>2 ^ 31\<close> on.\<close>

definition int_checked :: "nat \<Rightarrow> int outcome" where
  "int_checked n = (if n < 2 ^ 31 then Ok (int n) else Panic UndefinedBehaviour)"

lemma int_add_checked:
  "int_add (int a) (int b) = int_checked (a + b)"
  by (auto simp: int_add_def int_checked_def)

lemma then_checked:
  "then_do (int_checked a) (\<lambda>x. int_add x (int b)) = int_checked (a + b)"
  using int_add_checked [of a b] by (simp add: int_checked_def)

lemma size_utf8_short: "length v < 2 ^ 31 - 2 \<Longrightarrow> size_utf8 v = int (2 + length v)"
  unfolding size_utf8_def by (rule int_of_size_small) simp

lemma total_size_enc:
  "short (2 ^ 31 - 2) a \<Longrightarrow> total_size a = int_checked (length (enc a))"
  "short_props (2 ^ 31 - 2) ps \<Longrightarrow> n < 2 ^ 31 \<Longrightarrow>
     props_size (int n) ps = int_checked (n + length (enc_props ps))"
  "short_elems (2 ^ 31 - 2) es \<Longrightarrow> n < 2 ^ 31 \<Longrightarrow>
     elems_size (int n) es = int_checked (n + length (enc_elems es))"
proof (induction a and ps and es arbitrary: and n and n rule: enc_enc_props_enc_elems.induct)
  case (3 v)
  then show ?case by (auto simp: size_str_def size_utf8_short int_add_def int_checked_def)
next
  case (4 ps)
  then show ?case using then_checked [of _ 3] 4(1) [of 1]
    by (simp add: container_size_defs size_object_eof_def)
next
  case (7 cnt ps)
  then show ?case using then_checked [of _ 3] 7(1) [of 5]
    by (simp add: container_size_defs size_object_eof_def)
next
  case (9 cnt es)
  then show ?case using 9(1) [of 5] by (simp add: container_size_defs)
next
  case (12 k v ps)
  note k = size_utf8_short [of k] int_add_checked [of n "2 + length k"]
  show ?case
  proof (cases "n + (2 + length k) + length (enc v) < 2 ^ 31")
    case True
    with 12 k int_add_checked [of "n + (2 + length k)" "length (enc v)"] show ?thesis
      using 12(2) [of "n + (2 + length k) + length (enc v)"]
      by (simp add: int_checked_def algebra_simps)
  next
    case False
    with 12 k int_add_checked [of "n + (2 + length k)" "length (enc v)"] show ?thesis
      by (auto simp: int_checked_def)
  qed
next
  case (14 v es)
  show ?case
  proof (cases "n + length (enc v) < 2 ^ 31")
    case True
    with 14 int_add_checked [of n "length (enc v)"] show ?thesis
      using 14(2) [of "n + length (enc v)"]
      by (simp add: int_checked_def algebra_simps)
  next
    case False
    with 14 int_add_checked [of n "length (enc v)"] show ?thesis
      by (auto simp: int_checked_def)
  qed
qed (simp_all add: size_defs int_checked_def)

lemma short_mono:
  "m \<le> n \<Longrightarrow> short m a \<Longrightarrow> short n a"
  "m \<le> n \<Longrightarrow> short_props m ps \<Longrightarrow> short_props n ps"
  "m \<le> n \<Longrightarrow> short_elems m es \<Longrightarrow> short_elems n es"
  by (induction a and ps and es rule: enc_enc_props_enc_elems.induct) auto

text \<open>
  C8. Writing a value of any shape, whose strings and keys are below 2 GiB, succeeds exactly when
  \<^verbatim>\<open>total_size\<close> of it is an \<^verbatim>\<open>int\<close> and no more than the room left in the buffer; then it stores the bytes
  of the format, as many as \<^verbatim>\<open>total_size\<close> says, and moves behind them. Otherwise it returns an encoding
  error, and what it has stored is a beginning of those bytes inside the buffer.
\<close>

theorem write_exactly_total_size:
  assumes "wf_buffer s" and "short (2 ^ 31 - 2) a"
  shows "(is_ok (fst (srs_amf0_write_any a s)) \<longleftrightarrow> (\<exists>n. total_size a = Ok n \<and> n \<le> left s)) \<and>
    (is_ok (fst (srs_amf0_write_any a s)) \<longrightarrow>
      total_size a = Ok (int (length (enc a))) \<and> srs_amf0_write_any a s = (Ok (), poke (enc a) s)) \<and>
    (\<not> is_ok (fst (srs_amf0_write_any a s)) \<longrightarrow>
      (\<exists>e t k. srs_amf0_write_any a s = (Err e, t) \<and> err_code e = ERROR_RTMP_AMF0_ENCODE \<and>
        wf_buffer t \<and> same_memory s t \<and> written t = written s @ take k (enc a)))"
proof -
  have e: "emits (srs_amf0_write_any a) (enc a)"
    using assms(2) by (intro emits_any short_mono(1) [OF _ assms(2)]) simp
  have size: "total_size a = int_checked (length (enc a))"
    using assms(2) by (rule total_size_enc)
  have left: "left s = int (length (rest s))" "length (rest s) < 2 ^ 31"
    using assms(1) by (simp_all add: left_rest length_rest_bound [simplified])
  show ?thesis
  proof (cases "length (enc a) \<le> length (rest s)")
    case True
    then show ?thesis using emits_room [OF e assms(1)] size left by (simp add: int_checked_def)
  next
    case False
    then obtain x k where x: "srs_amf0_write_any a s = (Err x, poke (take k (enc a)) s)"
      "k \<le> length (rest s)" "err_code x = ERROR_RTMP_AMF0_ENCODE"
      using emits_short [OF e assms(1)] by (metis not_le)
    have "\<not> (\<exists>n. total_size a = Ok n \<and> n \<le> left s)"
      using False size left by (simp add: int_checked_def)
    then show ?thesis using x assms(1) by (auto intro!: wf_poke exI [of _ k])
  qed
qed

theorem write_exactly_total_size_witness:
  "srs_amf0_write_any (Amf0Object [(''k'', Amf0Boolean True)]) (SrsBuffer_new (Some (replicate 10 0)) 10) =
   (Ok (), poke [3, 0, 1, 0x6B, 1, 1, 0, 0, 9] (SrsBuffer_new (Some (replicate 10 0)) 10))"
proof -
  let ?a = "Amf0Object [(''k'', Amf0Boolean True)]"
  let ?s = "SrsBuffer_new (Some (replicate 10 0)) 10"
  have "wf_buffer ?s" using wf_new [of "replicate 10 0"] by simp
  moreover have "total_size ?a = Ok 9"
    by (simp add: size_utf8_def int_of_size_small int_add_def size_defs container_size_defs)
  ultimately have "srs_amf0_write_any ?a ?s = (Ok (), poke (enc ?a) ?s)"
    using write_exactly_total_size [of ?s ?a] by (simp add: left_def SrsBuffer_new_def)
  moreover have "enc ?a = [3, 0, 1, 0x6B, 1, 1, 0, 0, 9]" by code_simp
  ultimately show ?thesis by simp
qed

end
