(* ===== verification/Amf0Read.thy ===== *)
theory Amf0Read
  imports Amf0Codec
begin

section \<open>The AMF0 reader on arbitrary bytes\<close>

text \<open>
  What \<^verbatim>\<open>srs_amf0_read_any\<close> does with bytes a peer has sent: the calculus \<open>safe_read\<close> of calls that
  only move forward inside the buffer and end with a value or an error, the fuel that is always
  enough, and the shape of what is read.
\<close>

subsection \<open>Looking ahead\<close>

lemma le_word_24_eq_9:
  "(le_word [b0, b1, b2, 0] :: 32 word) = 9 \<longleftrightarrow> b0 = 9 \<and> b1 = 0 \<and> b2 = 0"
proof
  assume eq: "(le_word [b0, b1, b2, 0] :: 32 word) = 9"
  have "pp i (9 :: 32 word) = [b0, b1, b2, 0] ! i" if "i < 4" for i
    using that pp_le_word [where 'a = 32, of i "[b0, b1, b2, 0]"] by (simp add: eq)
  from this [of 0] this [of 1] this [of 2] show "b0 = 9 \<and> b1 = 0 \<and> b2 = 0"
    by (simp add: pp_def)
next
  assume "b0 = 9 \<and> b1 = 0 \<and> b2 = 0"
  then show "(le_word [b0, b1, b2, 0] :: 32 word) = 9" by (simp add: le_word.simps)
qed

definition eof_ahead :: "byte list \<Rightarrow> bool" where
  "eof_ahead bs \<longleftrightarrow> take 3 bs = [0, 0, 9]"

lemma is_object_eof_eval:
  assumes "wf_buffer s"
  shows "srs_amf0_is_object_eof s = (Ok (eof_ahead (rest s)), s)"
proof (cases "3 \<le> length (rest s)")
  case True
  then obtain b2 b1 b0 r where r: "rest s = b2 # b1 # b0 # r"
    by (auto simp: room_simps)
  then have "read_3bytes s = (Ok (le_word [b0, b1, b2, 0]), adv 3 s)"
    using assms by (rule read_3bytes_eval [rotated])
  moreover have "skip (-3) (adv 3 s) = (Ok (), s)"
    using skip_back [of s 3] assms True by simp
  ultimately show ?thesis using assms r le_word_24_eq_9 [of b0 b1 b2]
    by (auto simp: srs_amf0_is_object_eof_def require_rest bind_def eof_ahead_def numeral_3_eq_3)
next
  case False
  then have "take 3 (rest s) \<noteq> [0, 0, 9]" by (metis length_take list.size(3,4) min.absorb2
        nat_le_linear numeral_3_eq_3 take_all_iff One_nat_def Suc_eq_plus1 add_0)
  with False assms show ?thesis
    by (simp add: srs_amf0_is_object_eof_def require_rest eof_ahead_def)
qed

text \<open>The default value \<^verbatim>\<open>discovery\<close> makes for a marker.\<close>

definition fresh :: "byte \<Rightarrow> amf0 option" where
  "fresh marker =
     (if marker = RTMP_AMF0_String then Some (Amf0String [])
      else if marker = RTMP_AMF0_Boolean then Some (Amf0Boolean False)
      else if marker = RTMP_AMF0_Number then Some (Amf0Number 0)
      else if marker = RTMP_AMF0_Null then Some Amf0Null
      else if marker = RTMP_AMF0_Undefined then Some Amf0Undefined
      else if marker = RTMP_AMF0_Object then Some (Amf0Object [])
      else if marker = RTMP_AMF0_EcmaArray then Some (Amf0EcmaArray 0 [])
      else if marker = RTMP_AMF0_StrictArray then Some (Amf0StrictArray 0 [])
      else if marker = RTMP_AMF0_Date then Some (Amf0Date 0 0)
      else None)"

lemmas fresh_values = amf0_str_def amf0_object_def amf0_ecma_array_def amf0_strict_array_def
  amf0_date_def

lemma discovery_eval:
  assumes "wf_buffer s"
  shows "discovery s = (if eof_ahead (rest s) then (Ok Amf0ObjectEOF, s)
    else case rest s of
        [] \<Rightarrow> (Err (srs_error_new ERROR_RTMP_AMF0_DECODE ''marker requires 1 only %d bytes''), s)
      | m # _ \<Rightarrow> (case fresh m of
          Some v \<Rightarrow> (Ok v, s)
        | None \<Rightarrow> (Err (srs_error_new ERROR_RTMP_AMF0_INVALID ''invalid amf0 message, marker=%#x''), s)))"
proof (cases "rest s")
  case Nil
  with assms show ?thesis
    by (simp add: discovery_def bind_def is_object_eof_eval decode_need_def ensure_def require_rest)
next
  case (Cons m r)
  then have "read_1bytes s = (Ok m, adv 1 s)"
    using assms by (rule read_1bytes_eval [rotated])
  moreover have "skip (-1) (adv 1 s) = (Ok (), s)"
    using skip_back [of s 1] assms Cons by simp
  ultimately show ?thesis using assms Cons
    by (simp add: discovery_def bind_def is_object_eof_eval decode_need_def ensure_def require_rest
        fresh_def fresh_values fail_def)
qed

subsection \<open>Calls that read safely\<close>

text \<open>
  On a buffer with at most \<open>L\<close> bytes left the call moves forward by at most what is left, without
  a panic; on success by at least \<open>a\<close>, with a value in \<open>P\<close>, and otherwise with an error of the codec.
\<close>

definition amf0_read_codes :: "int set" where
  "amf0_read_codes = {ERROR_RTMP_AMF0_DECODE, ERROR_RTMP_AMF0_INVALID}"

definition safe_read :: "nat \<Rightarrow> nat \<Rightarrow> ('a \<Rightarrow> bool) \<Rightarrow> 'a bufcall \<Rightarrow> bool" where
  "safe_read L a P m \<longleftrightarrow> (\<forall>s. wf_buffer s \<longrightarrow> length (rest s) \<le> L \<longrightarrow>
     (\<exists>k. k \<le> length (rest s) \<and> snd (m s) = adv k s \<and>
       (case fst (m s) of
         Ok v \<Rightarrow> a \<le> k \<and> P v
       | Err e \<Rightarrow> err_code e \<in> amf0_read_codes
       | Panic q \<Rightarrow> False)))"

lemma safe_readI:
  assumes "\<And>s. wf_buffer s \<Longrightarrow> length (rest s) \<le> L \<Longrightarrow>
    (\<exists>v k. m s = (Ok v, adv k s) \<and> k \<le> length (rest s) \<and> a \<le> k \<and> P v) \<or>
    (\<exists>e k. m s = (Err e, adv k s) \<and> k \<le> length (rest s) \<and> err_code e \<in> amf0_read_codes)"
  shows "safe_read L a P m"
  unfolding safe_read_def
proof (intro allI impI)
  fix s assume "wf_buffer s" "length (rest s) \<le> L"
  from assms [OF this] show "\<exists>k\<le>length (rest s). snd (m s) = adv k s \<and>
      (case fst (m s) of Ok v \<Rightarrow> a \<le> k \<and> P v | Err e \<Rightarrow> err_code e \<in> amf0_read_codes | Panic q \<Rightarrow> False)"
    by fastforce
qed

lemma safe_readE:
  assumes "safe_read L a P m" and "wf_buffer s" and "length (rest s) \<le> L"
  obtains (Ok) v k where "m s = (Ok v, adv k s)" "k \<le> length (rest s)" "a \<le> k" "P v"
    | (Err) e k where "m s = (Err e, adv k s)" "k \<le> length (rest s)" "err_code e \<in> amf0_read_codes"
proof -
  from assms obtain k where k: "k \<le> length (rest s)" "snd (m s) = adv k s"
    "case fst (m s) of Ok v \<Rightarrow> a \<le> k \<and> P v | Err e \<Rightarrow> err_code e \<in> amf0_read_codes | Panic q \<Rightarrow> False"
    unfolding safe_read_def by blast
  then show thesis using that by (cases "m s"; cases "fst (m s)") auto
qed

lemma safe_ret: "P v \<Longrightarrow> safe_read L 0 P (ret v)"
  by (rule safe_readI) (auto intro!: exI [of _ 0])

lemma safe_bind:
  assumes m: "safe_read L a P m"
    and f: "\<And>v. P v \<Longrightarrow> a \<le> L \<Longrightarrow> safe_read (L - a) b Q (f v)"
  shows "safe_read L (a + b) Q (bind m f)"
proof (rule safe_readI)
  fix s assume s: "wf_buffer s" "length (rest s) \<le> L"
  let ?goal = "(\<exists>v k. bind m f s = (Ok v, adv k s) \<and> k \<le> length (rest s) \<and> a + b \<le> k \<and> Q v) \<or>
    (\<exists>e k. bind m f s = (Err e, adv k s) \<and> k \<le> length (rest s) \<and> err_code e \<in> amf0_read_codes)"
  from m s show ?goal
  proof (cases rule: safe_readE)
    case (Ok v k)
    with s have "safe_read (L - a) b Q (f v)" and "wf_buffer (adv k s)"
      and len: "length (rest (adv k s)) \<le> L - a" by (auto intro: f wf_adv)
    then show ?thesis
    proof (cases rule: safe_readE)
      case (Ok w j)
      with \<open>m s = _\<close> \<open>a \<le> k\<close> \<open>k \<le> _\<close> show ?thesis
        by (auto simp: bind_def intro!: exI [of _ "k + j"])
    next
      case (Err e j)
      with \<open>m s = _\<close> \<open>k \<le> _\<close> show ?thesis
        by (auto simp: bind_def intro!: exI [of _ "k + j"])
    qed
  next
    case (Err e k)
    then show ?thesis by (auto simp: bind_def intro!: exI [of _ k])
  qed
qed

lemma safe_weaken:
  "safe_read L a P m \<Longrightarrow> b \<le> a \<Longrightarrow> (\<And>v. P v \<Longrightarrow> Q v) \<Longrightarrow> L' \<le> L \<Longrightarrow> safe_read L' b Q m"
  by (rule safe_readI) (fastforce elim!: safe_readE)

lemma safe_wrap: "safe_read L a P m \<Longrightarrow> safe_read L a P (wrap_err msg m)"
  by (rule safe_readI) (fastforce elim!: safe_readE simp: wrap_err_def)

lemma safe_check: "safe_read L 0 (\<lambda>_. ok) (decode_check ok msg)"
  by (rule safe_readI)
    (auto simp: decode_check_def ensure_def amf0_read_codes_def intro!: exI [of _ 0])

text \<open>A guarded read of \<open>n\<close> bytes, alone and before a continuation.\<close>

definition fetches :: "nat \<Rightarrow> ('a \<Rightarrow> bool) \<Rightarrow> 'a bufcall \<Rightarrow> bool" where
  "fetches n P m \<longleftrightarrow> (\<forall>s. wf_buffer s \<longrightarrow> n \<le> length (rest s) \<longrightarrow> (\<exists>v. m s = (Ok v, adv n s) \<and> P v))"

lemma safe_guarded_read:
  assumes "fetches n P m" and "i = int n"
  shows "safe_read L n P (bind (decode_need i msg) (\<lambda>_. m))"
proof (rule safe_readI)
  fix s assume s: "wf_buffer s" "length (rest s) \<le> L"
  show "(\<exists>v k. bind (decode_need i msg) (\<lambda>_. m) s = (Ok v, adv k s) \<and>
      k \<le> length (rest s) \<and> n \<le> k \<and> P v) \<or>
    (\<exists>e k. bind (decode_need i msg) (\<lambda>_. m) s = (Err e, adv k s) \<and> k \<le> length (rest s) \<and>
      err_code e \<in> amf0_read_codes)"
  proof (cases "n \<le> length (rest s)")
    case True
    with assms s obtain v where "m s = (Ok v, adv n s)" "P v" unfolding fetches_def by blast
    with True s assms(2) show ?thesis
      by (auto simp: bind_def decode_need_def ensure_def require_rest)
  next
    case False
    with s assms(2) have "bind (decode_need i msg) (\<lambda>_. m) s =
        (Err (srs_error_new ERROR_RTMP_AMF0_DECODE msg), adv 0 s)"
      by (simp add: bind_def decode_need_def ensure_def require_rest)
    then show ?thesis by (metis amf0_read_codes_def err_code_new insertCI le0)
  qed
qed

lemma safe_step:
  assumes "fetches n P m" and "i = int n"
    and "\<And>v. P v \<Longrightarrow> n \<le> L \<Longrightarrow> safe_read (L - n) b Q (f v)" and "c \<le> n + b"
  shows "safe_read L c Q (bind (decode_need i msg) (\<lambda>_. bind m f))"
proof -
  have "safe_read L (n + b) Q (bind (bind (decode_need i msg) (\<lambda>_. m)) f)"
    using assms(3) by (intro safe_bind [OF safe_guarded_read [OF assms(1,2)]]) auto
  with assms(4) show ?thesis by (simp add: bind_assoc safe_weaken)
qed

lemma fetches_reads:
  "fetches 1 (\<lambda>_. True) read_1bytes" "fetches 2 (\<lambda>_. True) read_2bytes"
  "fetches 4 (\<lambda>_. True) read_4bytes" "fetches 8 (\<lambda>_. True) read_8bytes"
  "fetches n (\<lambda>v. length v = n) (read_string (int n))"
  by (auto simp: fetches_def room_simps)

subsection \<open>The shape of what is read\<close>

text \<open>
  Strings and keys shorter than 32768, distinct keys, and no more elements in a strict array than
  its count announced.
\<close>

fun typed :: "amf0 \<Rightarrow> bool" where
  "typed (Amf0String v) = (length v < 32768)"
| "typed (Amf0Object ps) = (distinct (map fst ps) \<and> list_all (\<lambda>(k, v). length k < 32768 \<and> typed v) ps)"
| "typed (Amf0EcmaArray cnt ps) =
     (distinct (map fst ps) \<and> list_all (\<lambda>(k, v). length k < 32768 \<and> typed v) ps)"
| "typed (Amf0StrictArray cnt es) = (int (length es) \<le> max 0 (sint cnt) \<and> list_all typed es)"
| "typed _ = True"

definition typed_props :: "(string \<times> amf0) list \<Rightarrow> bool" where
  "typed_props ps \<longleftrightarrow> distinct (map fst ps) \<and> list_all (\<lambda>(k, v). length k < 32768 \<and> typed v) ps"

text \<open>A value that \<^verbatim>\<open>read\<close> may fill in: the elements of an array are those already read.\<close>

fun fillable :: "amf0 \<Rightarrow> bool" where
  "fillable (Amf0StrictArray cnt es) = (es = [])"
| "fillable a = typed a"

lemma typed_props_set:
  "typed_props ps \<Longrightarrow> length k < 32768 \<Longrightarrow> typed v \<Longrightarrow> typed_props (props_set k (Some v) ps)"
  by (auto simp: typed_props_def props_set_distinct) (auto simp: props_set_entries list_all_iff)

lemma fresh_fillable: "fresh m = Some v \<Longrightarrow> fillable v"
  by (auto simp: fresh_def split: if_splits)

lemma safe_discovery: "safe_read L 0 (\<lambda>v. fillable v \<and> 1 \<le> L) discovery"
proof (rule safe_readI)
  fix s assume s: "wf_buffer s" "length (rest s) \<le> L"
  show "(\<exists>v k. discovery s = (Ok v, adv k s) \<and> k \<le> length (rest s) \<and> 0 \<le> k \<and> fillable v \<and> 1 \<le> L) \<or>
    (\<exists>e k. discovery s = (Err e, adv k s) \<and> k \<le> length (rest s) \<and> err_code e \<in> amf0_read_codes)"
  proof (cases "rest s")
    case Nil
    with s show ?thesis
      by (auto simp: discovery_eval eof_ahead_def amf0_read_codes_def intro!: exI [of _ 0])
  next
    case (Cons m r)
    with s have "1 \<le> L" by simp
    with s Cons show ?thesis
      by (cases "fresh m")
        (auto simp: discovery_eval amf0_read_codes_def fresh_fillable intro!: exI [of _ 0])
  qed
qed

lemma safe_is_object_eof: "safe_read L 0 (\<lambda>_. True) srs_amf0_is_object_eof"
  by (rule safe_readI) (auto simp: is_object_eof_eval intro!: exI [of _ 0])

text \<open>\<^verbatim>\<open>empty()\<close> is false only when a byte is left.\<close>

lemma safe_gets_empty: "safe_read L 0 (\<lambda>at_end. at_end \<or> 1 \<le> L) (gets empty)"
  by (rule safe_readI) (auto simp: empty_rest Suc_le_eq intro!: exI [of _ 0])

subsection \<open>The primitive readers are safe\<close>

lemma sint_16_less: "sint (len :: 16 word) < 32768"
  using sint_lt [of len] by simp

lemma safe_utf8:
  assumes "length value < 32768"
  shows "safe_read L 2 (\<lambda>v. length v < 32768) (srs_amf0_read_utf8 value)"
  unfolding srs_amf0_read_utf8_def
proof (rule safe_step [OF fetches_reads(2)])
  fix len :: "16 word"
  show "safe_read (L - 2) 0 (\<lambda>v. length v < 32768) (if sint len \<le> 0 then ret value
      else bind (decode_need (sint len) ''requires %d only %d bytes'') (\<lambda>_. read_string (sint len)))"
  proof (cases "sint len \<le> 0")
    case True
    with assms show ?thesis by (simp add: safe_ret del: ret_eval)
  next
    case False
    then obtain n where n: "sint len = int n" by (metis linorder_not_le nonneg_int_cases order_less_imp_le)
    with sint_16_less [of len] have "n < 32768" by simp
    then have "safe_read (L - 2) 0 (\<lambda>v. length v < 32768)
        (bind (decode_need (int n) ''requires %d only %d bytes'') (\<lambda>_. read_string (int n)))"
      by (intro safe_weaken [OF safe_guarded_read [OF fetches_reads(5)]]) auto
    with False n show ?thesis by simp
  qed
qed simp_all

lemma safe_marker:
  assumes "\<And>m. 1 \<le> L \<Longrightarrow> safe_read (L - 1) b Q f" and "c \<le> 1 + b"
  shows "safe_read L c Q (bind (decode_need 1 msg) (\<lambda>_. bind read_1bytes (\<lambda>marker.
    bind (decode_check (marker = x) msg') (\<lambda>_. f))))"
proof (rule safe_step [OF fetches_reads(1)])
  fix marker :: byte assume "1 \<le> L"
  then have "safe_read (L - 1) (0 + b) Q (bind (decode_check (marker = x) msg') (\<lambda>_. f))"
    using assms(1) by (intro safe_bind [OF safe_check]) auto
  then show "safe_read (L - 1) b Q (bind (decode_check (marker = x) msg') (\<lambda>_. f))" by simp
qed (use assms(2) in simp_all)

lemma safe_marker_last:
  "safe_read L 1 (\<lambda>_. True) (bind (decode_need 1 msg) (\<lambda>_. bind read_1bytes (\<lambda>marker.
    decode_check (marker = x) msg')))"
  by (rule safe_step [OF fetches_reads(1)]) (auto intro: safe_weaken [OF safe_check])

lemma safe_string: "length value < 32768 \<Longrightarrow> safe_read L 1 (\<lambda>v. length v < 32768) (srs_amf0_read_string value)"
  unfolding srs_amf0_read_string_def by (rule safe_marker [OF safe_utf8]) auto

lemma safe_boolean: "safe_read L 1 (\<lambda>_. True) srs_amf0_read_boolean"
  unfolding srs_amf0_read_boolean_def
  by (rule safe_marker [where b = 1], rule safe_step [OF fetches_reads(1)]) (auto intro: safe_ret simp del: ret_eval)

lemma safe_number: "safe_read L 1 (\<lambda>_. True) srs_amf0_read_number"
  unfolding srs_amf0_read_number_def
  by (rule safe_marker [where b = 8], rule safe_guarded_read [OF fetches_reads(4)]) auto

lemma safe_null: "safe_read L 1 (\<lambda>_. True) srs_amf0_read_null"
  unfolding srs_amf0_read_null_def by (rule safe_marker_last)

lemma safe_undefined: "safe_read L 1 (\<lambda>_. True) srs_amf0_read_undefined"
  unfolding srs_amf0_read_undefined_def by (rule safe_marker_last)

lemma safe_date: "safe_read L 1 (\<lambda>_. True) date_read"
  unfolding date_read_def
  by (rule safe_marker [where b = 10], rule safe_step [OF fetches_reads(4), where b = 2],
      simp, rule safe_step [OF fetches_reads(2), where b = 0]) (auto intro: safe_ret simp del: ret_eval)

lemma safe_eof: "safe_read L 1 (\<lambda>_. True) eof_read"
  unfolding eof_read_def
proof (rule safe_step [OF fetches_reads(2)])
  fix temp :: "16 word"
  let ?m = "bind (decode_need 1 ''EOF requires 1 only %d bytes'') (\<lambda>_. bind read_1bytes (\<lambda>marker.
      decode_check (marker = RTMP_AMF0_ObjectEnd) ''EOF invalid marker=%#x''))"
  have "safe_read (L - 2) (0 + 1) (\<lambda>_. True)
      (bind (decode_check (temp = 0x00) ''EOF invalid marker=%#x'') (\<lambda>_. ?m))"
    by (rule safe_bind [OF safe_check]) (rule safe_marker_last)
  then show "safe_read (L - 2) 1 (\<lambda>_. True)
      (bind (decode_check (temp = 0x00) ''EOF invalid marker=%#x'') (\<lambda>_. ?m))" by simp
qed simp_all

lemma safe_map:
  "safe_read L a P m \<Longrightarrow> (\<And>v. P v \<Longrightarrow> Q (g v)) \<Longrightarrow> safe_read L a Q (bind m (\<lambda>x. ret (g x)))"
  using safe_bind [of L a P m 0 Q "\<lambda>x. ret (g x)"] by (simp add: safe_ret del: ret_eval)

subsection \<open>The recursive readers are safe, with fuel enough\<close>

definition any_safe :: "nat \<Rightarrow> bool" where
  "any_safe n \<longleftrightarrow> (\<forall>L. 3 * L + 2 \<le> n \<longrightarrow> safe_read L 1 typed (srs_amf0_read_any n))"

definition value_safe :: "nat \<Rightarrow> bool" where
  "value_safe n \<longleftrightarrow> (\<forall>L v. 3 * L + 1 \<le> n \<longrightarrow> fillable v \<longrightarrow> safe_read L 1 typed (amf0_read n v))"

definition props_safe :: "nat \<Rightarrow> bool" where
  "props_safe n \<longleftrightarrow> (\<forall>L ps. 3 * L + 1 \<le> n \<longrightarrow> typed_props ps \<longrightarrow>
     safe_read L 0 typed_props (read_props n ps))"

definition elems_safe :: "nat \<Rightarrow> bool" where
  "elems_safe n \<longleftrightarrow> (\<forall>L i cnt es. 3 * L + 3 \<le> n \<longrightarrow> list_all typed es \<longrightarrow> int (length es) \<le> i \<longrightarrow>
     i \<le> max 0 cnt \<longrightarrow>
     safe_read L 0 (\<lambda>fs. list_all typed fs \<and> int (length fs) \<le> max 0 cnt) (read_elems n i cnt es))"

lemmas all_safe_defs = any_safe_def value_safe_def props_safe_def elems_safe_def

lemma any_safe_Suc:
  assumes "value_safe n"
  shows "any_safe (Suc n)"
  unfolding any_safe_def
proof (intro allI impI)
  fix L assume L: "3 * L + 2 \<le> Suc n"
  have "safe_read L (0 + 1) typed (srs_amf0_read_any (Suc n))"
    unfolding srs_amf0_read_any.simps
  proof (rule safe_bind [OF safe_wrap [OF safe_discovery]])
    fix v assume "fillable v \<and> 1 \<le> L"
    with assms L show "safe_read (L - 0) 1 typed (wrap_err ''parse elem'' (amf0_read n v))"
      by (auto simp: value_safe_def intro: safe_wrap)
  qed
  then show "safe_read L 1 typed (srs_amf0_read_any (Suc n))" by simp
qed

lemma value_safe_Suc:
  assumes props: "props_safe n" and elems: "elems_safe n"
  shows "value_safe (Suc n)"
  unfolding value_safe_def
proof (intro allI impI)
  fix L v assume L: "3 * L + 1 \<le> Suc n" and v: "fillable v"
  have table: "safe_read L' 0 typed (bind (read_props n ps) (\<lambda>qs. ret (c qs)))"
    if "L' < L" "typed_props ps" "\<And>qs. typed_props qs \<Longrightarrow> typed (c qs)" for L' ps c
    using props L that by (intro safe_map [where P = typed_props]) (auto simp: props_safe_def)
  show "safe_read L 1 typed (amf0_read (Suc n) v)"
  proof (cases v)
    case (Amf0String x)
    with v show ?thesis by (auto intro!: safe_map [OF safe_string] simp del: One_nat_def ret_eval)
  next
    case (Amf0Object ps)
    have "safe_read L 1 typed (amf0_read (Suc n) (Amf0Object ps))"
      unfolding amf0_read.simps amf0.case container_defs
      by (rule safe_marker [where b = 0]) (use Amf0Object v in \<open>auto simp: typed_props_def intro!: table\<close>)
    with Amf0Object show ?thesis by simp
  next
    case (Amf0EcmaArray cnt ps)
    have "safe_read L 1 typed (amf0_read (Suc n) (Amf0EcmaArray cnt ps))"
      unfolding amf0_read.simps amf0.case container_defs
      by (rule safe_marker [where b = 0], rule safe_step [OF fetches_reads(3), where b = 0])
        (use Amf0EcmaArray v in \<open>auto simp: typed_props_def intro!: table\<close>)
    with Amf0EcmaArray show ?thesis by simp
  next
    case (Amf0StrictArray cnt es)
    with v have "es = []" by simp
    have "safe_read L 1 typed (amf0_read (Suc n) (Amf0StrictArray cnt []))"
      unfolding amf0_read.simps amf0.case container_defs
    proof (rule safe_marker [where b = 0], rule safe_step [OF fetches_reads(3), where b = 0])
      fix count :: "32 word" assume "1 \<le> L" "4 \<le> L - 1"
      with elems L have "safe_read (L - 1 - 4) 0
          (\<lambda>fs. list_all typed fs \<and> int (length fs) \<le> max 0 (sint count)) (read_elems n 0 (sint count) [])"
        unfolding elems_safe_def by (elim allE impE) auto
      then show "safe_read (L - 1 - 4) 0 typed
          (bind (read_elems n 0 (sint count) []) (\<lambda>fs. ret (Amf0StrictArray count fs)))"
        by (rule safe_map) simp
    qed simp_all
    with Amf0StrictArray \<open>es = []\<close> show ?thesis by simp
  qed (auto intro!: safe_map [OF safe_boolean] safe_map [OF safe_number] safe_map [OF safe_null]
      safe_map [OF safe_undefined] safe_map [OF safe_eof] safe_map [OF safe_date]
      simp del: ret_eval One_nat_def simp: case_prod_unfold)
qed

lemma props_safe_Suc:
  assumes any: "any_safe n" and props: "props_safe n"
  shows "props_safe (Suc n)"
  unfolding props_safe_def
proof (intro allI impI)
  fix L ps assume L: "3 * L + 1 \<le> Suc n" and ps: "typed_props ps"
  let ?more = "bind (wrap_err ''read property name'' (srs_amf0_read_utf8 [])) (\<lambda>name.
      bind (wrap_err ''read property value, name=%s'' (srs_amf0_read_any n)) (\<lambda>value.
      read_props n (props_set name (Some value) ps)))"
  have more: "safe_read L 0 typed_props ?more"
  proof (rule safe_weaken)
    show "safe_read L (2 + (1 + 0)) typed_props ?more"
      using any props L ps
      by (intro safe_bind [OF safe_wrap [OF safe_utf8]]
          safe_bind [OF safe_wrap, where P = typed and a = 1]) (auto simp: any_safe_def props_safe_def typed_props_set)
  qed simp_all
  have stop: "safe_read L 0 typed_props (bind (wrap_err ''read EOF'' eof_read) (\<lambda>_. ret ps))"
    by (rule safe_weaken [where L = L, OF safe_map [OF safe_wrap [OF safe_eof], where Q = typed_props]])
      (simp_all add: ps)
  have "safe_read L (0 + (0 + 0)) typed_props (read_props (Suc n) ps)"
    unfolding read_props.simps
    by (rule safe_bind [OF safe_gets_empty])
      (use ps in \<open>auto intro!: safe_ret safe_bind [OF safe_is_object_eof, where b = 0, simplified] more stop
        simp del: ret_eval bind_gets\<close>)
  then show "safe_read L 0 typed_props (read_props (Suc n) ps)" by simp
qed

lemma elems_safe_Suc:
  assumes any: "any_safe n" and elems: "elems_safe n"
  shows "elems_safe (Suc n)"
  unfolding elems_safe_def
proof (intro allI impI)
  fix L i cnt es
  assume L: "3 * L + 3 \<le> Suc n" and es: "list_all typed es" "int (length es) \<le> i" "i \<le> max 0 cnt"
  let ?Q = "\<lambda>fs. list_all typed fs \<and> int (length fs) \<le> max 0 cnt"
  have more: "safe_read L 0 ?Q (bind (wrap_err ''read property'' (srs_amf0_read_any n)) (\<lambda>elem.
      read_elems n (i + 1) cnt (es @ [elem])))" if "i < cnt"
  proof (rule safe_weaken)
    show "safe_read L (1 + 0) ?Q (bind (wrap_err ''read property'' (srs_amf0_read_any n)) (\<lambda>elem.
        read_elems n (i + 1) cnt (es @ [elem])))"
    proof (rule safe_bind [OF safe_wrap, where P = typed and a = 1])
      show "safe_read L 1 typed (srs_amf0_read_any n)" using any L by (simp add: any_safe_def)
    next
      fix v assume "typed v" "1 \<le> L"
      with L es that show "safe_read (L - 1) 0 ?Q (read_elems n (i + 1) cnt (es @ [v]))"
        by (intro elems [unfolded elems_safe_def, rule_format]) auto
    qed
  qed simp_all
  have "safe_read L (0 + 0) ?Q (read_elems (Suc n) i cnt es)"
    unfolding read_elems.simps
  proof (rule safe_bind [OF safe_gets_empty])
    fix at_end
    have "safe_read L 0 ?Q (ret es)" using es by (intro safe_ret) simp
    with more show "safe_read (L - 0) 0 ?Q (if \<not> (i < cnt \<and> \<not> at_end) then ret es
        else bind (wrap_err ''read property'' (srs_amf0_read_any n)) (\<lambda>elem.
          read_elems n (i + 1) cnt (es @ [elem])))"
      by (simp only: minus_nat.diff_0 split: if_splits) blast
  qed
  then show "safe_read L 0 ?Q (read_elems (Suc n) i cnt es)" by simp
qed

lemma all_safe: "any_safe n \<and> value_safe n \<and> props_safe n \<and> elems_safe n"
proof (induction n)
  case 0
  then show ?case by (simp add: all_safe_defs)
next
  case (Suc n)
  then show ?case by (simp add: any_safe_Suc value_safe_Suc props_safe_Suc elems_safe_Suc)
qed

lemma safe_any: "3 * L + 2 \<le> n \<Longrightarrow> safe_read L 1 typed (srs_amf0_read_any n)"
  using all_safe [of n] by (simp add: any_safe_def)

subsection \<open>More fuel changes nothing\<close>

definition extends :: "'a bufcall \<Rightarrow> 'a bufcall \<Rightarrow> bool" where
  "extends m m' \<longleftrightarrow> (\<forall>s. fst (m s) = Panic OutOfFuel \<or> m' s = m s)"

lemma extends_refl: "extends m m"
  by (simp add: extends_def)

lemma extends_bind:
  assumes "extends m m'" and "\<And>v. extends (f v) (f' v)"
  shows "extends (bind m f) (bind m' f')"
  unfolding extends_def
proof
  fix s
  show "fst (bind m f s) = Panic OutOfFuel \<or> bind m' f' s = bind m f s"
  proof (cases "m' s = m s")
    case True
    then show ?thesis using assms(2)
      by (cases "m s"; cases "fst (m s)") (auto simp: bind_def extends_def)
  next
    case False
    with assms(1) have "fst (m s) = Panic OutOfFuel" by (auto simp: extends_def)
    then show ?thesis by (cases "m s") (simp add: bind_def)
  qed
qed

lemma extends_wrap: "extends m m' \<Longrightarrow> extends (wrap_err msg m) (wrap_err msg m')"
  unfolding extends_def wrap_err_def
  by (metis (no_types, lifting) fst_conv outcome.simps(12) prod.case_eq_if)

lemma extends_panic: "extends (panic OutOfFuel) m"
  by (simp add: extends_def panic_def)

lemma extends_if:
  "extends m m' \<Longrightarrow> extends k k' \<Longrightarrow> extends (if c then m else k) (if c then m' else k')"
  by simp

lemmas extends_intros = extends_refl extends_bind extends_wrap extends_panic

lemma fuel_extends:
  "extends (srs_amf0_read_any n) (srs_amf0_read_any (Suc n)) \<and>
   (\<forall>v. extends (amf0_read n v) (amf0_read (Suc n) v)) \<and>
   (\<forall>ps. extends (read_props n ps) (read_props (Suc n) ps)) \<and>
   (\<forall>i cnt es. extends (read_elems n i cnt es) (read_elems (Suc n) i cnt es))"
proof (induction n)
  case 0
  show ?case by (simp only: srs_amf0_read_any.simps(1) amf0_read.simps(1) read_props.simps(1)
        read_elems.simps(1) extends_panic) simp
next
  case (Suc n)
  then have any: "extends (srs_amf0_read_any n) (srs_amf0_read_any (Suc n))"
    and val: "extends (amf0_read n v) (amf0_read (Suc n) v)"
    and props: "extends (read_props n ps) (read_props (Suc n) ps)"
    and elems: "extends (read_elems n i cnt es) (read_elems (Suc n) i cnt es)"
    for v ps i cnt es by blast+
  note steps = any val props elems extends_intros extends_if
  have "extends (srs_amf0_read_any (Suc n)) (srs_amf0_read_any (Suc (Suc n)))"
    unfolding srs_amf0_read_any.simps(2) [of n] srs_amf0_read_any.simps(2) [of "Suc n"]
    by (intro steps)
  moreover have "extends (amf0_read (Suc n) v) (amf0_read (Suc (Suc n)) v)" for v
    unfolding amf0_read.simps(2) [of n] amf0_read.simps(2) [of "Suc n"] container_defs
    by (cases v; simp only: amf0.case; intro steps)
  moreover have "extends (read_props (Suc n) ps) (read_props (Suc (Suc n)) ps)" for ps
    unfolding read_props.simps(2) [of n ps] read_props.simps(2) [of "Suc n" ps] by (intro steps)
  moreover have "extends (read_elems (Suc n) i cnt es) (read_elems (Suc (Suc n)) i cnt es)" for i cnt es
    unfolding read_elems.simps(2) [of n i cnt es] read_elems.simps(2) [of "Suc n" i cnt es] by (intro steps)
  ultimately show ?case by blast
qed

lemma more_fuel:
  assumes "fst (srs_amf0_read_any n s) \<noteq> Panic OutOfFuel" and "n \<le> m"
  shows "srs_amf0_read_any m s = srs_amf0_read_any n s"
  using assms(2)
proof (induction m rule: dec_induct)
  case (step m)
  with assms(1) fuel_extends [of m] show ?case by (metis extends_def)
qed simp

subsection \<open>The reader is total\<close>

lemma read_any_result:
  assumes "wf_buffer s" and "read_fuel s \<le> n"
  obtains (Ok) v k where "srs_amf0_read_any n s = (Ok v, adv k s)" "k \<le> length (rest s)" "1 \<le> k" "typed v"
    | (Err) e k where "srs_amf0_read_any n s = (Err e, adv k s)" "k \<le> length (rest s)"
        "err_code e \<in> amf0_read_codes"
proof -
  have "safe_read (length (rest s)) 1 typed (srs_amf0_read_any n)"
    using assms by (intro safe_any) (simp add: read_fuel_def left_rest)
  then show thesis using assms(1) order_refl that by (rule safe_readE)
qed

text \<open>
  C4. Reading a value from any bytes whatever ends: it returns a value or an error, which is one of
  the two decoding errors; no assertion stops it, nothing outside the buffer is read and nothing in
  it is changed; the cursor has moved forward, by at least a byte when there is a value. The fuel of
  the model plays no part: three units per byte left and two are enough, and more give the same.
\<close>

theorem read_any_total:
  assumes "wf_buffer s"
  shows "\<exists>r k. amf0_read_any s = (r, adv k s) \<and> k \<le> length (rest s) \<and> wf_buffer (adv k s) \<and>
     ((\<exists>v. r = Ok v \<and> 1 \<le> k) \<or>
      (\<exists>e. r = Err e \<and> err_code e \<in> {ERROR_RTMP_AMF0_DECODE, ERROR_RTMP_AMF0_INVALID})) \<and>
     (\<forall>n \<ge> read_fuel s. srs_amf0_read_any n s = (r, adv k s))"
proof -
  note more = more_fuel [of "read_fuel s" s]
  from assms order_refl show ?thesis
  proof (cases rule: read_any_result)
    case (Ok v k)
    with more assms show ?thesis
      by (intro exI [of _ "Ok v"] exI [of _ k]) (auto simp: amf0_read_any_def wf_adv)
  next
    case (Err e k)
    with more assms show ?thesis
      by (intro exI [of _ "Err e"] exI [of _ k])
        (auto simp: amf0_read_any_def wf_adv amf0_read_codes_def)
  qed
qed

theorem read_any_total_witness:
  "\<exists>r k. amf0_read_any (SrsBuffer_new (Some [3, 0, 1, 0x6B]) 4) = (r, adv k (SrsBuffer_new (Some [3, 0, 1, 0x6B]) 4))
     \<and> k \<le> 4 \<and> \<not> is_panic r"
proof -
  have "wf_buffer (SrsBuffer_new (Some [3, 0, 1, 0x6B]) 4)"
    using wf_new [of "[3, 0, 1, 0x6B]"] by simp
  from read_any_total [OF this] obtain r k where
    "amf0_read_any (SrsBuffer_new (Some [3, 0, 1, 0x6B]) 4) = (r, adv k (SrsBuffer_new (Some [3, 0, 1, 0x6B]) 4))"
    "k \<le> 4" "\<not> is_panic r" by fastforce
  then show ?thesis by blast
qed

text \<open>
  C14. Whatever the bytes, a value that was read has distinct keys in each of its tables, strings and
  keys of less than 32768 characters, and in no strict array more elements than its count says.
\<close>

theorem read_any_typed:
  assumes "wf_buffer s" and "amf0_read_any s = (Ok v, t)"
  shows "typed v \<and> left t < left s \<and> mem t = mem s"
  using assms(1) order_refl
proof (cases rule: read_any_result)
  case (Ok w k)
  with assms have "v = w" "t = adv k s" by (simp_all add: amf0_read_any_def)
  with Ok assms(1) show ?thesis by (auto simp: left_rest wf_adv)
next
  case (Err e k)
  with assms(2) show ?thesis by (simp add: amf0_read_any_def)
qed

theorem read_any_typed_witness:
  "\<exists>v t. amf0_read_any (SrsBuffer_new (Some [1, 1]) 2) = (Ok v, t) \<and> typed v \<and> left t < 2"
proof -
  let ?s = "SrsBuffer_new (Some [1, 1]) 2"
  have wf: "wf_buffer ?s" using wf_new [of "[1, 1]"] by simp
  have "amf0_read_any ?s = (Ok (Amf0Boolean True), adv 2 ?s)" by code_simp
  with read_any_typed [OF wf this] show ?thesis by (auto simp: left_def SrsBuffer_new_def)
qed

end
