(* ===== verification/Amf0Roundtrip.thy ===== *)
theory Amf0Roundtrip
  imports Amf0Write Amf0Read
begin

section \<open>What was written is read back\<close>

text \<open>
  The values the format can represent, the calculus \<open>takes\<close> of calls that consume a byte string, the
  round trip of the AMF0 codec as an instance of the codec interface, and the two kinds of value
  that do not survive it.
\<close>

subsection \<open>Values the format represents\<close>

text \<open>
  Strings and keys below 32768 characters, as their length is read as a signed 16-bit number; keys
  distinct; the count of a strict array its length; and no number whose first two bytes are 0 and 9,
  which behind the marker 0 of a number are an object's end.
\<close>

fun wf_amf0 :: "amf0 \<Rightarrow> bool"
  and wf_props :: "(string \<times> amf0) list \<Rightarrow> bool"
  and wf_elems :: "amf0 list \<Rightarrow> bool" where
  "wf_amf0 (Amf0Number w) = (drop_bit 48 w \<noteq> 9)"
| "wf_amf0 (Amf0String v) = (length v < 32768)"
| "wf_amf0 (Amf0Object ps) = (distinct (map fst ps) \<and> wf_props ps)"
| "wf_amf0 (Amf0EcmaArray cnt ps) = (distinct (map fst ps) \<and> wf_props ps)"
| "wf_amf0 (Amf0StrictArray cnt es) = (sint cnt = int (length es) \<and> wf_elems es)"
| "wf_amf0 _ = True"
| "wf_props [] = True"
| "wf_props ((k, v) # ps) = (length k < 32768 \<and> wf_amf0 v \<and> wf_props ps)"
| "wf_elems [] = True"
| "wf_elems (v # vs) = (wf_amf0 v \<and> wf_elems vs)"

lemma wf_short:
  "wf_amf0 a \<Longrightarrow> short 32768 a"
  "wf_props ps \<Longrightarrow> short_props 32768 ps"
  "wf_elems es \<Longrightarrow> short_elems 32768 es"
  by (induction a and ps and es rule: enc_enc_props_enc_elems.induct) auto

subsection \<open>Calls that consume a byte string\<close>

definition takes :: "'a bufcall \<Rightarrow> byte list \<Rightarrow> 'a \<Rightarrow> bool" where
  "takes m bs v \<longleftrightarrow> (\<forall>s r. wf_buffer s \<longrightarrow> rest s = bs @ r \<longrightarrow> m s = (Ok v, adv (length bs) s))"

lemma takesI:
  "(\<And>s r. wf_buffer s \<Longrightarrow> rest s = bs @ r \<Longrightarrow> m s = (Ok v, adv (length bs) s)) \<Longrightarrow> takes m bs v"
  by (simp add: takes_def)

lemma takesD: "takes m bs v \<Longrightarrow> wf_buffer s \<Longrightarrow> rest s = bs @ r \<Longrightarrow> m s = (Ok v, adv (length bs) s)"
  by (simp add: takes_def)

lemma takes_ret: "takes (ret v) [] v"
  by (rule takesI) simp

lemma takes_bind:
  assumes m: "takes m as x" and f: "takes (f x) bs y"
  shows "takes (bind m f) (as @ bs) y"
proof (rule takesI)
  fix s r assume s: "wf_buffer s" "rest s = (as @ bs) @ r"
  then have "m s = (Ok x, adv (length as) s)" by (intro takesD [OF m]) auto
  moreover have "f x (adv (length as) s) = (Ok y, adv (length bs) (adv (length as) s))"
    using s by (intro takesD [OF f]) (auto intro: wf_adv)
  ultimately show "bind m f s = (Ok y, adv (length (as @ bs)) s)" by (simp add: bind_def)
qed

lemma takes_map: "takes m bs x \<Longrightarrow> takes (bind m (\<lambda>x. ret (g x))) bs (g x)"
  using takes_bind [of m bs x "\<lambda>x. ret (g x)" "[]" "g x"] by (simp add: takes_ret del: ret_eval)

lemma takes_wrap: "takes m bs v \<Longrightarrow> takes (wrap_err msg m) bs v"
  by (simp add: takes_def wrap_err_def)

lemma takes_need: "takes m bs v \<Longrightarrow> 0 \<le> n \<Longrightarrow> n \<le> int (length bs) \<Longrightarrow>
    takes (bind (decode_need n msg) (\<lambda>_. m)) bs v"
  by (simp add: takes_def bind_def decode_need_def ensure_def require_rest)

lemma takes_check: "ok \<Longrightarrow> takes m bs v \<Longrightarrow> takes (bind (decode_check ok msg) (\<lambda>_. m)) bs v"
  by (simp add: takes_def bind_def decode_check_def ensure_def)

lemma takes_check_last: "ok \<Longrightarrow> takes (decode_check ok msg) [] ()"
  by (simp add: takes_def decode_check_def ensure_def)

lemma takes_reads:
  "takes read_1bytes [b] b"
  "takes read_2bytes (be16 v) v"
  "takes read_4bytes (be32 w) w"
  "takes read_8bytes (be64 x) x"
  "takes (read_string (int (length t))) (map byte_of_char t) t"
  by (auto simp: takes_def buf_eval be_defs) (simp_all add: numeral_eq_Suc)

lemma takes_marker:
  assumes "takes m bs v"
  shows "takes (bind (decode_need 1 msg) (\<lambda>_. bind read_1bytes (\<lambda>marker.
    bind (decode_check (marker = x) msg') (\<lambda>_. m)))) (x # bs) v"
proof -
  have "takes (bind read_1bytes (\<lambda>marker. bind (decode_check (marker = x) msg') (\<lambda>_. m))) ([x] @ bs) v"
    by (rule takes_bind [OF takes_reads(1)]) (simp add: takes_check assms)
  then show ?thesis by (intro takes_need) simp_all
qed

lemma takes_marker_last:
  "takes (bind (decode_need 1 msg) (\<lambda>_. bind read_1bytes (\<lambda>marker.
    decode_check (marker = x) msg'))) [x] ()"
proof -
  have "takes (bind read_1bytes (\<lambda>marker. decode_check (marker = x) msg')) ([x] @ []) ()"
    by (rule takes_bind [OF takes_reads(1)]) (simp add: takes_check_last)
  then show ?thesis by (intro takes_need) simp_all
qed

lemma takes_4: "takes (f w) bs v \<Longrightarrow>
    takes (bind (decode_need 4 msg) (\<lambda>_. bind read_4bytes f)) (be32 w @ bs) v"
  by (intro takes_need takes_bind [OF takes_reads(3)]) simp_all

subsection \<open>The primitive readers take what the writers emit\<close>

lemma sint_length_16: "n < 32768 \<Longrightarrow> sint (word_of_nat n :: 16 word) = int n"
  by (simp add: signed_of_nat signed_take_bit_int_eq_self)

lemma takes_utf8:
  assumes "length v < 32768"
  shows "takes (srs_amf0_read_utf8 []) (enc_utf8 v) v"
  unfolding srs_amf0_read_utf8_def enc_utf8_def
proof (intro takes_need takes_bind [OF takes_reads(2)])
  let ?n = "sint (word_of_nat (length v) :: 16 word)"
  have n: "?n = int (length v)" using assms by (rule sint_length_16)
  show "takes (if ?n \<le> 0 then ret [] else bind (decode_need ?n ''requires %d only %d bytes'')
      (\<lambda>_. read_string ?n)) (map byte_of_char v) v"
  proof (cases "v = []")
    case True
    then show ?thesis by (simp add: takes_def)
  next
    case False
    then show ?thesis unfolding n by (auto intro!: takes_need takes_reads)
  qed
qed simp_all

lemma takes_string: "length v < 32768 \<Longrightarrow> takes (srs_amf0_read_string []) (RTMP_AMF0_String # enc_utf8 v) v"
  unfolding srs_amf0_read_string_def by (intro takes_marker takes_utf8)

lemma takes_boolean: "takes srs_amf0_read_boolean [RTMP_AMF0_Boolean, if b then 1 else 0] b"
proof -
  have "takes (bind read_1bytes (\<lambda>x. ret (x \<noteq> 0))) [if b then 1 else 0] b"
    using takes_map [OF takes_reads(1) [of "if b then 1 else 0"], of "\<lambda>x. x \<noteq> 0"] by (cases b) auto
  then show ?thesis unfolding srs_amf0_read_boolean_def by (intro takes_marker takes_need) simp_all
qed

lemma takes_number: "takes srs_amf0_read_number (RTMP_AMF0_Number # be64 w) w"
  unfolding srs_amf0_read_number_def by (intro takes_marker takes_need takes_reads) simp_all

lemma takes_null: "takes srs_amf0_read_null [RTMP_AMF0_Null] ()"
  unfolding srs_amf0_read_null_def by (rule takes_marker_last)

lemma takes_undefined: "takes srs_amf0_read_undefined [RTMP_AMF0_Undefined] ()"
  unfolding srs_amf0_read_undefined_def by (rule takes_marker_last)

lemma takes_date: "takes date_read (RTMP_AMF0_Date # be64 d @ be16 z) (d, z)"
proof -
  have "takes (bind (decode_need 2 ''requires 2 only %d bytes'') (\<lambda>_. bind read_2bytes (\<lambda>time_zone.
      ret (d, time_zone)))) (be16 z) (d, z)"
    by (intro takes_need takes_map takes_reads) simp_all
  then have "takes (bind read_8bytes (\<lambda>date_value. bind (decode_need 2 ''requires 2 only %d bytes'') (\<lambda>_.
      bind read_2bytes (\<lambda>time_zone. ret (date_value, time_zone))))) (be64 d @ be16 z) (d, z)"
    by (rule takes_bind [OF takes_reads(4)])
  then show ?thesis unfolding date_read_def by (intro takes_marker takes_need) simp_all
qed

lemma takes_eof: "takes eof_read enc_eof ()"
proof -
  have "takes (bind read_2bytes (\<lambda>temp. bind (decode_check (temp = 0x00) ''EOF invalid marker=%#x'') (\<lambda>_.
      bind (decode_need 1 ''EOF requires 1 only %d bytes'') (\<lambda>_. bind read_1bytes (\<lambda>marker.
      decode_check (marker = RTMP_AMF0_ObjectEnd) ''EOF invalid marker=%#x'')))))
      (be16 0 @ [RTMP_AMF0_ObjectEnd]) ()"
    by (intro takes_bind [OF takes_reads(2)] takes_check takes_marker_last) simp
  then have "takes eof_read (be16 0 @ [RTMP_AMF0_ObjectEnd]) ()"
    unfolding eof_read_def by (intro takes_need) simp_all
  then show ?thesis by (simp add: enc_eof_def be16_def pp_def)
qed

subsection \<open>A value is recognised by its first bytes\<close>

lemma drop_bit_48: "drop_bit 48 w = (le_word [pp 6 w, pp 7 w] :: 64 word)"
proof (rule bit_word_eqI)
  fix k assume "k < LENGTH(64)"
  then consider "k div 8 = 0" | "k div 8 = 1" | "2 \<le> k div 8" by linarith
  then show "bit (drop_bit 48 w) k = bit (le_word [pp 6 w, pp 7 w] :: 64 word) k"
  proof cases
    case 1
    with \<open>k < LENGTH(64)\<close> show ?thesis by (simp add: bit_simps bit_le_word bit_pp div_eq_0_iff)
  next
    case 2
    then have "k mod 8 = k - 8" "8 \<le> k" "k - 8 < 8" by (simp_all add: modulo_nat_def)
    with 2 \<open>k < LENGTH(64)\<close> show ?thesis by (simp add: bit_simps bit_le_word bit_pp)
  next
    case 3
    then have "64 \<le> 48 + k" by linarith
    with 3 show ?thesis by (auto simp: bit_simps bit_le_word dest: bit_imp_le_length)
  qed
qed

lemma le_word_inject_2: "(le_word [b0, b1] :: 64 word) = 9 \<longleftrightarrow> b0 = 9 \<and> b1 = 0"
proof
  assume eq: "(le_word [b0, b1] :: 64 word) = 9"
  have "pp i (9 :: 64 word) = [b0, b1] ! i" if "i < 2" for i
    using that pp_le_word [where 'a = 64, of i "[b0, b1]"] by (simp add: eq)
  from this [of 0] this [of 1] show "b0 = 9 \<and> b1 = 0" by (simp add: pp_def)
next
  assume "b0 = 9 \<and> b1 = 0"
  then show "(le_word [b0, b1] :: 64 word) = 9" by (simp add: le_word.simps)
qed

lemma number_not_eof:
  "eof_ahead (enc (Amf0Number w) @ r) \<longleftrightarrow> drop_bit 48 w = 9"
proof -
  have "pp 7 w = 0 \<and> pp 6 w = 9 \<longleftrightarrow> drop_bit 48 w = 9"
    using le_word_inject_2 [of "pp 6 w" "pp 7 w"] by (auto simp: drop_bit_48)
  then show ?thesis by (auto simp: eof_ahead_def be64_def marker_defs numeral_3_eq_3)
qed

lemma enc_not_Nil [simp]: "enc a \<noteq> []"
  by (cases a) (simp_all add: enc_eof_def)

lemma length_enc_pos: "1 \<le> length (enc a)"
  by (cases "enc a") (simp_all add: Suc_le_eq)

lemma hd_enc: "hd (enc a) \<noteq> 9"
  by (cases a) (simp_all add: enc_eof_def marker_defs)

text \<open>The default value of a value's class, which \<^verbatim>\<open>discovery\<close> makes on its encoding.\<close>

fun blank :: "amf0 \<Rightarrow> amf0" where
  "blank (Amf0Number _) = Amf0Number 0"
| "blank (Amf0Boolean _) = Amf0Boolean False"
| "blank (Amf0String _) = Amf0String []"
| "blank (Amf0Object _) = Amf0Object []"
| "blank Amf0Null = Amf0Null"
| "blank Amf0Undefined = Amf0Undefined"
| "blank (Amf0EcmaArray _ _) = Amf0EcmaArray 0 []"
| "blank Amf0ObjectEOF = Amf0ObjectEOF"
| "blank (Amf0StrictArray _ _) = Amf0StrictArray 0 []"
| "blank (Amf0Date _ _) = Amf0Date 0 0"

lemma eof_ahead_marker: "m \<noteq> 0 \<Longrightarrow> \<not> eof_ahead (m # bs)"
  by (simp add: eof_ahead_def numeral_3_eq_3)

lemma discovery_enc:
  assumes "wf_amf0 a" and "wf_buffer s" and "rest s = enc a @ r"
  shows "discovery s = (Ok (blank a), s)"
proof (cases "a = Amf0ObjectEOF \<or> (\<exists>w. a = Amf0Number w)")
  case True
  with assms number_not_eof show ?thesis
    by (auto simp: discovery_eval fresh_def)
      (auto simp: enc_eof_def eof_ahead_def marker_defs)
next
  case False
  then have "\<not> eof_ahead (enc a @ r)" by (cases a) (simp_all add: eof_ahead_marker marker_defs)
  with False assms show ?thesis
    by (cases a) (simp_all add: discovery_eval fresh_def marker_defs)
qed

lemma takes_any:
  assumes "wf_amf0 a" and "bs = enc a" and "takes (amf0_read n (blank a)) bs a"
  shows "takes (srs_amf0_read_any (Suc n)) bs a"
proof (rule takesI)
  fix s r assume "wf_buffer s" "rest s = bs @ r"
  with assms(2) have s: "wf_buffer s" "rest s = enc a @ r" by simp_all
  then have "discovery s = (Ok (blank a), s)" using assms(1) by (simp add: discovery_enc)
  moreover have "amf0_read n (blank a) s = (Ok a, adv (length (enc a)) s)"
    using takesD [OF assms(3) [unfolded assms(2)] s] .
  ultimately show "srs_amf0_read_any (Suc n) s = (Ok a, adv (length bs) s)"
    by (simp add: assms(2)) (simp add: bind_def wrap_err_def)
qed

lemma takes_not_empty:
  "bs \<noteq> [] \<Longrightarrow> takes (m False) bs v \<Longrightarrow> takes (bind (gets empty) m) bs v"
  by (auto simp: takes_def empty_rest)

lemma takes_peek:
  "(\<And>r. eof_ahead (bs @ r) = b) \<Longrightarrow> takes (m b) bs v \<Longrightarrow> takes (bind srs_amf0_is_object_eof m) bs v"
  by (auto simp: takes_def bind_def is_object_eof_eval)

lemma be16_zero: "n < 32768 \<Longrightarrow> be16 (word_of_nat n) = [0, 0] \<Longrightarrow> n = 0"
proof -
  assume n: "n < 32768" and "be16 (word_of_nat n) = [0, 0]"
  then have "(le_word [0, 0] :: 16 word) = word_of_nat n"
    using le_word_pp_16 [of "word_of_nat n"] by (simp add: be16_def)
  then have "sint (word_of_nat n :: 16 word) = 0" by (simp add: le_word.simps)
  with sint_length_16 [OF n] show "n = 0" by simp
qed

lemma property_not_eof:
  assumes "length k < 32768"
  shows "\<not> eof_ahead (enc_utf8 k @ enc v @ bs)"
proof (cases "k = []")
  case True
  obtain x xs where "enc v = x # xs" "x \<noteq> 9" using hd_enc [of v] by (cases "enc v") auto
  with True show ?thesis by (simp add: eof_ahead_def enc_utf8_def be16_def pp_def numeral_3_eq_3)
next
  case False
  with be16_zero [OF assms] have "be16 (word_of_nat (length k)) \<noteq> [0, 0]" by auto
  then show ?thesis by (auto simp: eof_ahead_def enc_utf8_def be16_def numeral_3_eq_3)
qed

subsection \<open>The round trip\<close>

lemma props_set_new: "k \<notin> fst ` set qs \<Longrightarrow> props_set k (Some v) qs = qs @ [(k, v)]"
  by (simp add: props_set_def erase_first_notin)

lemma fuel_2:
  assumes "3 * length (enc a) \<le> n"
  obtains m where "n = Suc (Suc m)"
  using assms length_enc_pos [of a] that by (cases n; cases "n - 1") auto

text \<open>The values without values of their own.\<close>

lemma takes_scalar:
  assumes "wf_amf0 a" and "3 * length (enc a) \<le> n" and "\<And>ps. a \<noteq> Amf0Object ps" and "\<And>c ps. a \<noteq> Amf0EcmaArray c ps"
    and "\<And>c es. a \<noteq> Amf0StrictArray c es"
  shows "takes (srs_amf0_read_any n) (enc a) a"
proof -
  from assms(2) obtain m where n: "n = Suc (Suc m)" by (rule fuel_2)
  have "takes (amf0_read (Suc m) (blank a)) (enc a) a"
  proof (cases a)
    case (Amf0Boolean b)
    then show ?thesis using takes_map [OF takes_boolean [of b], of Amf0Boolean] by simp
  next
    case Amf0ObjectEOF
    then show ?thesis using takes_map [OF takes_eof, of "\<lambda>_. Amf0ObjectEOF"] by simp
  next
    case (Amf0Date d z)
    then show ?thesis using takes_map [OF takes_date [of d z], of "\<lambda>(d, z). Amf0Date d z"] by (simp add: case_prod_unfold)
  qed (use assms in \<open>auto intro!: takes_map takes_map [of _ _ "()"] takes_number takes_string takes_null takes_undefined\<close>)
  then show ?thesis unfolding n by (rule takes_any [OF assms(1) refl])
qed

lemma takes_containers:
  "wf_amf0 (Amf0Object ps) \<Longrightarrow> takes (read_props m []) (enc_props ps @ enc_eof) ps \<Longrightarrow>
    takes (srs_amf0_read_any (Suc (Suc m))) (enc (Amf0Object ps)) (Amf0Object ps)"
  "wf_amf0 (Amf0EcmaArray count ps) \<Longrightarrow> takes (read_props m []) (enc_props ps @ enc_eof) ps \<Longrightarrow>
    takes (srs_amf0_read_any (Suc (Suc m))) (enc (Amf0EcmaArray count ps)) (Amf0EcmaArray count ps)"
  "wf_amf0 (Amf0StrictArray count es) \<Longrightarrow> takes (read_elems m 0 (sint count) []) (enc_elems es) es \<Longrightarrow>
    takes (srs_amf0_read_any (Suc (Suc m))) (enc (Amf0StrictArray count es)) (Amf0StrictArray count es)"
  by (auto simp: container_defs intro!: takes_any takes_marker takes_4 takes_map simp del: srs_amf0_read_any.simps)

text \<open>The loops: the end of a table, and one more property or element.\<close>

lemma takes_props_end: "takes (read_props (Suc m) qs) enc_eof qs"
proof -
  have "eof_ahead (enc_eof @ r)" for r by (simp add: enc_eof_def eof_ahead_def marker_defs)
  then show ?thesis
    using takes_bind [OF takes_wrap [OF takes_eof], of "\<lambda>_. ret qs" "[]" qs "''read EOF''"]
    by (auto intro!: takes_not_empty takes_peek simp: takes_ret simp del: ret_eval bind_gets)
      (simp_all add: enc_eof_def)
qed

lemma takes_props_next:
  assumes k: "length k < 32768" "k \<notin> fst ` set qs" and v: "takes (srs_amf0_read_any m) (enc v) v"
    and ps: "takes (read_props m (qs @ [(k, v)])) (enc_props ps @ enc_eof) rs"
  shows "takes (read_props (Suc m) qs) (enc_props ((k, v) # ps) @ enc_eof) rs"
proof -
  have "takes (bind (wrap_err ''read property name'' (srs_amf0_read_utf8 [])) (\<lambda>name.
      bind (wrap_err ''read property value, name=%s'' (srs_amf0_read_any m)) (\<lambda>value.
      read_props m (props_set name (Some value) qs)))) (enc_utf8 k @ enc v @ enc_props ps @ enc_eof) rs"
    using assms props_set_new [OF k(2)] by (intro takes_bind [OF takes_wrap [OF takes_utf8]] takes_bind [OF takes_wrap]) auto
  moreover have "\<not> eof_ahead (enc_utf8 k @ enc v @ enc_props ps @ enc_eof @ r)" for r
    by (rule property_not_eof [OF k(1)])
  ultimately show ?thesis unfolding read_props.simps
    by (intro takes_not_empty) (auto intro!: takes_peek [where b = False])
qed

lemma takes_elems_next:
  assumes "i < cnt" and "takes (srs_amf0_read_any m) (enc v) v" and "takes (read_elems m (i + 1) cnt (fs @ [v])) (enc_elems es) gs"
  shows "takes (read_elems (Suc m) i cnt fs) (enc_elems (v # es)) gs"
proof -
  have "takes (bind (wrap_err ''read property'' (srs_amf0_read_any m)) (\<lambda>elem.
      read_elems m (i + 1) cnt (fs @ [elem]))) (enc v @ enc_elems es) gs"
    using assms(2,3) by (intro takes_bind [OF takes_wrap]) auto
  with assms(1) show ?thesis unfolding read_elems.simps using length_enc_pos [of v]
    by (intro takes_not_empty) auto
qed

lemma takes_enc:
  "wf_amf0 a \<Longrightarrow> 3 * length (enc a) \<le> n \<Longrightarrow> takes (srs_amf0_read_any n) (enc a) a"
  "wf_props ps \<Longrightarrow> distinct (map fst (qs @ ps)) \<Longrightarrow> 3 * length (enc_props ps) + 1 \<le> n \<Longrightarrow>
     takes (read_props n qs) (enc_props ps @ enc_eof) (qs @ ps)"
  "wf_elems es \<Longrightarrow> i + int (length es) = cnt \<Longrightarrow> 3 * length (enc_elems es) + 1 \<le> n \<Longrightarrow>
     takes (read_elems n i cnt fs) (enc_elems es) (fs @ es)"
proof (induction a and ps and es arbitrary: n and n qs and n i cnt fs rule: enc_enc_props_enc_elems.induct)
  case (4 ps)
  from "4.prems"(2) obtain m where n: "n = Suc (Suc m)" by (rule fuel_2)
  then have "takes (read_props m []) (enc_props ps @ enc_eof) ([] @ ps)" using 4 by (intro "4.IH") auto
  then show ?case using takes_containers(1) [OF "4.prems"(1)] n by simp
next
  case (7 count ps)
  from "7.prems"(2) obtain m where n: "n = Suc (Suc m)" by (rule fuel_2)
  then have "takes (read_props m []) (enc_props ps @ enc_eof) ([] @ ps)" using 7 by (intro "7.IH") auto
  then show ?case using takes_containers(2) [OF "7.prems"(1)] n by simp
next
  case (9 count es)
  from "9.prems"(2) obtain m where n: "n = Suc (Suc m)" by (rule fuel_2)
  then have "takes (read_elems m 0 (sint count) []) (enc_elems es) ([] @ es)" using 9 by (intro "9.IH") auto
  then show ?case using takes_containers(3) [OF "9.prems"(1)] n by simp
next
  case 11
  then obtain m where "n = Suc m" by (cases n) auto
  then show ?case using takes_props_end [of m qs] by (simp del: read_props.simps)
next
  case (12 k v ps)
  then obtain m where n: "n = Suc m" by (cases n) auto
  have "takes (read_props m (qs @ [(k, v)])) (enc_props ps @ enc_eof) ((qs @ [(k, v)]) @ ps)"
    using 12 n by (intro "12.IH"(2)) auto
  moreover have "takes (srs_amf0_read_any m) (enc v) v" using 12 n by (intro "12.IH"(1)) auto
  ultimately show ?case unfolding n using 12 by (intro takes_props_next) auto
next
  case 13
  then obtain m where n: "n = Suc m" by (cases n) auto
  with 13 show ?case by (simp add: takes_def)
next
  case (14 v es)
  then obtain m where n: "n = Suc m" by (cases n) auto
  have "takes (read_elems m (i + 1) cnt (fs @ [v])) (enc_elems es) ((fs @ [v]) @ es)"
    using 14 n length_enc_pos [of v] by (intro "14.IH"(2)) auto
  moreover have "takes (srs_amf0_read_any m) (enc v) v" using 14 n length_enc_pos [of v] by (intro "14.IH"(1)) auto
  ultimately show ?case unfolding n using 14 by (intro takes_elems_next) auto
qed (rule takes_scalar; simp)+

lemma read_any_takes:
  assumes "wf_amf0 a" and "wf_buffer s" and "rest s = enc a @ r"
  shows "amf0_read_any s = (Ok a, adv (length (enc a)) s)"
proof -
  have "3 * length (enc a) \<le> read_fuel s"
    using assms by (simp add: read_fuel_def left_rest)
  with assms show ?thesis
    unfolding amf0_read_any_def by (intro takesD [OF takes_enc(1)])
qed

interpretation amf0: codec srs_amf0_write_any amf0_read_any enc wf_amf0
proof
  fix a s assume "wf_amf0 a" "wf_buffer s" "length (enc a) \<le> length (rest s)"
  then show "srs_amf0_write_any a s = (Ok (), poke (enc a) s)"
    by (intro emits_room [OF emits_any(1)] short_mono(1) [OF _ wf_short(1)]) simp_all
next
  fix a s r assume "wf_amf0 a" "wf_buffer s" "rest s = enc a @ r"
  then show "amf0_read_any s = (Ok a, adv (length (enc a)) s)" by (rule read_any_takes)
qed

interpretation utf8: codec srs_amf0_write_utf8 "srs_amf0_read_utf8 []" enc_utf8 "\<lambda>v. length v < 32768"
proof
  fix v s assume "length v < 32768" "wf_buffer s" "length (enc_utf8 v) \<le> length (rest s)"
  then show "srs_amf0_write_utf8 v s = (Ok (), poke (enc_utf8 v) s)"
    by (intro emits_room [OF emits_utf8]) simp_all
next
  fix v s r assume "length v < 32768" "wf_buffer s" "rest s = enc_utf8 v @ r"
  then show "srs_amf0_read_utf8 [] s = (Ok v, adv (length (enc_utf8 v)) s)"
    by (intro takesD [OF takes_utf8])
qed

lemma size_of_wf: "wf_amf0 a \<Longrightarrow> total_size a = int_checked (length (enc a))"
  by (intro total_size_enc(1) short_mono(1) [OF _ wf_short(1)]) simp_all

text \<open>
  C2. Any value the format represents, of any shape and depth, that \<^verbatim>\<open>total_size\<close> says fits into the
  buffer is read back as it was after it is written and the cursor is put back by that size; the
  reader stops exactly where the writer did.
\<close>

theorem amf0_roundtrip:
  assumes "wf_amf0 a" and "wf_buffer s" and "total_size a = Ok n" and "n \<le> left s"
  shows "bind (srs_amf0_write_any a) (\<lambda>_. bind (skip (- n)) (\<lambda>_. amf0_read_any)) s =
    (Ok a, poke (enc a) s)"
proof -
  have n: "n = int (length (enc a))" using assms(1,3) by (simp add: size_of_wf int_checked_def split: if_splits)
  with assms have room: "length (enc a) \<le> length (rest s)" by (simp add: left_rest)
  show ?thesis unfolding n
    using assms(1,2) room amf0.encode_wire [of a s]
    by (intro write_read_back [OF _ room]) (auto intro: amf0.decode_wire)
qed

theorem amf0_roundtrip_witness:
  "let a = Amf0Object [(''k'', Amf0StrictArray 2 [Amf0Number 0x3FF0000000000000, Amf0Null])] in
   fst (bind (srs_amf0_write_any a) (\<lambda>_. bind (skip (-22)) (\<lambda>_. amf0_read_any))
     (SrsBuffer_new (Some (replicate 22 0)) 22)) = Ok a"
proof -
  let ?a = "Amf0Object [(''k'', Amf0StrictArray 2 [Amf0Number 0x3FF0000000000000, Amf0Null])]"
  let ?s = "SrsBuffer_new (Some (replicate 22 0)) 22"
  have "wf_buffer ?s" using wf_new [of "replicate 22 0"] by simp
  moreover have "total_size ?a = Ok 22"
    by (simp add: size_utf8_def int_of_size_small int_add_def size_defs container_size_defs)
  moreover have "wf_amf0 ?a" by (simp add: drop_bit_eq_div)
  moreover have "22 \<le> left ?s" by (simp add: left_def SrsBuffer_new_def)
  ultimately show ?thesis unfolding Let_def using amf0_roundtrip [of ?a ?s 22] by (simp only: fst_conv)
qed

text \<open>
  A peer's loops: values written one after another into a buffer, and as many read from it.
\<close>

primrec write_values :: "amf0 list \<Rightarrow> unit bufcall" where
  "write_values [] = ret ()"
| "write_values (a # as) = bind (srs_amf0_write_any a) (\<lambda>_. write_values as)"

primrec read_values :: "nat \<Rightarrow> amf0 list bufcall" where
  "read_values 0 = ret []"
| "read_values (Suc n) = bind amf0_read_any (\<lambda>a. bind (read_values n) (\<lambda>as. ret (a # as)))"

lemma write_values_codec: "write_values as = amf0.encode_all as"
  by (induction as) (simp_all del: ret_eval)

lemma read_values_codec: "read_values n = amf0.decode_times n"
  by (induction n) (simp_all del: ret_eval)

text \<open>
  C10. The format delimits itself: values written one after another are read back as the same
  values by as many reads, and two values with encodings that agree as far as the shorter one
  goes are the same value.
\<close>

theorem amf0_stream:
  assumes "list_all wf_amf0 as" and "wf_buffer s"
    and "length (concat (map enc as)) \<le> length (rest s)"
    and "wf_amf0 a" and "wf_amf0 b" and "enc a @ r = enc b @ q" and "length (enc a @ r) < 2 ^ 31"
  shows "bind (write_values as) (\<lambda>_. bind (skip (- int (length (concat (map enc as))))) (\<lambda>_.
      read_values (length as))) s = (Ok as, poke (concat (map enc as)) s) \<and> a = b \<and> r = q"
  using amf0.sequence_roundtrip [OF assms(1,2)] amf0.wire_unique [OF assms(4-7)] assms(3)
  by (simp add: write_values_codec read_values_codec amf0.wires_def)

theorem amf0_stream_witness:
  "fst (bind (write_values [Amf0Null, Amf0Boolean True]) (\<lambda>_. bind (skip (-3)) (\<lambda>_. read_values 2))
     (SrsBuffer_new (Some [0, 0, 0]) 3)) = Ok [Amf0Null, Amf0Boolean True]"
proof -
  let ?s = "SrsBuffer_new (Some [0, 0, 0]) 3"
  have "wf_buffer ?s" using wf_new [of "[0, 0, 0]"] by simp
  then show ?thesis
    using amf0_stream [of "[Amf0Null, Amf0Boolean True]" ?s Amf0Null Amf0Null "[]" "[]"]
    by (simp add: numeral_2_eq_2 [symmetric] del: write_values.simps read_values.simps)
qed

text \<open>
  C33. What does not survive: a number whose first two bytes are 0 and 9 is read as an object's end,
  six bytes too early; a string of 32768 to 65535 characters is read as the empty string, with
  its characters left in the buffer to be taken for the next value.
\<close>

theorem amf0_not_represented:
  assumes "wf_buffer s" and "wf_buffer t"
    and "rest s = enc (Amf0Number w) @ r" and "drop_bit 48 w = 9"
    and "rest t = enc (Amf0String v) @ q" and "32768 \<le> length v" and "length v < 65536"
  shows "amf0_read_any s = (Ok Amf0ObjectEOF, adv 3 s) \<and>
    amf0_read_any t = (Ok (Amf0String []), adv 3 t)"
proof
  have "eof_ahead (rest s)" using assms(3,4) number_not_eof [of w r] by simp
  then obtain r' where "rest s = enc Amf0ObjectEOF @ r'"
    using append_take_drop_id [of 3 "rest s"] by (metis eof_ahead_def enc.simps(8) enc_eof_def RTMP_AMF0_ObjectEnd_def)
  with assms(1) show "amf0_read_any s = (Ok Amf0ObjectEOF, adv 3 s)"
    using read_any_takes [of Amf0ObjectEOF s] by simp
next
  let ?len = "word_of_nat (length v) :: 16 word"
  have "length v div 32768 = 1" using assms(6,7) by (intro div_nat_eqI) simp_all
  then have "bit (length v) 15" by (simp add: bit_iff_odd)
  then have neg: "sint ?len \<le> 0" using assms(7)
    by (simp add: signed_of_nat signed_take_bit_eq_take_bit_minus take_bit_int_eq_self bit_simps)
  have "takes (srs_amf0_read_utf8 []) (be16 ?len) []"
    unfolding srs_amf0_read_utf8_def
    using neg takes_bind [OF takes_reads(2) [of ?len], of "\<lambda>len. if sint len \<le> 0 then ret [] else
      bind (decode_need (sint len) ''requires %d only %d bytes'') (\<lambda>_. read_string (sint len))" "[]" "[]"]
    by (intro takes_need) (simp_all add: takes_ret del: ret_eval)
  then have str: "takes (srs_amf0_read_string []) (RTMP_AMF0_String # be16 ?len) []"
    unfolding srs_amf0_read_string_def by (rule takes_marker)
  have "discovery t = (Ok (Amf0String []), t)"
    using assms(2,5) by (simp add: discovery_eval eof_ahead_marker fresh_def marker_defs)
  moreover have "srs_amf0_read_string [] t = (Ok [], adv 3 t)"
    using takesD [OF str assms(2), of "map byte_of_char v @ q"] assms(5)
    by (simp add: enc_utf8_def)
  moreover have "read_fuel t = Suc (Suc (3 * nat (left t)))" by (simp add: read_fuel_def)
  ultimately show "amf0_read_any t = (Ok (Amf0String []), adv 3 t)"
    by (simp add: amf0_read_any_def bind_def wrap_err_def)
qed

theorem amf0_not_represented_witness:
  "let s = SrsBuffer_new (Some (enc (Amf0Number 0x0009000000000000))) 9 in
   amf0_read_any s = (Ok Amf0ObjectEOF, adv 3 s)"
proof -
  let ?s = "SrsBuffer_new (Some (enc (Amf0Number 0x0009000000000000))) 9"
  obtain v :: string where v: "length v = 40000" using Ex_list_of_length by blast
  let ?t = "SrsBuffer_new (Some (enc (Amf0String v))) (int (length (enc (Amf0String v))))"
  have s: "wf_buffer ?s" using wf_new [of "enc (Amf0Number 0x0009000000000000)"] by simp
  have t: "wf_buffer ?t" by (rule wf_new) (simp add: v)
  have "drop_bit 48 (0x0009000000000000 :: 64 word) = 9" by (simp add: drop_bit_eq_div)
  then show ?thesis
    using amf0_not_represented [OF s t, of _ "[]" v "[]"] unfolding rest_new Let_def by (simp add: v)
qed

end
