(* ===== verification/Amf0Memory.thy ===== *)
theory Amf0Memory
  imports Amf0Read "HOL-Library.Multiset"
begin

section \<open>AMF0 objects in memory\<close>

text \<open>
  The values of \<open>Amf0Value\<close> are objects behind pointers: a container has pointers to its values and deletes
  them. Here the objects are in a memory, with the places where the code makes and deletes them: the
  constructors, \<^verbatim>\<open>srs_freep\<close> in the hashtable, in the destructors and behind an error of a read. The
  hashtable and the end mark that a container makes in its constructor and deletes in its destructor, and
  gives to nobody, are part of the container's object.
\<close>

subsection \<open>Objects\<close>

datatype amf0_cell = CellValue amf0 | CellObject "nat props" | CellEcma "32 word" "nat props" | CellStrict "32 word" "nat list"

record amf0_memory =
  am_objs :: "nat \<Rightarrow> amf0_cell option"
  am_next :: nat

definition no_objs :: amf0_memory where
  "no_objs = \<lparr>am_objs = (\<lambda>_. None), am_next = 0\<rparr>"

text \<open>\<^verbatim>\<open>new\<close>, and an access to an object, which is undefined when it was deleted.\<close>

definition new_obj :: "amf0_cell \<Rightarrow> (amf0_memory, nat) call" where
  "new_obj c m = (Ok (am_next m), m\<lparr>am_objs := (am_objs m)(am_next m \<mapsto> c), am_next := am_next m + 1\<rparr>)"

definition obj_at :: "nat \<Rightarrow> (amf0_memory, amf0_cell) call" where
  "obj_at a m = (case am_objs m a of None \<Rightarrow> (Panic UndefinedBehaviour, m) | Some c \<Rightarrow> (Ok c, m))"

definition put_obj :: "nat \<Rightarrow> amf0_cell \<Rightarrow> (amf0_memory, unit) call" where
  "put_obj a c = bind (obj_at a) (\<lambda>_ m. (Ok (), m\<lparr>am_objs := (am_objs m)(a \<mapsto> c)\<rparr>))"

text \<open>The pointers that a destructor deletes, in order.\<close>

fun cell_values :: "amf0_cell \<Rightarrow> nat list" where
  "cell_values (CellValue _) = []"
| "cell_values (CellObject ps) = map snd ps"
| "cell_values (CellEcma _ ps) = map snd ps"
| "cell_values (CellStrict _ es) = es"

text \<open>
  \<^verbatim>\<open>delete\<close>: the destructor deletes the values, then the object goes. The fuel is the depth, and there are
  no more objects above each other than were ever made.
\<close>

fun delete_obj :: "nat \<Rightarrow> nat \<Rightarrow> (amf0_memory, unit) call"
  and delete_objs :: "nat \<Rightarrow> nat list \<Rightarrow> (amf0_memory, unit) call" where
  "delete_obj 0 a = panic OutOfFuel"
| "delete_obj (Suc n) a =
     bind (obj_at a) (\<lambda>c.
     bind (delete_objs n (cell_values c)) (\<lambda>_.
     bind (obj_at a) (\<lambda>_ m. (Ok (), m\<lparr>am_objs := (am_objs m)(a := None)\<rparr>))))"
| "delete_objs n [] = ret ()"
| "delete_objs n (a # as) = bind (delete_obj n a) (\<lambda>_. delete_objs n as)"

definition amf0_delete :: "nat \<Rightarrow> (amf0_memory, unit) call" where
  "amf0_delete a m = delete_obj (am_next m) a m"

subsection \<open>The hashtable of pointers\<close>

definition table_set :: "string \<Rightarrow> nat option \<Rightarrow> nat props \<Rightarrow> (amf0_memory, nat props) call" where
  "table_set key value ps =
     bind (case get_property key ps of None \<Rightarrow> ret () | Some any \<Rightarrow> amf0_delete any) (\<lambda>_.
     ret (props_set key value ps))"

text \<open>The operations of an object or an ECMA array change its table, those of a strict array its vector.\<close>

definition on_table :: "(nat props \<Rightarrow> (amf0_memory, nat props) call) \<Rightarrow> nat \<Rightarrow> (amf0_memory, unit) call" where
  "on_table f a = bind (obj_at a) (\<lambda>c. case c of
      CellObject ps \<Rightarrow> bind (f ps) (\<lambda>qs. put_obj a (CellObject qs))
    | CellEcma n ps \<Rightarrow> bind (f ps) (\<lambda>qs. put_obj a (CellEcma n qs))
    | _ \<Rightarrow> panic UndefinedBehaviour)"

definition obj_set :: "nat \<Rightarrow> string \<Rightarrow> nat option \<Rightarrow> (amf0_memory, unit) call" where
  "obj_set a key value = on_table (table_set key value) a"

definition strict_push :: "nat \<Rightarrow> nat \<Rightarrow> (amf0_memory, unit) call" where
  "strict_push a elem = bind (obj_at a) (\<lambda>c. case c of
      CellStrict n es \<Rightarrow> put_obj a (CellStrict n (es @ [elem]))
    | _ \<Rightarrow> panic UndefinedBehaviour)"

definition set_count :: "nat \<Rightarrow> 32 word \<Rightarrow> (amf0_memory, unit) call" where
  "set_count a n = bind (obj_at a) (\<lambda>c. case c of
      CellEcma _ ps \<Rightarrow> put_obj a (CellEcma n ps)
    | CellStrict _ es \<Rightarrow> put_obj a (CellStrict n es)
    | _ \<Rightarrow> panic UndefinedBehaviour)"

subsection \<open>Reading a value\<close>

text \<open>The object that a constructor makes; what \<^verbatim>\<open>discovery\<close> finds is a value without values of its own.\<close>

fun cell_of :: "amf0 \<Rightarrow> amf0_cell" where
  "cell_of (Amf0Object _) = CellObject []"
| "cell_of (Amf0EcmaArray n _) = CellEcma n []"
| "cell_of (Amf0StrictArray n _) = CellStrict n []"
| "cell_of v = CellValue v"

fun count_of :: "amf0 \<Rightarrow> 32 word" where
  "count_of (Amf0EcmaArray n _) = n"
| "count_of (Amf0StrictArray n _) = n"
| "count_of _ = 0"

text \<open>\<^verbatim>\<open>srs_freep(*ppvalue)\<close> behind an error of its read.\<close>

definition or_delete :: "nat \<Rightarrow> (SrsBuffer \<times> amf0_memory, unit) call \<Rightarrow> (SrsBuffer \<times> amf0_memory, unit) call" where
  "or_delete a r s = (case r s of
      (Err e, s) \<Rightarrow> bind (on_snd (amf0_delete a)) (\<lambda>_. fail e) s
    | (r, s) \<Rightarrow> (r, s))"

text \<open>
  The functions of \<open>Amf0Codec\<close> over objects. Up to its loop the \<^verbatim>\<open>read\<close> of a container is the one there. The
  pointer of a value is null behind an error, so that the \<^verbatim>\<open>srs_freep\<close> of an object that reads a property
  has nothing to do.
\<close>

fun mem_read_any :: "nat \<Rightarrow> (SrsBuffer \<times> amf0_memory, nat) call"
  and mem_read :: "nat \<Rightarrow> nat \<Rightarrow> (SrsBuffer \<times> amf0_memory, unit) call"
  and mem_props :: "nat \<Rightarrow> nat \<Rightarrow> (SrsBuffer \<times> amf0_memory, unit) call"
  and mem_elems :: "nat \<Rightarrow> int \<Rightarrow> int \<Rightarrow> nat \<Rightarrow> (SrsBuffer \<times> amf0_memory, unit) call" where
  "mem_read_any 0 = panic OutOfFuel"
| "mem_read_any (Suc n) =
     bind (on_fst (wrap_err ''discovery'' discovery)) (\<lambda>v.
     bind (on_snd (new_obj (cell_of v))) (\<lambda>a.
     bind (or_delete a (wrap_err ''parse elem'' (mem_read n a))) (\<lambda>_. ret a)))"
| "mem_read 0 a = panic OutOfFuel"
| "mem_read (Suc n) a = bind (on_snd (obj_at a)) (\<lambda>c. case c of
      CellValue v \<Rightarrow> bind (on_fst (amf0_read 1 v)) (\<lambda>w. on_snd (put_obj a (CellValue w)))
    | CellObject _ \<Rightarrow> bind (on_fst (object_read ret [])) (\<lambda>_. mem_props n a)
    | CellEcma _ _ \<Rightarrow> bind (on_fst (ecma_read ret [])) (\<lambda>v.
        bind (on_snd (set_count a (count_of v))) (\<lambda>_. mem_props n a))
    | CellStrict _ _ \<Rightarrow> bind (on_fst (strict_read (\<lambda>_. ret []))) (\<lambda>v.
        bind (on_snd (set_count a (count_of v))) (\<lambda>_. mem_elems n 0 (sint (count_of v)) a)))"
| "mem_props 0 a = panic OutOfFuel"
| "mem_props (Suc n) a = bind (on_fst (gets empty)) (\<lambda>at_end.
     if at_end then ret ()
     else bind (on_fst srs_amf0_is_object_eof) (\<lambda>eof.
       if eof then on_fst (wrap_err ''read EOF'' eof_read)
       else
         bind (on_fst (wrap_err ''read property name'' (srs_amf0_read_utf8 []))) (\<lambda>name.
         bind (wrap_err ''read property value, name=%s'' (mem_read_any n)) (\<lambda>value.
         bind (on_snd (obj_set a name (Some value))) (\<lambda>_. mem_props n a)))))"
| "mem_elems 0 i cnt a = panic OutOfFuel"
| "mem_elems (Suc n) i cnt a = bind (on_fst (gets empty)) (\<lambda>at_end.
     if \<not> (i < cnt \<and> \<not> at_end) then ret ()
     else
       bind (wrap_err ''read property'' (mem_read_any n)) (\<lambda>elem.
       bind (on_snd (strict_push a elem)) (\<lambda>_. mem_elems n (i + 1) cnt a)))"

definition amf0_new_from :: "(SrsBuffer \<times> amf0_memory, nat) call" where
  "amf0_new_from s = mem_read_any (read_fuel (fst s)) s"

subsection \<open>Trees of objects\<close>

text \<open>What a tree of objects is made of: their addresses and contents; \<open>tree_val\<close> is its value.\<close>

datatype amf0_kind = KValue amf0 | KObject | KEcma "32 word" | KStrict "32 word"

datatype otree = Own nat amf0_kind "(string \<times> otree) list"

fun root :: "otree \<Rightarrow> nat" where
  "root (Own a k ts) = a"

fun own_cell :: "amf0_kind \<Rightarrow> (string \<times> otree) list \<Rightarrow> amf0_cell" where
  "own_cell (KValue v) ts = CellValue v"
| "own_cell KObject ts = CellObject (map (apsnd root) ts)"
| "own_cell (KEcma n) ts = CellEcma n (map (apsnd root) ts)"
| "own_cell (KStrict n) ts = CellStrict n (map (root \<circ> snd) ts)"

fun binds :: "otree \<Rightarrow> (nat \<times> amf0_cell) list"
  and bindss :: "(string \<times> otree) list \<Rightarrow> (nat \<times> amf0_cell) list" where
  "binds (Own a k ts) = (a, own_cell k ts) # bindss ts"
| "bindss [] = []"
| "bindss ((s, t) # ts) = binds t @ bindss ts"

text \<open>Only containers have values.\<close>

fun proper :: "otree \<Rightarrow> bool"
  and propers :: "(string \<times> otree) list \<Rightarrow> bool" where
  "proper (Own a k ts) \<longleftrightarrow> (\<forall>v. k = KValue v \<longrightarrow> ts = [] \<and> cell_of v = CellValue v) \<and> propers ts"
| "propers [] \<longleftrightarrow> True"
| "propers ((s, t) # ts) \<longleftrightarrow> proper t \<and> propers ts"

fun tree_val :: "otree \<Rightarrow> amf0"
  and tree_vals :: "(string \<times> otree) list \<Rightarrow> (string \<times> amf0) list" where
  "tree_val (Own a k ts) = (case k of KValue v \<Rightarrow> v | KObject \<Rightarrow> Amf0Object (tree_vals ts)
     | KEcma n \<Rightarrow> Amf0EcmaArray n (tree_vals ts) | KStrict n \<Rightarrow> Amf0StrictArray n (map snd (tree_vals ts)))"
| "tree_vals [] = []"
| "tree_vals ((s, t) # ts) = (s, tree_val t) # tree_vals ts"

lemma binds_append [simp]:
  "bindss (ts @ us) = bindss ts @ bindss us" "propers (ts @ us) \<longleftrightarrow> propers ts \<and> propers us"
  "tree_vals (ts @ us) = tree_vals ts @ tree_vals us"
  by (induction ts) auto

lemma root_binds: "binds t = (root t, own_cell (case t of Own a k ts \<Rightarrow> k) (case t of Own a k ts \<Rightarrow> ts)) # bindss (case t of Own a k ts \<Rightarrow> ts)"
  by (cases t) simp

lemma cell_values_own: "proper (Own a k ts) \<Longrightarrow> cell_values (own_cell k ts) = map (root \<circ> snd) ts"
  by (cases k) auto

text \<open>A property table commutes with what is done to all of its values.\<close>

lemma table_map:
  "get_property key (map (apsnd f) ps) = map_option f (get_property key ps)"
  "props_set key (map_option f v) (map (apsnd f) ps) = map (apsnd f) (props_set key v ps)"
proof -
  show "get_property key (map (apsnd f) ps) = map_option f (get_property key ps)"
    by (induction key ps rule: get_property.induct) auto
  have "erase_first key (map (apsnd f) ps) = map (apsnd f) (erase_first key ps)"
    by (induction key ps rule: erase_first.induct) auto
  then show "props_set key (map_option f v) (map (apsnd f) ps) = map (apsnd f) (props_set key v ps)"
    by (simp add: props_set_def split: option.split)
qed

lemma tree_vals_map: "tree_vals ts = map (apsnd tree_val) ts"
  by (induction ts) auto

subsection \<open>Memories\<close>

text \<open>The memory has the given objects, beside others that are left alone.\<close>

definition memory_is :: "(nat \<Rightarrow> amf0_cell option) \<Rightarrow> (nat \<times> amf0_cell) list \<Rightarrow> amf0_memory \<Rightarrow> bool" where
  "memory_is h bs m \<longleftrightarrow> am_objs m = h ++ map_of bs \<and> distinct (map fst bs) \<and> dom h \<inter> fst ` set bs = {} \<and>
     (\<forall>a\<in>dom h \<union> fst ` set bs. a < am_next m)"

lemma memory_is_perm:
  assumes "memory_is h bs m" and "mset bs' = mset bs"
  shows "memory_is h bs' m"
proof -
  have d: "distinct (map fst bs)" using assms(1) by (simp add: memory_is_def)
  have "mset (map fst bs') = mset (map fst bs)" using assms(2) by simp
  from mset_eq_imp_distinct_iff [OF this] d have d': "distinct (map fst bs')" by simp
  have s: "set bs' = set bs" using assms(2) by (metis set_mset_mset)
  with d d' have "map_of bs' = map_of bs" by (simp add: map_of_inject_set)
  with assms(1) d' s show ?thesis by (simp add: memory_is_def)
qed

lemma memory_is_at: "memory_is h ((a, c) # bs) m \<Longrightarrow> obj_at a m = (Ok c, m)"
  by (simp add: memory_is_def obj_at_def)

lemma memory_is_put:
  assumes "memory_is h ((a, c) # bs) m"
  obtains m' where "put_obj a c' m = (Ok (), m')" and "memory_is h ((a, c') # bs) m'"
proof
  let ?m = "m\<lparr>am_objs := (am_objs m)(a \<mapsto> c')\<rparr>"
  show "put_obj a c' m = (Ok (), ?m)" using memory_is_at [OF assms] by (simp add: put_obj_def bind_def)
  show "memory_is h ((a, c') # bs) ?m" using assms by (auto simp: memory_is_def)
qed

lemma memory_is_new:
  assumes "memory_is h bs m"
  obtains a m' where "new_obj c m = (Ok a, m')" and "memory_is h ((a, c) # bs) m'"
proof
  let ?m = "m\<lparr>am_objs := (am_objs m)(am_next m \<mapsto> c), am_next := am_next m + 1\<rparr>"
  show "new_obj c m = (Ok (am_next m), ?m)" by (simp add: new_obj_def)
  have "am_next m \<notin> dom h" "am_next m \<notin> fst ` set bs"
    using assms unfolding memory_is_def by (metis UnI1 UnI2 less_irrefl)+
  then show "memory_is h ((am_next m, c) # bs) ?m"
    using assms unfolding memory_is_def by (simp add: less_Suc_eq ball_Un)
qed

lemma memory_is_drop:
  assumes "memory_is h ((a, c) # bs) m"
  shows "memory_is h bs (m\<lparr>am_objs := (am_objs m)(a := None)\<rparr>)"
proof -
  have "h a = None" "map_of bs a = None" using assms by (auto simp: memory_is_def map_of_eq_None_iff)
  then have "(h ++ map_of bs) a = None" by (simp add: map_add_def)
  then have "(h ++ map_of bs)(a := None) = h ++ map_of bs" by (metis fun_upd_idem)
  with assms show ?thesis by (simp add: memory_is_def)
qed

lemma memory_is_length: "memory_is h bs m \<Longrightarrow> length bs \<le> am_next m"
proof -
  assume m: "memory_is h bs m"
  then have "fst ` set bs \<subseteq> {..<am_next m}" by (auto simp: memory_is_def)
  from card_mono [OF _ this] have "card (set (map fst bs)) \<le> am_next m" by simp
  with m show ?thesis by (simp add: memory_is_def distinct_card del: set_map)
qed

text \<open>To delete the root of a tree deletes the tree.\<close>

lemma delete_tree:
  "proper t \<Longrightarrow> memory_is h (binds t @ bs) m \<Longrightarrow> length (binds t) \<le> n \<Longrightarrow>
    \<exists>m'. delete_obj n (root t) m = (Ok (), m') \<and> memory_is h bs m'"
  "propers ts \<Longrightarrow> memory_is h (bindss ts @ bs) m \<Longrightarrow> length (bindss ts) \<le> n \<Longrightarrow>
    \<exists>m'. delete_objs n (map (root \<circ> snd) ts) m = (Ok (), m') \<and> memory_is h bs m'"
proof (induction t and ts arbitrary: bs m n and bs m n rule: binds_bindss.induct)
  case (1 a k ts)
  from "1.prems"(3) obtain n' where n: "n = Suc n'" by (cases n) auto
  have at: "obj_at a m = (Ok (own_cell k ts), m)" using "1.prems"(2) by (intro memory_is_at) simp
  have "memory_is h (bindss ts @ (a, own_cell k ts) # bs) m" by (rule memory_is_perm [OF "1.prems"(2)]) simp
  from "1.IH" [OF _ this, of n'] "1.prems"(1,3) n obtain m1 where m1: "delete_objs n' (map (root \<circ> snd) ts) m = (Ok (), m1)"
    "memory_is h ((a, own_cell k ts) # bs) m1" by (auto simp: comp_def)
  from memory_is_drop [OF m1(2)] show ?case using at memory_is_at [OF m1(2)] m1(1)
    by (simp add: n bind_def cell_values_own [OF "1.prems"(1)])
next
  case (3 s t ts)
  have "memory_is h (binds t @ bindss ts @ bs) m" using "3.prems"(2) by simp
  with "3.IH"(1) [of _ m n] "3.prems"(1,3) obtain m1 where m1: "delete_obj n (root t) m = (Ok (), m1)"
    "memory_is h (bindss ts @ bs) m1" by auto
  with "3.IH"(2) [of bs m1 n] "3.prems"(1,3) show ?case by (auto simp: bind_def)
qed simp

lemma amf0_delete_tree:
  assumes "proper t" and "memory_is h (binds t @ bs) m"
  obtains m' where "amf0_delete (root t) m = (Ok (), m')" and "memory_is h bs m'"
proof -
  have "length (binds t) \<le> am_next m" using memory_is_length [OF assms(2)] by simp
  from delete_tree(1) [OF assms this] show ?thesis using that by (auto simp: amf0_delete_def)
qed

subsection \<open>The operations on trees\<close>

abbreviation table_kind :: "amf0_kind \<Rightarrow> bool" where
  "table_kind k \<equiv> k = KObject \<or> (\<exists>n. k = KEcma n)"

lemma erase_first_split:
  "get_property key ts = Some t \<Longrightarrow> \<exists>us ws. ts = us @ (key, t) # ws \<and> erase_first key ts = us @ ws"
proof (induction key ts rule: get_property.induct)
  case (2 name key any ps)
  show ?case
  proof (cases "key = name")
    case False
    with 2 obtain us ws where "ps = us @ (name, t) # ws" "erase_first name ps = us @ ws" by auto
    with False show ?thesis by (intro exI [of _ "(key, any) # us"] exI [of _ ws]) simp
  qed (use 2 in auto)
qed simp

lemma erase_first_None: "get_property key ts = None \<Longrightarrow> erase_first key ts = ts"
  by (induction key ts rule: get_property.induct) (auto split: if_splits)

text \<open>The old value of a key is deleted, the new one is the object's.\<close>

lemma table_set_tree:
  assumes "propers ts" and "memory_is h (bindss ts @ bs) m"
  obtains m' where "table_set key (Some b) (map (apsnd root) ts) m = (Ok (props_set key (Some b) (map (apsnd root) ts)), m')"
    and "memory_is h (bindss (erase_first key ts) @ bs) m'" and "propers (erase_first key ts)"
proof (cases "get_property key ts")
  case None
  have "table_set key (Some b) (map (apsnd root) ts) m = (Ok (props_set key (Some b) (map (apsnd root) ts)), m)"
    by (simp add: table_set_def table_map(1) None)
  then show ?thesis by (rule that) (simp_all add: assms erase_first_None [OF None])
next
  case (Some t)
  from erase_first_split [OF this] obtain us ws where ts: "ts = us @ (key, t) # ws" "erase_first key ts = us @ ws" by auto
  have sub: "memory_is h (binds t @ bindss (us @ ws) @ bs) m" by (rule memory_is_perm [OF assms(2)]) (simp add: ts(1))
  have "proper t" using assms(1) by (simp add: ts(1))
  then obtain m' where "amf0_delete (root t) m = (Ok (), m')" "memory_is h (bindss (us @ ws) @ bs) m'"
    using sub by (rule amf0_delete_tree)
  note m' = this
  have "table_set key (Some b) (map (apsnd root) ts) m = (Ok (props_set key (Some b) (map (apsnd root) ts)), m')"
    by (simp add: table_set_def table_map(1) Some bind_def m'(1))
  moreover have "memory_is h (bindss (erase_first key ts) @ bs) m'" unfolding ts(2) by (rule m'(2))
  moreover have "propers (erase_first key ts)" using assms(1) unfolding ts(2) by (simp add: ts(1))
  ultimately show ?thesis by (rule that)
qed

lemma obj_set_tree:
  assumes "proper (Own a k ts)" and "table_kind k" and "proper t" and "memory_is h (binds t @ binds (Own a k ts) @ bs) m"
  obtains m' where "obj_set a key (Some (root t)) m = (Ok (), m')"
    and "memory_is h (binds (Own a k (props_set key (Some t) ts)) @ bs) m'" and "proper (Own a k (props_set key (Some t) ts))"
proof -
  let ?c = "own_cell k ts" and ?us = "props_set key (Some t) ts"
  have m: "memory_is h ((a, ?c) # bindss ts @ binds t @ bs) m" by (rule memory_is_perm [OF assms(4)]) simp
  have sub: "memory_is h (bindss ts @ (a, ?c) # binds t @ bs) m" by (rule memory_is_perm [OF assms(4)]) simp
  have "propers ts" using assms(1) by simp
  then obtain m1 where m1: "table_set key (Some (root t)) (map (apsnd root) ts) m =
      (Ok (props_set key (Some (root t)) (map (apsnd root) ts)), m1)"
    "memory_is h (bindss (erase_first key ts) @ (a, ?c) # binds t @ bs) m1" "propers (erase_first key ts)"
    using sub by (rule table_set_tree)
  have "memory_is h ((a, ?c) # bindss (erase_first key ts) @ binds t @ bs) m1" by (rule memory_is_perm [OF m1(2)]) simp
  then obtain m2 where m2: "put_obj a (own_cell k ?us) m1 = (Ok (), m2)"
    "memory_is h ((a, own_cell k ?us) # bindss (erase_first key ts) @ binds t @ bs) m2" by (rule memory_is_put)
  have cell: "props_set key (Some (root t)) (map (apsnd root) ts) = map (apsnd root) ?us"
    using table_map(2) [of key root "Some t" ts] by simp
  have "obj_set a key (Some (root t)) m = (Ok (), m2)"
    using memory_is_at [OF m] m1(1) m2(1) assms(2) by (auto simp: obj_set_def on_table_def bind_def cell)
  moreover have "memory_is h (binds (Own a k ?us) @ bs) m2" using m2(2) by (simp add: props_set_def)
  moreover have "proper (Own a k ?us)" using assms(2,3) m1(3) by (auto simp: props_set_def)
  ultimately show ?thesis by (rule that)
qed

lemma strict_push_tree:
  assumes "proper (Own a (KStrict c) ts)" and "proper t" and "memory_is h (binds t @ binds (Own a (KStrict c) ts) @ bs) m"
  obtains m' where "strict_push a (root t) m = (Ok (), m')"
    and "memory_is h (binds (Own a (KStrict c) (ts @ [([], t)])) @ bs) m'" and "proper (Own a (KStrict c) (ts @ [([], t)]))"
proof -
  let ?us = "ts @ [([], t)]"
  have m: "memory_is h ((a, own_cell (KStrict c) ts) # bindss ts @ binds t @ bs) m"
    by (rule memory_is_perm [OF assms(3)]) simp
  then obtain m1 where "put_obj a (own_cell (KStrict c) ?us) m = (Ok (), m1)"
    "memory_is h ((a, own_cell (KStrict c) ?us) # bindss ts @ binds t @ bs) m1" by (rule memory_is_put)
  with that [of m1] memory_is_at [OF m] assms(1,2) show ?thesis by (simp add: strict_push_def bind_def)
qed

lemma set_count_tree:
  assumes "memory_is h (binds (Own a k ts) @ bs) m" and "k = KEcma c \<and> k' = KEcma c' \<or> k = KStrict c \<and> k' = KStrict c'"
  obtains m' where "set_count a c' m = (Ok (), m')" and "memory_is h (binds (Own a k' ts) @ bs) m'"
proof -
  have m: "memory_is h ((a, own_cell k ts) # bindss ts @ bs) m" using assms(1) by simp
  then obtain m1 where "put_obj a (own_cell k' ts) m = (Ok (), m1)" "memory_is h ((a, own_cell k' ts) # bindss ts @ bs) m1"
    by (rule memory_is_put)
  with that [of m1] memory_is_at [OF m] assms(2) show ?thesis by (auto simp: set_count_def bind_def)
qed

subsection \<open>A reader into memory follows the reader of values\<close>

text \<open>
  From a memory with the trees \<open>held\<close> the second call gives what the first gives and leaves the rest of the
  memory alone: on success it has trees and a value in \<open>Q\<close>, on an error trees in \<open>E\<close>.
\<close>

definition tracks :: "(nat \<Rightarrow> amf0_cell option) \<Rightarrow> otree list \<Rightarrow> (otree list \<Rightarrow> bool) \<Rightarrow>
    ('a \<Rightarrow> 'b \<Rightarrow> otree list \<Rightarrow> bool) \<Rightarrow> 'a bufcall \<Rightarrow> (SrsBuffer \<times> amf0_memory, 'b) call \<Rightarrow> bool" where
  "tracks h held E Q f g \<longleftrightarrow> (\<forall>s m bs. memory_is h (concat (map binds held) @ bs) m \<longrightarrow>
     (case f s of
       (Ok v, s') \<Rightarrow> \<exists>r ts m'. g (s, m) = (Ok r, (s', m')) \<and> memory_is h (concat (map binds ts) @ bs) m' \<and>
         list_all proper ts \<and> Q v r ts
     | (Err e, s') \<Rightarrow> \<exists>ts m'. g (s, m) = (Err e, (s', m')) \<and> memory_is h (concat (map binds ts) @ bs) m' \<and>
         list_all proper ts \<and> E ts
     | (Panic _, _) \<Rightarrow> True))"

lemma tracksI:
  assumes "\<And>s m bs v s'. memory_is h (concat (map binds held) @ bs) m \<Longrightarrow> f s = (Ok v, s') \<Longrightarrow>
      \<exists>r ts m'. g (s, m) = (Ok r, (s', m')) \<and> memory_is h (concat (map binds ts) @ bs) m' \<and> list_all proper ts \<and> Q v r ts"
    and "\<And>s m bs e s'. memory_is h (concat (map binds held) @ bs) m \<Longrightarrow> f s = (Err e, s') \<Longrightarrow>
      \<exists>ts m'. g (s, m) = (Err e, (s', m')) \<and> memory_is h (concat (map binds ts) @ bs) m' \<and> list_all proper ts \<and> E ts"
  shows "tracks h held E Q f g"
  unfolding tracks_def
proof (intro allI impI)
  fix s m bs assume m: "memory_is h (concat (map binds held) @ bs) m"
  show "case f s of
       (Ok v, s') \<Rightarrow> \<exists>r ts m'. g (s, m) = (Ok r, (s', m')) \<and> memory_is h (concat (map binds ts) @ bs) m' \<and>
         list_all proper ts \<and> Q v r ts
     | (Err e, s') \<Rightarrow> \<exists>ts m'. g (s, m) = (Err e, (s', m')) \<and> memory_is h (concat (map binds ts) @ bs) m' \<and>
         list_all proper ts \<and> E ts
     | (Panic _, _) \<Rightarrow> True"
    using assms(1) [OF m, of s] assms(2) [OF m, of s] by (simp split: prod.split outcome.split)
qed

lemma tracks_Ok:
  assumes "tracks h held E Q f g" and "memory_is h (concat (map binds held) @ bs) m" and "f s = (Ok v, s')"
  obtains r ts m' where "g (s, m) = (Ok r, (s', m'))" and "memory_is h (concat (map binds ts) @ bs) m'"
    and "list_all proper ts" and "Q v r ts"
  using assms(1) [unfolded tracks_def, rule_format, OF assms(2), of s] that unfolding assms(3) by auto

lemma tracks_Err:
  assumes "tracks h held E Q f g" and "memory_is h (concat (map binds held) @ bs) m" and "f s = (Err e, s')"
  obtains ts m' where "g (s, m) = (Err e, (s', m'))" and "memory_is h (concat (map binds ts) @ bs) m'"
    and "list_all proper ts" and "E ts"
  using assms(1) [unfolded tracks_def, rule_format, OF assms(2), of s] that unfolding assms(3) by auto

lemma tracks_panic: "(\<And>s. fst (f s) = Panic q) \<Longrightarrow> tracks h held E Q f g"
  by (rule tracksI) (metis fst_conv outcome.distinct(3,5))+

lemma tracks_ret: "list_all proper held \<Longrightarrow> Q v r held \<Longrightarrow> tracks h held E Q (ret v) (ret r)"
  by (rule tracksI) auto

lemma tracks_bind:
  assumes f: "tracks h held E Q f g"
    and k: "\<And>v r ts. Q v r ts \<Longrightarrow> list_all proper ts \<Longrightarrow> tracks h ts E R (f' v) (g' r)"
  shows "tracks h held E R (bind f f') (bind g g')"
proof (rule tracksI)
  fix s m bs v s'
  assume m: "memory_is h (concat (map binds held) @ bs) m" and Ok: "bind f f' s = (Ok v, s')"
  from Ok obtain u s1 where f1: "f s = (Ok u, s1)" and f2: "f' u s1 = (Ok v, s')"
    by (auto simp: bind_def split: prod.splits outcome.splits)
  from f m f1 obtain r ts m1 where g1: "g (s, m) = (Ok r, (s1, m1))" and m1: "memory_is h (concat (map binds ts) @ bs) m1"
    and ts: "list_all proper ts" "Q u r ts" by (rule tracks_Ok)
  from k [OF ts(2,1)] m1 f2 obtain r' us m2 where "g' r (s1, m1) = (Ok r', (s', m2))"
    "memory_is h (concat (map binds us) @ bs) m2" "list_all proper us" "R v r' us" by (rule tracks_Ok)
  with g1 show "\<exists>r ts m'. bind g g' (s, m) = (Ok r, (s', m')) \<and> memory_is h (concat (map binds ts) @ bs) m' \<and>
      list_all proper ts \<and> R v r ts" by (auto simp: bind_def)
next
  fix s m bs e s'
  assume m: "memory_is h (concat (map binds held) @ bs) m" and Err: "bind f f' s = (Err e, s')"
  then consider "f s = (Err e, s')" | u s1 where "f s = (Ok u, s1)" "f' u s1 = (Err e, s')"
    by (auto simp: bind_def split: prod.splits outcome.splits)
  then show "\<exists>ts m'. bind g g' (s, m) = (Err e, (s', m')) \<and> memory_is h (concat (map binds ts) @ bs) m' \<and>
      list_all proper ts \<and> E ts"
  proof cases
    case 1
    from f m this show ?thesis by (rule tracks_Err) (auto simp: bind_def)
  next
    case 2
    from f m 2(1) obtain r ts m1 where g1: "g (s, m) = (Ok r, (s1, m1))" and m1: "memory_is h (concat (map binds ts) @ bs) m1"
      and ts: "list_all proper ts" "Q u r ts" by (rule tracks_Ok)
    from k [OF ts(2,1)] m1 2(2) show ?thesis by (rule tracks_Err) (use g1 in \<open>auto simp: bind_def\<close>)
  qed
qed

lemma tracks_on_fst:
  assumes "list_all proper held" and "E held" and "\<And>s v s'. f s = (Ok v, s') \<Longrightarrow> P v"
  shows "tracks h held E (\<lambda>v r ts. r = v \<and> ts = held \<and> P v) f (on_fst f)"
  by (rule tracksI) (use assms in \<open>auto simp: on_fst_def\<close>)

lemma tracks_wrap: "tracks h held E Q f g \<Longrightarrow> tracks h held E Q (wrap_err msg f) (wrap_err msg g)"
proof (rule tracksI)
  fix s m bs v s'
  assume t: "tracks h held E Q f g" and m: "memory_is h (concat (map binds held) @ bs) m" and "wrap_err msg f s = (Ok v, s')"
  then have "f s = (Ok v, s')" by (auto simp: wrap_err_def split: prod.splits outcome.splits)
  from t m this show "\<exists>r ts m'. wrap_err msg g (s, m) = (Ok r, (s', m')) \<and> memory_is h (concat (map binds ts) @ bs) m' \<and>
      list_all proper ts \<and> Q v r ts" by (rule tracks_Ok) (auto simp: wrap_err_def)
next
  fix s m bs e s'
  assume t: "tracks h held E Q f g" and m: "memory_is h (concat (map binds held) @ bs) m" and "wrap_err msg f s = (Err e, s')"
  then obtain e' where "f s = (Err e', s')" and e: "e = srs_error_wrap e' msg"
    by (auto simp: wrap_err_def split: prod.splits outcome.splits)
  from t m this(1) show "\<exists>ts m'. wrap_err msg g (s, m) = (Err e, (s', m')) \<and> memory_is h (concat (map binds ts) @ bs) m' \<and>
      list_all proper ts \<and> E ts" by (rule tracks_Err) (auto simp: wrap_err_def e)
qed

text \<open>A step on the memory alone, and what a call is given besides what it works on.\<close>

lemma tracks_on_snd:
  assumes step: "\<And>m bs. memory_is h (concat (map binds held) @ bs) m \<Longrightarrow>
      \<exists>r ts m'. x m = (Ok r, m') \<and> memory_is h (concat (map binds ts) @ bs) m' \<and> P r ts"
    and k: "\<And>r ts. P r ts \<Longrightarrow> tracks h ts E Q f (g r)"
  shows "tracks h held E Q f (bind (on_snd x) g)"
proof (rule tracksI)
  fix s m bs v s'
  assume m: "memory_is h (concat (map binds held) @ bs) m" and f: "f s = (Ok v, s')"
  from step [OF m] obtain r ts m1 where x: "x m = (Ok r, m1)" "memory_is h (concat (map binds ts) @ bs) m1" "P r ts" by blast
  from k [OF x(3)] x(2) f show "\<exists>r ts m'. bind (on_snd x) g (s, m) = (Ok r, (s', m')) \<and>
      memory_is h (concat (map binds ts) @ bs) m' \<and> list_all proper ts \<and> Q v r ts"
    by (rule tracks_Ok) (use x(1) in \<open>auto simp: bind_def on_snd_def\<close>)
next
  fix s m bs e s'
  assume m: "memory_is h (concat (map binds held) @ bs) m" and f: "f s = (Err e, s')"
  from step [OF m] obtain r ts m1 where x: "x m = (Ok r, m1)" "memory_is h (concat (map binds ts) @ bs) m1" "P r ts" by blast
  from k [OF x(3)] x(2) f show "\<exists>ts m'. bind (on_snd x) g (s, m) = (Err e, (s', m')) \<and>
      memory_is h (concat (map binds ts) @ bs) m' \<and> list_all proper ts \<and> E ts"
    by (rule tracks_Err) (use x(1) in \<open>auto simp: bind_def on_snd_def\<close>)
qed

lemma tracks_frame:
  assumes t: "tracks h held E Q f g" and fr: "list_all proper fr"
  shows "tracks h (held @ fr) (\<lambda>ts. \<exists>us. ts = us @ fr \<and> E us) (\<lambda>v r ts. \<exists>us. ts = us @ fr \<and> Q v r us) f g"
proof (rule tracksI)
  fix s m bs v s'
  assume "memory_is h (concat (map binds (held @ fr)) @ bs) m" and f: "f s = (Ok v, s')"
  then have m: "memory_is h (concat (map binds held) @ concat (map binds fr) @ bs) m" by simp
  from t m f obtain r us m1 where "g (s, m) = (Ok r, (s', m1))" "memory_is h (concat (map binds us) @ concat (map binds fr) @ bs) m1"
    "list_all proper us" "Q v r us" by (rule tracks_Ok)
  with fr show "\<exists>r ts m'. g (s, m) = (Ok r, (s', m')) \<and> memory_is h (concat (map binds ts) @ bs) m' \<and>
      list_all proper ts \<and> (\<exists>us. ts = us @ fr \<and> Q v r us)"
    by (intro exI [of _ r] exI [of _ "us @ fr"] exI [of _ m1]) simp
next
  fix s m bs e s'
  assume "memory_is h (concat (map binds (held @ fr)) @ bs) m" and f: "f s = (Err e, s')"
  then have m: "memory_is h (concat (map binds held) @ concat (map binds fr) @ bs) m" by simp
  from t m f obtain us m1 where "g (s, m) = (Err e, (s', m1))" "memory_is h (concat (map binds us) @ concat (map binds fr) @ bs) m1"
    "list_all proper us" "E us" by (rule tracks_Err)
  with fr show "\<exists>ts m'. g (s, m) = (Err e, (s', m')) \<and> memory_is h (concat (map binds ts) @ bs) m' \<and>
      list_all proper ts \<and> (\<exists>us. ts = us @ fr \<and> E us)"
    by (intro exI [of _ "us @ fr"] exI [of _ m1]) simp
qed

lemma tracks_weaken:
  assumes t: "tracks h held E Q f g" and "\<And>ts. E ts \<Longrightarrow> E' ts" and "\<And>v r ts. list_all proper ts \<Longrightarrow> Q v r ts \<Longrightarrow> Q' (k v) r ts"
  shows "tracks h held E' Q' (bind f (\<lambda>v. ret (k v))) g"
proof (rule tracksI)
  fix s m bs v s'
  assume m: "memory_is h (concat (map binds held) @ bs) m" and "bind f (\<lambda>v. ret (k v)) s = (Ok v, s')"
  then obtain u where u: "f s = (Ok u, s')" "v = k u" by (auto simp: bind_def split: prod.splits outcome.splits)
  from t m u(1) show "\<exists>r ts m'. g (s, m) = (Ok r, (s', m')) \<and> memory_is h (concat (map binds ts) @ bs) m' \<and>
      list_all proper ts \<and> Q' v r ts" by (rule tracks_Ok) (use assms(3) u(2) in blast)
next
  fix s m bs e s'
  assume m: "memory_is h (concat (map binds held) @ bs) m" and "bind f (\<lambda>v. ret (k v)) s = (Err e, s')"
  then have "f s = (Err e, s')" by (auto simp: bind_def split: prod.splits outcome.splits)
  from t m this show "\<exists>ts m'. g (s, m) = (Err e, (s', m')) \<and> memory_is h (concat (map binds ts) @ bs) m' \<and>
      list_all proper ts \<and> E' ts" by (rule tracks_Err) (use assms(2) in blast)
qed

text \<open>What a failed read of a new object has made goes with the object.\<close>

lemma tracks_or_delete:
  assumes t: "tracks h held (\<lambda>ts. \<exists>t. ts = [t] \<and> root t = a) Q f g"
  shows "tracks h held (\<lambda>ts. ts = []) Q f (or_delete a g)"
proof (rule tracksI)
  fix s m bs v s'
  assume m: "memory_is h (concat (map binds held) @ bs) m" and f: "f s = (Ok v, s')"
  from t m f show "\<exists>r ts m'. or_delete a g (s, m) = (Ok r, (s', m')) \<and> memory_is h (concat (map binds ts) @ bs) m' \<and>
      list_all proper ts \<and> Q v r ts" by (rule tracks_Ok) (auto simp: or_delete_def)
next
  fix s m bs e s'
  assume m: "memory_is h (concat (map binds held) @ bs) m" and f: "f s = (Err e, s')"
  from t m f obtain ts m1 where g: "g (s, m) = (Err e, (s', m1))" "memory_is h (concat (map binds ts) @ bs) m1"
    "list_all proper ts" "\<exists>t. ts = [t] \<and> root t = a" by (rule tracks_Err)
  from g(4) obtain t where ts: "ts = [t]" "root t = a" by blast
  have "proper t" "memory_is h (binds t @ bs) m1" using g(2,3) ts(1) by simp_all
  then obtain m2 where "amf0_delete (root t) m1 = (Ok (), m2)" "memory_is h bs m2" by (rule amf0_delete_tree)
  with g(1) ts(2) show "\<exists>ts m'. or_delete a g (s, m) = (Err e, (s', m')) \<and> memory_is h (concat (map binds ts) @ bs) m' \<and>
      list_all proper ts \<and> ts = []"
    by (intro exI [of _ "[]"] exI [of _ m2]) (simp add: or_delete_def bind_def on_snd_def fail_def)
qed


subsection \<open>The readers\<close>

text \<open>A new container has no values.\<close>

fun bare :: "amf0 \<Rightarrow> bool" where
  "bare (Amf0Object ps) \<longleftrightarrow> ps = []"
| "bare (Amf0EcmaArray _ ps) \<longleftrightarrow> ps = []"
| "bare (Amf0StrictArray _ es) \<longleftrightarrow> es = []"
| "bare _ \<longleftrightarrow> True"

fun kind_of :: "amf0 \<Rightarrow> amf0_kind" where
  "kind_of (Amf0Object _) = KObject"
| "kind_of (Amf0EcmaArray n _) = KEcma n"
| "kind_of (Amf0StrictArray n _) = KStrict n"
| "kind_of v = KValue v"

lemma bare_kind:
  assumes "bare v"
  shows "own_cell (kind_of v) [] = cell_of v" "proper (Own a (kind_of v) [])" "tree_val (Own a (kind_of v) []) = v"
  using assms by (cases v; simp)+

definition gives :: "('a \<Rightarrow> bool) \<Rightarrow> ('s, 'a) call \<Rightarrow> bool" where
  "gives P m \<longleftrightarrow> (\<forall>s v s'. m s = (Ok v, s') \<longrightarrow> P v)"

lemma gives_intros:
  "P v \<Longrightarrow> gives P (ret v)" "gives P (fail e)" "(\<And>x. gives P (f x)) \<Longrightarrow> gives P (bind first f)"
  "gives P m \<Longrightarrow> gives P (wrap_err msg m)" "(b \<Longrightarrow> gives P m) \<Longrightarrow> (\<not> b \<Longrightarrow> gives P m') \<Longrightarrow> gives P (if b then m else m')"
  by (auto simp: gives_def fail_def bind_def wrap_err_def split: prod.splits outcome.splits)

lemma discovery_bare: "gives bare discovery"
  unfolding discovery_def fresh_values by (intro gives_intros) simp_all

lemma bind_ret_right: "bind m ret = m"
  by (rule ext) (simp add: bind_def split: prod.split outcome.split)

lemma tracks_mono:
  assumes "tracks h held E Q f g" and "\<And>ts. E ts \<Longrightarrow> E' ts" and "\<And>v r ts. Q v r ts \<Longrightarrow> Q' v r ts"
  shows "tracks h held E' Q' f g"
proof -
  have "tracks h held E' Q' (bind f (\<lambda>v. ret v)) g" using assms(2,3) by (rule tracks_weaken [OF assms(1), where k = "\<lambda>v. v"])
  then show ?thesis by (simp only: bind_ret_right)
qed

lemma tracks_if:
  "(b \<Longrightarrow> tracks h held E Q f g) \<Longrightarrow> (\<not> b \<Longrightarrow> tracks h held E Q f' g') \<Longrightarrow>
    tracks h held E Q (if b then f else f') (if b then g else g')"
  by simp

lemma tracks_then:
  assumes "tracks h held E (\<lambda>v _ ts. Q v r ts) f g"
  shows "tracks h held E Q f (bind g (\<lambda>_. ret r))"
proof -
  have "tracks h held E Q (bind f ret) (bind g (\<lambda>_. ret r))" by (rule tracks_bind [OF assms], rule tracks_ret)
  then show ?thesis by (simp only: bind_ret_right)
qed

lemma leaf_read:
  assumes "cell_of v = CellValue v"
  shows "amf0_read (Suc n) v = amf0_read 1 v"
    and "amf0_read 1 v s = (Ok w, s') \<Longrightarrow> cell_of w = CellValue w"
  using assms by (cases v; auto simp: bind_def split: prod.splits outcome.splits)+

lemma object_read_loop: "object_read loop ps = bind (object_read ret []) (\<lambda>_. bind (loop ps) (\<lambda>qs. ret (Amf0Object qs)))"
  by (simp add: object_read_def bind_assoc del: ret_eval)

lemma ecma_read_loop:
  "ecma_read loop ps = bind (ecma_read ret []) (\<lambda>v. bind (loop ps) (\<lambda>qs. ret (Amf0EcmaArray (count_of v) qs)))"
  by (simp add: ecma_read_def bind_assoc del: ret_eval)

lemma strict_read_loop:
  "strict_read loop = bind (strict_read (\<lambda>_. ret [])) (\<lambda>v. bind (loop (sint (count_of v))) (\<lambda>es. ret (Amf0StrictArray (count_of v) es)))"
  by (simp add: strict_read_def bind_assoc del: ret_eval)

abbreviation rooted :: "nat \<Rightarrow> otree list \<Rightarrow> bool" where
  "rooted a ts \<equiv> \<exists>t. ts = [t] \<and> root t = a"

definition is_root :: "nat \<Rightarrow> amf0 \<Rightarrow> otree list \<Rightarrow> bool" where
  "is_root a v ts \<longleftrightarrow> (\<exists>t. ts = [t] \<and> root t = a \<and> tree_val t = v)"

definition any_tracks :: "(nat \<Rightarrow> amf0_cell option) \<Rightarrow> nat \<Rightarrow> bool" where
  "any_tracks h n \<longleftrightarrow> tracks h [] (\<lambda>ts. ts = []) (\<lambda>v r ts. is_root r v ts)
     (srs_amf0_read_any n) (mem_read_any n)"

definition value_tracks :: "(nat \<Rightarrow> amf0_cell option) \<Rightarrow> nat \<Rightarrow> bool" where
  "value_tracks h n \<longleftrightarrow> (\<forall>a k. proper (Own a k []) \<longrightarrow>
     tracks h [Own a k []] (rooted a) (\<lambda>v _ ts. is_root a v ts)
       (amf0_read n (tree_val (Own a k []))) (mem_read n a))"

definition props_track :: "(nat \<Rightarrow> amf0_cell option) \<Rightarrow> nat \<Rightarrow> bool" where
  "props_track h n \<longleftrightarrow> (\<forall>a k us. proper (Own a k us) \<longrightarrow> table_kind k \<longrightarrow>
     tracks h [Own a k us] (rooted a) (\<lambda>qs _ ts. \<exists>ws. ts = [Own a k ws] \<and> tree_vals ws = qs)
       (read_props n (tree_vals us)) (mem_props n a))"

definition elems_track :: "(nat \<Rightarrow> amf0_cell option) \<Rightarrow> nat \<Rightarrow> bool" where
  "elems_track h n \<longleftrightarrow> (\<forall>a c i cnt us. proper (Own a (KStrict c) us) \<longrightarrow>
     tracks h [Own a (KStrict c) us] (rooted a) (\<lambda>es _ ts. \<exists>ws. ts = [Own a (KStrict c) ws] \<and> map snd (tree_vals ws) = es)
       (read_elems n i cnt (map snd (tree_vals us))) (mem_elems n i cnt a))"

text \<open>A value is read beside the object that gets it.\<close>

lemma any_beside:
  assumes "any_tracks h n" and "proper t"
  shows "tracks h [t] (rooted (root t)) (\<lambda>v r ts. \<exists>u. ts = [u, t] \<and> root u = r \<and> tree_val u = v)
    (wrap_err msg (srs_amf0_read_any n)) (wrap_err msg (mem_read_any n))"
proof (rule tracks_wrap)
  have "tracks h ([] @ [t]) (\<lambda>ts. \<exists>us. ts = us @ [t] \<and> us = [])
      (\<lambda>v r ts. \<exists>us. ts = us @ [t] \<and> is_root r v us) (srs_amf0_read_any n) (mem_read_any n)"
    by (rule tracks_frame) (use assms in \<open>simp_all add: any_tracks_def\<close>)
  from this [unfolded append_Nil] show "tracks h [t] (rooted (root t))
      (\<lambda>v r ts. \<exists>u. ts = [u, t] \<and> root u = r \<and> tree_val u = v) (srs_amf0_read_any n) (mem_read_any n)"
    by (rule tracks_mono) (auto simp: is_root_def)
qed

lemma any_tracks_Suc:
  assumes "value_tracks h n"
  shows "any_tracks h (Suc n)"
  unfolding any_tracks_def srs_amf0_read_any.simps mem_read_any.simps
proof (rule tracks_bind [OF tracks_on_fst [where P = bare]])
  fix v r :: amf0 and ts :: "otree list" assume "r = v \<and> ts = [] \<and> bare v"
  then have r: "r = v" "ts = []" and v: "bare v" by auto
  let ?Q = "\<lambda>v r ts. is_root r v ts"
  show "tracks h ts (\<lambda>ts. ts = []) ?Q (wrap_err ''parse elem'' (amf0_read n v))
      (bind (on_snd (new_obj (cell_of r))) (\<lambda>a. bind (or_delete a (wrap_err ''parse elem'' (mem_read n a))) (\<lambda>_. ret a)))"
    unfolding r
  proof (rule tracks_on_snd [where P = "\<lambda>a ts. ts = [Own a (kind_of v) []]"])
    fix m bs assume "memory_is h (concat (map binds []) @ bs) m"
    then have "memory_is h bs m" by simp
    then obtain a m' where "new_obj (cell_of v) m = (Ok a, m')" "memory_is h ((a, cell_of v) # bs) m'"
      by (rule memory_is_new)
    then show "\<exists>a ts m'. new_obj (cell_of v) m = (Ok a, m') \<and> memory_is h (concat (map binds ts) @ bs) m' \<and>
        ts = [Own a (kind_of v) []]" using bare_kind [OF v] by auto
  next
    fix a and ts :: "otree list" assume ts: "ts = [Own a (kind_of v) []]"
    have "tracks h ts (rooted a) (\<lambda>v _ ts. is_root a v ts) (amf0_read n v) (mem_read n a)"
      using assms [unfolded value_tracks_def, rule_format, OF bare_kind(2) [OF v, of a]] unfolding bare_kind(3) [OF v] ts .
    from tracks_or_delete [OF tracks_wrap [OF this]]
    show "tracks h ts (\<lambda>ts. ts = []) ?Q (wrap_err ''parse elem'' (amf0_read n v))
        (bind (or_delete a (wrap_err ''parse elem'' (mem_read n a))) (\<lambda>_. ret a))"
      by (rule tracks_then)
  qed
qed (use gives_intros(4) [OF discovery_bare] in \<open>auto simp: gives_def\<close>)

lemma value_put:
  assumes "proper (Own a k [])" and "cell_of w = CellValue w"
  shows "tracks h [Own a k []] E (\<lambda>v _ ts. is_root a v ts) (ret w) (on_snd (put_obj a (CellValue w)))"
proof -
  let ?t = "Own a (KValue w) []"
  have "tracks h [Own a k []] E (\<lambda>v _ ts. is_root a v ts) (ret w)
      (bind (on_snd (put_obj a (CellValue w))) ret)"
  proof (rule tracks_on_snd [where P = "\<lambda>_ ts. ts = [?t]"])
    fix m bs assume "memory_is h (concat (map binds [Own a k []]) @ bs) m"
    then have "memory_is h ((a, own_cell k []) # bs) m" by simp
    then obtain m' where "put_obj a (CellValue w) m = (Ok (), m')" "memory_is h ((a, CellValue w) # bs) m'" by (rule memory_is_put)
    then show "\<exists>r ts m'. put_obj a (CellValue w) m = (Ok r, m') \<and> memory_is h (concat (map binds ts) @ bs) m' \<and> ts = [?t]" by auto
  next
    fix r and ts :: "otree list" assume "ts = [?t]"
    then show "tracks h ts E (\<lambda>v _ ts. is_root a v ts) (ret w) (ret r)"
      using assms(2) by (intro tracks_ret) (auto simp: is_root_def)
  qed
  then show ?thesis by (simp only: bind_ret_right)
qed

lemma leaf_tracks:
  assumes k: "proper (Own a (KValue v) [])"
  shows "tracks h [Own a (KValue v) []] (rooted a) (\<lambda>v _ ts. is_root a v ts)
    (amf0_read (Suc n) v) (bind (on_fst (amf0_read 1 v)) (\<lambda>w. on_snd (put_obj a (CellValue w))))"
proof -
  have v: "cell_of v = CellValue v" using k by simp
  have "tracks h [Own a (KValue v) []] (rooted a) (\<lambda>w r ts. r = w \<and> ts = [Own a (KValue v) []] \<and> cell_of w = CellValue w)
      (amf0_read 1 v) (on_fst (amf0_read 1 v))"
    by (rule tracks_on_fst) (use k leaf_read(2) [OF v] in simp_all)
  then have "tracks h [Own a (KValue v) []] (rooted a) (\<lambda>v _ ts. is_root a v ts)
      (bind (amf0_read 1 v) ret) (bind (on_fst (amf0_read 1 v)) (\<lambda>w. on_snd (put_obj a (CellValue w))))"
  proof (rule tracks_bind)
    fix w r and ts :: "otree list"
    assume "r = w \<and> ts = [Own a (KValue v) []] \<and> cell_of w = CellValue w"
    then show "tracks h ts (rooted a) (\<lambda>v _ ts. is_root a v ts) (ret w) (on_snd (put_obj a (CellValue r)))"
      using value_put [OF k] by blast
  qed
  then show ?thesis unfolding bind_ret_right leaf_read(1) [OF v, of n] .
qed

lemma table_tracks:
  assumes "props_track h n" and "table_kind k" and "\<And>ws. tree_val (Own a k ws) = g (tree_vals ws)"
  shows "tracks h [Own a k []] (rooted a) (\<lambda>v _ ts. is_root a v ts) (bind (read_props n []) (\<lambda>qs. ret (g qs))) (mem_props n a)"
proof (rule tracks_weaken)
  have "proper (Own a k [])" using assms(2) by auto
  from assms(1) [unfolded props_track_def, rule_format, OF this assms(2)]
  show "tracks h [Own a k []] (rooted a) (\<lambda>qs _ ts. \<exists>ws. ts = [Own a k ws] \<and> tree_vals ws = qs) (read_props n []) (mem_props n a)"
    by simp
  show "is_root a (g qs) ts" if "\<exists>ws. ts = [Own a k ws] \<and> tree_vals ws = qs" for qs ts
    using that assms(3) by (auto simp: is_root_def)
qed

lemma strict_tracks:
  assumes "elems_track h n"
  shows "tracks h [Own a (KStrict c) []] (rooted a) (\<lambda>v _ ts. is_root a v ts)
    (bind (read_elems n 0 cnt []) (\<lambda>es. ret (Amf0StrictArray c es))) (mem_elems n 0 cnt a)"
proof (rule tracks_weaken)
  have "proper (Own a (KStrict c) [])" by simp
  from assms [unfolded elems_track_def, rule_format, OF this]
  show "tracks h [Own a (KStrict c) []] (rooted a) (\<lambda>es _ ts. \<exists>ws. ts = [Own a (KStrict c) ws] \<and> map snd (tree_vals ws) = es)
      (read_elems n 0 cnt []) (mem_elems n 0 cnt a)" by simp
  show "is_root a (Amf0StrictArray c es) ts" if "\<exists>ws. ts = [Own a (KStrict c) ws] \<and> map snd (tree_vals ws) = es" for es ts
    using that by (auto simp: is_root_def)
qed

lemma set_count_tracks:
  assumes "tracks h [Own a k' []] E Q f g" and kinds: "k = KEcma d0 \<and> k' = KEcma d \<or> k = KStrict d0 \<and> k' = KStrict d"
  shows "tracks h [Own a k []] E Q f (bind (on_snd (set_count a d)) (\<lambda>_. g))"
proof (rule tracks_on_snd [where P = "\<lambda>_ ts. ts = [Own a k' []]"])
  fix m bs assume "memory_is h (concat (map binds [Own a k []]) @ bs) m"
  then have "memory_is h (binds (Own a k []) @ bs) m" by simp
  then obtain m' where "set_count a d m = (Ok (), m')" "memory_is h (binds (Own a k' []) @ bs) m'"
    using kinds by (rule set_count_tree)
  then show "\<exists>r ts m'. set_count a d m = (Ok r, m') \<and> memory_is h (concat (map binds ts) @ bs) m' \<and> ts = [Own a k' []]" by auto
qed (use assms(1) in simp)

lemma fst_tracks:
  fixes f :: "'a bufcall"
  assumes "proper t" and "\<And>v. tracks h [t] (rooted (root t)) Q (f' v) (g v)"
  shows "tracks h [t] (rooted (root t)) Q (bind f f') (bind (on_fst f) g)"
proof (rule tracks_bind [OF tracks_on_fst [where P = "\<lambda>_. True"]])
  fix v r :: 'a and ts :: "otree list" assume "r = v \<and> ts = [t] \<and> True"
  then show "tracks h ts (rooted (root t)) Q (f' v) (g r)" using assms(2) by simp
qed (use assms(1) in simp_all)

lemma kind_tracks:
  assumes props: "props_track h n" and elems: "elems_track h n" and t: "proper (Own a k [])"
  shows "tracks h [Own a k []] (rooted a) (\<lambda>v _ ts. is_root a v ts) (amf0_read (Suc n) (tree_val (Own a k [])))
    (case own_cell k [] of
      CellValue v \<Rightarrow> bind (on_fst (amf0_read 1 v)) (\<lambda>w. on_snd (put_obj a (CellValue w)))
    | CellObject _ \<Rightarrow> bind (on_fst (object_read ret [])) (\<lambda>_. mem_props n a)
    | CellEcma _ _ \<Rightarrow> bind (on_fst (ecma_read ret [])) (\<lambda>v.
        bind (on_snd (set_count a (count_of v))) (\<lambda>_. mem_props n a))
    | CellStrict _ _ \<Rightarrow> bind (on_fst (strict_read (\<lambda>_. ret []))) (\<lambda>v.
        bind (on_snd (set_count a (count_of v))) (\<lambda>_. mem_elems n 0 (sint (count_of v)) a)))"
proof (cases k)
  case (KValue v)
  with leaf_tracks [OF t [unfolded KValue], of h n] show ?thesis by simp
next
  case KObject
  have "tracks h [Own a k []] (rooted a) (\<lambda>v _ ts. is_root a v ts) (object_read (read_props n) [])
      (bind (on_fst (object_read ret [])) (\<lambda>_. mem_props n a))"
    unfolding object_read_loop [of "read_props n"]
    by (rule fst_tracks [OF t, unfolded root.simps], rule table_tracks [OF props]) (simp_all add: KObject)
  then show ?thesis by (simp add: KObject)
next
  case (KEcma d)
  have "tracks h [Own a k []] (rooted a) (\<lambda>v _ ts. is_root a v ts) (ecma_read (read_props n) [])
      (bind (on_fst (ecma_read ret [])) (\<lambda>v. bind (on_snd (set_count a (count_of v))) (\<lambda>_. mem_props n a)))"
    unfolding ecma_read_loop [of "read_props n"]
    by (rule fst_tracks [OF t, unfolded root.simps], rule set_count_tracks [OF table_tracks [OF props]]) (simp_all add: KEcma)
  then show ?thesis by (simp add: KEcma)
next
  case (KStrict d)
  have "tracks h [Own a k []] (rooted a) (\<lambda>v _ ts. is_root a v ts) (strict_read (\<lambda>count. read_elems n 0 count []))
      (bind (on_fst (strict_read (\<lambda>_. ret []))) (\<lambda>v.
       bind (on_snd (set_count a (count_of v))) (\<lambda>_. mem_elems n 0 (sint (count_of v)) a)))"
    unfolding strict_read_loop [of "\<lambda>count. read_elems n 0 count []"]
    by (rule fst_tracks [OF t, unfolded root.simps], rule set_count_tracks [OF strict_tracks [OF elems]]) (simp add: KStrict)
  then show ?thesis by (simp add: KStrict)
qed

lemma value_tracks_Suc:
  assumes "props_track h n" and "elems_track h n"
  shows "value_tracks h (Suc n)"
  unfolding value_tracks_def
proof (intro allI impI)
  fix a k assume k: "proper (Own a k [])"
  show "tracks h [Own a k []] (rooted a) (\<lambda>v _ ts. is_root a v ts) (amf0_read (Suc n) (tree_val (Own a k []))) (mem_read (Suc n) a)"
    unfolding mem_read.simps
  proof (rule tracks_on_snd [where P = "\<lambda>c ts. c = own_cell k [] \<and> ts = [Own a k []]"])
    fix m bs assume m: "memory_is h (concat (map binds [Own a k []]) @ bs) m"
    then have "obj_at a m = (Ok (own_cell k []), m)" by (intro memory_is_at) simp
    with m show "\<exists>c ts m'. obj_at a m = (Ok c, m') \<and> memory_is h (concat (map binds ts) @ bs) m' \<and>
        c = own_cell k [] \<and> ts = [Own a k []]" by blast
  qed (use kind_tracks [OF assms k] in blast)
qed

lemma tree_vals_set: "tree_vals (props_set key (Some t) us) = props_set key (Some (tree_val t)) (tree_vals us)"
  using table_map(2) [of key tree_val "Some t" us] by (simp add: tree_vals_map)

lemma set_tracks:
  assumes props: "props_track h n" and k: "table_kind k" and t: "proper (Own a k us)" and u: "proper u"
  shows "tracks h [u, Own a k us] (rooted a) (\<lambda>qs _ ts. \<exists>ws. ts = [Own a k ws] \<and> tree_vals ws = qs)
    (read_props n (props_set name (Some (tree_val u)) (tree_vals us)))
    (bind (on_snd (obj_set a name (Some (root u)))) (\<lambda>_. mem_props n a))"
proof (rule tracks_on_snd [where P = "\<lambda>_ ts. ts = [Own a k (props_set name (Some u) us)] \<and> proper (Own a k (props_set name (Some u) us))"])
  fix m bs assume "memory_is h (concat (map binds [u, Own a k us]) @ bs) m"
  then have "memory_is h (binds u @ binds (Own a k us) @ bs) m" by simp
  with t k u obtain m' where "obj_set a name (Some (root u)) m = (Ok (), m')"
    "memory_is h (binds (Own a k (props_set name (Some u) us)) @ bs) m'" "proper (Own a k (props_set name (Some u) us))"
    by (rule obj_set_tree)
  then show "\<exists>r ts m'. obj_set a name (Some (root u)) m = (Ok r, m') \<and> memory_is h (concat (map binds ts) @ bs) m' \<and>
      ts = [Own a k (props_set name (Some u) us)] \<and> proper (Own a k (props_set name (Some u) us))"
    by (intro exI [of _ "()"] exI [of _ "[Own a k (props_set name (Some u) us)]"] exI [of _ m']) simp
next
  fix r and ts :: "otree list"
  assume "ts = [Own a k (props_set name (Some u) us)] \<and> proper (Own a k (props_set name (Some u) us))"
  then show "tracks h ts (rooted a) (\<lambda>qs _ ts. \<exists>ws. ts = [Own a k ws] \<and> tree_vals ws = qs)
      (read_props n (props_set name (Some (tree_val u)) (tree_vals us))) (mem_props n a)"
    using props [unfolded props_track_def, rule_format, OF _ k, of a "props_set name (Some u) us"] by (simp add: tree_vals_set)
qed

lemma props_track_Suc:
  assumes any: "any_tracks h n" and props: "props_track h n"
  shows "props_track h (Suc n)"
  unfolding props_track_def
proof (intro allI impI)
  fix a k us assume t: "proper (Own a k us)" and k: "table_kind k"
  let ?Q = "\<lambda>qs _ ts. \<exists>ws. ts = [Own a k ws] \<and> tree_vals ws = qs"
  note fst = fst_tracks [OF t, unfolded root.simps]
  have eof: "tracks h [Own a k us] (rooted a) ?Q (bind (wrap_err ''read EOF'' eof_read) (\<lambda>_. ret (tree_vals us)))
      (on_fst (wrap_err ''read EOF'' eof_read))"
    by (rule tracks_weaken [OF tracks_on_fst [where P = "\<lambda>_. True" and E = "rooted a"]]) (use t in auto)
  have item: "tracks h [Own a k us] (rooted a) ?Q
      (bind (wrap_err msg (srs_amf0_read_any n)) (\<lambda>value. read_props n (props_set name (Some value) (tree_vals us))))
      (bind (wrap_err msg (mem_read_any n)) (\<lambda>value. bind (on_snd (obj_set a name (Some value))) (\<lambda>_. mem_props n a)))"
    for msg name
  proof (rule tracks_bind [OF any_beside [OF any t, unfolded root.simps]])
    fix v r ts assume "\<exists>u. ts = [u, Own a k us] \<and> root u = r \<and> tree_val u = v" and "list_all proper ts"
    then obtain u where "ts = [u, Own a k us]" "root u = r" "tree_val u = v" "proper u" by auto
    with set_tracks [OF props k t, of u name]
    show "tracks h ts (rooted a) ?Q (read_props n (props_set name (Some v) (tree_vals us)))
        (bind (on_snd (obj_set a name (Some r))) (\<lambda>_. mem_props n a))" by simp
  qed
  have at_end: "tracks h [Own a k us] (rooted a) ?Q (ret (tree_vals us)) (ret ())" using t by (intro tracks_ret) simp_all
  show "tracks h [Own a k us] (rooted a) ?Q (read_props (Suc n) (tree_vals us)) (mem_props (Suc n) a)"
    unfolding read_props.simps mem_props.simps by (intro fst tracks_if at_end eof item)
qed

lemma push_tracks:
  assumes elems: "elems_track h n" and t: "proper (Own a (KStrict c) us)" and u: "proper u"
  shows "tracks h [u, Own a (KStrict c) us] (rooted a) (\<lambda>es _ ts. \<exists>ws. ts = [Own a (KStrict c) ws] \<and> map snd (tree_vals ws) = es)
    (read_elems n i cnt (map snd (tree_vals us) @ [tree_val u]))
    (bind (on_snd (strict_push a (root u))) (\<lambda>_. mem_elems n i cnt a))"
proof (rule tracks_on_snd [where P = "\<lambda>_ ts. ts = [Own a (KStrict c) (us @ [([], u)])]"])
  fix m bs assume "memory_is h (concat (map binds [u, Own a (KStrict c) us]) @ bs) m"
  then have "memory_is h (binds u @ binds (Own a (KStrict c) us) @ bs) m" by simp
  with t u obtain m' where "strict_push a (root u) m = (Ok (), m')"
    "memory_is h (binds (Own a (KStrict c) (us @ [([], u)])) @ bs) m'" by (rule strict_push_tree)
  then show "\<exists>r ts m'. strict_push a (root u) m = (Ok r, m') \<and> memory_is h (concat (map binds ts) @ bs) m' \<and>
      ts = [Own a (KStrict c) (us @ [([], u)])]"
    by (intro exI [of _ "()"] exI [of _ "[Own a (KStrict c) (us @ [([], u)])]"] exI [of _ m']) simp
next
  fix r and ts :: "otree list" assume "ts = [Own a (KStrict c) (us @ [([], u)])]"
  then show "tracks h ts (rooted a) (\<lambda>es _ ts. \<exists>ws. ts = [Own a (KStrict c) ws] \<and> map snd (tree_vals ws) = es)
      (read_elems n i cnt (map snd (tree_vals us) @ [tree_val u])) (mem_elems n i cnt a)"
    using elems [unfolded elems_track_def, rule_format, of a c "us @ [([], u)]"] t u by simp
qed

lemma elems_track_Suc:
  assumes any: "any_tracks h n" and elems: "elems_track h n"
  shows "elems_track h (Suc n)"
  unfolding elems_track_def
proof (intro allI impI)
  fix a c i cnt us assume t: "proper (Own a (KStrict c) us)"
  let ?t = "Own a (KStrict c) us" and ?es = "map snd (tree_vals us)"
    and ?Q = "\<lambda>es _ ts. \<exists>ws. ts = [Own a (KStrict c) ws] \<and> map snd (tree_vals ws) = es"
  have elem: "tracks h [?t] (rooted a) ?Q
      (bind (wrap_err msg (srs_amf0_read_any n)) (\<lambda>elem. read_elems n (i + 1) cnt (?es @ [elem])))
      (bind (wrap_err msg (mem_read_any n)) (\<lambda>elem. bind (on_snd (strict_push a elem)) (\<lambda>_. mem_elems n (i + 1) cnt a)))"
    for msg
  proof (rule tracks_bind [OF any_beside [OF any t, unfolded root.simps]])
    fix v r ts assume "\<exists>u. ts = [u, ?t] \<and> root u = r \<and> tree_val u = v" and "list_all proper ts"
    then obtain u where "ts = [u, ?t]" "root u = r" "tree_val u = v" "proper u" by auto
    with push_tracks [OF elems t, of u "i + 1" cnt]
    show "tracks h ts (rooted a) ?Q (read_elems n (i + 1) cnt (?es @ [v]))
        (bind (on_snd (strict_push a r)) (\<lambda>_. mem_elems n (i + 1) cnt a))" by simp
  qed
  have at_end: "tracks h [?t] (rooted a) ?Q (ret ?es) (ret ())" using t by (intro tracks_ret) simp_all
  show "tracks h [?t] (rooted a) ?Q (read_elems (Suc n) i cnt ?es) (mem_elems (Suc n) i cnt a)"
    unfolding read_elems.simps mem_elems.simps
    by (rule fst_tracks [OF t, unfolded root.simps]) (use elem at_end in simp)
qed

lemma memory_tracks: "any_tracks h n \<and> value_tracks h n \<and> props_track h n \<and> elems_track h n"
proof (induction n)
  case 0
  show ?case unfolding any_tracks_def value_tracks_def props_track_def elems_track_def
    by (auto intro!: tracks_panic [where q = OutOfFuel] simp: panic_def)
next
  case (Suc n)
  then show ?case using any_tracks_Suc value_tracks_Suc props_track_Suc elems_track_Suc by blast
qed


subsection \<open>Reading leaves nothing behind\<close>

text \<open>The value of the objects below a pointer, if they are all there; the fuel is the depth.\<close>

fun obj_value :: "nat \<Rightarrow> amf0_memory \<Rightarrow> nat \<Rightarrow> amf0 option"
  and obj_values :: "nat \<Rightarrow> amf0_memory \<Rightarrow> nat list \<Rightarrow> amf0 list option" where
  "obj_value 0 m a = None"
| "obj_value (Suc n) m a = (case am_objs m a of
      None \<Rightarrow> None
    | Some (CellValue v) \<Rightarrow> Some v
    | Some (CellObject ps) \<Rightarrow> map_option (\<lambda>vs. Amf0Object (zip (map fst ps) vs)) (obj_values n m (map snd ps))
    | Some (CellEcma c ps) \<Rightarrow> map_option (\<lambda>vs. Amf0EcmaArray c (zip (map fst ps) vs)) (obj_values n m (map snd ps))
    | Some (CellStrict c es) \<Rightarrow> map_option (Amf0StrictArray c) (obj_values n m es))"
| "obj_values n m [] = Some []"
| "obj_values n m (a # as) = (case obj_value n m a of
      None \<Rightarrow> None
    | Some v \<Rightarrow> map_option (Cons v) (obj_values n m as))"

definition amf0_at :: "amf0_memory \<Rightarrow> nat \<Rightarrow> amf0 option" where
  "amf0_at m a = obj_value (am_next m) m a"

lemma tree_vals_fst: "map fst (tree_vals ts) = map fst ts" "map fst (map (apsnd root) ts) = map fst ts"
  by (simp_all add: tree_vals_map)

lemma zip_tree_vals: "zip (map fst ts) (map snd (tree_vals ts)) = tree_vals ts"
  by (metis tree_vals_fst(1) zip_map_fst_snd)

lemma obj_value_tree:
  "proper t \<Longrightarrow> (\<And>a c. (a, c) \<in> set (binds t) \<Longrightarrow> am_objs m a = Some c) \<Longrightarrow> length (binds t) \<le> n \<Longrightarrow>
    obj_value n m (root t) = Some (tree_val t)"
  "propers ts \<Longrightarrow> (\<And>a c. (a, c) \<in> set (bindss ts) \<Longrightarrow> am_objs m a = Some c) \<Longrightarrow> length (bindss ts) \<le> n \<Longrightarrow>
    obj_values n m (map (root \<circ> snd) ts) = Some (map snd (tree_vals ts))"
proof (induction t and ts arbitrary: n and n rule: binds_bindss.induct)
  case (1 a k ts)
  from "1.prems"(3) obtain n' where n: "n = Suc n'" by (cases n) auto
  have "obj_values n' m (map (root \<circ> snd) ts) = Some (map snd (tree_vals ts))"
    by (rule "1.IH") (use "1.prems" n in auto)
  moreover have "am_objs m a = Some (own_cell k ts)" using "1.prems"(2) by simp
  ultimately show ?case by (cases k) (simp_all add: n comp_def zip_tree_vals)
next
  case (3 s t ts)
  have "obj_value n m (root t) = Some (tree_val t)" by (rule "3.IH"(1)) (use "3.prems" in auto)
  moreover have "obj_values n m (map (root \<circ> snd) ts) = Some (map snd (tree_vals ts))" by (rule "3.IH"(2)) (use "3.prems" in auto)
  ultimately show ?case by (simp add: comp_def)
qed simp

lemma memory_is_has: "memory_is h bs m \<Longrightarrow> (a, c) \<in> set bs \<Longrightarrow> am_objs m a = Some c"
  by (auto simp: memory_is_def map_add_def map_of_is_SomeI split: option.split)

lemma amf0_at_tree:
  assumes "proper t" and "memory_is h (binds t @ bs) m"
  shows "amf0_at m (root t) = Some (tree_val t)"
  unfolding amf0_at_def
  by (rule obj_value_tree(1) [OF assms(1)]) (use memory_is_has [OF assms(2)] memory_is_length [OF assms(2)] in auto)

lemma memory_is_keeps:
  assumes "memory_is h bs m"
  shows "h \<subseteq>\<^sub>m am_objs m"
proof -
  have "dom h \<inter> dom (map_of bs) = {}" using assms by (simp add: memory_is_def dom_map_of_conv_image_fst)
  then have "h \<subseteq>\<^sub>m h ++ map_of bs" using map_le_iff_map_add_commute by (metis map_add_comm map_le_map_add)
  with assms show ?thesis by (simp add: memory_is_def)
qed

text \<open>The pool of addresses is ahead of the objects.\<close>

definition pool_ok :: "amf0_memory \<Rightarrow> bool" where
  "pool_ok m \<longleftrightarrow> (\<forall>a. am_next m \<le> a \<longrightarrow> am_objs m a = None)"

lemma pool_memory: "pool_ok m \<longleftrightarrow> memory_is (am_objs m) [] m"
  unfolding pool_ok_def memory_is_def by (auto simp: dom_def) (metis linorder_not_le not_None_eq)+

text \<open>
  C5. Reading a value of AMF0 from any bytes into a memory gives what the reader of values gives. Behind an
  error the memory has exactly the objects it had: everything that was made up to the error was deleted, and
  nothing else, no object twice. On success the pointer is that of a new value with what was read, in objects
  that were not there before, and to delete it gives back the memory as it was.
\<close>

theorem read_any_no_leak:
  assumes "wf_buffer s" and "pool_ok m"
  shows "case amf0_read_any s of
      (Ok v, s') \<Rightarrow> \<exists>a m' m''. amf0_new_from (s, m) = (Ok a, (s', m')) \<and> am_objs m \<subseteq>\<^sub>m am_objs m' \<and> am_objs m a = None \<and>
        amf0_at m' a = Some v \<and> amf0_delete a m' = (Ok (), m'') \<and> am_objs m'' = am_objs m
    | (Err e, s') \<Rightarrow> \<exists>m'. amf0_new_from (s, m) = (Err e, (s', m')) \<and> am_objs m' = am_objs m
    | (Panic _, _) \<Rightarrow> False"
proof -
  have m: "memory_is (am_objs m) (concat (map binds []) @ []) m" using assms(2) by (simp add: pool_memory)
  have tr: "tracks (am_objs m) [] (\<lambda>ts. ts = []) (\<lambda>v r ts. is_root r v ts) (srs_amf0_read_any (read_fuel s)) (mem_read_any (read_fuel s))"
    using memory_tracks unfolding any_tracks_def by blast
  from assms(1) order_refl show ?thesis
  proof (cases rule: read_any_result)
    case (Ok v k)
    from tr m Ok(1) obtain r ts m' where r: "mem_read_any (read_fuel s) (s, m) = (Ok r, (adv k s, m'))"
      "memory_is (am_objs m) (concat (map binds ts) @ []) m'" "list_all proper ts" "is_root r v ts" by (rule tracks_Ok)
    from r(4) obtain t where t: "ts = [t]" "root t = r" "tree_val t = v" by (auto simp: is_root_def)
    have p: "proper t" and m': "memory_is (am_objs m) (binds t @ []) m'" using r(2,3) t(1) by simp_all
    from p m' obtain m'' where m'': "amf0_delete (root t) m' = (Ok (), m'')" "memory_is (am_objs m) [] m''" by (rule amf0_delete_tree)
    have "am_objs m r = None" using m' t(2) by (cases t) (auto simp: memory_is_def)
    moreover have "am_objs m \<subseteq>\<^sub>m am_objs m'" using m' memory_is_keeps by blast
    moreover have "amf0_at m' r = Some v" using amf0_at_tree [OF p m'] t by simp
    moreover have "am_objs m'' = am_objs m" using m''(2) by (simp add: memory_is_def)
    ultimately show ?thesis using Ok(1) r(1) m''(1) t(2) by (auto simp: amf0_read_any_def amf0_new_from_def)
  next
    case (Err e k)
    from tr m Err(1) obtain ts m' where "mem_read_any (read_fuel s) (s, m) = (Err e, (adv k s, m'))"
      "memory_is (am_objs m) (concat (map binds ts) @ []) m'" "ts = []" by (rule tracks_Err)
    then show ?thesis using Err(1) by (auto simp: amf0_read_any_def amf0_new_from_def memory_is_def)
  qed
qed

theorem read_any_no_leak_witness:
  "\<exists>a m' m'' s'. amf0_new_from (SrsBuffer_new (Some [3, 0, 1, 0x6B, 1, 1, 0, 0, 9]) 9, no_objs) = (Ok a, (s', m')) \<and>
     amf0_at m' a = Some (Amf0Object [(''k'', Amf0Boolean True)]) \<and> amf0_delete a m' = (Ok (), m'') \<and> am_objs m'' = (\<lambda>_. None)"
proof -
  let ?s = "SrsBuffer_new (Some [3, 0, 1, 0x6B, 1, 1, 0, 0, 9]) 9"
  have wf: "wf_buffer ?s" using wf_new [of "[3, 0, 1, 0x6B, 1, 1, 0, 0, 9]"] by simp
  have pool: "pool_ok no_objs" by (simp add: pool_ok_def no_objs_def)
  have "fst (amf0_read_any ?s) = Ok (Amf0Object [(''k'', Amf0Boolean True)])" by code_simp
  then obtain s' where "amf0_read_any ?s = (Ok (Amf0Object [(''k'', Amf0Boolean True)]), s')" by (metis prod.collapse)
  with read_any_no_leak [OF wf pool] show ?thesis by (fastforce simp: no_objs_def)
qed

end
