(* ===== verification/Amf0Owned.thy ===== *)
theory Amf0Owned
  imports Amf0Memory
begin

section \<open>AMF0 objects that own their values\<close>

text \<open>
  The operations of the containers on objects in memory: what they delete, that a container owns each of its
  values through every operation, and that a copy is made of new objects only.
\<close>

subsection \<open>New objects\<close>

text \<open>The static functions of \<^verbatim>\<open>SrsAmf0Any\<close> that make an object.\<close>

definition new_str :: "string option \<Rightarrow> (amf0_memory, nat) call" where "new_str value = new_obj (CellValue (amf0_str value))"
definition new_boolean :: "bool \<Rightarrow> (amf0_memory, nat) call" where "new_boolean value = new_obj (CellValue (Amf0Boolean value))"
definition new_number :: "64 word \<Rightarrow> (amf0_memory, nat) call" where "new_number value = new_obj (CellValue (Amf0Number value))"
definition new_null :: "(amf0_memory, nat) call" where "new_null = new_obj (CellValue Amf0Null)"
definition new_undefined :: "(amf0_memory, nat) call" where "new_undefined = new_obj (CellValue Amf0Undefined)"
definition new_object :: "(amf0_memory, nat) call" where "new_object = new_obj (CellObject [])"
definition new_object_eof :: "(amf0_memory, nat) call" where "new_object_eof = new_obj (CellValue Amf0ObjectEOF)"
definition new_ecma_array :: "(amf0_memory, nat) call" where "new_ecma_array = new_obj (CellEcma 0 [])"
definition new_strict_array :: "(amf0_memory, nat) call" where "new_strict_array = new_obj (CellStrict 0 [])"
definition new_date :: "64 word \<Rightarrow> (amf0_memory, nat) call" where "new_date value = new_obj (CellValue (amf0_date value))"

subsection \<open>Operations\<close>

text \<open>The hashtable deletes a value before it erases the pair.\<close>

fun amf0_deletes :: "nat list \<Rightarrow> (amf0_memory, unit) call" where
  "amf0_deletes [] = ret ()"
| "amf0_deletes (a # as) = bind (amf0_delete a) (\<lambda>_. amf0_deletes as)"

definition table_remove :: "string \<Rightarrow> nat props \<Rightarrow> (amf0_memory, nat props) call" where
  "table_remove name ps =
     bind (amf0_deletes (map snd (filter (\<lambda>(k, _). k = name) ps))) (\<lambda>_. ret (props_remove name ps))"

definition table_clear :: "nat props \<Rightarrow> (amf0_memory, nat props) call" where
  "table_clear ps = bind (amf0_deletes (map snd ps)) (\<lambda>_. ret (props_clear ps))"

definition obj_remove :: "nat \<Rightarrow> string \<Rightarrow> (amf0_memory, unit) call" where
  "obj_remove a name = on_table (table_remove name) a"

definition obj_clear :: "nat \<Rightarrow> (amf0_memory, unit) call" where
  "obj_clear a = on_table table_clear a"

definition strict_append :: "nat \<Rightarrow> nat \<Rightarrow> (amf0_memory, unit) call" where
  "strict_append a any = bind (obj_at a) (\<lambda>c. case c of
      CellStrict n es \<Rightarrow> put_obj a (CellStrict (word_of_nat (length es + 1)) (es @ [any]))
    | _ \<Rightarrow> panic UndefinedBehaviour)"

definition strict_clear :: "nat \<Rightarrow> (amf0_memory, unit) call" where
  "strict_clear a = bind (obj_at a) (\<lambda>c. case c of
      CellStrict n es \<Rightarrow> bind (amf0_deletes es) (\<lambda>_. put_obj a (CellStrict n []))
    | _ \<Rightarrow> panic UndefinedBehaviour)"

text \<open>
  \<^verbatim>\<open>copy()\<close>: an object without values of its own is copied as a value; a container makes a new one and puts
  the copies of its values in. The fuel is the depth.
\<close>

fun mem_copy :: "nat \<Rightarrow> nat \<Rightarrow> (amf0_memory, nat) call"
  and copy_props :: "nat \<Rightarrow> nat props \<Rightarrow> nat \<Rightarrow> (amf0_memory, unit) call"
  and copy_elems :: "nat \<Rightarrow> nat list \<Rightarrow> nat \<Rightarrow> (amf0_memory, unit) call" where
  "mem_copy 0 a = panic OutOfFuel"
| "mem_copy (Suc n) a = bind (obj_at a) (\<lambda>c. case c of
      CellValue v \<Rightarrow> new_obj (CellValue (amf0_copy v))
    | CellObject ps \<Rightarrow> bind (new_obj (CellObject [])) (\<lambda>copy. bind (copy_props n ps copy) (\<lambda>_. ret copy))
    | CellEcma cnt ps \<Rightarrow> bind (new_obj (CellEcma 0 [])) (\<lambda>copy.
        bind (copy_props n ps copy) (\<lambda>_. bind (set_count copy cnt) (\<lambda>_. ret copy)))
    | CellStrict cnt es \<Rightarrow> bind (new_obj (CellStrict 0 [])) (\<lambda>copy.
        bind (copy_elems n es copy) (\<lambda>_. bind (set_count copy cnt) (\<lambda>_. ret copy))))"
| "copy_props n [] copy = ret ()"
| "copy_props n ((key, any) # src) copy =
     bind (mem_copy n any) (\<lambda>value. bind (obj_set copy key (Some value)) (\<lambda>_. copy_props n src copy))"
| "copy_elems n [] copy = ret ()"
| "copy_elems n (any # es) copy =
     bind (mem_copy n any) (\<lambda>value. bind (strict_append copy value) (\<lambda>_. copy_elems n es copy))"

definition amf0_copy_of :: "nat \<Rightarrow> (amf0_memory, nat) call" where
  "amf0_copy_of a m = mem_copy (am_next m) a m"

subsection \<open>A container owns its values\<close>

lemma deletes_trees:
  assumes "propers us" and "memory_is h (bindss us @ bs) m"
  shows "\<exists>m'. amf0_deletes (map (root \<circ> snd) us) m = (Ok (), m') \<and> memory_is h bs m'"
  using assms
proof (induction us arbitrary: m)
  case (Cons u us)
  obtain key t where u: "u = (key, t)" by (cases u)
  have "proper t" "memory_is h (binds t @ bindss us @ bs) m" using Cons.prems by (simp_all add: u)
  then obtain m1 where m1: "amf0_delete (root t) m = (Ok (), m1)" "memory_is h (bindss us @ bs) m1" by (rule amf0_delete_tree)
  have "propers us" using Cons.prems(1) by (simp add: u)
  from Cons.IH [OF this m1(2)] m1(1) show ?case by (auto simp: u bind_def)
qed simp

lemma bindss_split: "mset (bindss ts) = mset (bindss (filter P ts)) + mset (bindss (filter (\<lambda>t. \<not> P t) ts))"
  by (induction ts) auto

lemma propers_filter: "propers ts \<Longrightarrow> propers (filter P ts)"
  by (induction ts) auto

lemma filter_roots:
  "filter (\<lambda>(key, _). Q key) (map (apsnd root) ts) = map (apsnd root) (filter (\<lambda>(key, _). Q key) ts)"
  by (induction ts) auto

text \<open>An operation that deletes some values of a table and keeps the others.\<close>

lemma on_table_tree:
  assumes t: "proper (Own a k ts)" and k: "table_kind k" and m: "memory_is h (binds (Own a k ts) @ bs) m"
    and f: "\<And>m. f (map (apsnd root) ts) m = bind (amf0_deletes (map (root \<circ> snd) gone)) (\<lambda>_. ret (map (apsnd root) kept)) m"
    and parts: "mset (bindss ts) = mset (bindss gone) + mset (bindss kept)" "propers gone" "propers kept"
  shows "\<exists>m'. on_table f a m = (Ok (), m') \<and> memory_is h (binds (Own a k kept) @ bs) m'"
proof -
  let ?c = "own_cell k ts"
  have at: "memory_is h ((a, ?c) # bindss ts @ bs) m" using m by simp
  have "memory_is h (bindss gone @ (a, ?c) # bindss kept @ bs) m" by (rule memory_is_perm [OF m]) (simp add: parts(1))
  from deletes_trees [OF parts(2) this] obtain m1 where m1: "amf0_deletes (map (root \<circ> snd) gone) m = (Ok (), m1)"
    "memory_is h ((a, ?c) # bindss kept @ bs) m1" by blast
  from m1(2) obtain m2 where m2: "put_obj a (own_cell k kept) m1 = (Ok (), m2)"
    "memory_is h ((a, own_cell k kept) # bindss kept @ bs) m2" by (rule memory_is_put)
  have "on_table f a m = (Ok (), m2)" using k memory_is_at [OF at] m1(1) m2(1) f by (auto simp: on_table_def bind_def)
  with m2(2) show ?thesis by auto
qed

lemma obj_remove_tree:
  assumes "proper (Own a k ts)" and "table_kind k" and "memory_is h (binds (Own a k ts) @ bs) m"
  shows "\<exists>m'. obj_remove a name m = (Ok (), m') \<and> memory_is h (binds (Own a k (props_remove name ts)) @ bs) m'"
  unfolding obj_remove_def
proof (rule on_table_tree [OF assms, where gone = "filter (\<lambda>(key, _). key = name) ts"])
  show "table_remove name (map (apsnd root) ts) m = bind (amf0_deletes (map (root \<circ> snd) (filter (\<lambda>(key, _). key = name) ts)))
      (\<lambda>_. ret (map (apsnd root) (props_remove name ts))) m" for m
    by (simp add: table_remove_def props_remove_filter filter_roots comp_def del: ret_eval)
  show "mset (bindss ts) = mset (bindss (filter (\<lambda>(key, _). key = name) ts)) + mset (bindss (props_remove name ts))"
    using bindss_split [of ts "\<lambda>(key, _). key = name"] by (simp add: props_remove_filter case_prod_unfold)
qed (use assms(1) in \<open>auto simp: props_remove_filter intro!: propers_filter\<close>)

lemma obj_clear_tree:
  assumes "proper (Own a k ts)" and "table_kind k" and "memory_is h (binds (Own a k ts) @ bs) m"
  shows "\<exists>m'. obj_clear a m = (Ok (), m') \<and> memory_is h (binds (Own a k []) @ bs) m'"
  unfolding obj_clear_def
  by (rule on_table_tree [OF assms, where gone = ts])
    (use assms(1) in \<open>auto simp: table_clear_def props_clear_def comp_def simp del: ret_eval\<close>)

lemma strict_append_tree:
  assumes "proper (Own a (KStrict c) ts)" and "proper t" and "memory_is h (binds t @ binds (Own a (KStrict c) ts) @ bs) m"
  obtains m' where "strict_append a (root t) m = (Ok (), m')"
    and "memory_is h (binds (Own a (KStrict (word_of_nat (length ts + 1))) (ts @ [([], t)])) @ bs) m'"
    and "proper (Own a (KStrict (word_of_nat (length ts + 1))) (ts @ [([], t)]))"
proof -
  let ?k = "KStrict (word_of_nat (length ts + 1))" and ?us = "ts @ [([], t)]"
  have m: "memory_is h ((a, own_cell (KStrict c) ts) # bindss ts @ binds t @ bs) m"
    by (rule memory_is_perm [OF assms(3)]) simp
  then obtain m1 where "put_obj a (own_cell ?k ?us) m = (Ok (), m1)"
    "memory_is h ((a, own_cell ?k ?us) # bindss ts @ binds t @ bs) m1" by (rule memory_is_put)
  with that [of m1] memory_is_at [OF m] assms(1,2) show ?thesis by (simp add: strict_append_def bind_def)
qed

lemma strict_clear_tree:
  assumes "proper (Own a (KStrict c) ts)" and "memory_is h (binds (Own a (KStrict c) ts) @ bs) m"
  shows "\<exists>m'. strict_clear a m = (Ok (), m') \<and> memory_is h (binds (Own a (KStrict c) []) @ bs) m'"
proof -
  let ?c = "own_cell (KStrict c) ts"
  have at: "memory_is h ((a, ?c) # bindss ts @ bs) m" using assms(2) by simp
  have sub: "memory_is h (bindss ts @ (a, ?c) # bs) m" by (rule memory_is_perm [OF assms(2)]) simp
  have "propers ts" using assms(1) by simp
  from deletes_trees [OF this sub] obtain m1 where m1: "amf0_deletes (map (root \<circ> snd) ts) m = (Ok (), m1)"
    "memory_is h ((a, ?c) # bs) m1" by blast
  from m1(2) obtain m2 where "put_obj a (CellStrict c []) m1 = (Ok (), m2)" "memory_is h ((a, CellStrict c []) # bs) m2"
    by (rule memory_is_put)
  then show ?thesis using memory_is_at [OF at] m1(1) by (auto simp: strict_clear_def bind_def)
qed

lemma obj_set_null_tree:
  assumes "proper (Own a k ts)" and "table_kind k" and "memory_is h (binds (Own a k ts) @ bs) m"
  shows "\<exists>m'. obj_set a key None m = (Ok (), m') \<and> memory_is h (binds (Own a k (props_set key None ts)) @ bs) m'"
proof (cases "get_property key ts")
  case None
  show ?thesis unfolding obj_set_def
    by (rule on_table_tree [OF assms, where gone = "[]"])
      (use assms(1) erase_first_None [OF None] table_map(2) [of key root None ts] in
        \<open>auto simp: table_set_def table_map(1) None props_set_def simp del: ret_eval\<close>)
next
  case (Some t)
  from erase_first_split [OF this] obtain us ws where ts: "ts = us @ (key, t) # ws" "props_set key None ts = us @ ws"
    by (auto simp: props_set_def)
  have "table_set key None (map (apsnd root) ts) m = bind (amf0_deletes (map (root \<circ> snd) [(key, t)]))
      (\<lambda>_. ret (map (apsnd root) (props_set key None ts))) m" for m
    using table_map(2) [of key root None ts] by (simp add: table_set_def table_map(1) Some bind_assoc del: ret_eval)
  moreover have "mset (bindss ts) = mset (bindss [(key, t)]) + mset (bindss (props_set key None ts))"
    unfolding ts(2) by (simp add: ts(1))
  moreover have "propers [(key, t)]" using assms(1) by (simp add: ts(1))
  moreover have "propers (props_set key None ts)" unfolding ts(2) using assms(1) by (simp add: ts(1))
  ultimately show ?thesis unfolding obj_set_def by (rule on_table_tree [OF assms])
qed

fun table_value :: "amf0_kind \<Rightarrow> amf0 props \<Rightarrow> amf0" where
  "table_value (KEcma n) ps = Amf0EcmaArray n ps"
| "table_value _ ps = Amf0Object ps"

text \<open>At the pointer is a container with the given values, in objects of its own beside \<open>bs\<close> and \<open>h\<close>.\<close>

definition owns :: "(nat \<Rightarrow> amf0_cell option) \<Rightarrow> nat \<Rightarrow> amf0_kind \<Rightarrow> (string \<times> otree) list \<Rightarrow> amf0 props \<Rightarrow>
    (nat \<times> amf0_cell) list \<Rightarrow> amf0_memory \<Rightarrow> bool" where
  "owns h a k ts ps bs m \<longleftrightarrow> proper (Own a k ts) \<and> memory_is h (binds (Own a k ts) @ bs) m \<and> tree_vals ts = ps \<and>
     amf0_at m a = Some (table_value k ps)"

lemma ownsI:
  assumes "proper (Own a k ts)" and "table_kind k" and "memory_is h (binds (Own a k ts) @ bs) m" and "tree_vals ts = ps"
  shows "owns h a k ts ps bs m"
  using assms amf0_at_tree [OF assms(1,3)] by (auto simp: owns_def)

lemma tree_vals_erase: "tree_vals (props_set key None ts) = props_set key None (tree_vals ts)"
  using table_map(2) [of key tree_val None ts] by (simp add: tree_vals_map)

lemma tree_vals_remove: "tree_vals (props_remove key ts) = props_remove key (tree_vals ts)"
  by (induction key ts rule: props_remove.induct) auto

lemma propers_erase: "propers ts \<Longrightarrow> propers (props_set key None ts)" "propers ts \<Longrightarrow> propers (props_remove key ts)"
proof -
  show "propers ts \<Longrightarrow> propers (props_set key None ts)"
    by (induction key ts rule: erase_first.induct) (auto simp: props_set_def)
  show "propers ts \<Longrightarrow> propers (props_remove key ts)" by (simp add: props_remove_filter propers_filter)
qed

text \<open>
  C36. An object or an ECMA array owns its values. To set a key deletes the value the key had, with all of its
  objects, and the new value is the container's from then on; a null pointer deletes only; to remove a key and
  to clear delete just what they take out of the table. The values left are those that \<open>PropTable\<close> says, no
  other object is touched and none is lost, so that to delete the container deletes it and its values.
\<close>

theorem table_owns_values:
  assumes "owns h a k ts ps (binds t @ bs) m" and "table_kind k" and "proper t"
  shows "(\<exists>m' us. obj_set a key (Some (root t)) m = (Ok (), m') \<and> owns h a k us (props_set key (Some (tree_val t)) ps) bs m') \<and>
    (\<exists>m' us. obj_set a key None m = (Ok (), m') \<and> owns h a k us (props_set key None ps) (binds t @ bs) m') \<and>
    (\<exists>m' us. obj_remove a key m = (Ok (), m') \<and> owns h a k us (props_remove key ps) (binds t @ bs) m') \<and>
    (\<exists>m'. obj_clear a m = (Ok (), m') \<and> owns h a k [] [] (binds t @ bs) m') \<and>
    (\<exists>m'. amf0_delete a m = (Ok (), m') \<and> memory_is h (binds t @ bs) m')"
proof (intro conjI)
  have own: "proper (Own a k ts)" "memory_is h (binds (Own a k ts) @ binds t @ bs) m" and ps: "tree_vals ts = ps"
    using assms(1) by (simp_all add: owns_def)
  note erased = propers_erase [of ts key] and kind = assms(2)
  have proper: "proper (Own a k us)" if "propers us" for us using kind that by auto
  have ts: "propers ts" using own(1) by simp
  have "memory_is h (binds t @ binds (Own a k ts) @ bs) m" by (rule memory_is_perm [OF own(2)]) simp
  with own(1) kind assms(3) obtain m' where "obj_set a key (Some (root t)) m = (Ok (), m')"
    "memory_is h (binds (Own a k (props_set key (Some t) ts)) @ bs) m'" "proper (Own a k (props_set key (Some t) ts))"
    by (rule obj_set_tree)
  then show "\<exists>m' us. obj_set a key (Some (root t)) m = (Ok (), m') \<and> owns h a k us (props_set key (Some (tree_val t)) ps) bs m'"
    using ownsI [OF _ kind _ tree_vals_set] ps by blast
  show "\<exists>m' us. obj_set a key None m = (Ok (), m') \<and> owns h a k us (props_set key None ps) (binds t @ bs) m'"
    using obj_set_null_tree [OF own(1) kind own(2), of key] ownsI [OF proper kind _ tree_vals_erase] erased(1) ts ps by blast
  show "\<exists>m' us. obj_remove a key m = (Ok (), m') \<and> owns h a k us (props_remove key ps) (binds t @ bs) m'"
    using obj_remove_tree [OF own(1) kind own(2), of key] ownsI [OF proper kind _ tree_vals_remove] erased(2) ts ps by blast
  show "\<exists>m'. obj_clear a m = (Ok (), m') \<and> owns h a k [] [] (binds t @ bs) m'"
    using obj_clear_tree [OF own(1) kind own(2)] ownsI [OF proper kind, of "[]"] by auto
  from amf0_delete_tree [OF own] show "\<exists>m'. amf0_delete a m = (Ok (), m') \<and> memory_is h (binds t @ bs) m'" by (metis root.simps)
qed

text \<open>What the functions that make an object make: a value of its own.\<close>

lemma new_obj_tree:
  assumes "memory_is h bs m" and "proper (Own 0 k [])"
  shows "\<exists>a m'. new_obj (own_cell k []) m = (Ok a, m') \<and> memory_is h (binds (Own a k []) @ bs) m' \<and>
    amf0_at m' a = Some (tree_val (Own a k []))"
proof -
  from assms(1) obtain a m' where m': "new_obj (own_cell k []) m = (Ok a, m')" "memory_is h ((a, own_cell k []) # bs) m'"
    by (rule memory_is_new)
  then have t: "memory_is h (binds (Own a k []) @ bs) m'" by simp
  have "proper (Own a k [])" using assms(2) by simp
  from amf0_at_tree [OF this t] m'(1) t show ?thesis by auto
qed

theorem new_values:
  assumes "memory_is h bs m"
  shows "\<forall>(f, v) \<in> {(new_str s, amf0_str s), (new_boolean b, Amf0Boolean b), (new_number d, Amf0Number d), (new_null, Amf0Null),
      (new_undefined, Amf0Undefined), (new_object, amf0_object), (new_object_eof, Amf0ObjectEOF),
      (new_ecma_array, amf0_ecma_array), (new_strict_array, amf0_strict_array), (new_date d, amf0_date d)}.
    \<exists>t m'. f m = (Ok (root t), m') \<and> proper t \<and> tree_val t = v \<and> memory_is h (binds t @ bs) m'"
proof -
  have "\<exists>t m'. new_obj (cell_of v) m = (Ok (root t), m') \<and> proper t \<and> tree_val t = v \<and> memory_is h (binds t @ bs) m'"
    if "bare v" for v
    using new_obj_tree [OF assms, of "kind_of v"] bare_kind [OF that] by (metis root.simps)
  from this [of "amf0_str s"] this [of "Amf0Boolean b"] this [of "Amf0Number d"] this [of Amf0Null] this [of Amf0Undefined]
    this [of amf0_object] this [of Amf0ObjectEOF] this [of amf0_ecma_array] this [of amf0_strict_array] this [of "amf0_date d"]
  show ?thesis by (simp add: new_str_def new_boolean_def new_number_def new_null_def new_undefined_def new_object_def
      new_object_eof_def new_ecma_array_def new_strict_array_def new_date_def fresh_values)
qed

text \<open>An object with one property, and a number beside it.\<close>

definition two_trees :: amf0_memory where
  "two_trees = \<lparr>am_objs = [0 \<mapsto> CellObject [(''k'', 1)], 1 \<mapsto> CellValue Amf0Null, 2 \<mapsto> CellValue (Amf0Number 7)], am_next = 3\<rparr>"

theorem table_owns_values_witness:
  "\<exists>m' us. obj_set 0 ''k'' (Some 2) two_trees = (Ok (), m') \<and>
     owns (\<lambda>_. None) 0 KObject us [(''k'', Amf0Number 7)] [] m'"
proof -
  let ?ts = "[(''k'', Own 1 (KValue Amf0Null) [])]" and ?t = "Own 2 (KValue (Amf0Number 7)) []"
  have "owns (\<lambda>_. None) 0 KObject ?ts [(''k'', Amf0Null)] (binds ?t @ []) two_trees"
  proof (rule ownsI)
    show "memory_is (\<lambda>_. None) (binds (Own 0 KObject ?ts) @ binds ?t @ []) two_trees"
      by (auto simp: memory_is_def two_trees_def fun_eq_iff)
  qed simp_all
  from table_owns_values [OF this, of "''k''"] show ?thesis by (simp add: props_set_def)
qed

subsection \<open>A copy shares nothing\<close>

lemma memory_is_hide:
  assumes "memory_is h bs m"
  shows "memory_is (am_objs m) [] m"
    and "memory_is (am_objs m) xs m' \<Longrightarrow> memory_is h (xs @ bs) m'"
proof -
  have b: "am_objs m = h ++ map_of bs" "distinct (map fst bs)" "dom h \<inter> fst ` set bs = {}"
    "\<forall>a\<in>dom h \<union> fst ` set bs. a < am_next m" using assms by (auto simp: memory_is_def)
  have d: "dom (am_objs m) = dom h \<union> fst ` set bs" by (auto simp: b(1) dom_map_of_conv_image_fst)
  then show "memory_is (am_objs m) [] m" using b(4) by (simp add: memory_is_def)
  assume xs: "memory_is (am_objs m) xs m'"
  have "dom (map_of bs) \<inter> dom (map_of xs) = {}" using xs d by (auto simp: memory_is_def dom_map_of_conv_image_fst)
  then have "map_of bs ++ map_of xs = map_of xs ++ map_of bs" by (rule map_add_comm)
  then have "am_objs m ++ map_of xs = h ++ map_of (xs @ bs)" by (metis b(1) map_add_assoc map_of_append)
  with xs b d show "memory_is h (xs @ bs) m'" by (auto simp: memory_is_def)
qed

definition copies :: "(nat \<Rightarrow> amf0_cell option) \<Rightarrow> nat \<Rightarrow> otree \<Rightarrow> bool" where
  "copies h n t \<longleftrightarrow> (\<forall>bs m. memory_is h bs m \<longrightarrow> (\<exists>u m'. mem_copy n (root t) m = (Ok (root u), m') \<and> proper u \<and>
     tree_val u = amf0_copy (tree_val t) \<and> memory_is h (binds u @ bs) m'))"

definition copies_props :: "(nat \<Rightarrow> amf0_cell option) \<Rightarrow> nat \<Rightarrow> (string \<times> otree) list \<Rightarrow> bool" where
  "copies_props h n ts \<longleftrightarrow> (\<forall>b k us bs m. proper (Own b k us) \<longrightarrow> table_kind k \<longrightarrow> memory_is h (binds (Own b k us) @ bs) m \<longrightarrow>
     (\<exists>ws m'. copy_props n (map (apsnd root) ts) b m = (Ok (), m') \<and> proper (Own b k ws) \<and>
       tree_vals ws = props_copy amf0_copy (tree_vals ts) (tree_vals us) \<and> memory_is h (binds (Own b k ws) @ bs) m'))"

definition copies_elems :: "(nat \<Rightarrow> amf0_cell option) \<Rightarrow> nat \<Rightarrow> (string \<times> otree) list \<Rightarrow> bool" where
  "copies_elems h n ts \<longleftrightarrow> (\<forall>b c us bs m. propers us \<longrightarrow> memory_is h (binds (Own b (KStrict c) us) @ bs) m \<longrightarrow>
     (\<exists>c' ws m'. copy_elems n (map (root \<circ> snd) ts) b m = (Ok (), m') \<and> propers ws \<and>
       map snd (tree_vals ws) = map snd (tree_vals us) @ map (amf0_copy \<circ> snd) (tree_vals ts) \<and>
       memory_is h (binds (Own b (KStrict c') ws) @ bs) m'))"

lemma copies_props_Cons:
  assumes t: "copies h n t" and ts: "copies_props h n ts"
  shows "copies_props h n ((key, t) # ts)"
  unfolding copies_props_def
proof (intro allI impI)
  fix b k us bs m assume own: "proper (Own b k us)" "table_kind k" "memory_is h (binds (Own b k us) @ bs) m"
  from t own(3) obtain u m1 where m1: "mem_copy n (root t) m = (Ok (root u), m1)" "proper u" "tree_val u = amf0_copy (tree_val t)"
    "memory_is h (binds u @ binds (Own b k us) @ bs) m1" unfolding copies_def by blast
  from own(1,2) m1(2,4) obtain m2 where m2: "obj_set b key (Some (root u)) m1 = (Ok (), m2)"
    "memory_is h (binds (Own b k (props_set key (Some u) us)) @ bs) m2" "proper (Own b k (props_set key (Some u) us))"
    by (rule obj_set_tree)
  from ts m2(3) own(2) m2(2) obtain ws m3 where "copy_props n (map (apsnd root) ts) b m2 = (Ok (), m3)" "proper (Own b k ws)"
    "tree_vals ws = props_copy amf0_copy (tree_vals ts) (tree_vals (props_set key (Some u) us))"
    "memory_is h (binds (Own b k ws) @ bs) m3" unfolding copies_props_def by blast
  with m1(1,3) m2(1) show "\<exists>ws m'. copy_props n (map (apsnd root) ((key, t) # ts)) b m = (Ok (), m') \<and> proper (Own b k ws) \<and>
       tree_vals ws = props_copy amf0_copy (tree_vals ((key, t) # ts)) (tree_vals us) \<and> memory_is h (binds (Own b k ws) @ bs) m'"
    by (intro exI [of _ ws] exI [of _ m3]) (simp add: bind_def props_copy_def tree_vals_set)
qed

lemma copies_elems_Cons:
  assumes t: "copies h n t" and ts: "copies_elems h n ts"
  shows "copies_elems h n ((key, t) # ts)"
  unfolding copies_elems_def
proof (intro allI impI)
  fix b c us bs m assume own: "propers us" "memory_is h (binds (Own b (KStrict c) us) @ bs) m"
  from t own(2) obtain u m1 where m1: "mem_copy n (root t) m = (Ok (root u), m1)" "proper u" "tree_val u = amf0_copy (tree_val t)"
    "memory_is h (binds u @ binds (Own b (KStrict c) us) @ bs) m1" unfolding copies_def by blast
  have "proper (Own b (KStrict c) us)" using own(1) by simp
  then obtain m2 where m2: "strict_append b (root u) m1 = (Ok (), m2)"
    "memory_is h (binds (Own b (KStrict (word_of_nat (length us + 1))) (us @ [([], u)])) @ bs) m2"
    using m1(2,4) by (rule strict_append_tree)
  have "propers (us @ [([], u)])" using own(1) m1(2) by simp
  with ts m2(2) obtain c' ws m3 where "copy_elems n (map (root \<circ> snd) ts) b m2 = (Ok (), m3)" "propers ws"
    "map snd (tree_vals ws) = map snd (tree_vals (us @ [([], u)])) @ map (amf0_copy \<circ> snd) (tree_vals ts)"
    "memory_is h (binds (Own b (KStrict c') ws) @ bs) m3" unfolding copies_elems_def by blast
  with m1(1,3) m2(1) show "\<exists>c' ws m'. copy_elems n (map (root \<circ> snd) ((key, t) # ts)) b m = (Ok (), m') \<and> propers ws \<and>
       map snd (tree_vals ws) = map snd (tree_vals us) @ map (amf0_copy \<circ> snd) (tree_vals ((key, t) # ts)) \<and>
       memory_is h (binds (Own b (KStrict c') ws) @ bs) m'"
    by (intro exI [of _ c'] exI [of _ ws] exI [of _ m3]) (simp add: bind_def comp_def)
qed

text \<open>A new container and what is put into it.\<close>

lemma copies_value:
  assumes "proper (Own a (KValue v) [])" and "h a = Some (CellValue v)"
  shows "copies h (Suc n) (Own a (KValue v) [])"
  unfolding copies_def
proof (intro allI impI)
  fix bs m assume m: "memory_is h bs m"
  have at: "am_objs m a = Some (CellValue v)" using memory_is_keeps [OF m] assms(2) by (metis domI map_le_def)
  from m obtain b m' where "new_obj (CellValue (amf0_copy v)) m = (Ok b, m')" "memory_is h ((b, CellValue (amf0_copy v)) # bs) m'"
    by (rule memory_is_new)
  moreover have "cell_of (amf0_copy v) = CellValue (amf0_copy v)" using assms(1) by (cases v) (auto simp: amf0_str_def)
  ultimately show "\<exists>u m'. mem_copy (Suc n) (root (Own a (KValue v) [])) m = (Ok (root u), m') \<and> proper u \<and>
      tree_val u = amf0_copy (tree_val (Own a (KValue v) [])) \<and> memory_is h (binds u @ bs) m'"
    using at by (intro exI [of _ "Own b (KValue (amf0_copy v)) []"] exI [of _ m']) (simp add: bind_def obj_at_def)
qed

lemma copies_table:
  assumes k: "k = KObject \<and> k0 = KObject \<or> k = KEcma c \<and> k0 = KEcma 0" and at: "h a = Some (own_cell k ts)" and ts: "copies_props h n ts"
  shows "copies h (Suc n) (Own a k ts)"
  unfolding copies_def
proof (intro allI impI)
  fix bs m assume m: "memory_is h bs m"
  have at': "am_objs m a = Some (own_cell k ts)" using memory_is_keeps [OF m] at by (metis domI map_le_def)
  from m obtain b m1 where m1: "new_obj (own_cell k0 []) m = (Ok b, m1)" "memory_is h ((b, own_cell k0 []) # bs) m1"
    by (rule memory_is_new)
  have "proper (Own b k0 [])" "table_kind k0" "memory_is h (binds (Own b k0 []) @ bs) m1" using k m1(2) by auto
  with ts obtain ws m2 where m2: "copy_props n (map (apsnd root) ts) b m1 = (Ok (), m2)" "proper (Own b k0 ws)"
    "tree_vals ws = props_copy amf0_copy (tree_vals ts) (tree_vals [])" "memory_is h (binds (Own b k0 ws) @ bs) m2"
    unfolding copies_props_def by blast
  obtain m3 where m3: "(if k = KObject then ret () else set_count b c) m2 = (Ok (), m3)" "memory_is h (binds (Own b k ws) @ bs) m3"
  proof (cases "k = KObject")
    case False
    with k have "k0 = KEcma 0 \<and> k = KEcma c \<or> k0 = KStrict 0 \<and> k = KStrict c" by auto
    with m2(4) obtain m3 where "set_count b c m2 = (Ok (), m3)" "memory_is h (binds (Own b k ws) @ bs) m3" by (rule set_count_tree)
    with False that show ?thesis by simp
  qed (use that k m2(4) in auto)
  have "mem_copy (Suc n) a m = (Ok b, m3)" using k at' m1(1) m2(1) m3(1) by (auto simp: bind_def obj_at_def)
  moreover have "proper (Own b k ws)" "tree_val (Own b k ws) = amf0_copy (tree_val (Own a k ts))"
    using k m2(2,3) by (auto simp: object_copy_def ecma_copy_def)
  ultimately show "\<exists>u m'. mem_copy (Suc n) (root (Own a k ts)) m = (Ok (root u), m') \<and> proper u \<and>
      tree_val u = amf0_copy (tree_val (Own a k ts)) \<and> memory_is h (binds u @ bs) m'"
    using m3(2) by (intro exI [of _ "Own b k ws"] exI [of _ m3]) simp
qed

lemma copies_strict:
  assumes at: "h a = Some (own_cell (KStrict c) ts)" and ts: "copies_elems h n ts"
  shows "copies h (Suc n) (Own a (KStrict c) ts)"
  unfolding copies_def
proof (intro allI impI)
  fix bs m assume m: "memory_is h bs m"
  have at': "am_objs m a = Some (own_cell (KStrict c) ts)" using memory_is_keeps [OF m] at by (metis domI map_le_def)
  from m obtain b m1 where m1: "new_obj (CellStrict 0 []) m = (Ok b, m1)" "memory_is h ((b, CellStrict 0 []) # bs) m1"
    by (rule memory_is_new)
  have "propers []" "memory_is h (binds (Own b (KStrict 0) []) @ bs) m1" using m1(2) by simp_all
  with ts obtain d ws m2 where m2: "copy_elems n (map (root \<circ> snd) ts) b m1 = (Ok (), m2)" "propers ws"
    "map snd (tree_vals ws) = map snd (tree_vals []) @ map (amf0_copy \<circ> snd) (tree_vals ts)"
    "memory_is h (binds (Own b (KStrict d) ws) @ bs) m2" unfolding copies_elems_def by blast
  from m2(4) obtain m3 where m3: "set_count b c m2 = (Ok (), m3)" "memory_is h (binds (Own b (KStrict c) ws) @ bs) m3"
    by (rule set_count_tree [where k = "KStrict d" and c = d]) simp
  have "mem_copy (Suc n) a m = (Ok b, m3)" using at' m1(1) m2(1) m3(1) by (simp add: bind_def obj_at_def)
  then show "\<exists>u m'. mem_copy (Suc n) (root (Own a (KStrict c) ts)) m = (Ok (root u), m') \<and> proper u \<and>
      tree_val u = amf0_copy (tree_val (Own a (KStrict c) ts)) \<and> memory_is h (binds u @ bs) m'"
    using m2(2,3) m3(2) by (intro exI [of _ "Own b (KStrict c) ws"] exI [of _ m3]) (simp add: strict_copy_def append_fill comp_def)
qed

lemma copies_tree:
  "proper t \<Longrightarrow> (\<And>a c. (a, c) \<in> set (binds t) \<Longrightarrow> h a = Some c) \<Longrightarrow> length (binds t) \<le> n \<Longrightarrow> copies h n t"
  "propers ts \<Longrightarrow> (\<And>a c. (a, c) \<in> set (bindss ts) \<Longrightarrow> h a = Some c) \<Longrightarrow> length (bindss ts) \<le> n \<Longrightarrow>
    copies_props h n ts \<and> copies_elems h n ts"
proof (induction t and ts arbitrary: n and n rule: binds_bindss.induct)
  case (1 a k ts)
  from "1.prems"(3) obtain n' where n: "n = Suc n'" by (cases n) auto
  have sub: "copies_props h n' ts \<and> copies_elems h n' ts" by (rule "1.IH") (use "1.prems" n in auto)
  have at: "h a = Some (own_cell k ts)" using "1.prems"(2) by simp
  show ?case
  proof (cases k)
    case (KValue v)
    with "1.prems"(1) at copies_value [of a v h n'] show ?thesis by (simp add: n)
  next
    case KObject
    then have "k = KObject \<and> KObject = KObject \<or> k = KEcma 0 \<and> KObject = KEcma 0" by simp
    from copies_table [of k KObject 0 h a ts n'] this at sub show ?thesis by (simp add: n)
  next
    case (KEcma c)
    then have "k = KObject \<and> KEcma 0 = KObject \<or> k = KEcma c \<and> KEcma 0 = KEcma 0" by simp
    from copies_table [of k "KEcma 0" c h a ts n'] this at sub show ?thesis by (simp add: n)
  next
    case (KStrict c)
    with at have "h a = Some (own_cell (KStrict c) ts)" by simp
    from copies_strict [of h a c ts n'] this sub show ?thesis by (simp add: n KStrict)
  qed
next
  case (3 s t ts)
  have "copies h n t" by (rule "3.IH"(1)) (use "3.prems" in auto)
  moreover have "copies_props h n ts \<and> copies_elems h n ts" by (rule "3.IH"(2)) (use "3.prems" in auto)
  ultimately show ?case by (simp add: copies_props_Cons copies_elems_Cons)
next
  case 2
  show ?case by (auto simp: copies_props_def copies_elems_def props_copy_def intro!: exI)
qed

text \<open>
  C37. A copy is made of new objects only: afterwards there are the value, its copy and what was there before,
  no two of them with an object in common. The copy has the value that \<open>amf0_copy\<close> says, and after the value
  was deleted the copy still has it and can be deleted in turn.
\<close>

theorem copy_shares_nothing:
  assumes "proper t" and "memory_is h (binds t @ bs) m"
  shows "\<exists>u m' m'' m'''. amf0_copy_of (root t) m = (Ok (root u), m') \<and> memory_is h (binds u @ binds t @ bs) m' \<and>
    amf0_at m' (root t) = Some (tree_val t) \<and> amf0_delete (root t) m' = (Ok (), m'') \<and> memory_is h (binds u @ bs) m'' \<and>
    amf0_at m'' (root u) = Some (amf0_copy (tree_val t)) \<and> amf0_delete (root u) m'' = (Ok (), m''') \<and> memory_is h bs m'''"
proof -
  have "copies (am_objs m) (am_next m) t"
    by (rule copies_tree(1) [OF assms(1)]) (use memory_is_has [OF assms(2)] memory_is_length [OF assms(2)] in auto)
  then obtain u m' where u: "amf0_copy_of (root t) m = (Ok (root u), m')" "proper u" "tree_val u = amf0_copy (tree_val t)"
    "memory_is (am_objs m) (binds u @ []) m'" using memory_is_hide(1) [OF assms(2)] unfolding copies_def amf0_copy_of_def by blast
  have both: "memory_is h (binds u @ binds t @ bs) m'" using memory_is_hide(2) [OF assms(2)] u(4) by simp
  have old: "memory_is h (binds t @ binds u @ bs) m'" by (rule memory_is_perm [OF both]) simp
  from assms(1) old obtain m'' where m'': "amf0_delete (root t) m' = (Ok (), m'')" "memory_is h (binds u @ bs) m''" by (rule amf0_delete_tree)
  from u(2) m''(2) obtain m''' where "amf0_delete (root u) m'' = (Ok (), m''')" "memory_is h bs m'''" by (rule amf0_delete_tree)
  with u m'' both amf0_at_tree [OF assms(1) old] amf0_at_tree [OF u(2) m''(2)] show ?thesis by metis
qed

theorem copy_shares_nothing_witness:
  "\<exists>u m' m''. amf0_copy_of 0 two_trees = (Ok (root u), m') \<and> amf0_delete 0 m' = (Ok (), m'') \<and>
     amf0_at m'' (root u) = Some (Amf0Object [(''k'', Amf0Null)])"
proof -
  let ?t = "Own 0 KObject [(''k'', Own 1 (KValue Amf0Null) [])]"
  have p: "proper ?t" by simp
  have "memory_is (\<lambda>_. None) (binds ?t @ [(2, CellValue (Amf0Number 7))]) two_trees"
    by (auto simp: memory_is_def two_trees_def fun_eq_iff)
  from copy_shares_nothing [OF p this] show ?thesis by (fastforce simp: object_copy_def props_copy_def props_set_def)
qed

end
