(* ===== verification/Double.thy ===== *)
theory Double
  imports Prelude
begin

section \<open>Doubles as their bits\<close>

text \<open>
  What the program does with a \<^verbatim>\<open>double\<close> beyond copying its eight bytes: the conversions from and to
  \<^verbatim>\<open>int64_t\<close>, the comparison with one, and the printing with a fixed number of digits. They are the
  operations of IEEE 754 binary64, rounding to nearest and ties to even, on the 64 bits; a value is
  a sign, a mantissa and an exponent, \<open>m * 2 ^ e\<close>, computed exactly and rounded once.
\<close>

subsection \<open>Taking a double apart\<close>

definition dbl_neg :: "64 word \<Rightarrow> bool" where
  "dbl_neg w \<longleftrightarrow> 2 ^ 63 \<le> unat w"

definition dbl_mag :: "64 word \<Rightarrow> nat" where
  "dbl_mag w = unat w mod 2 ^ 63"

definition dbl_field :: "64 word \<Rightarrow> nat" where
  "dbl_field w = dbl_mag w div 2 ^ 52"

definition dbl_frac :: "64 word \<Rightarrow> nat" where
  "dbl_frac w = dbl_mag w mod 2 ^ 52"

definition dbl_finite :: "64 word \<Rightarrow> bool" where
  "dbl_finite w \<longleftrightarrow> dbl_field w < 2047"

definition dbl_nan :: "64 word \<Rightarrow> bool" where
  "dbl_nan w \<longleftrightarrow> dbl_field w = 2047 \<and> dbl_frac w \<noteq> 0"

text \<open>The mantissa and the exponent of a finite double.\<close>

definition dbl_mant :: "64 word \<Rightarrow> nat" where
  "dbl_mant w = (if dbl_field w = 0 then dbl_frac w else 2 ^ 52 + dbl_frac w)"

definition dbl_exp :: "64 word \<Rightarrow> int" where
  "dbl_exp w = (if dbl_field w = 0 then - 1074 else int (dbl_field w) - 1075)"

subsection \<open>Rounding an exact ratio to a double\<close>

definition rne_div :: "nat \<Rightarrow> nat \<Rightarrow> nat" where
  "rne_div a b = (let q = a div b; r = a mod b in
     if b < 2 * r \<or> (2 * r = b \<and> odd q) then q + 1 else q)"

fun bit_length :: "nat \<Rightarrow> nat" where
  "bit_length n = (if n = 0 then 0 else Suc (bit_length (n div 2)))"

declare bit_length.simps [simp del]

text \<open>The exponent of the largest power of two not above \<open>num / den\<close>.\<close>

definition ratio_log :: "nat \<Rightarrow> nat \<Rightarrow> int" where
  "ratio_log num den = (let k = int (bit_length num) - int (bit_length den) in
     if den * 2 ^ nat k \<le> num * 2 ^ nat (- k) then k else k - 1)"

definition dbl_pack :: "bool \<Rightarrow> nat \<Rightarrow> 64 word" where
  "dbl_pack neg mag = word_of_nat ((if neg then 2 ^ 63 else 0) + min mag (2047 * 2 ^ 52))"

text \<open>
  With \<open>q\<close> the rounded mantissa, hidden bit included, and \<open>e\<close> its exponent, the bits below the sign
  are \<open>(e + 1074) * 2 ^ 52 + q\<close>: for subnormal numbers, normal ones and those whose mantissa was
  rounded up to \<open>2 ^ 53\<close> alike. Past the largest double they are those of infinity.
\<close>

definition dbl_of_ratio :: "bool \<Rightarrow> nat \<Rightarrow> nat \<Rightarrow> 64 word" where
  "dbl_of_ratio neg num den =
     (if num = 0 then dbl_pack neg 0
      else let e = max (ratio_log num den - 52) (- 1074)
           in dbl_pack neg (nat (e + 1074) * 2 ^ 52 + rne_div (num * 2 ^ nat (- e)) (den * 2 ^ nat e)))"

text \<open>\<^verbatim>\<open>(double)i\<close> of an \<^verbatim>\<open>int64_t\<close>.\<close>

definition dbl_of_int :: "int \<Rightarrow> 64 word" where
  "dbl_of_int i = dbl_of_ratio (i < 0) (nat \<bar>i\<bar>) 1"

text \<open>
  \<^verbatim>\<open>(int64_t)d\<close>: the integer part, towards zero; undefined for a NaN, an infinity and a number whose
  integer part is not an \<^verbatim>\<open>int64_t\<close>.
\<close>

definition dbl_int_part :: "64 word \<Rightarrow> int" where
  "dbl_int_part w =
     (let n = dbl_mant w * 2 ^ nat (dbl_exp w) div 2 ^ nat (- dbl_exp w)
      in if dbl_neg w then - int n else int n)"

definition dbl_to_int64 :: "64 word \<Rightarrow> int outcome" where
  "dbl_to_int64 w =
     (if dbl_finite w \<and> - (2 ^ 63) \<le> dbl_int_part w \<and> dbl_int_part w < 2 ^ 63
      then Ok (dbl_int_part w) else Panic UndefinedBehaviour)"

text \<open>\<^verbatim>\<open>a == b\<close> of doubles: NaN is equal to nothing, the two zeros are equal.\<close>

definition dbl_eq :: "64 word \<Rightarrow> 64 word \<Rightarrow> bool" where
  "dbl_eq a b \<longleftrightarrow> \<not> dbl_nan a \<and> \<not> dbl_nan b \<and> (a = b \<or> dbl_mag a = 0 \<and> dbl_mag b = 0)"

subsection \<open>Arithmetic\<close>

text \<open>The operations are exact on finite numbers and rounded once; what is no number is the quiet NaN.\<close>

definition dbl_quiet_nan :: "64 word" where
  "dbl_quiet_nan = 0x7FF8000000000000"

definition dbl_inf :: "bool \<Rightarrow> 64 word" where
  "dbl_inf neg = dbl_pack neg (2047 * 2 ^ 52)"

definition dbl_uminus :: "64 word \<Rightarrow> 64 word" where
  "dbl_uminus a = word_of_nat ((if dbl_neg a then 0 else 2 ^ 63) + dbl_mag a)"

definition dbl_mult :: "64 word \<Rightarrow> 64 word \<Rightarrow> 64 word" where
  "dbl_mult a b = (let neg = (dbl_neg a \<noteq> dbl_neg b); e = dbl_exp a + dbl_exp b in
     if dbl_nan a \<or> dbl_nan b then dbl_quiet_nan
     else if \<not> dbl_finite a \<or> \<not> dbl_finite b
       then (if dbl_mag a = 0 \<or> dbl_mag b = 0 then dbl_quiet_nan else dbl_inf neg)
     else dbl_of_ratio neg (dbl_mant a * dbl_mant b * 2 ^ nat e) (2 ^ nat (- e)))"

definition dbl_divide :: "64 word \<Rightarrow> 64 word \<Rightarrow> 64 word" where
  "dbl_divide a b = (let neg = (dbl_neg a \<noteq> dbl_neg b); e = dbl_exp a - dbl_exp b in
     if dbl_nan a \<or> dbl_nan b then dbl_quiet_nan
     else if \<not> dbl_finite a then (if dbl_finite b then dbl_inf neg else dbl_quiet_nan)
     else if \<not> dbl_finite b then dbl_pack neg 0
     else if dbl_mag b = 0 then (if dbl_mag a = 0 then dbl_quiet_nan else dbl_inf neg)
     else dbl_of_ratio neg (dbl_mant a * 2 ^ nat e) (dbl_mant b * 2 ^ nat (- e)))"

definition dbl_plus :: "64 word \<Rightarrow> 64 word \<Rightarrow> 64 word" where
  "dbl_plus a b =
     (if dbl_nan a \<or> dbl_nan b then dbl_quiet_nan
      else if \<not> dbl_finite a then (if dbl_finite b \<or> dbl_neg a = dbl_neg b then a else dbl_quiet_nan)
      else if \<not> dbl_finite b then b
      else
        let e = min (dbl_exp a) (dbl_exp b);
            m = int (dbl_mant a) * 2 ^ nat (dbl_exp a - e) * (if dbl_neg a then - 1 else 1);
            n = int (dbl_mant b) * 2 ^ nat (dbl_exp b - e) * (if dbl_neg b then - 1 else 1)
        in if m + n = 0 then dbl_pack (dbl_neg a \<and> dbl_neg b) 0
           else dbl_of_ratio (m + n < 0) (nat \<bar>m + n\<bar> * 2 ^ nat e) (2 ^ nat (- e)))"

subsection \<open>Printing\<close>

text \<open>\<open>n\<close> digits of \<open>k\<close>, with zeros in front.\<close>

fun pad_digits :: "nat \<Rightarrow> nat \<Rightarrow> string" where
  "pad_digits 0 k = []"
| "pad_digits (Suc n) k = pad_digits n (k div 10) @ [digit_char (k mod 10)]"

text \<open>
  \<^verbatim>\<open>"%.nf"\<close> and \<^verbatim>\<open>std::fixed\<close> with precision \<open>n > 0\<close>: the exact value times \<open>10 ^ n\<close>, rounded to even.
\<close>

definition dbl_scaled :: "nat \<Rightarrow> 64 word \<Rightarrow> nat" where
  "dbl_scaled n w =
     rne_div (dbl_mant w * 10 ^ n * 2 ^ nat (dbl_exp w)) (2 ^ nat (- dbl_exp w))"

definition dbl_fixed :: "nat \<Rightarrow> 64 word \<Rightarrow> string" where
  "dbl_fixed n w = (if dbl_neg w then ''-'' else []) @
     (if dbl_nan w then ''nan''
      else if \<not> dbl_finite w then ''inf''
      else dec_of_nat (dbl_scaled n w div 10 ^ n) @ ''.'' @ pad_digits n (dbl_scaled n w mod 10 ^ n))"

text \<open>\<^verbatim>\<open>std::hex\<close> of the unsigned number.\<close>

definition hex_digit :: "nat \<Rightarrow> char" where
  "hex_digit d = (if d < 10 then char_of (48 + d) else char_of (87 + d))"

fun hex_of_nat :: "nat \<Rightarrow> string" where
  "hex_of_nat n = (if n < 16 then [hex_digit n] else hex_of_nat (n div 16) @ [hex_digit (n mod 16)])"

declare hex_of_nat.simps [simp del]

subsection \<open>Integers as doubles\<close>

lemma bit_length_0 [simp]: "bit_length 0 = 0"
  by (simp add: bit_length.simps)

lemma bit_length_1 [simp]: "bit_length (Suc 0) = 1"
  by (simp add: bit_length.simps)

lemma bit_length_bounds: "0 < n \<Longrightarrow> 2 ^ (bit_length n - 1) \<le> n \<and> n < 2 ^ bit_length n \<and> 0 < bit_length n"
proof (induction n rule: bit_length.induct)
  case (1 n)
  then show ?case
  proof (cases "n div 2 = 0")
    case True
    with 1 have "n = 1" by (simp add: div_eq_0_iff)
    then show ?thesis by simp
  next
    case False
    define k where "k = bit_length (n div 2)"
    from False 1 have k: "2 ^ (k - 1) \<le> n div 2" "n div 2 < 2 ^ k" "0 < k" by (auto simp: k_def)
    have b: "bit_length n = Suc k" using 1 by (simp add: bit_length.simps [of n] k_def)
    have "(2 :: nat) ^ k = 2 * 2 ^ (k - 1)" using k(3) by (metis Suc_diff_1 power_Suc)
    with k have "2 ^ k \<le> n" "n < 2 * 2 ^ k" by linarith+
    with b show ?thesis by simp
  qed
qed

lemma bit_length_le: "0 < n \<Longrightarrow> n < 2 ^ k \<Longrightarrow> bit_length n \<le> k"
proof (rule ccontr)
  assume n: "0 < n" "n < 2 ^ k" and "\<not> bit_length n \<le> k"
  then have "k \<le> bit_length n - 1" by simp
  then have "(2 :: nat) ^ k \<le> 2 ^ (bit_length n - 1)" by (rule power_increasing) simp
  with n bit_length_bounds [of n] show False by linarith
qed

lemma unat_word_of_nat: "x < 2 ^ 64 \<Longrightarrow> unat (word_of_nat x :: 64 word) = x"
  by (simp add: unsigned_of_nat take_bit_nat_eq_self)

lemma unat_pack:
  "mag \<le> 2047 * 2 ^ 52 \<Longrightarrow> unat (dbl_pack neg mag) = (if neg then 2 ^ 63 else 0) + mag"
  unfolding dbl_pack_def by (subst unat_word_of_nat) (auto simp: min_def)

lemma dbl_neg_pack: "mag \<le> 2047 * 2 ^ 52 \<Longrightarrow> dbl_neg (dbl_pack neg mag) = neg"
  by (simp add: dbl_neg_def unat_pack)

lemma dbl_mag_pack: "mag \<le> 2047 * 2 ^ 52 \<Longrightarrow> dbl_mag (dbl_pack neg mag) = mag"
  by (simp add: dbl_mag_def unat_pack)

lemma rne_div_1 [simp]: "rne_div a (Suc 0) = a"
  by (simp add: rne_div_def Let_def)

text \<open>An integer below \<open>2 ^ 53\<close>: the mantissa holds all of it.\<close>

lemma dbl_of_nat_pack:
  assumes "0 < a" and "a < 2 ^ 53"
  shows "dbl_of_ratio neg a 1 =
    dbl_pack neg ((bit_length a + 1021) * 2 ^ 52 + a * 2 ^ (53 - bit_length a))"
proof -
  let ?b = "bit_length a"
  have b: "?b \<le> 53" "0 < ?b" "2 ^ (?b - 1) \<le> a"
    using assms bit_length_le [of a 53] bit_length_bounds [of a] by auto
  have l: "ratio_log a 1 = int ?b - 1"
    using b by (simp add: ratio_log_def Let_def nat_diff_distrib)
  have e: "max (ratio_log a 1 - 52) (- 1074) = int ?b - 53" unfolding l using b by simp
  have "nat (- (int ?b - 53)) = 53 - ?b" "nat (int ?b - 53) = 0" "nat (int ?b - 53 + 1074) = ?b + 1021"
    using b by auto
  with assms show ?thesis by (simp only: dbl_of_ratio_def Let_def e) simp
qed

lemma dbl_of_int_parts:
  assumes "i \<noteq> 0" and "\<bar>i\<bar> < 2 ^ 53"
  defines "b \<equiv> bit_length (nat \<bar>i\<bar>)"
  shows "dbl_neg (dbl_of_int i) = (i < 0)" and "dbl_field (dbl_of_int i) = b + 1022"
    and "dbl_mant (dbl_of_int i) = nat \<bar>i\<bar> * 2 ^ (53 - b)" and "dbl_exp (dbl_of_int i) = int b - 53"
    and "0 < b" and "b \<le> 53"
proof -
  let ?a = "nat \<bar>i\<bar>" and ?q = "nat \<bar>i\<bar> * 2 ^ (53 - b)" and ?m = "nat \<bar>i\<bar> * 2 ^ (53 - b) - 2 ^ 52"
  have a: "0 < ?a" "?a < 2 ^ 53" using assms by auto
  have b: "b \<le> 53" "0 < b" "2 ^ (b - 1) \<le> ?a" "?a < 2 ^ b"
    using a bit_length_le [of ?a 53] bit_length_bounds [of ?a] by (auto simp: b_def)
  show "0 < b" "b \<le> 53" using b by simp_all
  have "(2 :: nat) ^ 52 = 2 ^ (b - 1) * 2 ^ (53 - b)" "(2 :: nat) ^ 53 = 2 ^ b * 2 ^ (53 - b)"
    using b(1,2) by (simp_all flip: power_add)
  moreover have "2 ^ (b - 1) * 2 ^ (53 - b) \<le> ?q" using b(3) by (rule mult_le_mono1)
  moreover have "?q < 2 ^ b * 2 ^ (53 - b)" using b(4) by (rule mult_less_mono1) simp
  ultimately have q: "2 ^ 52 \<le> ?q" "?q < 2 ^ 53" by simp_all
  define mag where "mag = (b + 1021) * 2 ^ 52 + ?q"
  have mag: "mag = (b + 1022) * 2 ^ 52 + ?m" using q(1) by (simp add: mag_def algebra_simps)
  have m: "?m < 2 ^ 52" using q less_diff_conv2 [of "2 ^ 52" ?q "2 ^ 52"] by simp
  have "(b + 1022) * 2 ^ 52 \<le> 1075 * 2 ^ 52" using b(1) by simp
  with mag m have le: "mag \<le> 2047 * 2 ^ 52" by simp
  have w: "dbl_of_int i = dbl_pack (i < 0) mag"
    using dbl_of_nat_pack [OF a] by (simp add: dbl_of_int_def mag_def b_def)
  have "(2 :: nat) ^ 52 \<noteq> 0" by simp
  from div_mult_self3 [OF this, of "b + 1022" ?m] m
  have "mag div 2 ^ 52 = b + 1022" by (simp only: mag div_less add_0_right)
  then have f: "dbl_field (dbl_of_int i) = b + 1022"
    using le by (simp only: w dbl_field_def dbl_mag_pack)
  have "mag mod 2 ^ 52 = ?m" using m by (simp only: mag mod_mult_self3 mod_less)
  then have r: "dbl_frac (dbl_of_int i) = ?m"
    using le by (simp only: w dbl_frac_def dbl_mag_pack)
  show "dbl_neg (dbl_of_int i) = (i < 0)" using le by (simp add: w dbl_neg_pack)
  show "dbl_field (dbl_of_int i) = b + 1022" by (rule f)
  show "dbl_mant (dbl_of_int i) = ?q" using q(1) by (simp add: dbl_mant_def f r)
  show "dbl_exp (dbl_of_int i) = int b - 53" by (simp add: dbl_exp_def f)
qed

lemma dbl_of_int_0 [simp]: "dbl_of_int 0 = 0"
  by (simp add: dbl_of_int_def dbl_of_ratio_def dbl_pack_def)

text \<open>The conversions agree on the integers below \<open>2 ^ 53\<close>: there and back, and equal as doubles.\<close>

lemma dbl_to_int64_of_int:
  assumes "\<bar>i\<bar> < 2 ^ 53"
  shows "dbl_to_int64 (dbl_of_int i) = Ok i"
proof (cases "i = 0")
  case True
  then show ?thesis
    by (simp add: dbl_to_int64_def dbl_int_part_def dbl_finite_def dbl_field_def dbl_mag_def dbl_mant_def dbl_frac_def)
next
  case False
  note p = dbl_of_int_parts [OF False assms]
  let ?b = "bit_length (nat \<bar>i\<bar>)"
  have "nat (- (int ?b - 53)) = 53 - ?b" "nat (int ?b - 53) = 0" using p(6) by auto
  then have "dbl_int_part (dbl_of_int i) = i"
    using False by (simp add: dbl_int_part_def p Let_def)
  moreover have "dbl_finite (dbl_of_int i)" unfolding dbl_finite_def p(2) using p(6) by linarith
  moreover have "- (2 ^ 63) \<le> i" "i < 2 ^ 63" using assms by auto
  ultimately show ?thesis by (simp add: dbl_to_int64_def)
qed

lemma dbl_eq_refl_of_int: "\<bar>i\<bar> < 2 ^ 53 \<Longrightarrow> dbl_eq (dbl_of_int i) (dbl_of_int i)"
  using dbl_of_int_parts(2,6) [of i]
  by (cases "i = 0") (auto simp: dbl_eq_def dbl_nan_def dbl_mag_def dbl_field_def)

end
