(* ===== verification/JsonValue.thy ===== *)
theory JsonValue
  imports PropTable Double
begin

section \<open>JSON values\<close>

text \<open>
  The second half of \<^verbatim>\<open>srs_protocol_json.cpp\<close>: the \<^verbatim>\<open>SrsJsonAny\<close> classes as one datatype, type tests
  and conversions, the object's and the array's operations, and \<^verbatim>\<open>dumps\<close>. The object provides the
  interface of a property table; the lemmas show what \<^verbatim>\<open>dumps\<close> prints for each class.
\<close>

subsection \<open>Values\<close>

datatype json =
    JsonString string
  | JsonBoolean bool
  | JsonInteger "64 word"
  | JsonNumber "64 word"
  | JsonNull
  | JsonObject "(string \<times> json) list"
  | JsonArray "json list"

fun json_marker :: "json \<Rightarrow> nat" where
  "json_marker (JsonBoolean _) = 0x01"
| "json_marker (JsonString _) = 0x02"
| "json_marker (JsonObject _) = 0x03"
| "json_marker (JsonInteger _) = 0x04"
| "json_marker (JsonNumber _) = 0x05"
| "json_marker JsonNull = 0x06"
| "json_marker (JsonArray _) = 0x07"

definition json_is_boolean :: "json \<Rightarrow> bool" where "json_is_boolean j \<longleftrightarrow> json_marker j = 0x01"
definition json_is_string :: "json \<Rightarrow> bool" where "json_is_string j \<longleftrightarrow> json_marker j = 0x02"
definition json_is_object :: "json \<Rightarrow> bool" where "json_is_object j \<longleftrightarrow> json_marker j = 0x03"
definition json_is_integer :: "json \<Rightarrow> bool" where "json_is_integer j \<longleftrightarrow> json_marker j = 0x04"
definition json_is_number :: "json \<Rightarrow> bool" where "json_is_number j \<longleftrightarrow> json_marker j = 0x05"
definition json_is_null :: "json \<Rightarrow> bool" where "json_is_null j \<longleftrightarrow> json_marker j = 0x06"
definition json_is_array :: "json \<Rightarrow> bool" where "json_is_array j \<longleftrightarrow> json_marker j = 0x07"

lemmas json_is_defs = json_is_boolean_def json_is_string_def json_is_object_def json_is_integer_def
  json_is_number_def json_is_null_def json_is_array_def

definition json_to_str :: "json \<Rightarrow> string outcome" where
  "json_to_str j = (case j of JsonString v \<Rightarrow> Ok v | _ \<Rightarrow> Panic AssertFailed)"

definition json_to_boolean :: "json \<Rightarrow> bool outcome" where
  "json_to_boolean j = (case j of JsonBoolean v \<Rightarrow> Ok v | _ \<Rightarrow> Panic AssertFailed)"

definition json_to_integer :: "json \<Rightarrow> 64 word outcome" where
  "json_to_integer j = (case j of JsonInteger v \<Rightarrow> Ok v | _ \<Rightarrow> Panic AssertFailed)"

definition json_to_number :: "json \<Rightarrow> 64 word outcome" where
  "json_to_number j = (case j of JsonNumber v \<Rightarrow> Ok v | _ \<Rightarrow> Panic AssertFailed)"

definition json_to_object :: "json \<Rightarrow> (string \<times> json) list outcome" where
  "json_to_object j = (case j of JsonObject ps \<Rightarrow> Ok ps | _ \<Rightarrow> Panic AssertFailed)"

definition json_to_array :: "json \<Rightarrow> json list outcome" where
  "json_to_array j = (case j of JsonArray es \<Rightarrow> Ok es | _ \<Rightarrow> Panic AssertFailed)"

text \<open>\<^verbatim>\<open>SrsJsonAny::str(const char*)\<close> and \<^verbatim>\<open>str(const char*, int)\<close>: up to a NUL, or by length.\<close>

definition json_str :: "string option \<Rightarrow> json" where
  "json_str v = JsonString (case v of None \<Rightarrow> [] | Some s \<Rightarrow> takeWhile (\<lambda>c. c \<noteq> CHR 0x00) s)"

definition json_str_len :: "string option \<Rightarrow> nat \<Rightarrow> json" where
  "json_str_len v n = JsonString (case v of None \<Rightarrow> [] | Some s \<Rightarrow> take n s)"

subsection \<open>Objects and arrays\<close>

type_synonym json_props = "(string \<times> json) list"

text \<open>A null value is not set: there is a warning and the object stays as it was.\<close>

definition json_set :: "string \<Rightarrow> json option \<Rightarrow> json_props \<Rightarrow> json_props" where
  "json_set key value ps = (case value of
      None \<Rightarrow> ps
    | Some v \<Rightarrow> erase_first key ps @ [(key, v)])"

definition json_get_property :: "string \<Rightarrow> json_props \<Rightarrow> json option" where
  "json_get_property name ps = get_property name ps"

definition json_count :: "json_props \<Rightarrow> int" where
  "json_count ps = props_count ps"

definition json_key_at :: "int \<Rightarrow> json_props \<Rightarrow> string outcome" where
  "json_key_at index ps = map_outcome fst (props_at index ps)"

definition json_value_at :: "int \<Rightarrow> json_props \<Rightarrow> json outcome" where
  "json_value_at index ps = map_outcome snd (props_at index ps)"

definition json_ensure :: "(json \<Rightarrow> bool) \<Rightarrow> string \<Rightarrow> json_props \<Rightarrow> json option" where
  "json_ensure P name ps = (case json_get_property name ps of
      None \<Rightarrow> None
    | Some prop \<Rightarrow> if \<not> P prop then None else Some prop)"

definition json_ensure_string :: "string \<Rightarrow> json_props \<Rightarrow> json option" where
  "json_ensure_string = json_ensure json_is_string"

definition json_ensure_integer :: "string \<Rightarrow> json_props \<Rightarrow> json option" where
  "json_ensure_integer = json_ensure json_is_integer"

definition json_ensure_number :: "string \<Rightarrow> json_props \<Rightarrow> json option" where
  "json_ensure_number = json_ensure json_is_number"

definition json_ensure_boolean :: "string \<Rightarrow> json_props \<Rightarrow> json option" where
  "json_ensure_boolean = json_ensure json_is_boolean"

definition json_ensure_object :: "string \<Rightarrow> json_props \<Rightarrow> json option" where
  "json_ensure_object = json_ensure json_is_object"

definition json_ensure_array :: "string \<Rightarrow> json_props \<Rightarrow> json option" where
  "json_ensure_array = json_ensure json_is_array"

definition json_arr_count :: "json list \<Rightarrow> int" where
  "json_arr_count es = int_of_size (length es)"

definition json_arr_at :: "int \<Rightarrow> json list \<Rightarrow> json outcome" where
  "json_arr_at index es =
     (if \<not> index < json_arr_count es then Panic AssertFailed
      else if index < 0 then Panic UndefinedBehaviour
      else Ok (es ! nat index))"

definition json_arr_add :: "json \<Rightarrow> json list \<Rightarrow> json list" where
  "json_arr_add v es = es @ [v]"

definition json_arr_append :: "json \<Rightarrow> json list \<Rightarrow> json list" where
  "json_arr_append v es = json_arr_add v es"

lemma json_set_props_set: "json_set key (Some v) ps = props_set key (Some v) ps"
  by (simp add: json_set_def props_set_def)

interpretation json_object: property_table "\<lambda>k v. json_set k (Some v)" "\<lambda>ps k. json_get_property k ps"
  "\<lambda>ps. ps" "\<lambda>ps. distinct (map fst ps)"
  unfolding json_set_props_set json_get_property_def
  by (rule hashtable.property_table_axioms)

subsection \<open>Printing\<close>

definition srs_int2str :: "64 word \<Rightarrow> string" where
  "srs_int2str v = take 21 (dec_of_int (sint v))"

fun escape_char :: "char \<Rightarrow> string" where
  "escape_char c =
     (if c = CHR 0x22 then [CHR 0x5C, CHR 0x22]
      else if c = CHR 0x5C then [CHR 0x5C, CHR 0x5C]
      else if c = CHR 0x08 then [CHR 0x5C, CHR ''b'']
      else if c = CHR 0x0C then [CHR 0x5C, CHR ''f'']
      else if c = CHR 0x0A then [CHR 0x5C, CHR ''n'']
      else if c = CHR 0x0D then [CHR 0x5C, CHR ''r'']
      else if c = CHR 0x09 then [CHR 0x5C, CHR ''t'']
      else [c])"

definition json_serialize_string :: "string \<Rightarrow> string" where
  "json_serialize_string v = [CHR 0x22] @ concat (map escape_char v) @ [CHR 0x22]"

text \<open>\<^verbatim>\<open>SRS_JFIELD_NAME(k)\<close>: the key between quotes, as it is.\<close>

definition SRS_JFIELD_NAME :: "string \<Rightarrow> string" where
  "SRS_JFIELD_NAME k = [CHR 0x22] @ k @ [CHR 0x22, CHR '':'']"

fun json_dumps :: "json \<Rightarrow> string"
  and dumps_props :: "json_props \<Rightarrow> string"
  and dumps_elems :: "json list \<Rightarrow> string" where
  "json_dumps (JsonString v) = json_serialize_string v"
| "json_dumps (JsonBoolean v) = (if v then ''true'' else ''false'')"
| "json_dumps (JsonInteger v) = srs_int2str v"
| "json_dumps (JsonNumber v) = take 21 (dbl_fixed 2 v)"
| "json_dumps JsonNull = ''null''"
| "json_dumps (JsonObject ps) = ''{'' @ dumps_props ps @ ''}''"
| "json_dumps (JsonArray es) = ''['' @ dumps_elems es @ '']''"
| "dumps_props [] = []"
| "dumps_props ((name, any) # ps) = SRS_JFIELD_NAME name @ json_dumps any @
     (if ps \<noteq> [] then '','' else []) @ dumps_props ps"
| "dumps_elems [] = []"
| "dumps_elems (any # es) = json_dumps any @ (if es \<noteq> [] then '','' else []) @ dumps_elems es"

text \<open>The buffer of 22 bytes holds every \<^verbatim>\<open>int64_t\<close>: nothing is cut off.\<close>

lemma length_dec_of_nat: "n < 10 ^ k \<Longrightarrow> 0 < k \<Longrightarrow> length (dec_of_nat n) \<le> k"
proof (induction n arbitrary: k rule: dec_of_nat.induct)
  case (1 n)
  show ?case
  proof (cases "n < 10")
    case True
    with 1 show ?thesis by (simp add: dec_of_nat.simps [of n])
  next
    case False
    then obtain j where k: "k = Suc j" "0 < j" using 1 by (cases k; cases "k - 1") auto
    with 1 False have "length (dec_of_nat (n div 10)) \<le> j"
      by (intro "1.IH") (simp_all add: div_less_iff_less_mult mult.commute)
    with False k show ?thesis by (simp add: dec_of_nat.simps [of n])
  qed
qed

lemma srs_int2str_whole: "srs_int2str v = dec_of_int (sint v)"
proof -
  have "sint v < 2 ^ 63" "- (2 ^ 63) \<le> sint v"
    using sint_lt [of v] sint_ge [of v] by simp_all
  then have "nat (sint v) < 10 ^ 20" "nat (- sint v) < 10 ^ 20" by simp_all
  then have "length (dec_of_int (sint v)) \<le> 21"
    using length_dec_of_nat [of "nat (sint v)" 20] length_dec_of_nat [of "nat (- sint v)" 20]
    by (simp add: dec_of_int_def)
  then show ?thesis by (simp add: srs_int2str_def)
qed

text \<open>
  Every JSON value passes exactly one of the seven type tests and its conversion alone succeeds;
  an object to which properties were set, nulls among them, has for each key the last value set that
  was not null, its keys are distinct, and an ensured property is the property when it has the type
  asked for and null otherwise.
\<close>

theorem json_object_operations:
  fixes kvs :: "(string \<times> json option) list"
  defines "ps \<equiv> fold (\<lambda>(k, v). json_set k v) kvs []"
  shows "length (filter (\<lambda>P. P j) [json_is_string, json_is_boolean, json_is_integer, json_is_number,
      json_is_null, json_is_object, json_is_array]) = 1 \<and>
    is_ok (json_to_str j) = json_is_string j \<and> is_ok (json_to_boolean j) = json_is_boolean j \<and>
    is_ok (json_to_integer j) = json_is_integer j \<and> is_ok (json_to_number j) = json_is_number j \<and>
    is_ok (json_to_object j) = json_is_object j \<and> is_ok (json_to_array j) = json_is_array j \<and>
    distinct (map fst ps) \<and>
    json_get_property name ps = map_of (rev [(k, v). (k, Some v) \<leftarrow> kvs]) name \<and>
    (json_ensure P name ps = (case json_get_property name ps of
        None \<Rightarrow> None | Some v \<Rightarrow> if P v then Some v else None))"
proof -
  have "fold (\<lambda>(k, v). json_set k v) kvs qs = json_object.fill qs [(k, v). (k, Some v) \<leftarrow> kvs]" for qs
    by (induction kvs arbitrary: qs) (auto simp: json_set_def split: option.splits)
  then have ps: "ps = json_object.fill [] [(k, v). (k, Some v) \<leftarrow> kvs]" by (simp add: ps_def)
  have "json_get_property name ps = map_of (rev [(k, v). (k, Some v) \<leftarrow> kvs]) name"
    unfolding ps by (subst json_object.lookup_fill) (auto simp: json_get_property_def split: option.split)
  moreover have "distinct (map fst ps)" unfolding ps by (rule json_object.inv_fill) simp
  ultimately show ?thesis
    by (cases j) (simp_all add: json_is_defs json_to_str_def json_to_boolean_def json_to_integer_def
        json_to_number_def json_to_object_def json_to_array_def json_ensure_def split: option.split)
qed

theorem json_object_operations_witness:
  "json_get_property ''a'' (fold (\<lambda>(k, v). json_set k v)
     [(''a'', Some JsonNull), (''b'', Some JsonNull), (''a'', Some (JsonBoolean True)), (''a'', None)] []) =
   Some (JsonBoolean True)"
  using json_object_operations [where name = "''a''" and kvs = "[(''a'', Some JsonNull), (''b'', Some JsonNull),
    (''a'', Some (JsonBoolean True)), (''a'', None)]"]
  by simp

end
