(* ===== verification/AmfJson.thy ===== *)
theory AmfJson
  imports Amf0Value JsonValue
begin

section \<open>Between AMF0 and JSON, and AMF0 in print\<close>

text \<open>
  \<^verbatim>\<open>to_json()\<close> of the AMF0 classes, \<^verbatim>\<open>to_amf0()\<close> of the JSON classes, and \<^verbatim>\<open>human_print\<close>. A number of
  AMF0 becomes a JSON integer when it is one, which is where the conversion of a \<^verbatim>\<open>double\<close> may be
  undefined; the theorem says which JSON values come back from AMF0 as they were.
\<close>

subsection \<open>Conversions\<close>

definition number_to_json :: "64 word \<Rightarrow> json outcome" where
  "number_to_json dv = then_do (dbl_to_int64 dv) (\<lambda>iv.
     if dbl_eq (dbl_of_int iv) dv then Ok (JsonInteger (word_of_int iv)) else Ok (JsonNumber dv))"

fun amf0_to_json :: "amf0 \<Rightarrow> json outcome"
  and props_to_json :: "json_props \<Rightarrow> (string \<times> amf0) list \<Rightarrow> json_props outcome"
  and elems_to_json :: "json list \<Rightarrow> amf0 list \<Rightarrow> json list outcome" where
  "amf0_to_json (Amf0String v) = Ok (json_str (Some v))"
| "amf0_to_json (Amf0Boolean v) = Ok (JsonBoolean v)"
| "amf0_to_json (Amf0Number v) = number_to_json v"
| "amf0_to_json Amf0Null = Ok JsonNull"
| "amf0_to_json Amf0Undefined = Ok JsonNull"
| "amf0_to_json (Amf0Object ps) = then_do (props_to_json [] ps) (\<lambda>qs. Ok (JsonObject qs))"
| "amf0_to_json (Amf0EcmaArray cnt ps) = then_do (props_to_json [] ps) (\<lambda>qs. Ok (JsonObject qs))"
| "amf0_to_json (Amf0StrictArray cnt es) = then_do (elems_to_json [] es) (\<lambda>js. Ok (JsonArray js))"
| "amf0_to_json (Amf0Date d z) = Ok JsonNull"
| "amf0_to_json Amf0ObjectEOF = Ok JsonNull"
| "props_to_json obj [] = Ok obj"
| "props_to_json obj ((name, any) # ps) =
     then_do (amf0_to_json any) (\<lambda>j. props_to_json (json_set name (Some j) obj) ps)"
| "elems_to_json arr [] = Ok arr"
| "elems_to_json arr (any # es) =
     then_do (amf0_to_json any) (\<lambda>j. elems_to_json (json_arr_append j arr) es)"

fun json_to_amf0 :: "json \<Rightarrow> amf0"
  and props_to_amf0 :: "(string \<times> amf0) list \<Rightarrow> json_props \<Rightarrow> (string \<times> amf0) list"
  and elems_to_amf0 :: "32 word \<times> amf0 list \<Rightarrow> json list \<Rightarrow> 32 word \<times> amf0 list" where
  "json_to_amf0 (JsonString v) = amf0_str (Some v)"
| "json_to_amf0 (JsonBoolean v) = Amf0Boolean v"
| "json_to_amf0 (JsonInteger v) = Amf0Number (dbl_of_int (sint v))"
| "json_to_amf0 (JsonNumber v) = Amf0Number v"
| "json_to_amf0 JsonNull = Amf0Null"
| "json_to_amf0 (JsonObject ps) = Amf0Object (props_to_amf0 [] ps)"
| "json_to_amf0 (JsonArray es) = (case elems_to_amf0 (0, []) es of (cnt, as) \<Rightarrow> Amf0StrictArray cnt as)"
| "props_to_amf0 obj [] = obj"
| "props_to_amf0 obj ((name, any) # ps) = props_to_amf0 (props_set name (Some (json_to_amf0 any)) obj) ps"
| "elems_to_amf0 arr [] = arr"
| "elems_to_amf0 arr (any # es) = elems_to_amf0 (arr_append (json_to_amf0 any) arr) es"

subsection \<open>Printing for people\<close>

definition srs_fill_level_spaces :: "nat \<Rightarrow> string" where
  "srs_fill_level_spaces level = concat (replicate level ''    '')"

definition endl :: string where
  "endl = [CHR 0x0A]"

text \<open>
  \<^verbatim>\<open>std::hex\<close> prints an \<^verbatim>\<open>int64_t\<close> and an \<^verbatim>\<open>int16_t\<close> as the unsigned numbers of their width; the flags
  are put back at the end of each call, so that counts are always decimal. The precision is 1.
\<close>

fun srs_amf0_do_print :: "amf0 \<Rightarrow> nat \<Rightarrow> string"
  and print_props :: "string \<Rightarrow> (string \<times> amf0) list \<Rightarrow> nat \<Rightarrow> string"
  and print_elems :: "amf0 list \<Rightarrow> nat \<Rightarrow> string" where
  "srs_amf0_do_print (Amf0Boolean v) level = ''Boolean '' @ (if v then ''true'' else ''false'') @ endl"
| "srs_amf0_do_print (Amf0Number v) level = ''Number '' @ dbl_fixed 1 v @ endl"
| "srs_amf0_do_print (Amf0String v) level = ''String '' @ v @ endl"
| "srs_amf0_do_print (Amf0Date d z) level =
     ''Date '' @ hex_of_nat (unat d) @ ''/'' @ hex_of_nat (unat z) @ endl"
| "srs_amf0_do_print Amf0Null level = ''Null'' @ endl"
| "srs_amf0_do_print Amf0Undefined level = ''Undefined'' @ endl"
| "srs_amf0_do_print (Amf0EcmaArray cnt ps) level =
     ''EcmaArray '' @ ''('' @ dec_of_int (props_count ps) @ '' items)'' @ endl @ print_props ''Elem '' ps level"
| "srs_amf0_do_print (Amf0StrictArray cnt es) level =
     ''StrictArray '' @ ''('' @ dec_of_int (arr_count (cnt, es)) @ '' items)'' @ endl @ print_elems es level"
| "srs_amf0_do_print (Amf0Object ps) level =
     ''Object '' @ ''('' @ dec_of_int (props_count ps) @ '' items)'' @ endl @ print_props ''Property '' ps level"
| "srs_amf0_do_print Amf0ObjectEOF level = ''Unknown'' @ endl"
| "print_props what [] level = []"
| "print_props what ((name, any) # ps) level =
     srs_fill_level_spaces (level + 1) @ what @ CHR 0x27 # name @ [CHR 0x27, CHR '' ''] @
     (if is_complex_object any then srs_amf0_do_print any (level + 1) else srs_amf0_do_print any 0) @
     print_props what ps level"
| "print_elems [] level = []"
| "print_elems (any # es) level =
     srs_fill_level_spaces (level + 1) @ ''Elem '' @
     (if is_complex_object any then srs_amf0_do_print any (level + 1) else srs_amf0_do_print any 0) @
     print_elems es level"

text \<open>
  The bytes at the address returned: the text and a NUL; \<^verbatim>\<open>*psize\<close> is the length of the text. The
  text is never empty, so that the null pointer is never returned.
\<close>

definition human_print :: "amf0 \<Rightarrow> (string \<times> int) option" where
  "human_print a = (let str = srs_amf0_do_print a 0 in
     if str = [] then None else Some (str @ [CHR 0x00], int_of_size (length str)))"

subsection \<open>When the conversion to JSON is defined\<close>

fun numbers_of :: "amf0 \<Rightarrow> 64 word list" where
  "numbers_of (Amf0Number w) = [w]"
| "numbers_of (Amf0Object ps) = concat (map (\<lambda>(k, v). numbers_of v) ps)"
| "numbers_of (Amf0EcmaArray cnt ps) = concat (map (\<lambda>(k, v). numbers_of v) ps)"
| "numbers_of (Amf0StrictArray cnt es) = concat (map numbers_of es)"
| "numbers_of _ = []"

definition to_int64_defined :: "64 word \<Rightarrow> bool" where
  "to_int64_defined w \<longleftrightarrow> dbl_finite w \<and> - (2 ^ 63) \<le> dbl_int_part w \<and> dbl_int_part w < 2 ^ 63"

lemma dbl_to_int64_cases:
  "dbl_to_int64 w = (if to_int64_defined w then Ok (dbl_int_part w) else Panic UndefinedBehaviour)"
  by (simp add: dbl_to_int64_def to_int64_defined_def)

text \<open>An outcome that is a value exactly under a condition, and undefined behaviour otherwise.\<close>

definition ok_iff :: "'a outcome \<Rightarrow> bool \<Rightarrow> bool" where
  "ok_iff r b \<longleftrightarrow> (if b then is_ok r else r = Panic UndefinedBehaviour)"

lemma ok_iff_then: "ok_iff r b \<Longrightarrow> (\<And>x. r = Ok x \<Longrightarrow> ok_iff (f x) c) \<Longrightarrow> ok_iff (then_do r f) (b \<and> c)"
  by (cases r) (auto simp: ok_iff_def split: if_splits)

lemma to_json_ok_iff:
  "ok_iff (amf0_to_json a) (list_all to_int64_defined (numbers_of a))"
  "ok_iff (props_to_json obj ps) (list_all (\<lambda>(k, v). list_all to_int64_defined (numbers_of v)) ps)"
  "ok_iff (elems_to_json arr es) (list_all (\<lambda>v. list_all to_int64_defined (numbers_of v)) es)"
proof (induction a and obj ps and arr es rule: amf0_to_json_props_to_json_elems_to_json.induct)
  case (3 v)
  then show ?case by (simp add: number_to_json_def dbl_to_int64_cases ok_iff_def)
next
  case (6 ps)
  then show ?case using ok_iff_then [OF 6, of "\<lambda>qs. Ok (JsonObject qs)" True]
    by (simp add: ok_iff_def list_all_iff case_prod_unfold)
next
  case (7 cnt ps)
  then show ?case using ok_iff_then [OF 7, of "\<lambda>qs. Ok (JsonObject qs)" True]
    by (simp add: ok_iff_def list_all_iff case_prod_unfold)
next
  case (8 cnt es)
  then show ?case using ok_iff_then [OF 8, of "\<lambda>js. Ok (JsonArray js)" True]
    by (simp add: ok_iff_def list_all_iff)
next
  case (12 obj name any ps)
  then show ?case by (auto intro!: ok_iff_then)
next
  case (14 arr any es)
  then show ?case by (auto intro!: ok_iff_then)
qed (simp_all add: ok_iff_def)

text \<open>
  C32. The conversion of an AMF0 value to JSON is defined exactly when each of its numbers, at any
  depth, is finite with an integer part in the range of \<^verbatim>\<open>int64_t\<close>; with any other number in it the
  cast from \<^verbatim>\<open>double\<close> is undefined behaviour. The assertions of the base class are never reached.
\<close>

theorem to_json_defined:
  "(is_ok (amf0_to_json a) \<longleftrightarrow> list_all to_int64_defined (numbers_of a)) \<and>
   (is_ok (amf0_to_json a) \<or> amf0_to_json a = Panic UndefinedBehaviour)"
  using to_json_ok_iff(1) [of a] by (auto simp: ok_iff_def split: if_splits)

subsection \<open>JSON through AMF0 and back\<close>

text \<open>
  The values that are kept: strings without NUL, integers below \<open>2 ^ 53\<close> in size, numbers that are
  not integers, distinct keys.
\<close>

fun json_kept :: "json \<Rightarrow> bool" where
  "json_kept (JsonString v) = (CHR 0x00 \<notin> set v)"
| "json_kept (JsonInteger v) = (\<bar>sint v\<bar> < 2 ^ 53)"
| "json_kept (JsonNumber v) = (to_int64_defined v \<and> \<not> dbl_eq (dbl_of_int (dbl_int_part v)) v)"
| "json_kept (JsonObject ps) = (distinct (map fst ps) \<and> list_all (\<lambda>(k, v). json_kept v) ps)"
| "json_kept (JsonArray es) = list_all json_kept es"
| "json_kept _ = True"

lemma props_to_amf0_fill:
  "props_to_amf0 obj ps = hashtable.fill obj (map (\<lambda>(k, v). (k, json_to_amf0 v)) ps)"
  by (induction ps arbitrary: obj) auto

lemma elems_to_amf0_snd: "snd (elems_to_amf0 arr es) = snd arr @ map json_to_amf0 es"
  by (induction es arbitrary: arr) (auto simp: arr_append_def Let_def split: prod.split)

lemma props_to_json_kept:
  assumes "\<forall>(k, v) \<in> set ps. amf0_to_json (json_to_amf0 v) = Ok v" and "distinct (map fst (obj @ ps))"
  shows "props_to_json obj (map (\<lambda>(k, v). (k, json_to_amf0 v)) ps) = Ok (obj @ ps)"
  using assms
proof (induction ps arbitrary: obj)
  case (Cons kv ps)
  obtain k v where kv: "kv = (k, v)" by (cases kv)
  with Cons.prems have "json_set k (Some v) obj = obj @ [(k, v)]"
    by (simp add: json_set_def erase_first_notin)
  with Cons kv show ?case by simp
qed simp

lemma elems_to_json_kept:
  "\<forall>v \<in> set es. amf0_to_json (json_to_amf0 v) = Ok v \<Longrightarrow>
     elems_to_json arr (map json_to_amf0 es) = Ok (arr @ es)"
  by (induction es arbitrary: arr) (auto simp: json_arr_append_def json_arr_add_def)

lemma json_roundtrip: "json_kept j \<Longrightarrow> amf0_to_json (json_to_amf0 j) = Ok j"
proof (induction j rule: json_kept.induct)
  case (1 v)
  then have "c_str v = v" by (simp add: c_str_id)
  then show ?case by (simp add: amf0_str_def json_str_def c_str_def)
next
  case (2 v)
  then show ?case
    by (simp add: number_to_json_def dbl_to_int64_of_int dbl_eq_refl_of_int)
next
  case (3 v)
  then show ?case by (simp add: number_to_json_def dbl_to_int64_cases)
next
  case (4 ps)
  then have "props_to_amf0 [] ps = map (\<lambda>(k, v). (k, json_to_amf0 v)) ps"
    by (simp add: props_to_amf0_fill hashtable.rebuild [where e = "[]"] del: map_map)
  moreover have "\<forall>(k, v) \<in> set ps. amf0_to_json (json_to_amf0 v) = Ok v"
    using 4 by (fastforce simp: list_all_iff)
  ultimately show ?case using props_to_json_kept [of ps "[]"] 4 by simp
next
  case (5 es)
  then have "\<forall>v \<in> set es. amf0_to_json (json_to_amf0 v) = Ok v" by (auto simp: list_all_iff)
  then show ?case using elems_to_json_kept [of es "[]"] elems_to_amf0_snd [of "(0, [])" es]
    by (cases "elems_to_amf0 (0, []) es") simp
qed simp_all



subsection \<open>A line per value\<close>

fun amf0_nodes :: "amf0 \<Rightarrow> nat" where
  "amf0_nodes (Amf0Object ps) = Suc (sum_list (map (\<lambda>(k, v). amf0_nodes v) ps))"
| "amf0_nodes (Amf0EcmaArray cnt ps) = Suc (sum_list (map (\<lambda>(k, v). amf0_nodes v) ps))"
| "amf0_nodes (Amf0StrictArray cnt es) = Suc (sum_list (map amf0_nodes es))"
| "amf0_nodes _ = 1"

text \<open>The strings and the keys of the value.\<close>

fun texts_of :: "amf0 \<Rightarrow> string list" where
  "texts_of (Amf0String v) = [v]"
| "texts_of (Amf0Object ps) = concat (map (\<lambda>(k, v). k # texts_of v) ps)"
| "texts_of (Amf0EcmaArray cnt ps) = concat (map (\<lambda>(k, v). k # texts_of v) ps)"
| "texts_of (Amf0StrictArray cnt es) = concat (map texts_of es)"
| "texts_of _ = []"

abbreviation one_line :: "string \<Rightarrow> bool" where
  "one_line s \<equiv> CHR 0x0A \<notin> set s"

abbreviation newlines :: "string \<Rightarrow> nat" where
  "newlines s \<equiv> count_list s (CHR 0x0A)"

lemma one_line_digits: "list_all is_digit ds \<Longrightarrow> one_line ds"
  by (auto simp: list_all_iff is_digit_def)

lemma one_line_dec [simp]: "one_line (dec_of_nat n)" "one_line (dec_of_int i)"
  using one_line_digits [OF dec_of_nat_digits] by (auto simp: dec_of_int_def)

lemma one_line_pad [simp]: "one_line (pad_digits n k)"
proof (rule one_line_digits)
  show "list_all is_digit (pad_digits n k)" by (induction n arbitrary: k) simp_all
qed

lemma one_line_fixed [simp]: "one_line (dbl_fixed n w)"
  by (simp add: dbl_fixed_def)

lemma hex_digit_not_newline: "d < 16 \<Longrightarrow> hex_digit d \<noteq> CHR 0x0A"
proof
  assume "d < 16" "hex_digit d = CHR 0x0A"
  then have "of_char (hex_digit d) = (10 :: nat)" by simp
  with \<open>d < 16\<close> show False by (auto simp: hex_digit_def of_char_of split: if_splits)
qed

lemma one_line_hex [simp]: "one_line (hex_of_nat n)"
proof (induction n rule: hex_of_nat.induct)
  case (1 n)
  have "hex_digit (n mod 16) \<noteq> CHR 0x0A" by (rule hex_digit_not_newline) simp
  with 1 hex_digit_not_newline [of n] show ?case
    by (cases "n < 16") (auto simp: hex_of_nat.simps [of n])
qed

lemma one_line_spaces [simp]: "one_line (srs_fill_level_spaces n)"
  by (auto simp: srs_fill_level_spaces_def)

lemma newlines_one_line: "one_line s \<Longrightarrow> newlines s = 0"
  by (simp add: count_list_0_iff)

lemma print_lines:
  "list_all one_line (texts_of a) \<Longrightarrow> newlines (srs_amf0_do_print a l) = amf0_nodes a"
  "list_all (\<lambda>(k, v). list_all one_line (k # texts_of v)) ps \<Longrightarrow> one_line what \<Longrightarrow>
     newlines (print_props what ps l) = sum_list (map (\<lambda>(k, v). amf0_nodes v) ps)"
  "list_all (\<lambda>v. list_all one_line (texts_of v)) es \<Longrightarrow>
     newlines (print_elems es l) = sum_list (map amf0_nodes es)"
proof (induction a l and what ps l and es l rule: srs_amf0_do_print_print_props_print_elems.induct)
  case (7 cnt ps level)
  then show ?case by (auto simp: endl_def newlines_one_line list_all_iff)
next
  case (8 cnt es level)
  then show ?case by (auto simp: endl_def newlines_one_line list_all_iff)
next
  case (9 ps level)
  then show ?case by (auto simp: endl_def newlines_one_line list_all_iff)
qed (auto simp: endl_def newlines_one_line)

text \<open>
  The text printed for a value none of whose strings and keys has a line break is never empty and
  has one line for each value in it, the containers and what they hold; what \<^verbatim>\<open>human_print\<close> returns is
  that text with a NUL behind it.
\<close>

theorem human_print_lines:
  assumes "list_all one_line (texts_of a)"
  shows "\<exists>text. human_print a = Some (text @ [CHR 0x00], int_of_size (length text)) \<and>
    count_list text (CHR 0x0A) = amf0_nodes a \<and> text \<noteq> []"
proof -
  have n: "newlines (srs_amf0_do_print a 0) = amf0_nodes a" using assms by (rule print_lines)
  moreover have "0 < amf0_nodes a" by (cases a) simp_all
  ultimately have "srs_amf0_do_print a 0 \<noteq> []" by force
  with n show ?thesis by (simp add: human_print_def Let_def)
qed

theorem human_print_lines_witness:
  "map_option fst (human_print (Amf0Object [(''k'', Amf0Null)])) =
     Some (''Object (1 items)'' @ endl @ ''    Property '' @ [CHR 0x27] @ ''k'' @ [CHR 0x27] @ '' Null'' @ endl @ [CHR 0x00])
   \<and> count_list (srs_amf0_do_print (Amf0Object [(''k'', Amf0Null)]) 0) (CHR 0x0A) = 2"
proof -
  let ?a = "Amf0Object [(''k'', Amf0Null)]"
  have "list_all one_line (texts_of ?a)" by simp
  from human_print_lines [OF this] have "count_list (srs_amf0_do_print ?a 0) (CHR 0x0A) = 2"
    by (auto simp: human_print_def Let_def split: if_splits)
  then show ?thesis
    by (simp add: human_print_def Let_def srs_fill_level_spaces_def is_complex_object_def is_defs
        marker_defs props_count_def int_of_size_small dec_of_int_def dec_of_nat.simps)
qed

end
