(* ===== verification/JsonParse.thy ===== *)
theory JsonParse
  imports JsonValue
begin

section \<open>The JSON parser\<close>

text \<open>
  The parser in the first half of \<^verbatim>\<open>srs_protocol_json.cpp\<close>, and \<^verbatim>\<open>SrsJsonAny::loads\<close> on top of it. It
  goes over the text twice with the same loop: the first pass makes the nodes, with their types,
  their numbers and the room each string, object and array needs; the second one takes the nodes
  in the same order, makes that room and fills it. The model keeps the nodes in a list, in the order
  of their allocation, and checks every write against the room that was made.

  The text ends with a NUL, as that of a \<^verbatim>\<open>std::string\<close> does, so that the character at its length may
  be read. Allocations succeed. The line and column counters only go into the messages, and the
  messages are dropped, as \<^verbatim>\<open>json_parse\<close> has no buffer for them; they stand here as format strings.
\<close>

subsection \<open>Nodes and state\<close>

datatype json_type = json_none | json_object | json_array | json_integer | json_double
  | json_string | json_boolean | json_null

text \<open>
  \<open>jv_length\<close> is the common first field of \<^verbatim>\<open>string\<close>, \<^verbatim>\<open>object\<close> and \<^verbatim>\<open>array\<close>. \<open>jv_names\<close> counts the
  bytes of the names of an object in the first pass, and those left of \<^verbatim>\<open>object_mem\<close> in the second.
  \<open>jv_room\<close> is what the second pass allocated, entries or characters; \<open>jv_chars\<close> are the characters
  of a string; \<open>jv_key\<close> is the name in the entry at the current length, and \<open>jv_elems\<close> are the entries
  below it, with empty names for an array.
\<close>

record json_value =
  jv_parent :: "nat option"
  jv_type :: json_type
  jv_length :: nat
  jv_boolean :: bool
  jv_integer :: int
  jv_dbl :: "64 word"
  jv_names :: nat
  jv_room :: nat
  jv_chars :: string
  jv_key :: "string option"
  jv_elems :: "(string \<times> nat) list"

record json_flags =
  fl_next :: bool
  fl_reproc :: bool
  fl_need_comma :: bool
  fl_seek_value :: bool
  fl_escaped :: bool
  fl_string :: bool
  fl_need_colon :: bool
  fl_done :: bool
  fl_num_negative :: bool
  fl_num_zero :: bool
  fl_num_e :: bool
  fl_num_e_got_sign :: bool
  fl_num_e_negative :: bool
  fl_line_comment :: bool
  fl_block_comment :: bool

definition no_flags :: json_flags where
  "no_flags = \<lparr>fl_next = False, fl_reproc = False, fl_need_comma = False, fl_seek_value = False,
     fl_escaped = False, fl_string = False, fl_need_colon = False, fl_done = False,
     fl_num_negative = False, fl_num_zero = False, fl_num_e = False, fl_num_e_got_sign = False,
     fl_num_e_negative = False, fl_line_comment = False, fl_block_comment = False\<rparr>"

text \<open>
  \<open>js_p\<close> is the position of the loop. \<^verbatim>\<open>--state.ptr\<close> before the loop's \<^verbatim>\<open>++state.ptr\<close> is written as
  staying at the position. \<open>js_alloc\<close> is the number of nodes made, or taken in the second pass.
  \<open>js_string\<close> are the characters stored behind the pointer \<^verbatim>\<open>string\<close>, and \<open>js_room\<close> the bytes there
  are behind it.
\<close>

record json_state =
  js_first :: bool
  js_p :: nat
  js_flags :: json_flags
  js_top :: "nat option"
  js_root :: "nat option"
  js_alloc :: nat
  js_nodes :: "json_value list"
  js_string :: string
  js_room :: nat
  js_string_length :: nat
  js_num_digits :: int
  js_num_e :: int
  js_num_fraction :: int

text \<open>The limit \<^verbatim>\<open>uint_max\<close>, all ones less 8.\<close>

definition json_uint_max :: nat where
  "json_uint_max = 2 ^ 32 - 1 - 8"

text \<open>How a step ends: the loop goes on, it falls through to the end of its body, the pass is over,
  the parser fails with a message, as it is then.\<close>

datatype 's flow = Go 's | Fall 's | Finished 's | Fails string 's

type_synonym json_stage = "json_state \<Rightarrow> json_state flow outcome"

definition go :: json_stage where
  "go st = Ok (Go st)"

definition fall :: json_stage where
  "fall st = Ok (Fall st)"

definition fails :: "string \<Rightarrow> json_stage" where
  "fails msg st = Ok (Fails msg st)"

text \<open>\<^verbatim>\<open>continue\<close>.\<close>

definition continue :: json_stage where
  "continue st = go (st\<lparr>js_p := js_p st + 1\<rparr>)"

definition with_flags :: "(json_flags \<Rightarrow> json_flags) \<Rightarrow> json_state \<Rightarrow> json_state" where
  "with_flags f st = st\<lparr>js_flags := f (js_flags st)\<rparr>"

text \<open>A dereference of \<^verbatim>\<open>top\<close>, and a change of the node there.\<close>

definition node_at :: "nat \<Rightarrow> json_state \<Rightarrow> json_value outcome" where
  "node_at i st = (if i < length (js_nodes st) then Ok (js_nodes st ! i) else Panic UndefinedBehaviour)"

definition on_top :: "(nat \<Rightarrow> json_value \<Rightarrow> json_stage) \<Rightarrow> json_stage" where
  "on_top f st = (case js_top st of
      None \<Rightarrow> Panic UndefinedBehaviour
    | Some i \<Rightarrow> then_do (node_at i st) (\<lambda>v. f i v st))"

definition set_node :: "nat \<Rightarrow> json_value \<Rightarrow> json_state \<Rightarrow> json_state" where
  "set_node i v st = st\<lparr>js_nodes := (js_nodes st)[i := v]\<rparr>"

subsection \<open>Characters\<close>

text \<open>\<^verbatim>\<open>*ptr\<close>: up to the NUL behind the text.\<close>

definition json_read :: "string \<Rightarrow> nat \<Rightarrow> char outcome" where
  "json_read s p =
     (if p < length s then Ok (s ! p)
      else if p = length s then Ok (CHR 0x00)
      else Panic UndefinedBehaviour)"

definition hex_value :: "char \<Rightarrow> nat" where
  "hex_value c =
     (if is_digit c then digit_val c
      else if c = CHR ''a'' \<or> c = CHR ''A'' then 0x0A
      else if c = CHR ''b'' \<or> c = CHR ''B'' then 0x0B
      else if c = CHR ''c'' \<or> c = CHR ''C'' then 0x0C
      else if c = CHR ''d'' \<or> c = CHR ''D'' then 0x0D
      else if c = CHR ''e'' \<or> c = CHR ''E'' then 0x0E
      else if c = CHR ''f'' \<or> c = CHR ''F'' then 0x0F
      else 0xFF)"

lemma hex_value_NUL [simp]: "hex_value (CHR 0x00) = 0xFF"
  by (simp add: hex_value_def is_digit_def)

text \<open>\<open>n\<close> hexadecimal digits from \<open>p\<close> on, put behind the digits of \<open>acc\<close>.\<close>

fun hex_run :: "string \<Rightarrow> nat \<Rightarrow> nat \<Rightarrow> nat \<Rightarrow> nat option outcome" where
  "hex_run s 0 p acc = Ok (Some acc)"
| "hex_run s (Suc n) p acc =
     then_do (json_read s p) (\<lambda>c.
     if hex_value c = 0xFF then Ok None else hex_run s n (p + 1) (acc * 16 + hex_value c))"

text \<open>The characters of a word from \<open>p\<close> on, compared up to the first that differs.\<close>

fun word_at :: "string \<Rightarrow> nat \<Rightarrow> string \<Rightarrow> bool outcome" where
  "word_at s p [] = Ok True"
| "word_at s p (c # cs) = then_do (json_read s p) (\<lambda>b. if b \<noteq> c then Ok False else word_at s (p + 1) cs)"

text \<open>The bytes of a character in a string.\<close>

definition utf8_chars :: "32 word \<Rightarrow> string" where
  "utf8_chars u = map (\<lambda>w. char_of (unat w))
     (if u \<le> 0x7F then [u]
      else if u \<le> 0x7FF then [0xC0 OR drop_bit 6 u, 0x80 OR (u AND 0x3F)]
      else if u \<le> 0xFFFF then [0xE0 OR drop_bit 12 u, 0x80 OR (drop_bit 6 u AND 0x3F), 0x80 OR (u AND 0x3F)]
      else [0xF0 OR drop_bit 18 u, 0x80 OR (drop_bit 12 u AND 0x3F),
            0x80 OR (drop_bit 6 u AND 0x3F), 0x80 OR (u AND 0x3F)])"

text \<open>\<^verbatim>\<open>0x010000 | ((uchar & 0x3FF) << 10) | (uchar2 & 0x3FF)\<close>.\<close>

definition surrogates :: "32 word \<Rightarrow> 32 word \<Rightarrow> 32 word" where
  "surrogates u v = 0x010000 OR push_bit 10 (u AND 0x3FF) OR (v AND 0x3FF)"

definition is_space :: "char \<Rightarrow> bool" where
  "is_space c \<longleftrightarrow> c = CHR 0x0A \<or> c = CHR '' '' \<or> c = CHR 0x09 \<or> c = CHR 0x0D"

subsection \<open>Making and taking nodes\<close>

definition fresh_node :: "nat option \<Rightarrow> json_type \<Rightarrow> json_value" where
  "fresh_node parent ty = \<lparr>jv_parent = parent, jv_type = ty, jv_length = 0, jv_boolean = False,
     jv_integer = 0, jv_dbl = 0, jv_names = 0, jv_room = 0, jv_chars = [], jv_key = None, jv_elems = []\<rparr>"

text \<open>What the second pass does to a node: the room for what the first one counted.\<close>

definition make_room :: "json_value \<Rightarrow> json_value" where
  "make_room v = (case jv_type v of
      json_array \<Rightarrow> if jv_length v = 0 then v else v\<lparr>jv_room := jv_length v, jv_length := 0\<rparr>
    | json_object \<Rightarrow> if jv_length v = 0 then v\<lparr>jv_names := 0\<rparr> else v\<lparr>jv_room := jv_length v, jv_length := 0\<rparr>
    | json_string \<Rightarrow> v\<lparr>jv_room := jv_length v + 1, jv_length := 0\<rparr>
    | _ \<Rightarrow> v)"

definition new_value :: "json_type \<Rightarrow> json_state \<Rightarrow> json_state outcome" where
  "new_value ty st =
     (let i = js_alloc st; root = (if js_root st = None then Some i else js_root st) in
      if \<not> js_first st then
        then_do (node_at i st) (\<lambda>v.
        Ok (set_node i (make_room v) (st\<lparr>js_top := Some i, js_root := root, js_alloc := i + 1\<rparr>)))
      else
        Ok (st\<lparr>js_nodes := js_nodes st @ [fresh_node (js_top st) ty],
               js_top := Some i, js_root := root, js_alloc := i + 1\<rparr>))"

text \<open>\<^verbatim>\<open>string_add\<close> for one character after the other.\<close>

definition string_adds :: "string \<Rightarrow> json_state \<Rightarrow> json_state outcome" where
  "string_adds cs st =
     (let st' = st\<lparr>js_string_length := js_string_length st + length cs\<rparr> in
      if js_first st then Ok st'
      else if js_string_length st + length cs \<le> js_room st then Ok (st'\<lparr>js_string := js_string st @ cs\<rparr>)
      else Panic UndefinedBehaviour)"

subsection \<open>Inside a string\<close>

text \<open>After a backslash; \<open>b\<close> is the character there.\<close>

definition add_and_continue :: "string \<Rightarrow> json_stage" where
  "add_and_continue cs st = then_do (string_adds cs st) continue"

definition bad_unicode :: json_stage where
  "bad_unicode = fails ''Invalid character value `%c` (at %d:%d)''"

text \<open>The second half of a surrogate pair, behind the first one.\<close>

definition step_surrogate :: "string \<Rightarrow> 32 word \<Rightarrow> json_stage" where
  "step_surrogate s uchar st =
     (if length s - js_p st < 6 then bad_unicode st
      else then_do (word_at s (js_p st + 1) [CHR 0x5C, CHR ''u'']) (\<lambda>ok.
        if \<not> ok then bad_unicode st
        else then_do (hex_run s 4 (js_p st + 3) 0) (\<lambda>u. case u of
           None \<Rightarrow> bad_unicode st
         | Some n \<Rightarrow> add_and_continue (utf8_chars (surrogates uchar (word_of_nat n)))
             (st\<lparr>js_p := js_p st + 6\<rparr>))))"

definition step_unicode :: "string \<Rightarrow> json_stage" where
  "step_unicode s st =
     (if length s - js_p st < 4 then bad_unicode st
      else then_do (hex_run s 4 (js_p st + 1) 0) (\<lambda>u. case u of
         None \<Rightarrow> bad_unicode st
       | Some n \<Rightarrow>
          (let uchar = word_of_nat n :: 32 word; st = st\<lparr>js_p := js_p st + 4\<rparr> in
           if uchar AND 0xF800 = 0xD800 then step_surrogate s uchar st
           else add_and_continue (utf8_chars uchar) st)))"

definition step_escaped :: "string \<Rightarrow> char \<Rightarrow> json_stage" where
  "step_escaped s b st =
     (let st = with_flags (fl_escaped_update (\<lambda>_. False)) st in
      if b = CHR ''b'' then add_and_continue [CHR 0x08] st
      else if b = CHR ''f'' then add_and_continue [CHR 0x0C] st
      else if b = CHR ''n'' then add_and_continue [CHR 0x0A] st
      else if b = CHR ''r'' then add_and_continue [CHR 0x0D] st
      else if b = CHR ''t'' then add_and_continue [CHR 0x09] st
      else if b = CHR ''u'' then step_unicode s st
      else add_and_continue [b] st)"

text \<open>The final NUL of a string, at its length; then the string is put into its node.\<close>

definition string_end :: "json_state \<Rightarrow> json_state outcome" where
  "string_end st =
     (if js_first st \<or> js_string_length st < js_room st
      then Ok (with_flags (fl_string_update (\<lambda>_. False)) st) else Panic UndefinedBehaviour)"

definition close_string :: json_stage where
  "close_string st =
     then_do (string_end st) (on_top (\<lambda>i v st. case jv_type v of
        json_string \<Rightarrow>
          fall (with_flags (fl_next_update (\<lambda>_. True))
            (set_node i (v\<lparr>jv_length := js_string_length st, jv_chars := js_string st\<rparr>) st))
      | json_object \<Rightarrow>
          (let st = with_flags (\<lambda>f. f\<lparr>fl_seek_value := True, fl_need_colon := True\<rparr>) st;
               n = js_string_length st in
           if js_first st then continue (set_node i (v\<lparr>jv_names := jv_names v + n + 1\<rparr>) st)
           else if jv_length v < jv_room v
             then continue (set_node i (v\<lparr>jv_key := Some (js_string st), jv_names := jv_names v - (n + 1)\<rparr>) st)
             else Panic UndefinedBehaviour)
      | _ \<Rightarrow> fall st))"

definition step_string :: "string \<Rightarrow> char \<Rightarrow> json_stage" where
  "step_string s b st =
     (if b = CHR 0x00 then fails ''Unexpected EOF in string (at %d:%d)'' st
      else if js_string_length st > json_uint_max then fails ''%d:%d: Too long (caught overflow)'' st
      else if fl_escaped (js_flags st) then step_escaped s b st
      else if b = CHR 0x5C then continue (with_flags (fl_escaped_update (\<lambda>_. True)) st)
      else if b = CHR 0x22 then close_string st
      else add_and_continue [b] st)"

subsection \<open>Comments\<close>

text \<open>Behind the \<^verbatim>\<open>/\<close> of a comment.\<close>

definition open_comment :: "string \<Rightarrow> json_stage" where
  "open_comment s st =
     (if js_p st + 1 = length s then fails ''%d:%d: EOF unexpected'' st
      else then_do (json_read s (js_p st + 1)) (\<lambda>c.
        let st = st\<lparr>js_p := js_p st + 1\<rparr> in
        if c = CHR ''/'' then continue (with_flags (fl_line_comment_update (\<lambda>_. True)) st)
        else if c = CHR ''*'' then continue (with_flags (fl_block_comment_update (\<lambda>_. True)) st)
        else fails ''%d:%d: Unexpected `%c` in comment opening sequence'' st))"

definition step_comment :: "string \<Rightarrow> char \<Rightarrow> json_stage" where
  "step_comment s b st =
     (if fl_line_comment (js_flags st) then
        (if b = CHR 0x0D \<or> b = CHR 0x0A \<or> b = CHR 0x00
         then go (with_flags (fl_line_comment_update (\<lambda>_. False)) st) else continue st)
      else if fl_block_comment (js_flags st) then
        (if b = CHR 0x00 then fails ''%d:%d: Unexpected EOF in block comment'' st
         else if b = CHR ''*'' \<and> js_p st + 1 < length s then
           then_do (json_read s (js_p st + 1)) (\<lambda>c.
           if c = CHR ''/''
           then continue (with_flags (fl_block_comment_update (\<lambda>_. False)) (st\<lparr>js_p := js_p st + 1\<rparr>))
           else continue st)
         else continue st)
      else if b = CHR ''/'' then
        (if fl_seek_value (js_flags st) \<or> fl_done (js_flags st) then open_comment s st
         else on_top (\<lambda>i v st. if jv_type v \<noteq> json_object then fails ''%d:%d: Comment not allowed here'' st
                                else open_comment s st) st)
      else fall st)"

subsection \<open>Where a value is expected\<close>

text \<open>\<^verbatim>\<open>true\<close>, \<^verbatim>\<open>false\<close> and \<^verbatim>\<open>null\<close>, after their first letter.\<close>

definition step_word :: "string \<Rightarrow> string \<Rightarrow> json_type \<Rightarrow> bool \<Rightarrow> json_stage" where
  "step_word s w ty value st =
     (if length s - js_p st < length w then fails ''%d:%d: Unknown value'' st
      else then_do (word_at s (js_p st + 1) w) (\<lambda>ok.
        if \<not> ok then fails ''%d:%d: Unknown value'' st
        else then_do (new_value ty (st\<lparr>js_p := js_p st + length w\<rparr>)) (on_top (\<lambda>i v st.
          fall (with_flags (fl_next_update (\<lambda>_. True))
            (set_node i (v\<lparr>jv_boolean := (if value then True else jv_boolean v)\<rparr>) st))))))"

definition is_num_char :: "char \<Rightarrow> bool" where
  "is_num_char c \<longleftrightarrow> is_digit c \<or> c = CHR ''+'' \<or> c = CHR ''-'' \<or> c = CHR ''e'' \<or> c = CHR ''E'' \<or> c = CHR ''.''"

text \<open>The loop of the second pass over a number: the position of the first other character.\<close>

definition skip_num :: "string \<Rightarrow> nat \<Rightarrow> nat" where
  "skip_num s p = p + length (takeWhile is_num_char (drop p s))"

definition step_number_start :: "string \<Rightarrow> char \<Rightarrow> json_stage" where
  "step_number_start s b st = then_do (new_value json_integer st) (\<lambda>st.
     if \<not> js_first st then
       fall (with_flags (\<lambda>f. f\<lparr>fl_next := True, fl_reproc := True\<rparr>) (st\<lparr>js_p := skip_num s (js_p st)\<rparr>))
     else
       (let st = with_flags (\<lambda>f. f\<lparr>fl_num_negative := False, fl_num_e := False, fl_num_e_got_sign := False,
              fl_num_e_negative := False, fl_num_zero := False\<rparr>)
              (st\<lparr>js_num_digits := 0, js_num_fraction := 0, js_num_e := 0\<rparr>) in
        if b \<noteq> CHR ''-'' then fall (with_flags (fl_reproc_update (\<lambda>_. True)) st)
        else continue (with_flags (fl_num_negative_update (\<lambda>_. True)) st)))"

definition step_string_start :: json_stage where
  "step_string_start st = then_do (new_value json_string st) (on_top (\<lambda>i v st.
     continue (with_flags (fl_string_update (\<lambda>_. True))
       (st\<lparr>js_string := [], js_room := jv_room v, js_string_length := 0\<rparr>))))"

definition step_value :: "string \<Rightarrow> char \<Rightarrow> json_stage" where
  "step_value s b st =
     (if b = CHR ''{'' then then_do (new_value json_object st) continue
      else if b = CHR ''['' then
        then_do (new_value json_array st) (\<lambda>st. continue (with_flags (fl_seek_value_update (\<lambda>_. True)) st))
      else if b = CHR 0x22 then step_string_start st
      else if b = CHR ''t'' then step_word s ''rue'' json_boolean True st
      else if b = CHR ''f'' then step_word s ''alse'' json_boolean False st
      else if b = CHR ''n'' then step_word s ''ull'' json_null False st
      else if is_digit b \<or> b = CHR ''-'' then step_number_start s b st
      else fails ''%d:%d: Unexpected %c when seeking value'' st)"

definition top_is :: "json_type \<Rightarrow> json_state \<Rightarrow> bool outcome" where
  "top_is ty st = (case js_top st of
      None \<Rightarrow> Ok False
    | Some i \<Rightarrow> then_do (node_at i st) (\<lambda>v. Ok (jv_type v = ty)))"

definition step_seek :: "string \<Rightarrow> char \<Rightarrow> json_stage" where
  "step_seek s b st =
     (if is_space b then continue st
      else if b = CHR '']'' then
        then_do (top_is json_array st) (\<lambda>ok.
        if ok then fall (with_flags (\<lambda>f. f\<lparr>fl_need_comma := False, fl_seek_value := False, fl_next := True\<rparr>) st)
        else fails ''%d:%d: Unexpected ]'' st)
      else if fl_need_comma (js_flags st) then
        (if b = CHR '','' then continue (with_flags (fl_need_comma_update (\<lambda>_. False)) st)
         else fails ''%d:%d: Expected , before %c'' st)
      else if fl_need_colon (js_flags st) then
        (if b = CHR '':'' then continue (with_flags (fl_need_colon_update (\<lambda>_. False)) st)
         else fails ''%d:%d: Expected : before %c'' st)
      else step_value s b (with_flags (fl_seek_value_update (\<lambda>_. False)) st))"

subsection \<open>Inside an object or a number\<close>

definition step_object :: "char \<Rightarrow> nat \<Rightarrow> json_value \<Rightarrow> json_stage" where
  "step_object b i v st =
     (if is_space b then continue st
      else if b = CHR 0x22 then
        (if fl_need_comma (js_flags st) then fails ''%d:%d: Expected , before \"'' st
         else fall (with_flags (fl_string_update (\<lambda>_. True))
           (st\<lparr>js_string := [], js_room := jv_names v, js_string_length := 0\<rparr>)))
      else if b = CHR ''}'' then fall (with_flags (\<lambda>f. f\<lparr>fl_need_comma := False, fl_next := True\<rparr>) st)
      else if b = CHR '','' \<and> fl_need_comma (js_flags st)
        then fall (with_flags (fl_need_comma_update (\<lambda>_. False)) st)
      else fails ''%d:%d: Unexpected `%c` in object'' st)"

definition digit_int :: "char \<Rightarrow> int" where
  "digit_int b = int (digit_val b)"

text \<open>\<^verbatim>\<open>n * 10 + (b - '0')\<close> on an \<^verbatim>\<open>int64_t\<close>.\<close>

definition shift_in :: "int \<Rightarrow> char \<Rightarrow> int outcome" where
  "shift_in n b = then_do (i64 (n * 10)) (\<lambda>m. i64 (m + digit_int b))"

definition step_digit :: "char \<Rightarrow> nat \<Rightarrow> json_value \<Rightarrow> json_stage" where
  "step_digit b i v st =
     (let st = st\<lparr>js_num_digits := js_num_digits st + 1\<rparr>; f = js_flags st in
      if jv_type v = json_integer \<or> fl_num_e f then
        if \<not> fl_num_e f then
          if fl_num_zero f then fails ''%d:%d: Unexpected `0` before `%c`'' st
          else
            (let st = (if js_num_digits st = 1 \<and> b = CHR ''0''
                       then with_flags (fl_num_zero_update (\<lambda>_. True)) st else st) in
             then_do (shift_in (jv_integer v) b) (\<lambda>n. continue (set_node i (v\<lparr>jv_integer := n\<rparr>) st)))
        else
          then_do (shift_in (js_num_e st) b) (\<lambda>n.
          continue (with_flags (fl_num_e_got_sign_update (\<lambda>_. True)) (st\<lparr>js_num_e := n\<rparr>)))
      else
        then_do (shift_in (js_num_fraction st) b) (\<lambda>n. continue (st\<lparr>js_num_fraction := n\<rparr>)))"

text \<open>The end of a number: the sign, and the same character again.\<close>

definition number_end :: "nat \<Rightarrow> json_value \<Rightarrow> json_stage" where
  "number_end i v st =
     (let v = (if \<not> fl_num_negative (js_flags st) then v
               else if jv_type v = json_integer then v\<lparr>jv_integer := - jv_integer v\<rparr>
               else v\<lparr>jv_dbl := dbl_uminus (jv_dbl v)\<rparr>) in
      fall (with_flags (\<lambda>f. f\<lparr>fl_next := True, fl_reproc := True\<rparr>) (set_node i v st)))"

text \<open>\<open>pow10\<close> is \<^verbatim>\<open>pow(10.0, x)\<close> for a whole number \<open>x\<close>.\<close>

definition number_other :: "(int \<Rightarrow> 64 word) \<Rightarrow> char \<Rightarrow> nat \<Rightarrow> json_value \<Rightarrow> json_stage" where
  "number_other pow10 b i v st =
     (if \<not> fl_num_e (js_flags st) then
        if jv_type v = json_double \<and> js_num_digits st = 0 then fails ''%d:%d: Expected digit after `.`'' st
        else
          (let v = (if jv_type v = json_double
                    then v\<lparr>jv_dbl := dbl_plus (jv_dbl v)
                      (dbl_divide (dbl_of_int (js_num_fraction st)) (pow10 (js_num_digits st)))\<rparr>
                    else v) in
           if b = CHR ''e'' \<or> b = CHR ''E'' then
             (let v = (if jv_type v = json_integer
                       then v\<lparr>jv_type := json_double, jv_dbl := dbl_of_int (jv_integer v)\<rparr> else v) in
              continue (with_flags (\<lambda>f. f\<lparr>fl_num_e := True, fl_num_zero := False\<rparr>)
                (set_node i v (st\<lparr>js_num_digits := 0\<rparr>))))
           else number_end i v st)
      else if js_num_digits st = 0 then fails ''%d:%d: Expected digit after `e`'' st
      else number_end i (v\<lparr>jv_dbl := dbl_mult (jv_dbl v)
          (pow10 (if fl_num_e_negative (js_flags st) then - js_num_e st else js_num_e st))\<rparr>) st)"

definition step_number :: "(int \<Rightarrow> 64 word) \<Rightarrow> char \<Rightarrow> nat \<Rightarrow> json_value \<Rightarrow> json_stage" where
  "step_number pow10 b i v st =
     (if is_digit b then step_digit b i v st
      else if b = CHR ''+'' \<or> b = CHR ''-'' then
        (if fl_num_e (js_flags st) \<and> \<not> fl_num_e_got_sign (js_flags st)
         then continue (with_flags (\<lambda>f. f\<lparr>fl_num_e_got_sign := True,
                fl_num_e_negative := (if b = CHR ''-'' then True else fl_num_e_negative f)\<rparr>) st)
         else number_other pow10 b i v st)
      else if b = CHR ''.'' \<and> jv_type v = json_integer then
        (if js_num_digits st = 0 then fails ''%d:%d: Expected digit before `.`'' st
         else continue (set_node i (v\<lparr>jv_type := json_double, jv_dbl := dbl_of_int (jv_integer v)\<rparr>)
           (st\<lparr>js_num_digits := 0\<rparr>)))
      else number_other pow10 b i v st)"

definition step_top :: "(int \<Rightarrow> 64 word) \<Rightarrow> char \<Rightarrow> json_stage" where
  "step_top pow10 b = on_top (\<lambda>i v. case jv_type v of
      json_object \<Rightarrow> step_object b i v
    | json_integer \<Rightarrow> step_number pow10 b i v
    | json_double \<Rightarrow> step_number pow10 b i v
    | _ \<Rightarrow> fall)"

subsection \<open>The loop\<close>

text \<open>The stages of the body after the one for strings, each entered when the one before fell through.\<close>

definition and_then :: "json_state flow outcome \<Rightarrow> json_stage \<Rightarrow> json_state flow outcome" where
  "and_then r f = then_do r (\<lambda>fl. case fl of Fall st \<Rightarrow> f st | _ \<Rightarrow> Ok fl)"

definition step_rest :: "(int \<Rightarrow> 64 word) \<Rightarrow> bool \<Rightarrow> string \<Rightarrow> char \<Rightarrow> json_stage" where
  "step_rest pow10 comments s b st =
     and_then (if comments then step_comment s b st else fall st) (\<lambda>st.
     if fl_done (js_flags st) then
       (if b = CHR 0x00 then Ok (Finished st)
        else if is_space b then continue st
        else fails ''%d:%d: Trailing garbage: `%c`'' st)
     else if fl_seek_value (js_flags st) then step_seek s b st
     else step_top pow10 b st)"

text \<open>A value is complete: it goes into its parent, which is the top again.\<close>

definition store_in_parent :: "nat \<Rightarrow> json_value \<Rightarrow> json_state \<Rightarrow> json_value outcome" where
  "store_in_parent i pv st =
     (if js_first st then Ok pv
      else if jv_type pv = json_object then
        (if jv_length pv < jv_room pv \<and> jv_key pv \<noteq> None
         then Ok (pv\<lparr>jv_elems := jv_elems pv @ [(the (jv_key pv), i)], jv_key := None\<rparr>)
         else Panic UndefinedBehaviour)
      else if jv_type pv = json_array then
        (if jv_length pv < jv_room pv then Ok (pv\<lparr>jv_elems := jv_elems pv @ [([], i)]\<rparr>)
         else Panic UndefinedBehaviour)
      else Ok pv)"

definition value_done :: json_stage where
  "value_done = on_top (\<lambda>i v st. case jv_parent v of
      None \<Rightarrow> go (with_flags (fl_done_update (\<lambda>_. True)) st)
    | Some k \<Rightarrow> then_do (node_at k st) (\<lambda>pv.
        let st = (if jv_type pv = json_array then with_flags (fl_seek_value_update (\<lambda>_. True)) st else st) in
        then_do (store_in_parent i pv st) (\<lambda>pv.
        let pv = pv\<lparr>jv_length := jv_length pv + 1\<rparr>; st = set_node k pv st in
        if jv_length pv > json_uint_max then fails ''%d:%d: Too long (caught overflow)'' st
        else go (st\<lparr>js_top := Some k\<rparr>))))"

text \<open>The end of the body, with the increment of the loop.\<close>

definition step_finish :: json_stage where
  "step_finish st =
     (let st = (if fl_reproc (js_flags st) then with_flags (fl_reproc_update (\<lambda>_. False)) st
                else st\<lparr>js_p := js_p st + 1\<rparr>) in
      if fl_next (js_flags st)
      then value_done (with_flags (\<lambda>f. f\<lparr>fl_next := False, fl_need_comma := True\<rparr>) st)
      else go st)"

definition json_step :: "(int \<Rightarrow> 64 word) \<Rightarrow> bool \<Rightarrow> string \<Rightarrow> json_stage" where
  "json_step pow10 comments s st =
     then_do (json_read s (js_p st)) (\<lambda>b.
     and_then
       (and_then (if fl_string (js_flags st) then step_string s b st else fall st)
          (step_rest pow10 comments s b))
       step_finish)"

text \<open>A pass, with fuel: the state it ends in, or the message and the state with which it failed.\<close>

fun json_pass :: "nat \<Rightarrow> (int \<Rightarrow> 64 word) \<Rightarrow> bool \<Rightarrow> string \<Rightarrow> json_state \<Rightarrow> (string \<times> json_state + json_state) outcome" where
  "json_pass 0 pow10 comments s st = Panic OutOfFuel"
| "json_pass (Suc fuel) pow10 comments s st =
     then_do (json_step pow10 comments s st) (\<lambda>r. case r of
        Go st \<Rightarrow> json_pass fuel pow10 comments s st
      | Fall st \<Rightarrow> json_pass fuel pow10 comments s st
      | Finished st \<Rightarrow> Ok (Inr st)
      | Fails msg st \<Rightarrow> Ok (Inl (msg, st)))"

subsection \<open>Giving the nodes back\<close>

text \<open>
  What \<^verbatim>\<open>json_value_free\<close> gives back to the allocator: nodes, the memory of the entries of an array or an
  object, the characters of a string. To give a block back twice is undefined, and so is to look at one
  that was given back. An array or object without entries has a null pointer there.
\<close>

datatype json_block = BlockNode nat | BlockValues nat | BlockChars nat

record free_state =
  fr_nodes :: "json_value list"
  fr_freed :: "json_block list"

definition mem_free :: "json_block \<Rightarrow> free_state \<Rightarrow> free_state outcome" where
  "mem_free b st =
     (if b \<in> set (fr_freed st) then Panic UndefinedBehaviour else Ok (st\<lparr>fr_freed := fr_freed st @ [b]\<rparr>))"

definition free_values :: "nat \<Rightarrow> json_value \<Rightarrow> free_state \<Rightarrow> free_state outcome" where
  "free_values i v st = (if jv_room v = 0 then Ok st else mem_free (BlockValues i) st)"

text \<open>\<^verbatim>\<open>values[--length]\<close>: the last entry that is left.\<close>

definition last_entry :: "nat \<Rightarrow> json_value \<Rightarrow> free_state \<Rightarrow> (nat option \<times> free_state) outcome" where
  "last_entry i v st =
     (let n = jv_length v - 1 in
      if BlockValues i \<in> set (fr_freed st) \<or> jv_room v \<le> n \<or> length (jv_elems v) \<le> n then Panic UndefinedBehaviour
      else Ok (Some (snd (jv_elems v ! n)), st\<lparr>fr_nodes := (fr_nodes st)[i := v\<lparr>jv_length := n\<rparr>]\<rparr>))"

text \<open>The end of the loop's body: the node goes, its parent is next.\<close>

definition free_up :: "nat \<Rightarrow> json_value \<Rightarrow> free_state \<Rightarrow> (nat option \<times> free_state) outcome" where
  "free_up i v st = then_do (mem_free (BlockNode i) st) (\<lambda>st. Ok (jv_parent v, st))"

definition free_step :: "nat \<Rightarrow> free_state \<Rightarrow> (nat option \<times> free_state) outcome" where
  "free_step i st =
     (if length (fr_nodes st) \<le> i \<or> BlockNode i \<in> set (fr_freed st) then Panic UndefinedBehaviour
      else let v = fr_nodes st ! i in
       (if jv_type v = json_array \<or> jv_type v = json_object then
          (if jv_length v = 0 then then_do (free_values i v st) (free_up i v) else last_entry i v st)
        else if jv_type v = json_string then then_do (mem_free (BlockChars i) st) (free_up i v)
        else free_up i v st))"

fun free_loop :: "nat \<Rightarrow> nat option \<Rightarrow> free_state \<Rightarrow> free_state outcome" where
  "free_loop fuel None st = Ok st"
| "free_loop 0 (Some i) st = Panic OutOfFuel"
| "free_loop (Suc fuel) (Some i) st = then_do (free_step i st) (\<lambda>(next, st). free_loop fuel next st)"

text \<open>Each node but the root is gone into once and gone up from once.\<close>

definition json_value_free_ex :: "nat \<Rightarrow> free_state \<Rightarrow> free_state outcome" where
  "json_value_free_ex i st =
     (if length (fr_nodes st) \<le> i \<or> BlockNode i \<in> set (fr_freed st) then Panic UndefinedBehaviour
      else free_loop (2 * length (fr_nodes st)) (Some i)
        (st\<lparr>fr_nodes := (fr_nodes st)[i := (fr_nodes st ! i)\<lparr>jv_parent := None\<rparr>]\<rparr>))"

text \<open>What was given back, in order.\<close>

definition json_value_free :: "json_value list \<Rightarrow> nat \<Rightarrow> json_block list outcome" where
  "json_value_free nodes i = map_outcome fr_freed (json_value_free_ex i \<lparr>fr_nodes = nodes, fr_freed = []\<rparr>)"

subsection \<open>Behind an error\<close>

text \<open>
  The nodes of the chain \<^verbatim>\<open>next_alloc\<close>, which links each node to the one made next, and, in the second
  pass, the nodes that were taken from the chain.
\<close>

fun free_chain :: "nat list \<Rightarrow> free_state \<Rightarrow> free_state outcome" where
  "free_chain [] st = Ok st"
| "free_chain (i # is) st = then_do (mem_free (BlockNode i) st) (free_chain is)"

definition json_e_failed :: "json_state \<Rightarrow> json_block list outcome" where
  "json_e_failed st =
     (let n = length (js_nodes st);
          alloc = (if js_first st then (case js_root st of None \<Rightarrow> n | Some r \<Rightarrow> r) else js_alloc st) in
      then_do (free_chain [alloc..<n] \<lparr>fr_nodes = js_nodes st, fr_freed = []\<rparr>) (\<lambda>fr.
      map_outcome fr_freed (case js_root st of
          Some r \<Rightarrow> if js_first st then Ok fr else json_value_free_ex r fr
        | None \<Rightarrow> Ok fr)))"

subsection \<open>The two passes\<close>

definition pass_start :: "bool \<Rightarrow> json_value list \<Rightarrow> json_state" where
  "pass_start first nodes = \<lparr>js_first = first, js_p = 0, js_flags = no_flags\<lparr>fl_seek_value := True\<rparr>,
     js_top = None, js_root = None, js_alloc = 0, js_nodes = nodes, js_string = [], js_room = 0,
     js_string_length = 0, js_num_digits = 0, js_num_e = 0, js_num_fraction = 0\<rparr>"

definition skip_bom :: "string \<Rightarrow> string" where
  "skip_bom s = (if take 3 s = [CHR 0xEF, CHR 0xBB, CHR 0xBF] then drop 3 s else s)"

definition parse_fuel :: "string \<Rightarrow> nat" where
  "parse_fuel s = 4 * length s + 8"

text \<open>The nodes and the root, \<open>None\<close> for a null pointer, as behind an error.\<close>

definition json_parse_ex :: "(int \<Rightarrow> 64 word) \<Rightarrow> bool \<Rightarrow> string \<Rightarrow> (json_value list \<times> nat) option outcome" where
  "json_parse_ex pow10 comments txt =
     (let s = skip_bom txt; failed = (\<lambda>(msg, st). then_do (json_e_failed st) (\<lambda>_. Ok None)) in
      then_do (json_pass (parse_fuel s) pow10 comments s (pass_start True [])) (\<lambda>r1. case r1 of
         Inl e \<Rightarrow> failed e
       | Inr st1 \<Rightarrow>
          then_do (json_pass (parse_fuel s) pow10 comments s (pass_start False (js_nodes st1))) (\<lambda>r2. case r2 of
             Inl e \<Rightarrow> failed e
           | Inr st2 \<Rightarrow> (case js_root st2 of None \<Rightarrow> Ok None | Some r \<Rightarrow> Ok (Some (js_nodes st2, r))))))"

definition json_parse :: "(int \<Rightarrow> 64 word) \<Rightarrow> string \<Rightarrow> (json_value list \<times> nat) option outcome" where
  "json_parse pow10 txt = json_parse_ex pow10 False txt"

subsection \<open>Values from nodes\<close>

text \<open>The fuel is the depth of the nodes. A node outside of the list is a wild pointer.\<close>

fun srs_json_parse_tree :: "nat \<Rightarrow> json_value list \<Rightarrow> nat \<Rightarrow> json option outcome"
  and tree_object :: "nat \<Rightarrow> json_value list \<Rightarrow> (string \<times> nat) list \<Rightarrow> json_props \<Rightarrow> json option outcome"
  and tree_array :: "nat \<Rightarrow> json_value list \<Rightarrow> (string \<times> nat) list \<Rightarrow> json list \<Rightarrow> json option outcome" where
  "srs_json_parse_tree 0 nodes i = Panic OutOfFuel"
| "srs_json_parse_tree (Suc fuel) nodes i =
     (if length nodes \<le> i then Panic UndefinedBehaviour
      else let v = nodes ! i in
       (case jv_type v of
          json_null \<Rightarrow> Ok (Some JsonNull)
        | json_string \<Rightarrow> Ok (Some (json_str_len (Some (jv_chars v)) (jv_length v)))
        | json_integer \<Rightarrow> Ok (Some (JsonInteger (word_of_int (jv_integer v))))
        | json_double \<Rightarrow> Ok (Some (JsonNumber (jv_dbl v)))
        | json_boolean \<Rightarrow> Ok (Some (JsonBoolean (jv_boolean v)))
        | json_object \<Rightarrow> tree_object fuel nodes (take (jv_length v) (jv_elems v)) []
        | json_array \<Rightarrow> tree_array fuel nodes (take (jv_length v) (jv_elems v)) []
        | json_none \<Rightarrow> Ok None))"
| "tree_object fuel nodes [] ps = Ok (Some (JsonObject ps))"
| "tree_object fuel nodes ((name, i) # es) ps =
     then_do (srs_json_parse_tree fuel nodes i) (\<lambda>j. case j of
        None \<Rightarrow> Ok None
      | Some value \<Rightarrow> tree_object fuel nodes es (json_set name (Some value) ps))"
| "tree_array fuel nodes [] vs = Ok (Some (JsonArray vs))"
| "tree_array fuel nodes ((name, i) # es) vs =
     then_do (srs_json_parse_tree fuel nodes i) (\<lambda>j. case j of
        None \<Rightarrow> Ok None
      | Some value \<Rightarrow> tree_array fuel nodes es (json_arr_add value vs))"

subsection \<open>The value of a text\<close>

text \<open>The value is made, then the nodes are given back.\<close>

definition json_loads :: "(int \<Rightarrow> 64 word) \<Rightarrow> string \<Rightarrow> json option outcome" where
  "json_loads pow10 str =
     (if str = [] then Ok None
      else then_do (json_parse pow10 str) (\<lambda>r. case r of
         None \<Rightarrow> Ok None
       | Some (nodes, root) \<Rightarrow>
          then_do (srs_json_parse_tree (length nodes + 1) nodes root) (\<lambda>sj.
          then_do (json_value_free nodes root) (\<lambda>_. Ok sj))))"

end
