(* ===== verification/JsonGrammar.thy ===== *)
theory JsonGrammar
  imports JsonParse
begin

section \<open>The language of the JSON parser\<close>

text \<open>
  A reference for the parser: a recursive descent over the text that is left, without flags, passes or
  nodes. It says which texts the parser takes, where it is more liberal than JSON, and what value each
  text has. A parse ends with the value and the rest of the text, with \<open>None\<close> for a syntax error, or
  with the panic of an overflowing number.
\<close>

type_synonym 'a parse = "('a \<times> string) option outcome"

definition parsed :: "'a \<Rightarrow> string \<Rightarrow> 'a parse" where
  "parsed x rest = Ok (Some (x, rest))"

definition no_parse :: "'a parse" where
  "no_parse = Ok None"

definition then_parse :: "'a parse \<Rightarrow> ('a \<Rightarrow> string \<Rightarrow> 'b parse) \<Rightarrow> 'b parse" where
  "then_parse r f = then_do r (\<lambda>x. case x of None \<Rightarrow> no_parse | Some (y, rest) \<Rightarrow> f y rest)"

text \<open>Whether the next character is of a kind.\<close>

fun looking :: "(char \<Rightarrow> bool) \<Rightarrow> string \<Rightarrow> bool" where
  "looking P [] = False"
| "looking P (c # cs) = P c"

definition skip_space :: "string \<Rightarrow> string" where
  "skip_space cs = dropWhile is_space cs"

subsection \<open>Trees\<close>

text \<open>What a text says; the number before a double is what its digits before the point are.\<close>

datatype jtree =
    TreeNull
  | TreeBool bool
  | TreeInt int
  | TreeDbl int "64 word"
  | TreeStr string
  | TreeArr "jtree list"
  | TreeObj "(string \<times> jtree) list"

subsection \<open>Strings\<close>

text \<open>Four hexadecimal digits.\<close>

fun hex4 :: "string \<Rightarrow> (nat \<times> string) option" where
  "hex4 (a # b # c # d # rest) =
     (if 0xFF \<in> {hex_value a, hex_value b, hex_value c, hex_value d} then None
      else Some (((hex_value a * 16 + hex_value b) * 16 + hex_value c) * 16 + hex_value d, rest))"
| "hex4 _ = None"

lemma hex4_shorter: "hex4 cs = Some (n, rest) \<Longrightarrow> length rest < length cs"
  by (cases cs rule: hex4.cases) (auto split: if_splits)

text \<open>What is behind \<^verbatim>\<open>\u\<close>: a character, or the two halves of one.\<close>

definition unicode :: "string \<Rightarrow> (string \<times> string) option" where
  "unicode cs = (case hex4 cs of
      None \<Rightarrow> None
    | Some (n, rest) \<Rightarrow>
       (let u = word_of_nat n :: 32 word in
        if u AND 0xF800 \<noteq> 0xD800 then Some (utf8_chars u, rest)
        else if take 2 rest \<noteq> [CHR 0x5C, CHR ''u''] then None
        else (case hex4 (drop 2 rest) of
           None \<Rightarrow> None
         | Some (n2, rest2) \<Rightarrow> Some (utf8_chars (surrogates u (word_of_nat n2)), rest2))))"

lemma unicode_shorter: "unicode cs = Some (u, rest) \<Longrightarrow> length rest < length cs"
  by (auto simp: unicode_def Let_def split: option.splits if_splits dest!: hex4_shorter)

definition unescape :: "char \<Rightarrow> char" where
  "unescape e = (if e = CHR ''b'' then CHR 0x08 else if e = CHR ''f'' then CHR 0x0C
     else if e = CHR ''n'' then CHR 0x0A else if e = CHR ''r'' then CHR 0x0D
     else if e = CHR ''t'' then CHR 0x09 else e)"

definition put_front :: "string \<Rightarrow> (string \<times> string) option \<Rightarrow> (string \<times> string) option" where
  "put_front u r = (case r of None \<Rightarrow> None | Some (str, rest) \<Rightarrow> Some (u @ str, rest))"

text \<open>A string behind its opening quote: its characters, and the rest behind the closing one.\<close>

function string_body :: "string \<Rightarrow> (string \<times> string) option" where
  "string_body cs = (case cs of
      [] \<Rightarrow> None
    | c # cs \<Rightarrow>
       if c = CHR 0x00 then None
       else if c = CHR 0x22 then Some ([], cs)
       else if c \<noteq> CHR 0x5C then put_front [c] (string_body cs)
       else (case cs of
          [] \<Rightarrow> None
        | e # cs \<Rightarrow>
           if e = CHR 0x00 then None
           else if e \<noteq> CHR ''u'' then put_front [unescape e] (string_body cs)
           else (case unicode cs of
              None \<Rightarrow> None
            | Some (u, cs) \<Rightarrow> put_front u (string_body cs))))"
  by pat_completeness auto

termination string_body
  by (relation "measure length") (auto dest: unicode_shorter)

declare string_body.simps [simp del]

subsection \<open>Numbers\<close>

text \<open>Digits put behind those of \<open>n\<close>, and how many there are with those before.\<close>

fun digits :: "int \<Rightarrow> int \<Rightarrow> string \<Rightarrow> (int \<times> int \<times> string) outcome" where
  "digits n k [] = Ok (n, k, [])"
| "digits n k (c # cs) =
     (if is_digit c then then_do (shift_in n c) (\<lambda>n. digits n (k + 1) cs) else Ok (n, k, c # cs))"

text \<open>No character that may be in a number follows a number.\<close>

definition number_rest :: "jtree \<Rightarrow> string \<Rightarrow> jtree parse" where
  "number_rest t rest = (if looking is_num_char rest then no_parse else parsed t rest)"

definition signed_dbl :: "bool \<Rightarrow> 64 word \<Rightarrow> 64 word" where
  "signed_dbl neg d = (if neg then dbl_uminus d else d)"

definition exponent :: "(int \<Rightarrow> 64 word) \<Rightarrow> bool \<Rightarrow> int \<Rightarrow> 64 word \<Rightarrow> string \<Rightarrow> jtree parse" where
  "exponent pow10 neg n d cs =
     (let eneg = looking (\<lambda>c. c = CHR ''-'') cs;
          cs = (if looking (\<lambda>c. c = CHR ''+'' \<or> c = CHR ''-'') cs then tl cs else cs) in
      then_do (digits 0 0 cs) (\<lambda>(e, k, rest).
      if k = 0 then no_parse
      else number_rest (TreeDbl n (signed_dbl neg (dbl_mult d (pow10 (if eneg then - e else e))))) rest))"

definition is_e :: "char \<Rightarrow> bool" where
  "is_e c \<longleftrightarrow> c = CHR ''e'' \<or> c = CHR ''E''"

definition fraction :: "(int \<Rightarrow> 64 word) \<Rightarrow> bool \<Rightarrow> int \<Rightarrow> string \<Rightarrow> jtree parse" where
  "fraction pow10 neg n cs =
     then_do (digits 0 0 cs) (\<lambda>(f, k, rest).
     let d = dbl_plus (dbl_of_int n) (dbl_divide (dbl_of_int f) (pow10 k)) in
     if k = 0 then no_parse
     else if looking is_e rest then exponent pow10 neg n d (tl rest)
     else number_rest (TreeDbl n (signed_dbl neg d)) rest)"

text \<open>A number behind its sign, which may be all there is: it may have no digits when no point follows.\<close>

definition zero_led :: "string \<Rightarrow> bool" where
  "zero_led cs \<longleftrightarrow> looking (\<lambda>c. c = CHR ''0'') cs \<and> looking is_digit (tl cs)"

definition unsigned_number :: "(int \<Rightarrow> 64 word) \<Rightarrow> bool \<Rightarrow> string \<Rightarrow> jtree parse" where
  "unsigned_number pow10 neg cs =
     (if zero_led cs then no_parse
      else then_do (digits 0 0 cs) (\<lambda>(n, k, rest).
        if looking (\<lambda>c. c = CHR ''.'') rest then
          (if k = 0 then no_parse else fraction pow10 neg n (tl rest))
        else if looking is_e rest then exponent pow10 neg n (dbl_of_int n) (tl rest)
        else number_rest (TreeInt (if neg then - n else n)) rest))"

subsection \<open>Values\<close>

definition word_tree :: "string \<Rightarrow> jtree \<Rightarrow> string \<Rightarrow> jtree parse" where
  "word_tree w t cs = (if take (length w) cs = w then parsed t (drop (length w) cs) else no_parse)"

definition string_tree :: "string \<Rightarrow> jtree parse" where
  "string_tree cs = (case string_body cs of None \<Rightarrow> no_parse | Some (str, rest) \<Rightarrow> parsed (TreeStr str) rest)"

text \<open>
  A value, the entries of an array behind \<^verbatim>\<open>[\<close> and those of an object behind \<^verbatim>\<open>{\<close>, with fuel. The
  flag of the entries says that one was before: a comma must follow, or the end, which may follow a comma
  too.
\<close>

fun value_tree :: "(int \<Rightarrow> 64 word) \<Rightarrow> nat \<Rightarrow> string \<Rightarrow> jtree parse"
  and elems_tree :: "(int \<Rightarrow> 64 word) \<Rightarrow> nat \<Rightarrow> bool \<Rightarrow> string \<Rightarrow> jtree list parse"
  and members_tree :: "(int \<Rightarrow> 64 word) \<Rightarrow> nat \<Rightarrow> bool \<Rightarrow> string \<Rightarrow> (string \<times> jtree) list parse" where
  "value_tree pow10 0 cs = Panic OutOfFuel"
| "value_tree pow10 (Suc n) cs = (case skip_space cs of
      [] \<Rightarrow> no_parse
    | c # cs \<Rightarrow>
       if c = CHR ''{'' then then_parse (members_tree pow10 n False cs) (\<lambda>ms. parsed (TreeObj ms))
       else if c = CHR ''['' then then_parse (elems_tree pow10 n False cs) (\<lambda>ts. parsed (TreeArr ts))
       else if c = CHR 0x22 then string_tree cs
       else if c = CHR ''t'' then word_tree ''rue'' (TreeBool True) cs
       else if c = CHR ''f'' then word_tree ''alse'' (TreeBool False) cs
       else if c = CHR ''n'' then word_tree ''ull'' TreeNull cs
       else if c = CHR ''-'' then unsigned_number pow10 True cs
       else if is_digit c then unsigned_number pow10 False (c # cs)
       else no_parse)"
| "elems_tree pow10 0 comma cs = Panic OutOfFuel"
| "elems_tree pow10 (Suc n) comma cs = (case skip_space cs of
      [] \<Rightarrow> no_parse
    | c # cs \<Rightarrow>
       if c = CHR '']'' then parsed [] cs
       else if comma then (if c = CHR '','' then elems_tree pow10 n False cs else no_parse)
       else then_parse (value_tree pow10 n (c # cs)) (\<lambda>t rest.
            then_parse (elems_tree pow10 n True rest) (\<lambda>ts. parsed (t # ts))))"
| "members_tree pow10 0 comma cs = Panic OutOfFuel"
| "members_tree pow10 (Suc n) comma cs = (case skip_space cs of
      [] \<Rightarrow> no_parse
    | c # cs \<Rightarrow>
       if c = CHR ''}'' then parsed [] cs
       else if c = CHR '','' \<and> comma then members_tree pow10 n False cs
       else if c \<noteq> CHR 0x22 \<or> comma then no_parse
       else (case string_body cs of
          None \<Rightarrow> no_parse
        | Some (key, rest) \<Rightarrow>
           if \<not> looking (\<lambda>c. c = CHR '':'') (skip_space rest) then no_parse
           else then_parse (value_tree pow10 n (tl (skip_space rest))) (\<lambda>t rest.
                then_parse (members_tree pow10 n True rest) (\<lambda>ms. parsed ((key, t) # ms)))))"

text \<open>A text: behind the value there is space, then the end or a NUL.\<close>

definition text_tree :: "(int \<Rightarrow> 64 word) \<Rightarrow> string \<Rightarrow> jtree option outcome" where
  "text_tree pow10 cs = then_do (value_tree pow10 (2 * length cs + 1) cs) (\<lambda>r. case r of
      None \<Rightarrow> Ok None
    | Some (t, rest) \<Rightarrow> Ok (if looking (\<lambda>c. c \<noteq> CHR 0x00) (skip_space rest) then None else Some t))"

text \<open>The value of a tree: of members with the same name the last one counts, at its place.\<close>

fun tree_value :: "jtree \<Rightarrow> json"
  and members_value :: "(string \<times> jtree) list \<Rightarrow> json_props \<Rightarrow> json_props" where
  "tree_value TreeNull = JsonNull"
| "tree_value (TreeBool b) = JsonBoolean b"
| "tree_value (TreeInt n) = JsonInteger (word_of_int n)"
| "tree_value (TreeDbl n d) = JsonNumber d"
| "tree_value (TreeStr str) = JsonString str"
| "tree_value (TreeArr ts) = JsonArray (map tree_value ts)"
| "tree_value (TreeObj ms) = JsonObject (members_value ms [])"
| "members_value [] ps = ps"
| "members_value ((key, t) # ms) ps = members_value ms (json_set key (Some (tree_value t)) ps)"

definition text_value :: "(int \<Rightarrow> 64 word) \<Rightarrow> string \<Rightarrow> json option outcome" where
  "text_value pow10 txt =
     (if txt = [] then Ok None
      else map_outcome (map_option tree_value) (text_tree pow10 (skip_bom txt)))"

end
