(* ===== verification/JsonRun.thy ===== *)
theory JsonRun
  imports JsonGrammar "HOL-Library.Sublist"
begin

section \<open>Runs of the JSON parser\<close>

text \<open>
  How the loop of the parser gets over the parts of a text: space, strings, numbers, and the end of a
  value. A run is a number of steps bounded by three for each character that it gets over, so that the
  fuel of a pass is enough for it. The statements are about both passes, except for those on errors,
  which the first pass finds, and on the digits of numbers, which the second one skips.
\<close>

subsection \<open>Steps\<close>

text \<open>A pass without comments, up to the message of an error.\<close>

definition json_run :: "nat \<Rightarrow> (int \<Rightarrow> 64 word) \<Rightarrow> string \<Rightarrow> json_state \<Rightarrow> json_state option outcome" where
  "json_run n pow10 s st = map_outcome (case_sum (\<lambda>_. None) Some) (json_pass n pow10 False s st)"

lemma json_run_step [simp]:
  "json_run (Suc n) pow10 s st = then_do (json_step pow10 False s st) (\<lambda>r. case r of
      Go st \<Rightarrow> json_run n pow10 s st | Fall st \<Rightarrow> json_run n pow10 s st
    | Finished st \<Rightarrow> Ok (Some st) | Fails msg st \<Rightarrow> Ok None)"
  by (cases "json_step pow10 False s st") (simp_all add: json_run_def split: flow.split)

definition runs :: "(int \<Rightarrow> 64 word) \<Rightarrow> string \<Rightarrow> nat \<Rightarrow> json_state \<Rightarrow> json_state \<Rightarrow> bool" where
  "runs pow10 s n st st' \<longleftrightarrow> (\<forall>m. json_run (n + m) pow10 s st = json_run m pow10 s st')"

definition ends :: "(int \<Rightarrow> 64 word) \<Rightarrow> string \<Rightarrow> nat \<Rightarrow> json_state \<Rightarrow> json_state option outcome \<Rightarrow> bool" where
  "ends pow10 s n st r \<longleftrightarrow> (\<forall>m. json_run (n + m) pow10 s st = r)"

definition reaches :: "(int \<Rightarrow> 64 word) \<Rightarrow> string \<Rightarrow> json_state \<Rightarrow> (json_state \<Rightarrow> bool) \<Rightarrow> bool" where
  "reaches pow10 s st P \<longleftrightarrow>
     (\<exists>n st'. runs pow10 s n st st' \<and> n + 3 * (length s - js_p st') \<le> 3 * (length s - js_p st) \<and> P st')"

definition stops :: "(int \<Rightarrow> 64 word) \<Rightarrow> string \<Rightarrow> json_state \<Rightarrow> json_state option outcome \<Rightarrow> bool" where
  "stops pow10 s st r \<longleftrightarrow> (\<exists>n. ends pow10 s n st r \<and> n \<le> 3 * (length s - js_p st) + 1)"

lemma runs_refl: "runs pow10 s 0 st st"
  by (simp add: runs_def)

lemma runs_trans: "runs pow10 s n st st' \<Longrightarrow> runs pow10 s m st' st'' \<Longrightarrow> runs pow10 s (n + m) st st''"
  by (simp add: runs_def add.assoc)

lemma runs_ends: "runs pow10 s n st st' \<Longrightarrow> ends pow10 s m st' r \<Longrightarrow> ends pow10 s (n + m) st r"
  by (simp add: runs_def ends_def add.assoc)

lemma runs_step: "json_step pow10 False s st = Ok (Go st') \<Longrightarrow> runs pow10 s 1 st st'"
  by (simp add: runs_def)

lemma runs_Suc: "json_step pow10 False s st = Ok (Go st') \<Longrightarrow> runs pow10 s n st' st'' \<Longrightarrow> runs pow10 s (Suc n) st st''"
  by (simp add: runs_def)

lemma ends_Suc: "json_step pow10 False s st = Ok (Go st') \<Longrightarrow> ends pow10 s n st' r \<Longrightarrow> ends pow10 s (Suc n) st r"
  by (simp add: ends_def)

lemma ends_fails: "json_step pow10 False s st = Ok (Fails msg ft) \<Longrightarrow> ends pow10 s 1 st (Ok None)"
  by (simp add: ends_def)

lemma ends_panics: "json_step pow10 False s st = Panic q \<Longrightarrow> ends pow10 s 1 st (Panic q)"
  by (simp add: ends_def)

lemma reaches_refl: "P st \<Longrightarrow> reaches pow10 s st P"
  unfolding reaches_def by (rule exI [of _ 0], rule exI [of _ st]) (simp add: runs_refl)

lemma reaches_step:
  assumes "json_step pow10 False s st = Ok (Go st')" and "js_p st < js_p st'" and "js_p st' \<le> length s" and "P st'"
  shows "reaches pow10 s st P"
  unfolding reaches_def using runs_step [OF assms(1)] assms(2-4)
  by (intro exI [of _ 1] exI [of _ st']) auto

lemma reaches_trans:
  assumes "reaches pow10 s st P" and "\<And>st'. P st' \<Longrightarrow> reaches pow10 s st' Q"
  shows "reaches pow10 s st Q"
proof -
  obtain n st' where 1: "runs pow10 s n st st'" "n + 3 * (length s - js_p st') \<le> 3 * (length s - js_p st)" "P st'"
    using assms(1) by (auto simp: reaches_def)
  obtain m st'' where 2: "runs pow10 s m st' st''" "m + 3 * (length s - js_p st'') \<le> 3 * (length s - js_p st')" "Q st''"
    using assms(2) [OF 1(3)] by (auto simp: reaches_def)
  show ?thesis unfolding reaches_def using runs_trans [OF 1(1) 2(1)] 1(2) 2(2,3)
    by (intro exI [of _ "n + m"] exI [of _ st'']) simp
qed

lemma reaches_mono: "reaches pow10 s st P \<Longrightarrow> (\<And>st'. P st' \<Longrightarrow> Q st') \<Longrightarrow> reaches pow10 s st Q"
  by (auto simp: reaches_def)

lemma stops_fails: "json_step pow10 False s st = Ok (Fails msg ft) \<Longrightarrow> stops pow10 s st (Ok None)"
  unfolding stops_def using ends_fails by (intro exI [of _ 1]) auto

lemma stops_panics: "json_step pow10 False s st = Panic q \<Longrightarrow> stops pow10 s st (Panic q)"
  unfolding stops_def using ends_panics by (intro exI [of _ 1]) auto

lemma reaches_stops:
  assumes "reaches pow10 s st P" and "\<And>st'. P st' \<Longrightarrow> stops pow10 s st' r"
  shows "stops pow10 s st r"
proof -
  obtain n st' where 1: "runs pow10 s n st st'" "n + 3 * (length s - js_p st') \<le> 3 * (length s - js_p st)" "P st'"
    using assms(1) by (auto simp: reaches_def)
  obtain m where 2: "ends pow10 s m st' r" "m \<le> 3 * (length s - js_p st') + 1"
    using assms(2) [OF 1(3)] by (auto simp: stops_def)
  show ?thesis unfolding stops_def using runs_ends [OF 1(1) 2(1)] 1(2) 2(2)
    by (intro exI [of _ "n + m"]) simp
qed

lemma and_then_simps [simp]:
  "and_then (Ok (Go st)) f = Ok (Go st)" "and_then (Ok (Fall st)) f = f st"
  "and_then (Ok (Finished st)) f = Ok (Finished st)" "and_then (Ok (Fails msg ft)) f = Ok (Fails msg ft)"
  "and_then (Panic q) f = Panic q"
  by (simp_all add: and_then_def)

lemmas flow_defs = go_def fall_def fails_def continue_def

subsection \<open>Places\<close>

text \<open>The position before the rest \<open>cs\<close> of the text.\<close>

definition pos :: "string \<Rightarrow> string \<Rightarrow> nat" where
  "pos s cs = length s - length cs"

lemma pos_le [simp]: "pos s cs \<le> length s"
  by (simp add: pos_def)

lemma suffix_tail: "suffix (c # cs) s \<Longrightarrow> suffix cs s"
  by (metis suffix_ConsI suffix_order.trans suffix_order.refl)

lemma pos_Cons: "suffix (c # cs) s \<Longrightarrow> Suc (pos s (c # cs)) = pos s cs"
  by (auto simp: pos_def dest!: suffix_length_le)

lemma pos_append: "suffix (u @ cs) s \<Longrightarrow> pos s (u @ cs) + length u = pos s cs"
  by (auto simp: pos_def dest!: suffix_length_le)

lemma suffix_append_right: "suffix (u @ cs) s \<Longrightarrow> suffix cs s"
  by (rule suffix_order.trans [OF suffix_appendI [OF suffix_order.refl]])

lemma pos_less: "suffix (c # cs) s \<Longrightarrow> pos s (c # cs) < length s"
  by (auto simp: pos_def dest!: suffix_length_le)

lemma pos_less_Cons: "suffix (c # cs) s \<Longrightarrow> pos s (c # cs) < pos s cs"
  using pos_Cons [of c cs s] by simp

lemma json_read_pos:
  "suffix cs s \<Longrightarrow> json_read s (pos s cs) = Ok (case cs of [] \<Rightarrow> CHR 0x00 | c # _ \<Rightarrow> c)"
  by (auto simp: json_read_def pos_def suffix_def nth_append split: list.split)

text \<open>The flags apart from those of numbers, which keep what they had at the end of a number.\<close>

definition core :: "json_flags \<Rightarrow> json_flags" where
  "core f = f\<lparr>fl_num_negative := False, fl_num_zero := False, fl_num_e := False, fl_num_e_got_sign := False,
     fl_num_e_negative := False\<rparr>"

lemma core_iff: "core f = core g \<longleftrightarrow> fl_next f = fl_next g \<and> fl_reproc f = fl_reproc g \<and>
    fl_need_comma f = fl_need_comma g \<and> fl_seek_value f = fl_seek_value g \<and> fl_escaped f = fl_escaped g \<and>
    fl_string f = fl_string g \<and> fl_need_colon f = fl_need_colon g \<and> fl_done f = fl_done g \<and>
    fl_line_comment f = fl_line_comment g \<and> fl_block_comment f = fl_block_comment g"
  by (cases f; cases g) (auto simp: core_def)

text \<open>
  A place: the pass, the flags, the top and the nodes, how many nodes are made or taken, and the rest of
  the text.
\<close>

definition place :: "string \<Rightarrow> bool \<Rightarrow> json_flags \<Rightarrow> nat option \<Rightarrow> json_value list \<Rightarrow> nat \<Rightarrow> string \<Rightarrow> json_state \<Rightarrow> bool" where
  "place s first f tp vs a cs st \<longleftrightarrow> js_first st = first \<and> core (js_flags st) = core f \<and> js_top st = tp \<and>
     js_root st = (if a = 0 then None else Some 0) \<and> js_nodes st = vs \<and> js_alloc st = a \<and>
     suffix cs s \<and> js_p st = pos s cs"

definition seek :: "bool \<Rightarrow> json_flags" where
  "seek comma = no_flags\<lparr>fl_seek_value := True, fl_need_comma := comma\<rparr>"

definition seek_colon :: json_flags where
  "seek_colon = no_flags\<lparr>fl_seek_value := True, fl_need_colon := True\<rparr>"

definition members :: "bool \<Rightarrow> json_flags" where
  "members comma = no_flags\<lparr>fl_need_comma := comma\<rparr>"

definition whole :: json_flags where
  "whole = no_flags\<lparr>fl_done := True, fl_need_comma := True\<rparr>"

definition in_quotes :: "bool \<Rightarrow> json_flags" where
  "in_quotes escaped = no_flags\<lparr>fl_string := True, fl_escaped := escaped\<rparr>"

lemmas flag_defs = seek_def seek_colon_def members_def whole_def in_quotes_def no_flags_def

lemma placeI:
  assumes "place s first f tp vs a cs st" and "js_first st' = js_first st" and "core (js_flags st') = core f'"
    and "js_top st' = js_top st" and "js_root st' = js_root st" and "js_nodes st' = js_nodes st"
    and "js_alloc st' = js_alloc st" and "suffix cs' s" and "js_p st' = pos s cs'"
  shows "place s first f' tp vs a cs' st'"
  using assms by (simp add: place_def)

lemma place_char:
  "place s first f tp vs a cs st \<Longrightarrow> json_read s (js_p st) = Ok (case cs of [] \<Rightarrow> CHR 0x00 | c # _ \<Rightarrow> c)"
  by (simp add: place_def json_read_pos)

lemma placeD:
  assumes "place s first f tp vs a cs st"
  shows "js_first st = first" "js_top st = tp" "js_nodes st = vs" "js_alloc st = a" "suffix cs s" "js_p st = pos s cs"
    and "fl_next (js_flags st) = fl_next f" "fl_reproc (js_flags st) = fl_reproc f"
    "fl_need_comma (js_flags st) = fl_need_comma f" "fl_seek_value (js_flags st) = fl_seek_value f"
    "fl_escaped (js_flags st) = fl_escaped f" "fl_string (js_flags st) = fl_string f"
    "fl_need_colon (js_flags st) = fl_need_colon f" "fl_done (js_flags st) = fl_done f"
    "fl_line_comment (js_flags st) = fl_line_comment f" "fl_block_comment (js_flags st) = fl_block_comment f"
    and "js_root st = (if a = 0 then None else Some 0)"
  using assms by (simp_all add: place_def core_iff)

lemma with_flags_fields [simp]:
  "js_first (with_flags f st) = js_first st" "js_p (with_flags f st) = js_p st"
  "js_flags (with_flags f st) = f (js_flags st)" "js_top (with_flags f st) = js_top st"
  "js_root (with_flags f st) = js_root st" "js_alloc (with_flags f st) = js_alloc st"
  "js_nodes (with_flags f st) = js_nodes st" "js_string (with_flags f st) = js_string st"
  "js_room (with_flags f st) = js_room st" "js_string_length (with_flags f st) = js_string_length st"
  "js_num_digits (with_flags f st) = js_num_digits st" "js_num_e (with_flags f st) = js_num_e st"
  "js_num_fraction (with_flags f st) = js_num_fraction st"
  by (simp_all add: with_flags_def)

lemma set_node_fields [simp]:
  "js_first (set_node i v st) = js_first st" "js_p (set_node i v st) = js_p st"
  "js_flags (set_node i v st) = js_flags st" "js_top (set_node i v st) = js_top st"
  "js_root (set_node i v st) = js_root st" "js_alloc (set_node i v st) = js_alloc st"
  "js_nodes (set_node i v st) = (js_nodes st)[i := v]" "js_string (set_node i v st) = js_string st"
  "js_room (set_node i v st) = js_room st" "js_string_length (set_node i v st) = js_string_length st"
  "js_num_digits (set_node i v st) = js_num_digits st" "js_num_e (set_node i v st) = js_num_e st"
  "js_num_fraction (set_node i v st) = js_num_fraction st"
  by (simp_all add: set_node_def)

lemma on_top_nodes: "js_top st = Some i \<Longrightarrow> i < length (js_nodes st) \<Longrightarrow> on_top f st = f i (js_nodes st ! i) st"
  by (simp add: on_top_def node_at_def)

definition next_char :: "string \<Rightarrow> char" where
  "next_char cs = (case cs of [] \<Rightarrow> CHR 0x00 | c # _ \<Rightarrow> c)"

lemma next_char_simps [simp]: "next_char [] = CHR 0x00" "next_char (c # cs) = c"
  by (simp_all add: next_char_def)

text \<open>A step by its stages: in a string, behind the value, before a value, in an object or a number.\<close>

lemma json_step_place:
  assumes "place s first f tp vs a cs st"
  shows "json_step pow10 False s st =
    and_then (if fl_string f then and_then (step_string s (next_char cs) st) (step_rest pow10 False s (next_char cs))
              else step_rest pow10 False s (next_char cs) st) step_finish"
  using assms place_char [OF assms] by (simp add: json_step_def placeD next_char_def fall_def)

lemma step_rest_plain:
  "step_rest pow10 False s b st =
    (if fl_done (js_flags st) then
       (if b = CHR 0x00 then Ok (Finished st)
        else if is_space b then continue st
        else fails ''%d:%d: Trailing garbage: `%c`'' st)
     else if fl_seek_value (js_flags st) then step_seek s b st
     else step_top pow10 b st)"
  by (simp add: step_rest_def fall_def)

subsection \<open>Space\<close>

definition at_space :: "json_flags \<Rightarrow> nat option \<Rightarrow> json_value list \<Rightarrow> bool" where
  "at_space f tp vs \<longleftrightarrow> \<not> fl_string f \<and>
     (fl_done f \<or> fl_seek_value f \<or> (\<exists>i. tp = Some i \<and> i < length vs \<and> jv_type (vs ! i) = json_object))"

lemma is_space_NUL [simp]: "\<not> is_space (CHR 0x00)"
  by (simp add: is_space_def)

lemma skip_space_reaches:
  "place s first f tp vs a cs st \<Longrightarrow> at_space f tp vs \<Longrightarrow> reaches pow10 s st (place s first f tp vs a (skip_space cs))"
proof (induction cs arbitrary: st)
  case Nil
  then show ?case by (simp add: skip_space_def reaches_refl)
next
  case (Cons c cs)
  show ?case
  proof (cases "is_space c")
    case True
    let ?st = "st\<lparr>js_p := js_p st + 1\<rparr>"
    note p = placeD [OF Cons.prems(1)]
    have "json_step pow10 False s st = Ok (Go ?st)"
      using True Cons.prems(2) by (auto simp: json_step_place [OF Cons.prems(1)] at_space_def step_rest_plain p
          step_seek_def step_top_def step_object_def on_top_nodes flow_defs)
    moreover have next_place: "place s first f tp vs a cs ?st"
      using Cons.prems(1) p by (auto intro!: placeI simp: pos_Cons suffix_tail place_def)
    ultimately have "reaches pow10 s st (place s first f tp vs a cs)"
      using p(5,6) by (intro reaches_step [of pow10 s st ?st]) (auto simp: pos_Cons pos_less_Cons)
    then show ?thesis using True Cons.IH [OF _ Cons.prems(2)]
      by (auto simp: skip_space_def elim: reaches_trans)
  qed (use Cons in \<open>simp add: skip_space_def reaches_refl\<close>)
qed

subsection \<open>Strings\<close>

text \<open>A place in a string, with what was stored of it and the room there is.\<close>

definition quoted :: "string \<Rightarrow> bool \<Rightarrow> bool \<Rightarrow> nat option \<Rightarrow> json_value list \<Rightarrow> nat \<Rightarrow> nat \<Rightarrow> string \<Rightarrow> nat \<Rightarrow>
    string \<Rightarrow> json_state \<Rightarrow> bool" where
  "quoted s esc first tp vs a n str room cs st \<longleftrightarrow> place s first (in_quotes esc) tp vs a cs st \<and>
     js_string_length st = n \<and> js_string st = str \<and> js_room st = room"

lemma hex_run_hex4:
  assumes "suffix cs s"
  shows "hex_run s 4 (pos s cs) 0 = Ok (map_option fst (hex4 cs))"
proof -
  have four: "(4::nat) = Suc (Suc (Suc (Suc 0)))" by simp
  have tails: "suffix (drop n cs) s" for n by (meson assms suffix_drop suffix_order.trans)
  show ?thesis unfolding four using tails [of 0] tails [of 1] tails [of 2] tails [of 3]
    by (cases cs rule: hex4.cases) (auto simp: json_read_pos pos_Cons)
qed

lemma word_at_pos:
  "suffix cs s \<Longrightarrow> CHR 0x00 \<notin> set w \<Longrightarrow> word_at s (pos s cs) w = Ok (take (length w) cs = w)"
proof (induction w arbitrary: cs)
  case (Cons c w)
  then show ?case by (cases cs) (auto simp: json_read_pos pos_Cons suffix_tail)
qed simp

lemma quotedD:
  assumes "quoted s esc first tp vs a n str room cs st"
  shows "place s first (in_quotes esc) tp vs a cs st" "js_string_length st = n" "js_string st = str" "js_room st = room"
  using assms by (simp_all add: quoted_def)

lemma in_quotes_simps [simp]:
  "fl_string (in_quotes esc)" "fl_escaped (in_quotes esc) = esc" "\<not> fl_done (in_quotes esc)"
  "\<not> fl_seek_value (in_quotes esc)" "\<not> fl_need_comma (in_quotes esc)" "\<not> fl_need_colon (in_quotes esc)"
  "\<not> fl_next (in_quotes esc)" "\<not> fl_reproc (in_quotes esc)" "\<not> fl_line_comment (in_quotes esc)"
  "\<not> fl_block_comment (in_quotes esc)"
  by (simp_all add: flag_defs)

text \<open>Characters are stored, and the loop goes on before \<open>cs\<close>.\<close>

lemma added_place:
  assumes "quoted s esc first tp vs a n str room cs0 st" and "first \<or> n + length u \<le> room" and "suffix cs s"
    and "js_p st1 + 1 = pos s cs" and "core (js_flags st1) = core (in_quotes False)"
    and "st1 = st\<lparr>js_p := js_p st1, js_flags := js_flags st1\<rparr>"
  shows "\<exists>st'. add_and_continue u st1 = Ok (Go st') \<and> js_p st' = pos s cs \<and>
    quoted s False first tp vs a (n + length u) (if first then str else str @ u) room cs st'"
proof -
  note q = quotedD [OF assms(1)] and p = placeD [OF quotedD(1) [OF assms(1)]]
  have same: "js_first st1 = first" "js_string_length st1 = n" "js_string st1 = str" "js_room st1 = room"
    "js_top st1 = tp" "js_root st1 = (if a = 0 then None else Some 0)" "js_nodes st1 = vs" "js_alloc st1 = a"
    by (subst assms(6), simp add: q p)+
  then have "quoted s False first tp vs a (n + length u) (if first then str else str @ u) room cs
      (st1\<lparr>js_string_length := n + length u, js_string := (if first then str else str @ u), js_p := js_p st1 + 1\<rparr>)"
    using assms(3-5) by (simp add: quoted_def place_def)
  with same assms(2,4) show ?thesis
    by (auto simp: add_and_continue_def string_adds_def Let_def flow_defs)
qed

lemma quoted_step:
  assumes "quoted s esc first tp vs a n str room (c # cs) st" and "c \<noteq> CHR 0x00" and "n \<le> json_uint_max"
  shows "json_step pow10 False s st = and_then (and_then
    (if esc then step_escaped s c st
     else if c = CHR 0x5C then continue (with_flags (fl_escaped_update (\<lambda>_. True)) st)
     else if c = CHR 0x22 then close_string st
     else add_and_continue [c] st) (step_rest pow10 False s c)) step_finish"
  using assms quotedD [OF assms(1)] placeD [OF quotedD(1) [OF assms(1)]]
  by (simp add: json_step_place [OF quotedD(1) [OF assms(1)]] step_string_def)

lemma quoted_stops:
  assumes "quoted s esc first tp vs a n str room cs st" and "next_char cs = CHR 0x00"
  shows "stops pow10 s st (Ok None)"
  using assms quotedD [OF assms(1)] placeD [OF quotedD(1) [OF assms(1)]]
  by (intro stops_fails) (simp add: json_step_place [OF quotedD(1) [OF assms(1)]] step_string_def flow_defs)

lemma char_reaches:
  assumes "quoted s False first tp vs a n str room (c # cs) st" and "c \<noteq> CHR 0x00" and "n \<le> json_uint_max"
    and "c \<noteq> CHR 0x22" and "c \<noteq> CHR 0x5C" and "first \<or> n + 1 \<le> room"
  shows "reaches pow10 s st (quoted s False first tp vs a (n + 1) (if first then str else str @ [c]) room cs)"
proof -
  note p = placeD [OF quotedD(1) [OF assms(1)]]
  have "core (js_flags st) = core (in_quotes False)" using quotedD(1) [OF assms(1)] by (simp add: place_def)
  then obtain st' where "add_and_continue [c] st = Ok (Go st')" "js_p st' = pos s cs"
    "quoted s False first tp vs a (n + 1) (if first then str else str @ [c]) room cs st'"
    using added_place [OF assms(1), of "[c]" cs st] assms(6) p by (auto simp: suffix_tail pos_Cons)
  with p assms(2-5) show ?thesis
    by (intro reaches_step [of pow10 s st st']) (auto simp: quoted_step [OF assms(1-3)] pos_less_Cons)
qed

lemma backslash_reaches:
  assumes "quoted s False first tp vs a n str room (CHR 0x5C # cs) st" and "n \<le> json_uint_max"
  shows "reaches pow10 s st (quoted s True first tp vs a n str room cs)"
proof -
  note q = quotedD [OF assms(1)] and p = placeD [OF quotedD(1) [OF assms(1)]]
  let ?st = "(with_flags (fl_escaped_update (\<lambda>_. True)) st)\<lparr>js_p := js_p st + 1\<rparr>"
  have "json_step pow10 False s st = Ok (Go ?st)"
    using assms(2) by (simp add: quoted_step [OF assms(1)] continue_def go_def)
  moreover have "quoted s True first tp vs a n str room cs ?st"
    using q p by (auto simp: quoted_def place_def core_iff suffix_tail pos_Cons)
  ultimately show ?thesis using p by (intro reaches_step [of pow10 s st ?st]) (auto simp: pos_Cons pos_less_Cons)
qed

text \<open>The step at an escaped character.\<close>

lemma escaped_reaches:
  assumes "quoted s True first tp vs a n str room (e # cs) st" and "e \<noteq> CHR 0x00" and "n \<le> json_uint_max"
    and "e \<noteq> CHR ''u''" and "first \<or> n + 1 \<le> room"
  shows "reaches pow10 s st (quoted s False first tp vs a (n + 1) (if first then str else str @ [unescape e]) room cs)"
proof -
  note p = placeD [OF quotedD(1) [OF assms(1)]]
  let ?st = "with_flags (fl_escaped_update (\<lambda>_. False)) st"
  have esc: "step_escaped s e st = add_and_continue [unescape e] ?st"
    using assms(4) by (simp add: step_escaped_def unescape_def Let_def)
  have "core (js_flags ?st) = core (in_quotes False)"
    using p by (simp add: core_iff)
  then obtain st' where "add_and_continue [unescape e] ?st = Ok (Go st')" "js_p st' = pos s cs"
    "quoted s False first tp vs a (n + 1) (if first then str else str @ [unescape e]) room cs st'"
    using added_place [OF assms(1), of "[unescape e]" cs ?st] assms(5) p
    by (auto simp: suffix_tail pos_Cons with_flags_def)
  with p esc show ?thesis
    by (intro reaches_step [of pow10 s st st']) (auto simp: quoted_step [OF assms(1-3)] pos_less_Cons)
qed

lemma hex4_length: "hex4 cs = Some (n, rest) \<Longrightarrow> length cs = length rest + 4"
  by (cases cs rule: hex4.cases) (auto split: if_splits)

lemma hex4_suffix: "hex4 cs = Some (n, rest) \<Longrightarrow> rest = drop 4 cs"
  by (cases cs rule: hex4.cases) (auto split: if_splits)

lemma length_utf8_chars [simp]: "length (utf8_chars u) \<le> 4"
  by (simp add: utf8_chars_def)

lemma utf8_fits: "x + 4 \<le> y \<Longrightarrow> length (utf8_chars w) + x \<le> y"
  using length_utf8_chars [of w] by linarith

lemma unicode_length: "unicode cs = Some (u, rest) \<Longrightarrow> length u + length rest \<le> length cs"
  by (auto simp: unicode_def Let_def split: option.splits if_splits dest!: hex4_length intro!: utf8_fits)

text \<open>The step at the \<^verbatim>\<open>u\<close> of an escape.\<close>

lemma take_drop_pos: "suffix cs s \<Longrightarrow> n \<le> length cs \<Longrightarrow> suffix (drop n cs) s \<and> pos s (drop n cs) = pos s cs + n"
  by (auto simp: pos_def dest: suffix_length_le intro: suffix_order.trans [OF suffix_drop])

lemma step_unicode_pair:
  assumes "js_p st = p" and "p + 10 \<le> length s" and "hex_run s 4 (p + 1) 0 = Ok (Some m)"
    and "(word_of_nat m :: 32 word) AND 0xF800 = 0xD800" and "word_at s (p + 5) [CHR 0x5C, CHR ''u''] = Ok True"
    and "hex_run s 4 (p + 7) 0 = Ok (Some m2)"
  shows "step_unicode s st =
    add_and_continue (utf8_chars (surrogates (word_of_nat m) (word_of_nat m2))) (st\<lparr>js_p := p + 10\<rparr>)"
proof -
  have e: "p + 4 + 1 = p + 5" "p + 4 + 3 = p + 7" "p + 4 + 6 = p + 10" by simp_all
  have l: "\<not> length s - p < 4" "\<not> length s - (p + 4) < 6" using assms(2) by simp_all
  have r: "js_p (st\<lparr>js_p := x\<rparr>) = x" "st\<lparr>js_p := x, js_p := y\<rparr> = st\<lparr>js_p := y\<rparr>" for x y by simp_all
  show ?thesis
    by (simp only: step_unicode_def step_surrogate_def Let_def assms e l r if_False if_True
        then_do.simps option.case not_True_eq_False simp_thms)
qed

lemma unicode_reaches:
  assumes "quoted s True first tp vs a n str room (CHR ''u'' # cs) st" and "n \<le> json_uint_max"
    and "unicode cs = Some (u, rest)" and "first \<or> n + length u \<le> room"
  shows "reaches pow10 s st (quoted s False first tp vs a (n + length u) (if first then str else str @ u) room rest)"
proof -
  note p = placeD [OF quotedD(1) [OF assms(1)]]
  have cs: "suffix cs s" "pos s (CHR ''u'' # cs) + 1 = pos s cs" using p by (auto simp: suffix_tail pos_Cons)
  let ?st = "with_flags (fl_escaped_update (\<lambda>_. False)) st"
  obtain m cs2 where m: "hex4 cs = Some (m, cs2)" using assms(3) by (auto simp: unicode_def split: option.splits)
  have cs2: "cs2 = drop 4 cs" "length cs = length cs2 + 4" using m by (auto dest: hex4_suffix hex4_length)
  then have cs2_pos: "suffix cs2 s" "pos s cs2 = pos s cs + 4" using take_drop_pos [OF cs(1), of 4] by auto
  have len: "length cs + pos s cs = length s" using suffix_length_le [OF cs(1)] by (simp add: pos_def)
  have run: "hex_run s 4 (js_p st + 1) 0 = Ok (Some m)"
    using hex_run_hex4 [OF cs(1)] m cs(2) p(6) by simp
  have "\<exists>st1. step_unicode s ?st = add_and_continue u st1 \<and> js_p st1 + 1 = pos s rest \<and> suffix rest s \<and>
      js_flags st1 = js_flags ?st \<and> st1 = st\<lparr>js_p := js_p st1, js_flags := js_flags st1\<rparr>"
  proof (cases "(word_of_nat m :: 32 word) AND 0xF800 = 0xD800")
    case False
    then have "step_unicode s ?st = add_and_continue u (?st\<lparr>js_p := js_p st + 4\<rparr>)" "rest = cs2"
      using run assms(3) m len cs2(2) cs(2) p(6) by (auto simp: step_unicode_def unicode_def Let_def)
    then show ?thesis using cs(2) cs2_pos p(6) by (intro exI [of _ "?st\<lparr>js_p := js_p st + 4\<rparr>"]) (simp add: with_flags_def)
  next
    case True
    with assms(3) m obtain m2 where m2: "take 2 cs2 = [CHR 0x5C, CHR ''u'']" "hex4 (drop 2 cs2) = Some (m2, rest)"
      "u = utf8_chars (surrogates (word_of_nat m) (word_of_nat m2))"
      by (auto simp: unicode_def Let_def split: option.splits if_splits)
    then have "length cs2 = length rest + 6" using hex4_length [OF m2(2)] by simp
    then have c3: "suffix (drop 2 cs2) s" "pos s (drop 2 cs2) = pos s cs2 + 2" "suffix rest s" "pos s rest = pos s cs2 + 6"
      using take_drop_pos [OF cs2_pos(1), of 2] take_drop_pos [OF cs2_pos(1), of 6] hex4_suffix [OF m2(2)] by auto
    have q: "pos s cs2 = js_p st + 5" "pos s (drop 2 cs2) = js_p st + 7" using cs(2) p(6) cs2_pos(2) c3(2) by simp_all
    have w: "word_at s (js_p st + 5) [CHR 0x5C, CHR ''u''] = Ok True" unfolding q(1) [symmetric]
      using word_at_pos [OF cs2_pos(1), of "[CHR 0x5C, CHR ''u'']"] m2(1)
      by (simp add: numeral_2_eq_2 del: word_at.simps)
    have h: "hex_run s 4 (js_p st + 7) 0 = Ok (Some m2)" unfolding q(2) [symmetric]
      using hex_run_hex4 [OF c3(1)] m2(2) by simp
    have l: "js_p st + 10 \<le> length s" using len cs2(2) \<open>length cs2 = length rest + 6\<close> cs(2) p(6) by simp
    have "step_unicode s ?st = add_and_continue u (?st\<lparr>js_p := js_p st + 10\<rparr>)"
      unfolding m2(3) by (rule step_unicode_pair [OF _ l run True w h]) simp
    then show ?thesis using cs(2) cs2_pos c3 p(6)
      by (intro exI [of _ "?st\<lparr>js_p := js_p st + 10\<rparr>"]) (simp add: with_flags_def)
  qed
  then obtain st1 where st1: "step_unicode s ?st = add_and_continue u st1" "js_p st1 + 1 = pos s rest" "suffix rest s"
    "js_flags st1 = js_flags ?st" "st1 = st\<lparr>js_p := js_p st1, js_flags := js_flags st1\<rparr>" by blast
  moreover have "core (js_flags ?st) = core (in_quotes False)" using p by (simp add: core_iff)
  ultimately obtain st' where st': "add_and_continue u st1 = Ok (Go st')" "js_p st' = pos s rest"
    "quoted s False first tp vs a (n + length u) (if first then str else str @ u) room rest st'"
    using added_place [OF assms(1,4) st1(3,2)] by auto
  moreover have "pos s (CHR ''u'' # cs) < pos s rest"
    using unicode_shorter [OF assms(3)] suffix_length_le [OF p(5)] by (simp add: pos_def)
  ultimately show ?thesis using p st1(1) assms(2)
    by (intro reaches_step [of pow10 s st st']) (simp_all add: quoted_step [OF assms(1)] step_escaped_def)
qed

lemma step_unicode_bad:
  assumes "suffix cs s" and "pos s cs = js_p st + 1" and "js_p st < length s" and "unicode cs = None"
  shows "\<exists>msg ft. step_unicode s st = Ok (Fails msg ft)"
proof (cases "hex4 cs")
  case None
  with hex_run_hex4 [OF assms(1)] assms(2) show ?thesis
    by (auto simp: step_unicode_def bad_unicode_def fails_def)
next
  case (Some m)
  then obtain k cs2 where m: "hex4 cs = Some (k, cs2)" by (cases m) auto
  have cs2: "cs2 = drop 4 cs" "length cs = length cs2 + 4" using m by (auto dest: hex4_suffix hex4_length)
  then have cs2_pos: "suffix cs2 s" "pos s cs2 = js_p st + 5"
    using take_drop_pos [OF assms(1), of 4] assms(2) by auto
  have run: "hex_run s 4 (js_p st + 1) 0 = Ok (Some k)" using hex_run_hex4 [OF assms(1)] m assms(2) by simp
  let ?st = "st\<lparr>js_p := js_p st + 4\<rparr>" and ?u = "word_of_nat k :: 32 word"
  have u: "?u AND 0xF800 = 0xD800" using assms(4) m by (auto simp: unicode_def Let_def split: if_splits)
  have w: "word_at s (js_p st + 5) [CHR 0x5C, CHR ''u''] = Ok (take 2 cs2 = [CHR 0x5C, CHR ''u''])"
    unfolding cs2_pos(2) [symmetric] using word_at_pos [OF cs2_pos(1), of "[CHR 0x5C, CHR ''u'']"]
    by (simp add: numeral_2_eq_2 del: word_at.simps)
  have h: "hex_run s 4 (js_p st + 7) 0 = Ok None" if "take 2 cs2 = [CHR 0x5C, CHR ''u'']"
  proof -
    have "hex4 (drop 2 cs2) = None" using assms(4) m u that by (auto simp: unicode_def Let_def split: option.splits)
    moreover have "2 \<le> length cs2" using arg_cong [OF that, of length] by simp
    then have "suffix (drop 2 cs2) s" "pos s (drop 2 cs2) = js_p st + 7"
      using take_drop_pos [OF cs2_pos(1), of 2] cs2_pos(2) by auto
    ultimately show ?thesis using hex_run_hex4 [of "drop 2 cs2" s] by simp
  qed
  have e: "js_p ?st + 1 = js_p st + 5" "js_p ?st + 3 = js_p st + 7" by simp_all
  have "\<exists>msg ft. step_surrogate s ?u ?st = Ok (Fails msg ft)"
    unfolding step_surrogate_def e w using h
    by (cases "take 2 cs2 = [CHR 0x5C, CHR ''u'']") (simp_all add: bad_unicode_def fails_def)
  moreover have "step_unicode s st = (if length s - js_p st < 4 then bad_unicode st else step_surrogate s ?u ?st)"
    using run u by (simp add: step_unicode_def Let_def)
  ultimately show ?thesis by (simp add: bad_unicode_def fails_def)
qed

lemma unicode_stops:
  assumes "quoted s True first tp vs a n str room (CHR ''u'' # cs) st" and "n \<le> json_uint_max" and "unicode cs = None"
  shows "stops pow10 s st (Ok None)"
proof -
  note p = placeD [OF quotedD(1) [OF assms(1)]]
  have "\<exists>msg ft. step_unicode s (with_flags (fl_escaped_update (\<lambda>_. False)) st) = Ok (Fails msg ft)"
    using p assms(3) by (intro step_unicode_bad [of cs]) (auto simp: suffix_tail pos_Cons pos_less)
  then obtain msg ft where "step_unicode s (with_flags (fl_escaped_update (\<lambda>_. False)) st) = Ok (Fails msg ft)" by blast
  then have "json_step pow10 False s st = Ok (Fails msg ft)"
    using assms(2) by (simp add: quoted_step [OF assms(1)] step_escaped_def)
  then show ?thesis by (rule stops_fails)
qed

text \<open>What a string can begin with.\<close>

lemma string_shape:
  obtains (finish) "next_char cs = CHR 0x00" "string_body cs = None"
    | (quote) ds where "cs = CHR 0x22 # ds" "string_body cs = Some ([], ds)"
    | (plain) c ds where "cs = c # ds" "c \<noteq> CHR 0x00" "c \<noteq> CHR 0x22" "c \<noteq> CHR 0x5C"
        "string_body cs = put_front [c] (string_body ds)"
    | (escape_end) ds where "cs = CHR 0x5C # ds" "next_char ds = CHR 0x00" "string_body cs = None"
    | (escape) e ds where "cs = CHR 0x5C # e # ds" "e \<noteq> CHR 0x00" "e \<noteq> CHR ''u''"
        "string_body cs = put_front [unescape e] (string_body ds)"
    | (bad_unicode) ds where "cs = CHR 0x5C # CHR ''u'' # ds" "unicode ds = None" "string_body cs = None"
    | (unicode) ds u es where "cs = CHR 0x5C # CHR ''u'' # ds" "unicode ds = Some (u, es)"
        "string_body cs = put_front u (string_body es)"
proof (cases cs)
  case Nil
  then show ?thesis using finish by (simp add: string_body.simps)
next
  case (Cons c ds)
  consider "c = CHR 0x00" | "c = CHR 0x22" | "c \<noteq> CHR 0x00" "c \<noteq> CHR 0x22" "c \<noteq> CHR 0x5C" | "c = CHR 0x5C" by blast
  then show ?thesis
  proof cases
    case 4
    show ?thesis
    proof (cases ds)
      case Nil
      then show ?thesis using 4 Cons escape_end [of "[]"] by (simp add: string_body.simps)
    next
      case (Cons e es)
      consider "e = CHR 0x00" | "e \<noteq> CHR 0x00" "e \<noteq> CHR ''u''" | "e = CHR ''u''" by blast
      then show ?thesis
      proof cases
        case 1
        then show ?thesis using 4 Cons \<open>cs = c # ds\<close> escape_end [of ds]
          by (simp add: string_body.simps [of "CHR 0x5C # CHR 0x00 # es"])
      next
        case 2
        then show ?thesis using 4 Cons \<open>cs = c # ds\<close> escape [of e es]
          by (simp add: string_body.simps [of "CHR 0x5C # e # es"])
      next
        case 3
        then show ?thesis using 4 Cons \<open>cs = c # ds\<close> bad_unicode [of es] unicode [of es]
          by (cases "unicode es") (auto simp: string_body.simps [of "CHR 0x5C # CHR ''u'' # es"])
      qed
    qed
  qed (use Cons finish quote plain in \<open>auto simp: string_body.simps [of "c # ds"]
      string_body.simps [of "CHR 0x00 # ds"] string_body.simps [of "CHR 0x22 # ds"]\<close>)
qed

lemma put_front_None [simp]: "put_front u r = None \<longleftrightarrow> r = None" "None = put_front u r \<longleftrightarrow> r = None"
  by (auto simp: put_front_def split: option.splits)

lemma put_front_Some: "put_front u r = Some (v, rest) \<longleftrightarrow> (\<exists>w. r = Some (w, rest) \<and> v = u @ w)"
  by (auto simp: put_front_def split: option.splits)

lemma string_body_length: "string_body cs = Some (u, rest) \<Longrightarrow> length u + length rest < length cs"
proof (induction cs arbitrary: u rest rule: length_induct)
  case (1 cs)
  have IH: "string_body ds = Some (v, r) \<Longrightarrow> length ds < length cs \<Longrightarrow> length v + length r < length ds" for ds v r
    using "1.IH" by blast
  show ?case
  proof (cases cs rule: string_shape)
    case (unicode ds v es)
    then have "length v + length es \<le> length ds" by (simp add: unicode_length)
    then show ?thesis using unicode "1.prems" by (auto simp: put_front_Some dest!: IH)
  qed (use "1.prems" in \<open>auto simp: put_front_Some dest!: IH\<close>)
qed

text \<open>A string up to its closing quote.\<close>

text \<open>A whole escape.\<close>

lemma escape_taken:
  assumes "quoted s False first tp vs a n str room (CHR 0x5C # e # cs) st" and "e \<noteq> CHR 0x00" and "n \<le> json_uint_max"
    and "e \<noteq> CHR ''u''" and "first \<or> n + 1 \<le> room"
  shows "reaches pow10 s st (quoted s False first tp vs a (n + 1) (if first then str else str @ [unescape e]) room cs)"
  by (rule reaches_trans [OF backslash_reaches [OF assms(1,3)]]) (rule escaped_reaches [OF _ assms(2-5)])

lemma unicode_taken:
  assumes "quoted s False first tp vs a n str room (CHR 0x5C # CHR ''u'' # cs) st" and "n \<le> json_uint_max"
    and "unicode cs = Some (u, rest)" and "first \<or> n + length u \<le> room"
  shows "reaches pow10 s st (quoted s False first tp vs a (n + length u) (if first then str else str @ u) room rest)"
  by (rule reaches_trans [OF backslash_reaches [OF assms(1,2)]]) (rule unicode_reaches [OF _ assms(2-4)])

lemma string_reaches:
  assumes "quoted s False first tp vs a n str room cs st" and "n + length cs \<le> json_uint_max"
    and "string_body cs = Some (u, rest)" and "first \<or> n + length u \<le> room"
  shows "reaches pow10 s st (quoted s False first tp vs a (n + length u) (if first then str else str @ u) room (CHR 0x22 # rest))"
  using assms
proof (induction cs arbitrary: st n str u rule: length_induct)
  case (1 cs)
  have more: "reaches pow10 s st (quoted s False first tp vs a (n + length u) (if first then str else str @ u) room (CHR 0x22 # rest))"
    if "length ds < length cs" "reaches pow10 s st (quoted s False first tp vs a (n + length w) (if first then str else str @ w) room ds)"
      "n + length w + length ds \<le> json_uint_max" "string_body ds = Some (v, rest)" "u = w @ v" for ds w v
  proof (rule reaches_trans [OF that(2)])
    fix st' assume "quoted s False first tp vs a (n + length w) (if first then str else str @ w) room ds st'"
    then have "reaches pow10 s st' (quoted s False first tp vs a (n + length w + length v)
        (if first then (if first then str else str @ w) else (if first then str else str @ w) @ v) room (CHR 0x22 # rest))"
      by (rule "1.IH" [rule_format, OF that(1) _ that(3,4)]) (use that(5) "1.prems"(4) in auto)
    then show "reaches pow10 s st' (quoted s False first tp vs a (n + length u) (if first then str else str @ u) room (CHR 0x22 # rest))"
      by (simp add: that(5) add.assoc if_distrib cong: if_cong)
  qed
  show ?case
  proof (cases cs rule: string_shape)
    case (quote ds)
    with "1.prems" show ?thesis by (auto intro: reaches_refl)
  next
    case (plain c ds)
    then obtain v where v: "string_body ds = Some (v, rest)" "u = [c] @ v" using "1.prems"(3) by (auto simp: put_front_Some)
    have "reaches pow10 s st (quoted s False first tp vs a (n + 1) (if first then str else str @ [c]) room ds)"
      using "1.prems" plain v by (intro char_reaches) auto
    with plain v "1.prems"(2) show ?thesis by (intro more [of ds "[c]"]) auto
  next
    case (escape e ds)
    then obtain v where v: "string_body ds = Some (v, rest)" "u = [unescape e] @ v"
      using "1.prems"(3) by (auto simp: put_front_Some)
    have "reaches pow10 s st (quoted s False first tp vs a (n + 1) (if first then str else str @ [unescape e]) room ds)"
      using "1.prems" escape v by (intro escape_taken) auto
    with escape v "1.prems"(2) show ?thesis by (intro more [of ds "[unescape e]"]) auto
  next
    case (unicode ds w es)
    then obtain v where v: "string_body es = Some (v, rest)" "u = w @ v"
      using "1.prems"(3) by (auto simp: put_front_Some)
    have "length w + length es \<le> length ds" using unicode by (simp add: unicode_length)
    moreover have "reaches pow10 s st (quoted s False first tp vs a (n + length w) (if first then str else str @ w) room es)"
      using "1.prems" unicode v by (intro unicode_taken) auto
    ultimately show ?thesis using unicode v "1.prems"(2) by (intro more [of es w]) auto
  qed (use "1.prems" in simp_all)
qed

lemma string_stops:
  assumes "quoted s False True tp vs a n str room cs st" and "n + length cs \<le> json_uint_max" and "string_body cs = None"
  shows "stops pow10 s st (Ok None)"
  using assms
proof (induction cs arbitrary: st n rule: length_induct)
  case (1 cs)
  have more: "stops pow10 s st (Ok None)"
    if "length ds < length cs" "reaches pow10 s st (quoted s False True tp vs a (n + k) (if True then str else x) room ds)"
      "n + k + length ds \<le> json_uint_max" "string_body ds = None" for ds k x
    by (rule reaches_stops [OF that(2)]) (use "1.IH" that(1,3,4) in auto)
  show ?case
  proof (cases cs rule: string_shape)
    case finish
    with "1.prems" show ?thesis by (auto intro: quoted_stops)
  next
    case (plain c ds)
    have "reaches pow10 s st (quoted s False True tp vs a (n + 1) (if True then str else str @ [c]) room ds)"
      using "1.prems" plain by (intro char_reaches) auto
    then show ?thesis by (rule more [rotated]) (use "1.prems" plain in auto)
  next
    case (escape_end ds)
    have "reaches pow10 s st (quoted s True True tp vs a n str room ds)"
      using "1.prems" escape_end by (intro backslash_reaches) auto
    then show ?thesis by (rule reaches_stops) (use escape_end in \<open>auto intro: quoted_stops\<close>)
  next
    case (escape e ds)
    have "reaches pow10 s st (quoted s False True tp vs a (n + 1) (if True then str else str @ [unescape e]) room ds)"
      using "1.prems" escape by (intro escape_taken) auto
    then show ?thesis by (rule more [rotated]) (use "1.prems" escape in auto)
  next
    case (bad_unicode ds)
    have "reaches pow10 s st (quoted s True True tp vs a n str room (CHR ''u'' # ds))"
      using "1.prems" bad_unicode by (intro backslash_reaches) auto
    then show ?thesis by (rule reaches_stops) (use "1.prems" bad_unicode in \<open>auto intro: unicode_stops\<close>)
  next
    case (unicode ds w es)
    have len: "length w + length es \<le> length ds" using unicode by (simp add: unicode_length)
    have "reaches pow10 s st (quoted s False True tp vs a (n + length w) (if True then str else str @ w) room es)"
      using "1.prems" unicode by (intro unicode_taken) auto
    then show ?thesis by (rule more [rotated]) (use "1.prems" unicode len in auto)
  qed (use "1.prems" in simp_all)
qed

end
