(* ===== verification/JsonNodes.thy ===== *)
theory JsonNodes
  imports JsonRun
begin

section \<open>Nodes of the JSON parser\<close>

text \<open>
  Where the nodes of a tree are in the list of nodes and what is in them at the end of each pass, how a
  node is made or taken, and how the end of a value puts it into its parent.
\<close>

subsection \<open>Layout\<close>

fun kids :: "jtree \<Rightarrow> jtree list" where
  "kids (TreeArr ts) = ts"
| "kids (TreeObj ms) = map snd ms"
| "kids _ = []"

lemma size_snd: "size_list size (map snd ms) \<le> size_list (size_prod (\<lambda>_. 0) size) ms"
  by (induction ms) auto

lemma size_kids: "size_list size (kids t) \<le> size t"
  using size_snd by (cases t) (auto intro: le_SucI)

text \<open>The number of nodes of a tree, and the indices of trees that follow each other from \<open>i\<close> on.\<close>

function tsize :: "jtree \<Rightarrow> nat" and tsizes :: "jtree list \<Rightarrow> nat" where
  "tsize t = Suc (tsizes (kids t))"
| "tsizes [] = 0"
| "tsizes (t # ts) = tsize t + tsizes ts"
  by pat_completeness auto

termination
  by (relation "measure (\<lambda>x. case x of Inl t \<Rightarrow> 2 * size t + 1 | Inr ts \<Rightarrow> 2 * size_list size ts)")
    (auto simp: size_kids le_imp_less_Suc)

declare tsize.simps [simp del]

fun idxs :: "nat \<Rightarrow> jtree list \<Rightarrow> nat list" where
  "idxs i [] = []"
| "idxs i (t # ts) = i # idxs (i + tsize t) ts"

lemma length_idxs [simp]: "length (idxs i ts) = length ts"
  by (induction ts arbitrary: i) auto

definition names_length :: "(string \<times> jtree) list \<Rightarrow> nat" where
  "names_length ms = sum_list (map (\<lambda>(key, t). length key + 1) ms)"

lemma names_length_simps [simp]:
  "names_length [] = 0" "names_length ((key, t) # ms) = length key + 1 + names_length ms"
  by (simp_all add: names_length_def)

text \<open>The node of a tree at index \<open>i\<close> at the end of the first pass, and at the end of the second one.\<close>

fun tree_type :: "jtree \<Rightarrow> json_type" where
  "tree_type TreeNull = json_null"
| "tree_type (TreeBool b) = json_boolean"
| "tree_type (TreeInt n) = json_integer"
| "tree_type (TreeDbl n d) = json_double"
| "tree_type (TreeStr str) = json_string"
| "tree_type (TreeArr ts) = json_array"
| "tree_type (TreeObj ms) = json_object"

fun node_of :: "bool \<Rightarrow> nat option \<Rightarrow> nat \<Rightarrow> jtree \<Rightarrow> json_value" where
  "node_of first p i TreeNull = fresh_node p json_null"
| "node_of first p i (TreeBool b) = (fresh_node p json_boolean)\<lparr>jv_boolean := b\<rparr>"
| "node_of first p i (TreeInt n) = (fresh_node p json_integer)\<lparr>jv_integer := n\<rparr>"
| "node_of first p i (TreeDbl n d) = (fresh_node p json_double)\<lparr>jv_integer := n, jv_dbl := d\<rparr>"
| "node_of first p i (TreeStr str) = (fresh_node p json_string)\<lparr>jv_length := length str,
     jv_room := (if first then 0 else length str + 1), jv_chars := (if first then [] else str)\<rparr>"
| "node_of first p i (TreeArr ts) = (fresh_node p json_array)\<lparr>jv_length := length ts,
     jv_room := (if first then 0 else length ts),
     jv_elems := (if first then [] else map (\<lambda>j. ([], j)) (idxs (i + 1) ts))\<rparr>"
| "node_of first p i (TreeObj ms) = (fresh_node p json_object)\<lparr>jv_length := length ms,
     jv_names := (if first then names_length ms else 0), jv_room := (if first then 0 else length ms),
     jv_elems := (if first then [] else zip (map fst ms) (idxs (i + 1) (map snd ms)))\<rparr>"

function lay :: "bool \<Rightarrow> nat option \<Rightarrow> nat \<Rightarrow> jtree \<Rightarrow> json_value list"
  and lays :: "bool \<Rightarrow> nat option \<Rightarrow> nat \<Rightarrow> jtree list \<Rightarrow> json_value list" where
  "lay first p i t = node_of first p i t # lays first (Some i) (i + 1) (kids t)"
| "lays first p i [] = []"
| "lays first p i (t # ts) = lay first p i t @ lays first p (i + tsize t) ts"
  by pat_completeness auto

termination
  by (relation "measure (\<lambda>x. case x of Inl (_, _, _, t) \<Rightarrow> 2 * size t + 1 | Inr (_, _, _, ts) \<Rightarrow> 2 * size_list size ts)")
    (auto simp: size_kids le_imp_less_Suc)

declare lay.simps [simp del]

lemma length_lay [simp]: "length (lay first p i t) = tsize t" "length (lays first p i ts) = tsizes ts"
  by (induction first p i t and first p i ts rule: lay_lays.induct) (simp_all add: lay.simps tsize.simps)

lemma node_of_simps [simp]: "jv_parent (node_of first p i t) = p" "jv_type (node_of first p i t) = tree_type t"
  by (cases t; simp add: fresh_node_def)+

text \<open>What is there of trees before they are parsed: nothing in the first pass, in the second one the
  nodes of the first.\<close>

definition before :: "bool \<Rightarrow> json_value list \<Rightarrow> json_value list" where
  "before first vs = (if first then [] else vs)"

lemma before_simps [simp]:
  "before True vs = []" "before False vs = vs" "before first [] = []"
  "before first (vs @ us) = before first vs @ before first us"
  by (simp_all add: before_def)

text \<open>The node of a tree when its parse begins.\<close>

definition start_node :: "bool \<Rightarrow> nat option \<Rightarrow> nat \<Rightarrow> jtree \<Rightarrow> json_value" where
  "start_node first p i t = (if first then fresh_node p (if tree_type t = json_double then json_integer else tree_type t)
     else make_room (node_of True p i t))"

lemma start_node_simps [simp]:
  "jv_parent (start_node first p i t) = p"
  "jv_type (start_node False p i t) = tree_type t"
  "tree_type t \<noteq> json_double \<Longrightarrow> jv_type (start_node first p i t) = tree_type t"
  by (cases t; simp add: start_node_def make_room_def fresh_node_def)+

lemma new_value_place:
  assumes "place s first f tp (vs @ before first (node_of True tp (length vs) t # us) @ post) (length vs) cs st"
    and "first \<Longrightarrow> post = [] \<and> (if tree_type t = json_double then json_integer else tree_type t) = ty"
  shows "\<exists>st'. new_value ty st = Ok st' \<and>
    place s first f (Some (length vs)) (vs @ start_node first tp (length vs) t # before first us @ post) (length vs + 1) cs st' \<and>
    js_flags st' = js_flags st"
proof -
  note p = placeD [OF assms(1)]
  have root: "(if js_root st = None then Some (length vs) else js_root st) = Some 0" using p by auto
  show ?thesis
  proof (cases first)
    case True
    with assms p root show ?thesis
      by (auto simp: new_value_def Let_def place_def start_node_def)
  next
    case False
    with assms p root show ?thesis
      by (auto simp: new_value_def Let_def place_def start_node_def node_at_def set_node_def list_update_append)
  qed
qed

subsection \<open>The end of a value\<close>

definition after_flags :: "nat option \<Rightarrow> json_value list \<Rightarrow> json_flags" where
  "after_flags tp vs = (case tp of None \<Rightarrow> whole
    | Some k \<Rightarrow> if jv_type (vs ! k) = json_array then seek True else members True)"

definition child :: "bool \<Rightarrow> nat \<Rightarrow> json_value \<Rightarrow> json_value" where
  "child first i pv = (let v = pv\<lparr>jv_length := jv_length pv + 1\<rparr> in
     if first then v
     else if jv_type pv = json_object then v\<lparr>jv_elems := jv_elems pv @ [(the (jv_key pv), i)], jv_key := None\<rparr>
     else v\<lparr>jv_elems := jv_elems pv @ [([], i)]\<rparr>)"

definition put :: "bool \<Rightarrow> nat option \<Rightarrow> nat \<Rightarrow> json_value list \<Rightarrow> json_value list" where
  "put first tp i vs = (case tp of None \<Rightarrow> vs | Some k \<Rightarrow> vs[k := child first i (vs ! k)])"

text \<open>A parent that takes one more value, or none for the value of the text.\<close>

definition ready :: "bool \<Rightarrow> nat option \<Rightarrow> json_value list \<Rightarrow> bool" where
  "ready first tp vs \<longleftrightarrow> (case tp of None \<Rightarrow> vs = [] | Some k \<Rightarrow> k < length vs \<and>
     (jv_type (vs ! k) = json_object \<or> jv_type (vs ! k) = json_array) \<and> jv_length (vs ! k) < json_uint_max \<and>
     (first \<or> jv_length (vs ! k) < jv_room (vs ! k) \<and> (jv_type (vs ! k) = json_object \<longrightarrow> jv_key (vs ! k) \<noteq> None)))"

lemma length_put [simp]: "length (put first tp i vs) = length vs"
  by (simp add: put_def split: option.split)

lemma store_child:
  assumes "js_first st = first" and "first \<or> jv_length (vs ! k) < jv_room (vs ! k)"
    and "jv_type (vs ! k) = json_object \<and> (first \<or> jv_key (vs ! k) \<noteq> None) \<or> jv_type (vs ! k) = json_array"
  shows "\<exists>pv. store_in_parent i (vs ! k) st = Ok pv \<and> pv\<lparr>jv_length := jv_length pv + 1\<rparr> = child first i (vs ! k)"
  using assms by (cases first) (auto simp: store_in_parent_def child_def Let_def)

lemma finish_value:
  assumes "js_first st = first" and "core (js_flags st) = core (no_flags\<lparr>fl_next := True, fl_reproc := r\<rparr>)"
    and "js_top st = Some (length vs)" and "js_root st = Some 0" and "js_nodes st = vs @ ws" and "ws \<noteq> []"
    and "jv_parent (hd ws) = tp" and "js_alloc st = a" and "a \<noteq> 0" and "ready first tp vs"
    and "suffix cs s" and "js_p st + (if r then 0 else 1) = pos s cs"
  shows "\<exists>st'. step_finish st = Ok (Go st') \<and>
    place s first (after_flags tp vs) (Some (case tp of None \<Rightarrow> length vs | Some k \<Rightarrow> k)) (put first tp (length vs) vs @ ws) a cs st'"
proof -
  have flags: "fl_next (js_flags st)" "fl_reproc (js_flags st) = r" "\<not> fl_need_comma (js_flags st)"
    "\<not> fl_seek_value (js_flags st)" "\<not> fl_escaped (js_flags st)" "\<not> fl_string (js_flags st)"
    "\<not> fl_need_colon (js_flags st)" "\<not> fl_done (js_flags st)" "\<not> fl_line_comment (js_flags st)"
    "\<not> fl_block_comment (js_flags st)"
    using assms(2) by (simp_all add: core_iff no_flags_def)
  obtain w us where ws: "ws = w # us" using assms(6) by (cases ws) auto
  define st1 where "st1 = with_flags (\<lambda>f. f\<lparr>fl_next := False, fl_need_comma := True\<rparr>)
    (if r then with_flags (fl_reproc_update (\<lambda>_. False)) st else st\<lparr>js_p := js_p st + 1\<rparr>)"
  have fin: "step_finish st = value_done st1"
    using flags by (simp add: step_finish_def st1_def Let_def)
  have st1: "js_first st1 = first" "js_top st1 = Some (length vs)" "js_root st1 = Some 0" "js_nodes st1 = vs @ w # us"
    "js_alloc st1 = a" "js_p st1 = pos s cs" "core (js_flags st1) = core (members True)"
    using assms flags ws by (auto simp: st1_def core_iff flag_defs)
  show ?thesis
  proof (cases tp)
    case None
    with st1 assms(7) ws have "value_done st1 = Ok (Go (with_flags (fl_done_update (\<lambda>_. True)) st1))"
      by (simp add: value_done_def on_top_nodes go_def)
    moreover have "core (js_flags (with_flags (fl_done_update (\<lambda>_. True)) st1)) = core whole"
      using st1(7) by (simp add: core_iff flag_defs)
    ultimately show ?thesis using None fin st1 assms(9,11) ws
      by (auto simp: place_def after_flags_def put_def)
  next
    case (Some k)
    then have k: "k < length vs" "jv_type (vs ! k) = json_object \<or> jv_type (vs ! k) = json_array"
      "jv_length (vs ! k) < json_uint_max"
      "\<not> first \<Longrightarrow> jv_length (vs ! k) < jv_room (vs ! k)"
      "\<not> first \<Longrightarrow> jv_type (vs ! k) = json_object \<Longrightarrow> jv_key (vs ! k) \<noteq> None"
      using assms(10) by (auto simp: ready_def)
    let ?st = "if jv_type (vs ! k) = json_array then with_flags (fl_seek_value_update (\<lambda>_. True)) st1 else st1"
    let ?done = "(set_node k (child first (length vs) (vs ! k)) ?st)\<lparr>js_top := Some k\<rparr>"
    obtain pv where pv: "store_in_parent (length vs) (vs ! k) ?st = Ok pv"
      "pv\<lparr>jv_length := jv_length pv + 1\<rparr> = child first (length vs) (vs ! k)"
      using store_child [of ?st first vs k "length vs"] k(2,4,5) st1(1) by auto
    have "jv_length pv + 1 = jv_length (child first (length vs) (vs ! k))"
      using arg_cong [OF pv(2), of jv_length] by simp
    then have "jv_length pv + 1 \<le> json_uint_max"
      using k(3) by (simp add: child_def Let_def)
    then have "value_done st1 = Ok (Go ?done)"
      using st1(2,4) assms(7) ws k(1) Some pv
      by (simp add: value_done_def on_top_nodes node_at_def nth_append go_def Let_def del: One_nat_def)
    moreover have "core (js_flags ?done) = core (after_flags tp vs)"
      using st1(7) Some by (simp add: core_iff flag_defs after_flags_def)
    ultimately show ?thesis using Some fin st1 assms(9,11) ws k(1)
      by (auto simp: place_def put_def list_update_append)
  qed
qed

end
