(* ===== verification/JsonNumber.thy ===== *)
theory JsonNumber
  imports JsonNodes
begin

section \<open>Numbers in the JSON parser\<close>

text \<open>
  The first pass over a number, phase by phase: its digits, those behind the point, those of the
  exponent, and its end. In each phase a step takes one character.
\<close>

subsection \<open>Steps of one character\<close>

definition goes :: "(int \<Rightarrow> 64 word) \<Rightarrow> string \<Rightarrow> json_state \<Rightarrow> (json_state \<Rightarrow> bool) \<Rightarrow> bool" where
  "goes pow10 s st P \<longleftrightarrow> (\<exists>n st'. runs pow10 s n st st' \<and> js_p st' = js_p st + n \<and> P st')"

definition breaks :: "(int \<Rightarrow> 64 word) \<Rightarrow> string \<Rightarrow> json_state \<Rightarrow> json_state option outcome \<Rightarrow> bool" where
  "breaks pow10 s st r \<longleftrightarrow> (\<exists>n. ends pow10 s n st r \<and> n + js_p st \<le> length s + 2)"

lemma goes_refl: "P st \<Longrightarrow> goes pow10 s st P"
  unfolding goes_def by (rule exI [of _ 0], rule exI [of _ st]) (simp add: runs_refl)

lemma goes_step:
  assumes "json_step pow10 False s st = Ok (Go st')" and "js_p st' = js_p st + 1" and "goes pow10 s st' P"
  shows "goes pow10 s st P"
proof -
  obtain n st'' where "runs pow10 s n st' st''" "js_p st'' = js_p st' + n" "P st''"
    using assms(3) by (auto simp: goes_def)
  then show ?thesis unfolding goes_def using runs_Suc [OF assms(1)] assms(2)
    by (intro exI [of _ "Suc n"] exI [of _ st'']) simp
qed

lemma goes_trans:
  assumes "goes pow10 s st P" and "\<And>st'. P st' \<Longrightarrow> goes pow10 s st' Q"
  shows "goes pow10 s st Q"
proof -
  obtain n st' where 1: "runs pow10 s n st st'" "js_p st' = js_p st + n" "P st'"
    using assms(1) by (auto simp: goes_def)
  obtain m st'' where 2: "runs pow10 s m st' st''" "js_p st'' = js_p st' + m" "Q st''"
    using assms(2) [OF 1(3)] by (auto simp: goes_def)
  show ?thesis unfolding goes_def using runs_trans [OF 1(1) 2(1)] 1(2) 2(2,3)
    by (intro exI [of _ "n + m"] exI [of _ st'']) simp
qed

lemma goes_breaks:
  assumes "goes pow10 s st P" and "\<And>st'. P st' \<Longrightarrow> breaks pow10 s st' r"
  shows "breaks pow10 s st r"
proof -
  obtain n st' where 1: "runs pow10 s n st st'" "js_p st' = js_p st + n" "P st'"
    using assms(1) by (auto simp: goes_def)
  obtain m where 2: "ends pow10 s m st' r" "m + js_p st' \<le> length s + 2"
    using assms(2) [OF 1(3)] by (auto simp: breaks_def)
  show ?thesis unfolding breaks_def using runs_ends [OF 1(1) 2(1)] 1(2) 2(2)
    by (intro exI [of _ "n + m"]) simp
qed

lemma breaks_fails:
  "json_step pow10 False s st = Ok (Fails msg ft) \<Longrightarrow> js_p st \<le> length s \<Longrightarrow> breaks pow10 s st (Ok None)"
  unfolding breaks_def using ends_fails by (intro exI [of _ 1]) auto

lemma breaks_panics:
  "json_step pow10 False s st = Panic q \<Longrightarrow> js_p st \<le> length s \<Longrightarrow> breaks pow10 s st (Panic q)"
  unfolding breaks_def using ends_panics by (intro exI [of _ 1]) auto

lemma breaks_later:
  assumes "json_step pow10 False s st = Ok (Go st')" and "json_step pow10 False s st' = Ok (Fails msg ft)"
    and "js_p st \<le> length s"
  shows "breaks pow10 s st (Ok None)"
  unfolding breaks_def using ends_Suc [OF assms(1) ends_fails [OF assms(2)]] assms(3)
  by (intro exI [of _ "Suc 1"]) simp

text \<open>How a parse is followed by the pass: it goes to where the value is, or ends as the parse does.\<close>

definition follows :: "(int \<Rightarrow> 64 word) \<Rightarrow> string \<Rightarrow> json_state \<Rightarrow> 'a outcome \<Rightarrow> ('a \<Rightarrow> json_state \<Rightarrow> bool) \<Rightarrow> bool" where
  "follows pow10 s st r P \<longleftrightarrow> (case r of
      Ok x \<Rightarrow> goes pow10 s st (P x)
    | Panic q \<Rightarrow> breaks pow10 s st (Panic q)
    | Err e \<Rightarrow> False)"

lemma shift_in_cases: "(\<exists>m. shift_in n c = Ok m) \<or> shift_in n c = Panic IntOverflow"
  by (auto simp: shift_in_def i64_def)

lemma digits_follow:
  assumes step: "\<And>n k c cs st. is_digit c \<Longrightarrow> Q n k (c # cs) st \<Longrightarrow>
      js_p st < length s \<and> (case shift_in n c of
        Ok n' \<Rightarrow> \<exists>st'. json_step pow10 False s st = Ok (Go st') \<and> js_p st' = js_p st + 1 \<and> Q n' (k + 1) cs st'
      | Panic q \<Rightarrow> json_step pow10 False s st = Panic q
      | Err e \<Rightarrow> False)"
    and "Q n k cs st"
  shows "follows pow10 s st (digits n k cs) (\<lambda>(n, k, rest) st. Q n k rest st \<and> \<not> looking is_digit rest)"
  using assms(2)
proof (induction cs arbitrary: n k st)
  case Nil
  then show ?case by (simp add: follows_def goes_refl)
next
  case (Cons c cs)
  show ?case
  proof (cases "is_digit c")
    case True
    note st = step [OF True Cons.prems]
    show ?thesis
    proof (cases "shift_in n c")
      case (Ok m)
      with st obtain st' where st': "json_step pow10 False s st = Ok (Go st')" "js_p st' = js_p st + 1" "Q m (k + 1) cs st'"
        by auto
      have 1: "goes pow10 s st (\<lambda>x. x = st')" using st' by (intro goes_step [OF st'(1,2)] goes_refl) simp
      show ?thesis using Cons.IH [OF st'(3)] True Ok goes_trans [OF 1] goes_breaks [OF 1]
        by (auto simp: follows_def split: outcome.splits)
    qed (use st True in \<open>auto simp: follows_def intro!: breaks_panics\<close>)
  qed (use Cons.prems in \<open>simp add: follows_def goes_refl\<close>)
qed

lemma digits_count: "digits n k cs = Ok (m, j, rest) \<Longrightarrow> k \<le> j"
proof (induction cs arbitrary: n k)
  case (Cons c cs)
  then show ?case using shift_in_cases [of n c] by (fastforce split: if_splits)
qed simp

subsection \<open>Places in a number\<close>

definition num :: "string \<Rightarrow> json_value list \<Rightarrow> json_value \<Rightarrow> bool \<Rightarrow> bool \<Rightarrow> int \<Rightarrow> string \<Rightarrow> json_state \<Rightarrow> bool" where
  "num s vs v neg e k cs st \<longleftrightarrow> place s True no_flags (Some (length vs)) (vs @ [v]) (length vs + 1) cs st \<and>
     fl_num_negative (js_flags st) = neg \<and> fl_num_e (js_flags st) = e \<and> js_num_digits st = k"

lemma numD:
  assumes "num s vs v neg e k cs st"
  shows "js_first st" "js_top st = Some (length vs)" "js_nodes st = vs @ [v]" "suffix cs s" "js_p st = pos s cs"
    "js_root st = Some 0" "js_alloc st = length vs + 1" "core (js_flags st) = core no_flags"
    "fl_num_negative (js_flags st) = neg" "fl_num_e (js_flags st) = e" "js_num_digits st = k"
  using assms by (simp_all add: num_def place_def)

lemma num_step:
  assumes "num s vs v neg e k cs st" and "jv_type v = json_integer \<or> jv_type v = json_double"
  shows "json_step pow10 False s st = and_then (step_number pow10 (next_char cs) (length vs) v st) step_finish"
proof -
  have p: "place s True no_flags (Some (length vs)) (vs @ [v]) (length vs + 1) cs st" using assms(1) by (simp add: num_def)
  show ?thesis using assms(2) placeD [OF p]
    by (auto simp: json_step_place [OF p] step_rest_plain step_top_def on_top_nodes no_flags_def)
qed

text \<open>A state behind the next character, in the same number.\<close>

lemma num_next:
  assumes "num s vs v neg e k (c # cs) st" and "js_first st' = js_first st" and "js_top st' = js_top st"
    and "js_nodes st' = vs @ [v']" and "js_root st' = js_root st" and "js_alloc st' = js_alloc st"
    and "js_p st' = js_p st + 1" and "core (js_flags st') = core (js_flags st)"
    and "fl_num_negative (js_flags st') = neg" and "fl_num_e (js_flags st') = e'" and "js_num_digits st' = k'"
  shows "num s vs v' neg e' k' cs st'"
  using assms(2-) numD [OF assms(1)] by (auto simp: num_def place_def suffix_tail pos_Cons)

subsection \<open>The digits of each phase\<close>

definition zero_ok :: "bool \<Rightarrow> int \<Rightarrow> string \<Rightarrow> bool" where
  "zero_ok zero k cs \<longleftrightarrow> 0 \<le> k \<and> (zero \<longrightarrow> \<not> looking is_digit cs \<and> k \<noteq> 0) \<and> (k = 0 \<longrightarrow> \<not> zero_led cs)"

definition int_phase :: "string \<Rightarrow> json_value list \<Rightarrow> nat option \<Rightarrow> bool \<Rightarrow> int \<Rightarrow> int \<Rightarrow> string \<Rightarrow> json_state \<Rightarrow> bool" where
  "int_phase s vs tp neg n k cs st \<longleftrightarrow>
     num s vs ((fresh_node tp json_integer)\<lparr>jv_integer := n\<rparr>) neg False k cs st \<and>
     zero_ok (fl_num_zero (js_flags st)) k cs \<and> js_num_fraction st = 0 \<and> js_num_e st = 0 \<and>
     \<not> fl_num_e_got_sign (js_flags st) \<and> \<not> fl_num_e_negative (js_flags st)"

lemma int_phase_step:
  assumes "is_digit c" and "int_phase s vs tp neg n k (c # cs) st"
  shows "js_p st < length s \<and> (case shift_in n c of
      Ok n' \<Rightarrow> \<exists>st'. json_step pow10 False s st = Ok (Go st') \<and> js_p st' = js_p st + 1 \<and> int_phase s vs tp neg n' (k + 1) cs st'
    | Panic q \<Rightarrow> json_step pow10 False s st = Panic q
    | Err e \<Rightarrow> False)"
proof -
  let ?v = "(fresh_node tp json_integer)\<lparr>jv_integer := n\<rparr>"
  have num: "num s vs ?v neg False k (c # cs) st" using assms(2) by (simp add: int_phase_def)
  note d = numD [OF num]
  have z: "\<not> fl_num_zero (js_flags st)" "0 \<le> k" "k = 0 \<Longrightarrow> c = CHR ''0'' \<Longrightarrow> \<not> looking is_digit cs"
    using assms by (auto simp: int_phase_def zero_ok_def zero_led_def)
  have ty: "jv_type ?v = json_integer" "jv_integer ?v = n" by (simp_all add: fresh_node_def)
  let ?zero = "k + 1 = 1 \<and> c = CHR ''0''"
  let ?st = "if ?zero then with_flags (fl_num_zero_update (\<lambda>_. True)) (st\<lparr>js_num_digits := k + 1\<rparr>) else st\<lparr>js_num_digits := k + 1\<rparr>"
  have step: "json_step pow10 False s st = and_then (then_do (shift_in n c)
      (\<lambda>m. continue (set_node (length vs) (?v\<lparr>jv_integer := m\<rparr>) ?st))) step_finish"
    using num_step [OF num] ty assms(1) d(10,11) z(1) by (simp add: step_number_def step_digit_def Let_def)
  show ?thesis
  proof (cases "shift_in n c")
    case (Ok m)
    let ?st' = "(set_node (length vs) (?v\<lparr>jv_integer := m\<rparr>) ?st)\<lparr>js_p := js_p st + 1\<rparr>"
    have "json_step pow10 False s st = Ok (Go ?st')" using step Ok by (simp add: continue_def go_def)
    moreover have "num s vs ((fresh_node tp json_integer)\<lparr>jv_integer := m\<rparr>) neg False (k + 1) cs ?st'"
      using d by (intro num_next [OF num]) (auto simp: core_iff)
    then have "int_phase s vs tp neg m (k + 1) cs ?st'"
      using assms(2) z by (auto simp: int_phase_def zero_ok_def)
    ultimately show ?thesis using Ok d(4,5) by (auto simp: pos_less)
  qed (use step shift_in_cases [of n c] d(4,5) in \<open>auto simp: pos_less\<close>)
qed

definition frac_phase :: "string \<Rightarrow> json_value list \<Rightarrow> json_value \<Rightarrow> bool \<Rightarrow> int \<Rightarrow> int \<Rightarrow> string \<Rightarrow> json_state \<Rightarrow> bool" where
  "frac_phase s vs v neg n k cs st \<longleftrightarrow> num s vs v neg False k cs st \<and> js_num_fraction st = n \<and> js_num_e st = 0 \<and>
     \<not> fl_num_e_got_sign (js_flags st) \<and> \<not> fl_num_e_negative (js_flags st)"

lemma frac_phase_step:
  assumes "jv_type v = json_double" and "is_digit c" and "frac_phase s vs v neg n k (c # cs) st"
  shows "js_p st < length s \<and> (case shift_in n c of
      Ok n' \<Rightarrow> \<exists>st'. json_step pow10 False s st = Ok (Go st') \<and> js_p st' = js_p st + 1 \<and> frac_phase s vs v neg n' (k + 1) cs st'
    | Panic q \<Rightarrow> json_step pow10 False s st = Panic q
    | Err e \<Rightarrow> False)"
proof -
  have num: "num s vs v neg False k (c # cs) st" using assms(3) by (simp add: frac_phase_def)
  note d = numD [OF num]
  have step: "json_step pow10 False s st = and_then (then_do (shift_in n c)
      (\<lambda>m. continue (st\<lparr>js_num_digits := k + 1, js_num_fraction := m\<rparr>))) step_finish"
    using num_step [OF num] assms d(10,11) by (simp add: step_number_def step_digit_def Let_def frac_phase_def)
  show ?thesis
  proof (cases "shift_in n c")
    case (Ok m)
    let ?st' = "st\<lparr>js_num_digits := k + 1, js_num_fraction := m, js_p := js_p st + 1\<rparr>"
    have "json_step pow10 False s st = Ok (Go ?st')" using step Ok by (simp add: continue_def go_def)
    moreover have "num s vs v neg False (k + 1) cs ?st'"
      using d by (intro num_next [OF num]) auto
    then have "frac_phase s vs v neg m (k + 1) cs ?st'" using assms(3) by (auto simp: frac_phase_def)
    ultimately show ?thesis using Ok d(4,5) by (auto simp: pos_less)
  qed (use step shift_in_cases [of n c] d(4,5) in \<open>auto simp: pos_less\<close>)
qed

definition exp_phase :: "string \<Rightarrow> json_value list \<Rightarrow> json_value \<Rightarrow> bool \<Rightarrow> bool \<Rightarrow> int \<Rightarrow> int \<Rightarrow> string \<Rightarrow> json_state \<Rightarrow> bool" where
  "exp_phase s vs v neg eneg n k cs st \<longleftrightarrow> num s vs v neg True k cs st \<and> js_num_e st = n \<and>
     fl_num_e_negative (js_flags st) = eneg \<and> 0 \<le> k \<and>
     (k = 0 \<and> \<not> fl_num_e_got_sign (js_flags st) \<longrightarrow> \<not> looking (\<lambda>c. c = CHR ''+'' \<or> c = CHR ''-'') cs) \<and>
     (k \<noteq> 0 \<longrightarrow> fl_num_e_got_sign (js_flags st))"

lemma exp_phase_step:
  assumes "jv_type v = json_double" and "is_digit c" and "exp_phase s vs v neg eneg n k (c # cs) st"
  shows "js_p st < length s \<and> (case shift_in n c of
      Ok n' \<Rightarrow> \<exists>st'. json_step pow10 False s st = Ok (Go st') \<and> js_p st' = js_p st + 1 \<and> exp_phase s vs v neg eneg n' (k + 1) cs st'
    | Panic q \<Rightarrow> json_step pow10 False s st = Panic q
    | Err e \<Rightarrow> False)"
proof -
  have num: "num s vs v neg True k (c # cs) st" using assms(3) by (simp add: exp_phase_def)
  note d = numD [OF num]
  have step: "json_step pow10 False s st = and_then (then_do (shift_in n c)
      (\<lambda>m. continue (with_flags (fl_num_e_got_sign_update (\<lambda>_. True)) (st\<lparr>js_num_digits := k + 1, js_num_e := m\<rparr>)))) step_finish"
    using num_step [OF num] assms d(10,11) by (simp add: step_number_def step_digit_def Let_def exp_phase_def)
  show ?thesis
  proof (cases "shift_in n c")
    case (Ok m)
    let ?st' = "(with_flags (fl_num_e_got_sign_update (\<lambda>_. True)) (st\<lparr>js_num_digits := k + 1, js_num_e := m\<rparr>))\<lparr>js_p := js_p st + 1\<rparr>"
    have "json_step pow10 False s st = Ok (Go ?st')" using step Ok by (simp add: continue_def go_def)
    moreover have "num s vs v neg True (k + 1) cs ?st'"
      using d by (intro num_next [OF num]) (auto simp: core_iff)
    then have "exp_phase s vs v neg eneg m (k + 1) cs ?st'" using assms(3) by (auto simp: exp_phase_def)
    ultimately show ?thesis using Ok d(4,5) by (auto simp: pos_less)
  qed (use step shift_in_cases [of n c] d(4,5) in \<open>auto simp: pos_less\<close>)
qed

subsection \<open>The end of a number\<close>

definition value_top :: "nat option \<Rightarrow> nat \<Rightarrow> nat option" where
  "value_top tp i = Some (case tp of None \<Rightarrow> i | Some k \<Rightarrow> k)"

text \<open>The loop behind a value whose nodes are the given ones.\<close>

definition stored :: "string \<Rightarrow> bool \<Rightarrow> nat option \<Rightarrow> json_value list \<Rightarrow> json_value list \<Rightarrow> nat \<Rightarrow> string \<Rightarrow> json_state \<Rightarrow> bool" where
  "stored s first tp vs ws a cs st \<longleftrightarrow>
     place s first (after_flags tp vs) (value_top tp (length vs)) (put first tp (length vs) vs @ ws) a cs st"

text \<open>No character of a number follows a value.\<close>

lemma is_num_char_not: "is_num_char c \<Longrightarrow> c \<noteq> CHR 0x00 \<and> \<not> is_space c \<and> c \<notin> {CHR '']'', CHR ''}'', CHR '','', CHR 0x22}"
  by (auto simp: is_num_char_def is_digit_def is_space_def)

lemma stored_num_char:
  assumes "stored s first tp vs ws a (c # cs) st" and "ready first tp vs" and "is_num_char c"
  shows "\<exists>msg ft. json_step pow10 False s st = Ok (Fails msg ft)"
proof -
  have p: "place s first (after_flags tp vs) (value_top tp (length vs)) (put first tp (length vs) vs @ ws) a (c # cs) st"
    using assms(1) by (simp add: stored_def)
  note c = is_num_char_not [OF assms(3)]
  show ?thesis
  proof (cases tp)
    case None
    then show ?thesis using c placeD [OF p]
      by (simp add: json_step_place [OF p] step_rest_plain after_flags_def whole_def no_flags_def fails_def)
  next
    case (Some k)
    have k: "k < length vs" "jv_type (vs ! k) = json_object \<or> jv_type (vs ! k) = json_array"
      using assms(2) Some by (auto simp: ready_def)
    let ?ws = "put first tp (length vs) vs @ ws"
    have w: "jv_type (?ws ! k) = jv_type (vs ! k)" "k < length ?ws"
      using Some k(1) by (auto simp: put_def child_def Let_def nth_append)
    show ?thesis
    proof (cases "jv_type (vs ! k) = json_array")
      case True
      then show ?thesis using c placeD [OF p] Some
        by (simp add: json_step_place [OF p] step_rest_plain after_flags_def flag_defs fails_def step_seek_def)
    next
      case False
      then have "step_top pow10 c st = step_object c k (?ws ! k) st"
        using k(2) w placeD [OF p] Some by (simp add: step_top_def on_top_nodes value_top_def)
      then show ?thesis using c placeD [OF p] Some False
        by (simp add: json_step_place [OF p] step_rest_plain after_flags_def flag_defs fails_def step_object_def)
    qed
  qed
qed

definition sign_node :: "bool \<Rightarrow> json_value \<Rightarrow> json_value" where
  "sign_node neg v = (if \<not> neg then v else if jv_type v = json_integer then v\<lparr>jv_integer := - jv_integer v\<rparr>
     else v\<lparr>jv_dbl := dbl_uminus (jv_dbl v)\<rparr>)"

lemma number_end_stored:
  assumes "num s vs v neg e k cs st" and "ready True tp vs" and "jv_parent w = tp"
  shows "\<exists>st'. and_then (number_end (length vs) w st) step_finish = Ok (Go st') \<and> js_p st' = js_p st \<and>
    stored s True tp vs [sign_node neg w] (length vs + 1) cs st'"
proof -
  note d = numD [OF assms(1)]
  let ?st = "with_flags (\<lambda>f. f\<lparr>fl_next := True, fl_reproc := True\<rparr>) (set_node (length vs) (sign_node neg w) st)"
  have "number_end (length vs) w st = Ok (Fall ?st)"
    using d(9) by (auto simp: number_end_def sign_node_def Let_def fall_def)
  moreover have "\<exists>st'. step_finish ?st = Ok (Go st') \<and> place s True (after_flags tp vs)
      (Some (case tp of None \<Rightarrow> length vs | Some k \<Rightarrow> k)) (put True tp (length vs) vs @ [sign_node neg w]) (length vs + 1) cs st'"
  proof (rule finish_value)
    show "core (js_flags ?st) = core (no_flags\<lparr>fl_next := True, fl_reproc := True\<rparr>)"
      using d(8) by (simp add: core_iff)
    show "js_p ?st + (if True then 0 else 1) = pos s cs" using d(5) by simp
  qed (use d assms(2,3) in \<open>simp_all add: sign_node_def\<close>)
  ultimately show ?thesis using d(5) by (auto simp: stored_def value_top_def place_def)
qed

definition number_result :: "(int \<Rightarrow> 64 word) \<Rightarrow> string \<Rightarrow> nat option \<Rightarrow> json_value list \<Rightarrow> json_state \<Rightarrow> jtree parse \<Rightarrow> bool" where
  "number_result pow10 s tp vs st r \<longleftrightarrow> (case r of
      Ok None \<Rightarrow> breaks pow10 s st (Ok None)
    | Ok (Some (t, rest)) \<Rightarrow> goes pow10 s st (\<lambda>st1. \<exists>st2. json_step pow10 False s st1 = Ok (Go st2) \<and> js_p st2 = js_p st1 \<and>
        stored s True tp vs [node_of True tp (length vs) t] (length vs + 1) rest st2)
    | Panic q \<Rightarrow> breaks pow10 s st (Panic q)
    | Err e \<Rightarrow> False)"

lemma number_result_goes:
  assumes "goes pow10 s st P" and "\<And>st'. P st' \<Longrightarrow> number_result pow10 s tp vs st' r"
  shows "number_result pow10 s tp vs st r"
proof (cases r)
  case (Ok x)
  with assms(2) goes_breaks [OF assms(1)] goes_trans [OF assms(1)] show ?thesis
    by (cases x) (auto simp: number_result_def)
next
  case (Panic q)
  with assms(2) goes_breaks [OF assms(1)] show ?thesis by (auto simp: number_result_def)
next
  case (Err e)
  with assms show ?thesis by (auto simp: number_result_def goes_def)
qed

lemma number_result_follows:
  assumes "follows pow10 s st r P" and "\<And>x st'. r = Ok x \<Longrightarrow> P x st' \<Longrightarrow> number_result pow10 s tp vs st' (f x)"
  shows "number_result pow10 s tp vs st (then_do r f)"
proof (cases r)
  case (Ok x)
  with assms have "goes pow10 s st (P x)" by (simp add: follows_def)
  with assms(2) [OF Ok] Ok show ?thesis by (auto intro: number_result_goes)
qed (use assms(1) in \<open>auto simp: follows_def number_result_def\<close>)

lemma number_result_step:
  assumes "json_step pow10 False s st = Ok (Go st')" and "js_p st' = js_p st + 1" and "number_result pow10 s tp vs st' r"
  shows "number_result pow10 s tp vs st r"
  by (rule number_result_goes [of pow10 s st "\<lambda>x. x = st'"])
    (use assms in \<open>auto intro: goes_step [OF assms(1,2)] goes_refl\<close>)

lemma number_result_fails:
  "json_step pow10 False s st = Ok (Fails msg ft) \<Longrightarrow> js_p st \<le> length s \<Longrightarrow> number_result pow10 s tp vs st no_parse"
  by (simp add: number_result_def no_parse_def breaks_fails)

lemma number_rest_result:
  assumes "num s vs v neg e k rest st" and "ready True tp vs" and "jv_parent w = tp"
    and "json_step pow10 False s st = and_then (number_end (length vs) w st) step_finish"
    and "node_of True tp (length vs) t = sign_node neg w"
  shows "number_result pow10 s tp vs st (number_rest t rest)"
proof -
  note d = numD [OF assms(1)]
  obtain st' where st': "json_step pow10 False s st = Ok (Go st')" "js_p st' = js_p st"
    "stored s True tp vs [sign_node neg w] (length vs + 1) rest st'"
    using number_end_stored [OF assms(1-3)] assms(4) by auto
  show ?thesis
  proof (cases rest)
    case (Cons c cs)
    show ?thesis
    proof (cases "is_num_char c")
      case True
      then obtain msg ft where "json_step pow10 False s st' = Ok (Fails msg ft)"
        using stored_num_char [of s True tp vs _ _ c cs st'] st'(3) assms(2) Cons by blast
      with st'(1) True Cons d(5) show ?thesis
        by (auto simp: number_rest_def number_result_def no_parse_def intro: breaks_later)
    qed (use st' Cons assms(5) in \<open>auto simp: number_rest_def number_result_def parsed_def intro!: goes_refl\<close>)
  qed (use st' assms(5) in \<open>auto simp: number_rest_def number_result_def parsed_def intro!: goes_refl\<close>)
qed

subsection \<open>The phases\<close>

lemma next_char_looking: "\<not> looking P cs \<Longrightarrow> \<not> P (CHR 0x00) \<Longrightarrow> \<not> P (next_char cs)"
  by (cases cs) auto

lemma looking_next_char: "looking P cs \<Longrightarrow> P (next_char cs) \<and> cs = next_char cs # tl cs"
  by (cases cs) auto

lemma digit_chars_not [simp]:
  "\<not> is_digit (CHR 0x00)" "\<not> is_digit (CHR ''+'')" "\<not> is_digit (CHR ''-'')" "\<not> is_digit (CHR ''.'')"
  "\<not> is_digit (CHR ''e'')" "\<not> is_digit (CHR ''E'')" "is_digit (CHR ''0'')"
  by (simp_all add: is_digit_def)

lemma exp_end:
  assumes "exp_phase s vs v neg eneg e k rest st" and "\<not> looking is_digit rest" and "ready True tp vs"
    and "v = (fresh_node tp json_double)\<lparr>jv_integer := n, jv_dbl := d\<rparr>"
  shows "number_result pow10 s tp vs st (if k = 0 then no_parse
    else number_rest (TreeDbl n (signed_dbl neg (dbl_mult d (pow10 (if eneg then - e else e))))) rest)"
proof -
  have num: "num s vs v neg True k rest st" using assms(1) by (simp add: exp_phase_def)
  note d = numD [OF num]
  have ty: "jv_type v = json_double" "jv_dbl v = d" using assms(4) by (simp_all add: fresh_node_def)
  have c: "\<not> is_digit (next_char rest)" using assms(2) by (rule next_char_looking) simp
  have other: "step_number pow10 (next_char rest) (length vs) v st = number_other pow10 (next_char rest) (length vs) v st"
    using c assms(1) d(10) ty(1)
    by (cases rest) (auto simp: step_number_def exp_phase_def)
  show ?thesis
  proof (cases "k = 0")
    case True
    then have "\<exists>ft. json_step pow10 False s st = Ok (Fails ''%d:%d: Expected digit after `e`'' ft)"
      using num_step [OF num] ty(1) d(10,11) by (simp add: other number_other_def fails_def)
    with True d(5) show ?thesis by (auto intro: number_result_fails)
  next
    case False
    let ?w = "v\<lparr>jv_dbl := dbl_mult d (pow10 (if eneg then - e else e))\<rparr>"
    have step: "json_step pow10 False s st = and_then (number_end (length vs) ?w st) step_finish"
      using False num_step [OF num] ty d(10,11) assms(1) by (simp add: other number_other_def exp_phase_def)
    have node: "node_of True tp (length vs) (TreeDbl n (signed_dbl neg (dbl_mult d (pow10 (if eneg then - e else e))))) =
        sign_node neg ?w"
      using assms(4) by (simp add: sign_node_def signed_dbl_def fresh_node_def)
    have "jv_parent ?w = tp" using assms(4) by (simp add: fresh_node_def)
    from number_rest_result [OF num assms(3) this step node] show ?thesis unfolding if_not_P [OF False] .
  qed
qed

definition exp_start :: "string \<Rightarrow> json_value list \<Rightarrow> json_value \<Rightarrow> bool \<Rightarrow> string \<Rightarrow> json_state \<Rightarrow> bool" where
  "exp_start s vs v neg cs st \<longleftrightarrow> num s vs v neg True 0 cs st \<and> js_num_e st = 0 \<and>
     \<not> fl_num_e_got_sign (js_flags st) \<and> \<not> fl_num_e_negative (js_flags st)"

lemma exponent_result:
  assumes "exp_start s vs v neg cs st" and "ready True tp vs"
    and "v = (fresh_node tp json_double)\<lparr>jv_integer := n, jv_dbl := d\<rparr>"
  shows "number_result pow10 s tp vs st (exponent pow10 neg n d cs)"
proof -
  have num: "num s vs v neg True 0 cs st" using assms(1) by (simp add: exp_start_def)
  note d = numD [OF num]
  have ty: "jv_type v = json_double" using assms(3) by (simp add: fresh_node_def)
  have run: "number_result pow10 s tp vs st' (then_do (digits 0 0 ds) (\<lambda>(e, k, rest).
      if k = 0 then no_parse
      else number_rest (TreeDbl n (signed_dbl neg (dbl_mult d (pow10 (if eneg then - e else e))))) rest))"
    if "exp_phase s vs v neg eneg 0 0 ds st'" for ds eneg st'
    by (rule number_result_follows [OF digits_follow [where Q = "exp_phase s vs v neg eneg", OF exp_phase_step [OF ty] that]])
      (use exp_end [OF _ _ assms(2,3)] in auto)
  show ?thesis
  proof (cases "looking (\<lambda>c. c = CHR ''+'' \<or> c = CHR ''-'') cs")
    case True
    then obtain c ds where cs: "cs = c # ds" "c = CHR ''+'' \<or> c = CHR ''-''" by (cases cs) auto
    let ?st = "(with_flags (\<lambda>f. f\<lparr>fl_num_e_got_sign := True, fl_num_e_negative := (if c = CHR ''-'' then True else fl_num_e_negative f)\<rparr>) st)
      \<lparr>js_p := js_p st + 1\<rparr>"
    have "json_step pow10 False s st = Ok (Go ?st)"
      using num_step [OF num] ty assms(1) cs d(10)
      by (auto simp: step_number_def exp_start_def continue_def go_def)
    moreover have "num s vs v neg True 0 ds ?st"
      using num cs d by (intro num_next [of s vs v neg True 0 c ds st]) (auto simp: core_iff)
    then have "exp_phase s vs v neg (c = CHR ''-'') 0 0 ds ?st"
      using assms(1) cs by (auto simp: exp_phase_def exp_start_def)
    ultimately show ?thesis using run cs by (auto simp: exponent_def Let_def intro: number_result_step)
  next
    case False
    then have "\<not> looking (\<lambda>c. c = CHR ''-'') cs" by (cases cs) auto
    moreover have "exp_phase s vs v neg False 0 0 cs st"
      using assms(1) False by (simp add: exp_phase_def exp_start_def)
    ultimately show ?thesis using run [of False cs st] False by (simp add: exponent_def Let_def)
  qed
qed

lemma is_e_not_digit: "is_e c \<Longrightarrow> \<not> is_digit c \<and> c \<notin> {CHR ''+'', CHR ''-'', CHR ''.''}"
  by (auto simp: is_e_def)

lemma frac_end:
  assumes "frac_phase s vs v neg f k rest st" and "\<not> looking is_digit rest" and "ready True tp vs"
    and "v = (fresh_node tp json_double)\<lparr>jv_integer := n, jv_dbl := dbl_of_int n\<rparr>"
  shows "number_result pow10 s tp vs st (let d = dbl_plus (dbl_of_int n) (dbl_divide (dbl_of_int f) (pow10 k)) in
     if k = 0 then no_parse
     else if looking is_e rest then exponent pow10 neg n d (tl rest)
     else number_rest (TreeDbl n (signed_dbl neg d)) rest)"
proof -
  have num: "num s vs v neg False k rest st" using assms(1) by (simp add: frac_phase_def)
  note d = numD [OF num]
  have ty: "jv_type v = json_double" "jv_dbl v = dbl_of_int n" "jv_parent v = tp" using assms(4) by (simp_all add: fresh_node_def)
  have c: "\<not> is_digit (next_char rest)" using assms(2) by (rule next_char_looking) simp
  have other: "step_number pow10 (next_char rest) (length vs) v st = number_other pow10 (next_char rest) (length vs) v st"
    using c d(10) ty(1) by (simp add: step_number_def)
  let ?d = "dbl_plus (dbl_of_int n) (dbl_divide (dbl_of_int f) (pow10 k))"
  let ?w = "v\<lparr>jv_dbl := ?d\<rparr>"
  show ?thesis
  proof (cases "k = 0")
    case True
    then have "\<exists>ft. json_step pow10 False s st = Ok (Fails ''%d:%d: Expected digit after `.`'' ft)"
      using num_step [OF num] ty(1) d(10,11) by (simp add: other number_other_def fails_def)
    with True d(5) show ?thesis by (auto intro: number_result_fails)
  next
    case k: False
    show ?thesis
    proof (cases "looking is_e rest")
      case True
      then obtain c ds where cs: "rest = c # ds" "is_e c" by (cases rest) auto
      let ?st = "(with_flags (\<lambda>f. f\<lparr>fl_num_e := True, fl_num_zero := False\<rparr>) (set_node (length vs) ?w (st\<lparr>js_num_digits := 0\<rparr>)))
        \<lparr>js_p := js_p st + 1\<rparr>"
      have "json_step pow10 False s st = Ok (Go ?st)"
        using num_step [OF num] ty assms(1) cs d(10,11) k other
        by (auto simp: number_other_def continue_def go_def is_e_def frac_phase_def)
      moreover have "num s vs ?w neg True 0 ds ?st"
        using num cs d by (intro num_next [of s vs v neg False k c ds st]) (auto simp: core_iff)
      then have "exp_start s vs ?w neg ds ?st" using assms(1) by (auto simp: exp_start_def frac_phase_def)
      then have "number_result pow10 s tp vs ?st (exponent pow10 neg n ?d ds)"
        using assms(3,4) by (intro exponent_result) simp_all
      ultimately show ?thesis using cs k by (auto simp: Let_def intro: number_result_step)
    next
      case False
      then have e: "\<not> is_e (next_char rest)" by (rule next_char_looking) (simp add: is_e_def)
      have step: "json_step pow10 False s st = and_then (number_end (length vs) ?w st) step_finish"
        using k e num_step [OF num] ty d(10,11) assms(1) by (simp add: other number_other_def frac_phase_def is_e_def)
      have node: "node_of True tp (length vs) (TreeDbl n (signed_dbl neg ?d)) = sign_node neg ?w"
        using assms(4) by (simp add: sign_node_def signed_dbl_def fresh_node_def)
      have "jv_parent ?w = tp" using ty(3) by simp
      from number_rest_result [OF num assms(3) this step node] show ?thesis using False k by (simp add: Let_def)
    qed
  qed
qed

lemma fraction_result:
  assumes "frac_phase s vs v neg 0 0 cs st" and "ready True tp vs"
    and "v = (fresh_node tp json_double)\<lparr>jv_integer := n, jv_dbl := dbl_of_int n\<rparr>"
  shows "number_result pow10 s tp vs st (fraction pow10 neg n cs)"
proof -
  have ty: "jv_type v = json_double" using assms(3) by (simp add: fresh_node_def)
  show ?thesis unfolding fraction_def
    by (rule number_result_follows [OF digits_follow [where Q = "frac_phase s vs v neg", OF frac_phase_step [OF ty] assms(1)]])
      (use frac_end [OF _ _ assms(2,3)] in auto)
qed

text \<open>The point of a number, and the sign of its exponent, behind its integer part.\<close>

lemma int_dot:
  assumes "int_phase s vs tp neg n k (CHR ''.'' # ds) st" and "ready True tp vs"
  shows "number_result pow10 s tp vs st (if k = 0 then no_parse else fraction pow10 neg n ds)"
proof -
  let ?v = "(fresh_node tp json_integer)\<lparr>jv_integer := n\<rparr>"
  let ?w = "(fresh_node tp json_double)\<lparr>jv_integer := n, jv_dbl := dbl_of_int n\<rparr>"
  have num: "num s vs ?v neg False k (CHR ''.'' # ds) st" using assms(1) by (simp add: int_phase_def)
  note d = numD [OF num]
  have ty: "jv_type ?v = json_integer" "jv_integer ?v = n" by (simp_all add: fresh_node_def)
  have w: "?v\<lparr>jv_type := json_double, jv_dbl := dbl_of_int n\<rparr> = ?w" by (simp add: fresh_node_def)
  show ?thesis
  proof (cases "k = 0")
    case True
    then have "\<exists>ft. json_step pow10 False s st = Ok (Fails ''%d:%d: Expected digit before `.`'' ft)"
      using num_step [OF num] ty(1) d(10,11) by (simp add: step_number_def fails_def)
    with True d(5) show ?thesis by (auto intro: number_result_fails)
  next
    case False
    let ?st = "(set_node (length vs) ?w (st\<lparr>js_num_digits := 0\<rparr>))\<lparr>js_p := js_p st + 1\<rparr>"
    have "json_step pow10 False s st = Ok (Go ?st)"
      using num_step [OF num] ty d(10,11) False w by (simp add: step_number_def continue_def go_def)
    moreover have "num s vs ?w neg False 0 ds ?st"
      using num d by (intro num_next [of s vs ?v neg False k "CHR ''.''" ds st]) auto
    then have "frac_phase s vs ?w neg 0 0 ds ?st" using assms(1) by (auto simp: frac_phase_def int_phase_def)
    then have "number_result pow10 s tp vs ?st (fraction pow10 neg n ds)"
      using assms(2) by (intro fraction_result) simp_all
    ultimately show ?thesis using False by (auto intro: number_result_step)
  qed
qed

lemma int_exp:
  assumes "int_phase s vs tp neg n k (c # ds) st" and "is_e c" and "ready True tp vs"
  shows "number_result pow10 s tp vs st (exponent pow10 neg n (dbl_of_int n) ds)"
proof -
  let ?v = "(fresh_node tp json_integer)\<lparr>jv_integer := n\<rparr>"
  let ?w = "(fresh_node tp json_double)\<lparr>jv_integer := n, jv_dbl := dbl_of_int n\<rparr>"
  have num: "num s vs ?v neg False k (c # ds) st" using assms(1) by (simp add: int_phase_def)
  note d = numD [OF num]
  have ty: "jv_type ?v = json_integer" "jv_integer ?v = n" by (simp_all add: fresh_node_def)
  have w: "?v\<lparr>jv_type := json_double, jv_dbl := dbl_of_int n\<rparr> = ?w" by (simp add: fresh_node_def)
  have c: "\<not> is_digit c" "c \<noteq> CHR ''.''" using assms(2) by (auto simp: is_e_def is_digit_def)
  then have other: "step_number pow10 c (length vs) ?v st = number_other pow10 c (length vs) ?v st"
    using d(10) by (simp add: step_number_def)
  let ?st = "(with_flags (\<lambda>f. f\<lparr>fl_num_e := True, fl_num_zero := False\<rparr>) (set_node (length vs) ?w (st\<lparr>js_num_digits := 0\<rparr>)))
    \<lparr>js_p := js_p st + 1\<rparr>"
  have "json_step pow10 False s st = Ok (Go ?st)"
    using num_step [OF num] ty assms(2) d(10,11) w other by (auto simp: number_other_def continue_def go_def is_e_def)
  moreover have "num s vs ?w neg True 0 ds ?st"
    using num d by (intro num_next [of s vs ?v neg False k c ds st]) (auto simp: core_iff)
  then have "exp_start s vs ?w neg ds ?st" using assms(1) by (auto simp: exp_start_def int_phase_def)
  then have "number_result pow10 s tp vs ?st (exponent pow10 neg n (dbl_of_int n) ds)"
    using assms(3) by (intro exponent_result) simp_all
  ultimately show ?thesis by (auto intro: number_result_step)
qed

lemma int_end:
  assumes "int_phase s vs tp neg n k rest st" and "\<not> looking is_digit rest" and "ready True tp vs"
  shows "number_result pow10 s tp vs st (if looking (\<lambda>c. c = CHR ''.'') rest then
        (if k = 0 then no_parse else fraction pow10 neg n (tl rest))
      else if looking is_e rest then exponent pow10 neg n (dbl_of_int n) (tl rest)
      else number_rest (TreeInt (if neg then - n else n)) rest)"
proof -
  let ?v = "(fresh_node tp json_integer)\<lparr>jv_integer := n\<rparr>"
  consider (dot) ds where "rest = CHR ''.'' # ds" | (exp) c ds where "rest = c # ds" "is_e c" "c \<noteq> CHR ''.''"
    | (other) "\<not> looking (\<lambda>c. c = CHR ''.'') rest" "\<not> looking is_e rest" by (cases rest) auto
  then show ?thesis
  proof cases
    case dot
    with int_dot [OF assms(1) [unfolded dot] assms(3), of pow10] show ?thesis by (simp split: if_splits)
  next
    case exp
    with int_exp [OF assms(1) [unfolded exp(1)] exp(2) assms(3)] show ?thesis by simp
  next
    case other
    have num: "num s vs ?v neg False k rest st" using assms(1) by (simp add: int_phase_def)
    note d = numD [OF num]
    have ty: "jv_type ?v = json_integer" "jv_parent ?v = tp" by (simp_all add: fresh_node_def)
    have c: "\<not> is_digit (next_char rest)" using assms(2) by (rule next_char_looking) simp
    have nd: "next_char rest \<noteq> CHR ''.''" using other(1) by (rule next_char_looking) simp
    have e: "\<not> is_e (next_char rest)" using other(2) by (rule next_char_looking) (simp add: is_e_def)
    have step: "json_step pow10 False s st = and_then (number_end (length vs) ?v st) step_finish"
      using e c nd num_step [OF num] ty d(10,11) by (simp add: step_number_def number_other_def is_e_def)
    have node: "node_of True tp (length vs) (TreeInt (if neg then - n else n)) = sign_node neg ?v"
      by (simp add: sign_node_def fresh_node_def)
    from number_rest_result [OF num assms(3) ty(2) step node] show ?thesis using other by simp
  qed
qed

text \<open>The first pass behind the sign of a number, or at its first digit.\<close>

lemma unsigned_number_result:
  assumes "\<not> zero_led cs \<Longrightarrow> int_phase s vs tp neg 0 0 cs st" and "ready True tp vs"
    and "zero_led cs \<Longrightarrow> number_result pow10 s tp vs st no_parse"
  shows "number_result pow10 s tp vs st (unsigned_number pow10 neg cs)"
proof (cases "zero_led cs")
  case False
  show ?thesis unfolding unsigned_number_def if_not_P [OF False]
    by (rule number_result_follows [OF digits_follow [where Q = "int_phase s vs tp neg", OF int_phase_step assms(1) [OF False]]])
      (use int_end [OF _ _ assms(2)] in auto)
qed (use assms(3) in \<open>simp add: unsigned_number_def\<close>)

end
