(* ===== verification/JsonLeaves.thy ===== *)
theory JsonLeaves
  imports JsonNumber
begin

section \<open>Values without children, and the ends of those with children\<close>

text \<open>
  Numbers, strings and words at a place where a value is expected: each pass gets over the text that the
  reference takes and leaves the node of the value, and the first pass ends where the reference finds no
  value. The brackets that end arrays and objects store them as values too.
\<close>

subsection \<open>What the reference takes\<close>

lemma digits_split:
  "digits n k cs = Ok (m, j, rest) \<Longrightarrow> \<exists>u. cs = u @ rest \<and> list_all is_digit u"
proof (induction cs arbitrary: n k)
  case (Cons c cs)
  show ?case
  proof (cases "is_digit c")
    case True
    then obtain n' where "digits n' (k + 1) cs = Ok (m, j, rest)"
      using Cons.prems shift_in_cases [of n c] by auto
    with Cons.IH True show ?thesis by (metis append_Cons list.pred_inject(2))
  next
    case False
    with Cons.prems show ?thesis by (intro exI [of _ "[]"]) simp
  qed
qed simp

text \<open>The characters a number is taken from.\<close>

definition number_taken :: "string \<Rightarrow> jtree parse \<Rightarrow> bool" where
  "number_taken cs r \<longleftrightarrow> (\<forall>t rest. r = Ok (Some (t, rest)) \<longrightarrow>
     (\<exists>u. cs = u @ rest \<and> list_all is_num_char u) \<and> \<not> looking is_num_char rest \<and> kids t = [] \<and>
     (tree_type t = json_integer \<or> tree_type t = json_double))"

lemma number_taken_none [simp]: "number_taken cs no_parse"
  by (simp add: number_taken_def no_parse_def)

lemma number_taken_then:
  assumes "\<And>x. r = Ok x \<Longrightarrow> number_taken cs (f x)"
  shows "number_taken cs (then_do r f)"
  using assms by (cases r) (auto simp: number_taken_def)

lemma number_taken_more:
  assumes "number_taken cs r" and "list_all is_num_char u"
  shows "number_taken (u @ cs) r"
  using assms by (fastforce simp: number_taken_def)

lemma is_digit_num_char: "list_all is_digit u \<Longrightarrow> list_all is_num_char u"
  by (auto simp: list_all_iff is_num_char_def)

lemma number_taken_rest:
  "kids t = [] \<Longrightarrow> tree_type t = json_integer \<or> tree_type t = json_double \<Longrightarrow> number_taken cs (number_rest t cs)"
  by (auto simp: number_taken_def number_rest_def parsed_def no_parse_def intro: exI [of _ "[]"])

lemma number_taken_digits:
  assumes "\<And>m j rest. number_taken rest (f (m, j, rest))"
  shows "number_taken cs (then_do (digits n k cs) f)"
proof (rule number_taken_then)
  fix x assume "digits n k cs = Ok x"
  moreover obtain m j rest where "x = (m, j, rest)" by (cases x)
  ultimately obtain u where "cs = u @ rest" "list_all is_num_char u"
    using digits_split is_digit_num_char by metis
  with \<open>x = (m, j, rest)\<close> assms show "number_taken cs (f x)" by (simp add: number_taken_more)
qed

lemma number_taken_tl: "looking is_num_char cs \<Longrightarrow> number_taken (tl cs) r \<Longrightarrow> number_taken cs r"
  using number_taken_more [of "tl cs" r "[hd cs]"] by (cases cs) auto

lemma looking_mono: "looking P cs \<Longrightarrow> (\<And>c. P c \<Longrightarrow> Q c) \<Longrightarrow> looking Q cs"
  by (cases cs) auto

lemma exponent_taken: "number_taken cs (exponent pow10 neg n d cs)"
proof -
  have sign: "number_taken ds (then_do (digits 0 0 ds) (\<lambda>(e, k, rest).
      if k = 0 then no_parse
      else number_rest (TreeDbl n (signed_dbl neg (dbl_mult d (pow10 (if eneg then - e else e))))) rest))" for ds eneg
    by (intro number_taken_digits) (auto intro!: number_taken_rest)
  show ?thesis
  proof (cases "looking (\<lambda>c. c = CHR ''+'' \<or> c = CHR ''-'') cs")
    case True
    then have "looking is_num_char cs" by (rule looking_mono) (auto simp: is_num_char_def)
    then show ?thesis unfolding exponent_def Let_def if_P [OF True] by (rule number_taken_tl) (rule sign)
  qed (use sign in \<open>simp add: exponent_def Let_def\<close>)
qed

lemma is_e_num_char: "looking is_e cs \<Longrightarrow> looking is_num_char cs"
  by (erule looking_mono) (auto simp: is_e_def is_num_char_def)

lemma exponent_taken_tl: "looking is_e cs \<Longrightarrow> number_taken cs (exponent pow10 neg n d (tl cs))"
  by (rule number_taken_tl [OF is_e_num_char exponent_taken])

lemma fraction_taken: "number_taken cs (fraction pow10 neg n cs)"
  unfolding fraction_def by (rule number_taken_digits) (simp add: Let_def exponent_taken_tl number_taken_rest)

lemma fraction_taken_tl: "looking (\<lambda>c. c = CHR ''.'') cs \<Longrightarrow> number_taken cs (fraction pow10 neg n (tl cs))"
  by (rule number_taken_tl [OF _ fraction_taken], erule looking_mono) (simp add: is_num_char_def)

lemma unsigned_number_taken: "number_taken cs (unsigned_number pow10 neg cs)"
proof (cases "zero_led cs")
  case False
  show ?thesis unfolding unsigned_number_def if_not_P [OF False]
    by (rule number_taken_digits) (simp add: exponent_taken_tl fraction_taken_tl number_taken_rest)
qed (simp add: unsigned_number_def)

subsection \<open>The first character of a value\<close>

lemma seek_step:
  assumes "place s first (seek False) tp ws a (c # cs) st" and "\<not> is_space c" and "c \<noteq> CHR '']''"
  shows "json_step pow10 False s st =
      and_then (step_value s c (with_flags (fl_seek_value_update (\<lambda>_. False)) st)) step_finish"
    and "place s first no_flags tp ws a (c # cs) (with_flags (fl_seek_value_update (\<lambda>_. False)) st)"
  using assms(2,3) placeD [OF assms(1)]
  by (auto simp: json_step_place [OF assms(1)] step_rest_plain step_seek_def place_def core_iff flag_defs)

text \<open>A number in the second pass.\<close>

lemma skip_num_pos:
  assumes "suffix (u @ rest) s" and "list_all is_num_char u" and "\<not> looking is_num_char rest"
  shows "skip_num s (pos s (u @ rest)) = pos s rest"
proof -
  obtain p where s: "s = p @ u @ rest" using assms(1) by (auto simp: suffix_def)
  have "takeWhile is_num_char (u @ rest) = u"
    using assms(2,3) by (cases rest) (auto simp: list_all_iff takeWhile_append)
  then show ?thesis by (simp add: skip_num_def pos_def s)
qed

lemma number_not_other:
  assumes "c = CHR ''-'' \<or> is_digit c"
  shows "c \<noteq> CHR ''{''" "c \<noteq> CHR ''[''" "c \<noteq> CHR 0x22" "c \<noteq> CHR ''t''" "c \<noteq> CHR ''f''" "c \<noteq> CHR ''n''"
    "c \<noteq> CHR '']''" "\<not> is_space c"
  using assms by (auto simp: is_digit_def is_space_def)

lemma step_value_number: "c = CHR ''-'' \<or> is_digit c \<Longrightarrow> step_value s c st = step_number_start s c st"
  using number_not_other [of c] by (simp add: step_value_def disj_commute)

lemma second_number:
  assumes "place s False (seek False) tp (vs @ [node_of True tp (length vs) t] @ post) (length vs) (c # cs) st"
    and "c = CHR ''-'' \<or> is_digit c" and "ready False tp vs"
    and "unsigned_number pow10 (c = CHR ''-'') (if c = CHR ''-'' then cs else c # cs) = Ok (Some (t, rest))"
  shows "reaches pow10 s st (stored s False tp vs (node_of False tp (length vs) t # post) (length vs + 1) rest)"
proof -
  have num: "is_num_char c" using assms(2) by (auto simp: is_num_char_def)
  have "number_taken (c # cs) (Ok (Some (t, rest)))"
    using unsigned_number_taken [of "if c = CHR ''-'' then cs else c # cs" pow10 "c = CHR ''-''"]
      number_taken_more [of cs "Ok (Some (t, rest))" "[c]"] num assms(4) by (auto split: if_splits)
  then obtain u where u: "c # cs = u @ rest" "list_all is_num_char u" "\<not> looking is_num_char rest" "kids t = []"
    "tree_type t = json_integer \<or> tree_type t = json_double"
    by (auto simp: number_taken_def)
  then have "u \<noteq> []" using num by auto
  have sp: "\<not> is_space c" "c \<noteq> CHR '']''" using is_num_char_not [OF num] by auto
  let ?st = "with_flags (fl_seek_value_update (\<lambda>_. False)) st"
  have p: "place s False no_flags tp (vs @ node_of True tp (length vs) t # post) (length vs) (c # cs) ?st"
    using seek_step(2) [OF assms(1) sp] by simp
  then have "place s False no_flags tp (vs @ before False (node_of True tp (length vs) t # []) @ post) (length vs) (c # cs) ?st"
    by simp
  from new_value_place [OF this, of json_integer] obtain st1 where st1: "new_value json_integer ?st = Ok st1"
    "place s False no_flags (Some (length vs)) (vs @ start_node False tp (length vs) t # post) (length vs + 1) (c # cs) st1"
    by auto
  have node: "start_node False tp (length vs) t = node_of False tp (length vs) t"
    using u(5) by (cases t) (auto simp: start_node_def make_room_def fresh_node_def)
  let ?st2 = "with_flags (\<lambda>f. f\<lparr>fl_next := True, fl_reproc := True\<rparr>) (st1\<lparr>js_p := skip_num s (js_p st1)\<rparr>)"
  note d = placeD [OF st1(2)]
  have "step_value s c ?st = step_number_start s c ?st"
    using assms(2) by (rule step_value_number)
  also have "\<dots> = Ok (Fall ?st2)" using st1(1) d(1) by (simp add: step_number_start_def fall_def)
  finally have run: "json_step pow10 False s st = step_finish ?st2"
    using seek_step(1) [OF assms(1) sp] by simp
  have pos: "js_p ?st2 = pos s rest" "suffix rest s"
    using skip_num_pos [of u rest s] d(5,6) u(1-3) suffix_append_right [of u rest s] by auto
  have "\<exists>st'. step_finish ?st2 = Ok (Go st') \<and> place s False (after_flags tp vs)
      (Some (case tp of None \<Rightarrow> length vs | Some k \<Rightarrow> k)) (put False tp (length vs) vs @ node_of False tp (length vs) t # post)
      (length vs + 1) rest st'"
  proof (rule finish_value)
    show "core (js_flags ?st2) = core (no_flags\<lparr>fl_next := True, fl_reproc := True\<rparr>)"
      using st1(2) by (simp add: place_def core_iff)
    show "js_p ?st2 + (if True then 0 else 1) = pos s rest" using pos by simp
  qed (use d assms(3) pos(2) node in simp_all)
  then obtain st' where st': "step_finish ?st2 = Ok (Go st')"
    "stored s False tp vs (node_of False tp (length vs) t # post) (length vs + 1) rest st'"
    by (auto simp: stored_def value_top_def)
  have "js_p st < js_p st'"
    using placeD [OF assms(1)] st'(2) u(1) \<open>u \<noteq> []\<close> suffix_length_le [of "c # cs" s] arg_cong [OF u(1), of length]
    by (cases u) (auto simp: stored_def place_def pos_def)
  then show ?thesis using st' run by (intro reaches_step [of pow10 s st st']) (auto simp: stored_def place_def)
qed

text \<open>A number in the first pass.\<close>

definition lost :: "(int \<Rightarrow> 64 word) \<Rightarrow> string \<Rightarrow> json_state \<Rightarrow> 'a parse \<Rightarrow> bool" where
  "lost pow10 s st r \<longleftrightarrow> (case r of
      Ok None \<Rightarrow> stops pow10 s st (Ok None)
    | Ok (Some x) \<Rightarrow> True
    | Panic q \<Rightarrow> q \<noteq> OutOfFuel \<longrightarrow> stops pow10 s st (Panic q)
    | Err e \<Rightarrow> False)"

lemma lost_simps [simp]:
  "lost pow10 s st no_parse \<longleftrightarrow> stops pow10 s st (Ok None)" "lost pow10 s st (parsed x rest)"
  "lost pow10 s st (Panic q) \<longleftrightarrow> q \<noteq> OutOfFuel \<longrightarrow> stops pow10 s st (Panic q)"
  by (simp_all add: lost_def no_parse_def parsed_def)

text \<open>From the step at the first character to the result of the number.\<close>

lemma number_result_reaches:
  assumes "json_step pow10 False s st = Ok (Go st1)" and "js_p st1 = js_p st + (if advance then 1 else 0)"
    and "js_p st < length s" and "number_result pow10 s tp vs st1 r"
    and "\<And>t rest. r = Ok (Some (t, rest)) \<Longrightarrow> js_p st < pos s rest"
  shows "lost pow10 s st r \<and> (\<forall>t rest. r = Ok (Some (t, rest)) \<longrightarrow>
    reaches pow10 s st (stored s True tp vs [node_of True tp (length vs) t] (length vs + 1) rest))"
proof -
  have brk: "stops pow10 s st x" if b: "breaks pow10 s st1 x" for x
  proof -
    obtain n where "ends pow10 s n st1 x" "n + js_p st1 \<le> length s + 2" using b by (auto simp: breaks_def)
    then have "ends pow10 s (Suc n) st x" "Suc n \<le> 3 * (length s - js_p st) + 1"
      using ends_Suc [OF assms(1)] assms(2,3) by (auto split: if_splits)
    then show ?thesis unfolding stops_def by blast
  qed
  have reach: "reaches pow10 s st (stored s True tp vs [node_of True tp (length vs) t] (length vs + 1) rest)"
    if r: "r = Ok (Some (t, rest))" for t rest
  proof -
    obtain n st2 st3 where n: "runs pow10 s n st1 st2" "js_p st2 = js_p st1 + n"
      "json_step pow10 False s st2 = Ok (Go st3)" "js_p st3 = js_p st2"
      "stored s True tp vs [node_of True tp (length vs) t] (length vs + 1) rest st3"
      using assms(4) r by (auto simp: number_result_def goes_def)
    have run: "runs pow10 s (Suc n + 1) st st3"
      by (rule runs_trans [OF runs_Suc [OF assms(1) n(1)] runs_step [OF n(3)]])
    have "js_p st3 = pos s rest" using n(5) by (simp add: stored_def place_def)
    then have "js_p st < js_p st3" "js_p st3 \<le> length s" using assms(5) [OF r] by simp_all
    then have "Suc n + 1 + 3 * (length s - js_p st3) \<le> 3 * (length s - js_p st)"
      using n(2,4) assms(2) by (auto split: if_splits)
    with run n(5) show ?thesis unfolding reaches_def by blast
  qed
  show ?thesis
  proof (cases r)
    case (Ok x)
    with assms(4) brk reach show ?thesis by (cases x) (auto simp: number_result_def lost_def)
  next
    case (Panic q)
    with assms(4) brk show ?thesis by (auto simp: number_result_def)
  next
    case (Err e)
    with assms(4) show ?thesis by (auto simp: number_result_def)
  qed
qed

text \<open>A number that begins with a zero and goes on with a digit.\<close>

lemma zero_led_result:
  assumes "num s vs (fresh_node tp json_integer) neg False 0 cs st" and "zero_led cs" and "\<not> fl_num_zero (js_flags st)"
  shows "number_result pow10 s tp vs st no_parse"
proof -
  let ?v = "fresh_node tp json_integer"
  obtain c ds where cs: "cs = CHR ''0'' # c # ds" "is_digit c"
    using assms(2) by (cases cs; cases "tl cs") (auto simp: zero_led_def)
  note d = numD [OF assms(1)]
  let ?st = "(set_node (length vs) ?v (with_flags (fl_num_zero_update (\<lambda>_. True)) (st\<lparr>js_num_digits := 1\<rparr>)))\<lparr>js_p := js_p st + 1\<rparr>"
  have ty: "jv_type ?v = json_integer" "jv_integer ?v = 0" by (simp_all add: fresh_node_def)
  have v: "?v\<lparr>jv_integer := 0\<rparr> = ?v" by (simp add: fresh_node_def)
  have "shift_in 0 (CHR ''0'') = Ok 0" by (simp add: shift_in_def i64_def digit_int_def digit_val_def)
  then have step: "json_step pow10 False s st = Ok (Go ?st)"
    using num_step [OF assms(1)] ty v cs d(10,11) assms(3)
    by (simp add: step_number_def step_digit_def Let_def continue_def go_def)
  have num: "num s vs ?v neg False 1 (c # ds) ?st"
    using assms(1) cs d by (intro num_next [of s vs ?v neg False 0 "CHR ''0''" "c # ds" st]) (auto simp: core_iff)
  have "\<exists>ft. json_step pow10 False s ?st = Ok (Fails ''%d:%d: Unexpected `0` before `%c`'' ft)"
    using num_step [OF num] ty cs(2) numD(10) [OF num]
    by (simp add: step_number_def step_digit_def Let_def fails_def)
  then have "number_result pow10 s tp vs ?st no_parse"
    using numD(5) [OF num] by (elim exE) (rule number_result_fails, simp_all)
  with step show ?thesis by (intro number_result_step [OF step]) simp_all
qed

text \<open>The step that makes the node of a number, up to its sign.\<close>

lemma number_begins:
  assumes "place s True (seek False) tp vs (length vs) (c # cs) st" and "c = CHR ''-'' \<or> is_digit c" and "neg = (c = CHR ''-'')"
  obtains st' where "json_step pow10 False s st = Ok (Go st')" and "js_p st' = js_p st + (if neg then 1 else 0)"
    and "num s vs (fresh_node tp json_integer) neg False 0 (if neg then cs else c # cs) st'"
    and "\<not> fl_num_zero (js_flags st')" "\<not> fl_num_e_got_sign (js_flags st')" "\<not> fl_num_e_negative (js_flags st')"
    and "js_num_fraction st' = 0" "js_num_e st' = 0"
proof -
  let ?st = "with_flags (fl_seek_value_update (\<lambda>_. False)) st"
  note n = number_not_other [OF assms(2)]
  note sk = seek_step [OF assms(1) n(8,7)]
  have "place s True no_flags tp (vs @ before True (node_of True tp (length vs) (TreeInt 0) # []) @ []) (length vs) (c # cs) ?st"
    using sk(2) by simp
  from new_value_place [OF this, of json_integer] obtain st1 where st1: "new_value json_integer ?st = Ok st1"
    "place s True no_flags (Some (length vs)) (vs @ [fresh_node tp json_integer]) (length vs + 1) (c # cs) st1"
    by (auto simp: start_node_def)
  note d = placeD [OF st1(2)]
  define st2 where "st2 = with_flags (\<lambda>f. f\<lparr>fl_num_negative := False, fl_num_e := False, fl_num_e_got_sign := False,
      fl_num_e_negative := False, fl_num_zero := False\<rparr>) (st1\<lparr>js_num_digits := 0, js_num_fraction := 0, js_num_e := 0\<rparr>)"
  define st3 where "st3 = (if neg then (with_flags (fl_num_negative_update (\<lambda>_. True)) st2)\<lparr>js_p := js_p st + 1\<rparr> else st2)"
  have p: "js_p st1 = js_p st" "pos s (c # cs) = js_p st" "suffix (c # cs) s"
    using d(5,6) placeD(6) [OF assms(1)] by auto
  have "step_number_start s c ?st =
      (if neg then continue (with_flags (fl_num_negative_update (\<lambda>_. True)) st2)
       else fall (with_flags (fl_reproc_update (\<lambda>_. True)) st2))"
    using st1(1) d(1) by (simp add: step_number_start_def st2_def assms(3) Let_def)
  moreover have "step_finish (with_flags (fl_reproc_update (\<lambda>_. True)) st2) = Ok (Go st2)"
    using d(7,8) by (simp add: step_finish_def st2_def go_def Let_def no_flags_def with_flags_def)
  ultimately have step: "json_step pow10 False s st = Ok (Go st3)"
    using sk(1) p(1) step_value_number [OF assms(2)]
    by (simp add: st3_def continue_def go_def fall_def) (simp add: st2_def)
  have "place s True no_flags (Some (length vs)) (vs @ [fresh_node tp json_integer]) (length vs + 1) (if neg then cs else c # cs) st3"
    using st1(2) p suffix_tail [OF p(3)] pos_Cons [OF p(3)]
    by (cases neg) (simp_all add: place_def st3_def st2_def core_iff)
  then have "num s vs (fresh_node tp json_integer) neg False 0 (if neg then cs else c # cs) st3"
    by (cases neg) (simp_all add: num_def st3_def st2_def)
  with step p(1) show ?thesis by (intro that [of st3]) (simp_all add: st3_def st2_def)
qed

text \<open>A number has a character.\<close>

lemma number_rest_shorter:
  assumes "c = CHR ''-'' \<or> is_digit c"
    and "unsigned_number pow10 (c = CHR ''-'') (if c = CHR ''-'' then cs else c # cs) = Ok (Some (t, rest))"
  shows "length rest < length (c # cs)"
proof -
  have "number_taken (if c = CHR ''-'' then cs else c # cs) (Ok (Some (t, rest)))"
    using unsigned_number_taken [of "if c = CHR ''-'' then cs else c # cs"] assms(2) by metis
  then obtain u where u: "(if c = CHR ''-'' then cs else c # cs) = u @ rest" "\<not> looking is_num_char rest"
    by (auto simp: number_taken_def)
  show ?thesis
  proof (cases "c = CHR ''-''")
    case False
    then have "u \<noteq> []" using u assms(1) by (auto simp: is_num_char_def)
    then show ?thesis using arg_cong [OF u(1), of length] False by simp
  qed (use arg_cong [OF u(1), of length] in simp)
qed

lemma first_number:
  assumes "place s True (seek False) tp vs (length vs) (c # cs) st"
    and "c = CHR ''-'' \<or> is_digit c" and "ready True tp vs"
    and "r = unsigned_number pow10 (c = CHR ''-'') (if c = CHR ''-'' then cs else c # cs)"
  shows "lost pow10 s st r \<and> (\<forall>t rest. r = Ok (Some (t, rest)) \<longrightarrow>
    reaches pow10 s st (stored s True tp vs [node_of True tp (length vs) t] (length vs + 1) rest))"
proof -
  define neg where "neg = (c = CHR ''-'')"
  let ?cs = "if neg then cs else c # cs"
  from number_begins [OF assms(1,2) neg_def] obtain st3 where step: "json_step pow10 False s st = Ok (Go st3)"
    and p3: "js_p st3 = js_p st + (if neg then 1 else 0)" and num: "num s vs (fresh_node tp json_integer) neg False 0 ?cs st3"
    and zero: "\<not> fl_num_zero (js_flags st3)" "\<not> fl_num_e_got_sign (js_flags st3)" "\<not> fl_num_e_negative (js_flags st3)"
      "js_num_fraction st3 = 0" "js_num_e st3 = 0" .
  have p: "js_p st < length s" "pos s (c # cs) = js_p st" "suffix (c # cs) s" using placeD(5,6) [OF assms(1)] by (auto simp: pos_less)
  have "(fresh_node tp json_integer)\<lparr>jv_integer := 0\<rparr> = fresh_node tp json_integer" by (simp add: fresh_node_def)
  then have "int_phase s vs tp neg 0 0 ?cs st3" if "\<not> zero_led ?cs"
    using num that zero by (simp add: int_phase_def zero_ok_def)
  then have "number_result pow10 s tp vs st3 r"
    unfolding assms(4) neg_def [symmetric] using assms(3) zero_led_result [OF num _ zero(1)]
    by (intro unsigned_number_result)
  moreover have "js_p st < pos s rest" if "r = Ok (Some (t, rest))" for t rest
    using number_rest_shorter [OF assms(2) that [unfolded assms(4)]] p(2) suffix_length_le [OF p(3)] by (simp add: pos_def)
  ultimately show ?thesis using p(1) p3 by (intro number_result_reaches [OF step, of neg]) simp_all
qed

subsection \<open>The end of a container, and a string or word\<close>

lemma fall_stored:
  assumes "json_step pow10 False s st = step_finish st1" and "js_first st1 = first"
    and "core (js_flags st1) = core (no_flags\<lparr>fl_next := True\<rparr>)" and "js_top st1 = Some (length vs)"
    and "js_root st1 = Some 0" and "js_nodes st1 = vs @ w # us" and "jv_parent w = tp" and "js_alloc st1 = a" and "a \<noteq> 0"
    and "ready first tp vs" and "suffix rest s" and "js_p st1 + 1 = pos s rest" and "js_p st \<le> js_p st1"
  shows "reaches pow10 s st (stored s first tp vs (w # us) a rest)"
proof -
  have "\<exists>st'. step_finish st1 = Ok (Go st') \<and> place s first (after_flags tp vs)
      (Some (case tp of None \<Rightarrow> length vs | Some k \<Rightarrow> k)) (put first tp (length vs) vs @ w # us) a rest st'"
  proof (rule finish_value)
    show "core (js_flags st1) = core (no_flags\<lparr>fl_next := True, fl_reproc := False\<rparr>)"
      using assms(3) by (simp add: core_iff no_flags_def)
    show "js_p st1 + (if False then 0 else 1) = pos s rest" using assms(12) by simp
  qed (use assms in simp_all)
  then obtain st' where st': "step_finish st1 = Ok (Go st')" "stored s first tp vs (w # us) a rest st'"
    by (auto simp: stored_def value_top_def)
  moreover have "js_p st' = pos s rest" using st'(2) by (simp add: stored_def place_def)
  ultimately show ?thesis using assms(1,12,13) by (intro reaches_step [of pow10 s st st']) simp_all
qed

lemma array_closes:
  assumes "place s first (seek comma) (Some (length vs)) (vs @ w # us) a (CHR '']'' # rest) st"
    and "jv_type w = json_array" and "jv_parent w = tp" and "a \<noteq> 0" and "ready first tp vs"
  shows "reaches pow10 s st (stored s first tp vs (w # us) a rest)"
proof -
  note p = placeD [OF assms(1)]
  let ?st = "with_flags (\<lambda>f. f\<lparr>fl_need_comma := False, fl_seek_value := False, fl_next := True\<rparr>) st"
  have "json_step pow10 False s st = step_finish ?st"
    using assms(2) p by (simp add: json_step_place [OF assms(1)] step_rest_plain step_seek_def top_is_def node_at_def
        seek_def no_flags_def fall_def is_space_def)
  then show ?thesis
  proof (rule fall_stored)
    show "core (js_flags ?st) = core (no_flags\<lparr>fl_next := True\<rparr>)"
      using p by (simp add: core_iff flag_defs)
  qed (use p assms in \<open>simp_all add: pos_Cons suffix_tail\<close>)
qed

lemma object_closes:
  assumes "place s first (members comma) (Some (length vs)) (vs @ w # us) a (CHR ''}'' # rest) st"
    and "jv_type w = json_object" and "jv_parent w = tp" and "a \<noteq> 0" and "ready first tp vs"
  shows "reaches pow10 s st (stored s first tp vs (w # us) a rest)"
proof -
  note p = placeD [OF assms(1)]
  let ?st = "with_flags (\<lambda>f. f\<lparr>fl_need_comma := False, fl_next := True\<rparr>) st"
  have "json_step pow10 False s st = step_finish ?st"
    using assms(2) p by (simp add: json_step_place [OF assms(1)] step_rest_plain step_top_def on_top_nodes step_object_def
        members_def no_flags_def fall_def is_space_def)
  then show ?thesis
  proof (rule fall_stored)
    show "core (js_flags ?st) = core (no_flags\<lparr>fl_next := True\<rparr>)"
      using p by (simp add: core_iff flag_defs)
  qed (use p assms in \<open>simp_all add: pos_Cons suffix_tail\<close>)
qed

text \<open>A string value.\<close>

lemma string_opens:
  assumes "place s first (seek False) tp (vs @ before first [node_of True tp (length vs) (TreeStr str)] @ post)
      (length vs) (CHR 0x22 # cs) st" and "first \<Longrightarrow> post = []"
  shows "reaches pow10 s st (quoted s False first (Some (length vs))
    (vs @ start_node first tp (length vs) (TreeStr str) # post) (length vs + 1) 0 []
    (if first then 0 else length str + 1) cs)"
proof -
  let ?st = "with_flags (fl_seek_value_update (\<lambda>_. False)) st"
  have c: "\<not> is_space (CHR 0x22)" "CHR 0x22 \<noteq> CHR '']''" by (simp_all add: is_space_def)
  note sk = seek_step [OF assms(1) c]
  from new_value_place [OF sk(2), of json_string] assms(2) obtain st1 where st1: "new_value json_string ?st = Ok st1"
    "place s first no_flags (Some (length vs)) (vs @ start_node first tp (length vs) (TreeStr str) # post) (length vs + 1) (CHR 0x22 # cs) st1"
    by auto
  note d = placeD [OF st1(2)]
  let ?r = "jv_room (start_node first tp (length vs) (TreeStr str))"
  have room: "?r = (if first then 0 else length str + 1)"
    by (simp add: start_node_def make_room_def fresh_node_def)
  let ?st2 = "(with_flags (fl_string_update (\<lambda>_. True)) (st1\<lparr>js_string := [], js_room := ?r, js_string_length := 0\<rparr>))
    \<lparr>js_p := js_p st1 + 1\<rparr>"
  have "step_string_start ?st = Ok (Go ?st2)"
    using st1(1) d by (simp add: step_string_start_def on_top_nodes continue_def go_def)
  then have "json_step pow10 False s st = Ok (Go ?st2)" using sk(1) by (simp add: step_value_def)
  moreover have "quoted s False first (Some (length vs)) (vs @ start_node first tp (length vs) (TreeStr str) # post)
      (length vs + 1) 0 [] ?r cs ?st2"
    using st1(2) suffix_tail [OF d(5)] pos_Cons [OF d(5)]
    by (simp add: quoted_def place_def core_iff in_quotes_def no_flags_def)
  moreover have "js_p st < js_p ?st2" "js_p ?st2 \<le> length s"
    using d(5,6) placeD(6) [OF assms(1)] by (simp_all add: pos_Cons pos_less_Cons)
  ultimately show ?thesis unfolding room [symmetric] by (intro reaches_step [of pow10 s st ?st2])
qed

lemma string_closes:
  assumes "quoted s False first (Some (length vs)) (vs @ w # us) a n str room (CHR 0x22 # rest) st"
    and "jv_type w = json_string" and "jv_parent w = tp" and "a \<noteq> 0" and "ready first tp vs" and "n \<le> json_uint_max"
    and "first \<or> n < room"
  shows "reaches pow10 s st (stored s first tp vs (w\<lparr>jv_length := n, jv_chars := str\<rparr> # us) a rest)"
proof -
  note q = quotedD [OF assms(1)] and d = placeD [OF quotedD(1) [OF assms(1)]]
  let ?st = "with_flags (fl_next_update (\<lambda>_. True)) (set_node (length vs) (w\<lparr>jv_length := n, jv_chars := str\<rparr>)
    (with_flags (fl_string_update (\<lambda>_. False)) st))"
  have "close_string st = Ok (Fall ?st)"
    using assms(2,7) q d by (auto simp: close_string_def string_end_def on_top_nodes fall_def)
  moreover have "step_rest pow10 False s (CHR 0x22) ?st = Ok (Fall ?st)"
    using assms(2) d by (simp add: step_rest_plain step_top_def on_top_nodes fall_def)
  ultimately have "json_step pow10 False s st = step_finish ?st"
    using assms(6) by (simp add: quoted_step [OF assms(1)])
  then show ?thesis
  proof (rule fall_stored)
    show "core (js_flags ?st) = core (no_flags\<lparr>fl_next := True\<rparr>)"
      using d by (simp add: core_iff in_quotes_def no_flags_def)
  qed (use d assms in \<open>simp_all add: pos_Cons suffix_tail\<close>)
qed

lemma string_value:
  assumes "place s first (seek False) tp (vs @ before first [node_of True tp (length vs) (TreeStr str)] @ post)
      (length vs) (CHR 0x22 # cs) st" and "first \<Longrightarrow> post = []" and "ready first tp vs"
    and "string_body cs = Some (str, rest)" and "length s \<le> json_uint_max"
  shows "reaches pow10 s st (stored s first tp vs (node_of first tp (length vs) (TreeStr str) # post) (length vs + 1) rest)"
proof (rule reaches_trans [OF string_opens [OF assms(1,2)]], assumption)
  fix st1
  let ?room = "if first then 0 else length str + 1"
  let ?w = "start_node first tp (length vs) (TreeStr str)"
  assume st1: "quoted s False first (Some (length vs)) (vs @ ?w # post) (length vs + 1) 0 [] ?room cs st1"
  have len: "length cs \<le> json_uint_max" using placeD(5) [OF quotedD(1) [OF st1]] assms(5) suffix_length_le order_trans by blast
  have "reaches pow10 s st1 (quoted s False first (Some (length vs)) (vs @ ?w # post) (length vs + 1)
      (length str) (if first then [] else str) ?room (CHR 0x22 # rest))"
    using string_reaches [OF st1 _ assms(4), of pow10] len by (cases first) simp_all
  then show "reaches pow10 s st1 (stored s first tp vs (node_of first tp (length vs) (TreeStr str) # post) (length vs + 1) rest)"
  proof (rule reaches_trans)
    fix st2
    assume st2: "quoted s False first (Some (length vs)) (vs @ ?w # post) (length vs + 1)
      (length str) (if first then [] else str) ?room (CHR 0x22 # rest) st2"
    have "?w\<lparr>jv_length := length str, jv_chars := (if first then [] else str)\<rparr> = node_of first tp (length vs) (TreeStr str)"
      by (simp add: start_node_def make_room_def fresh_node_def)
    moreover have "length str \<le> json_uint_max" using string_body_length [OF assms(4)] len by simp
    ultimately show "reaches pow10 s st2 (stored s first tp vs (node_of first tp (length vs) (TreeStr str) # post) (length vs + 1) rest)"
      using string_closes [OF st2, of tp pow10] assms(3) by simp
  qed
qed

lemma string_value_lost:
  assumes "place s True (seek False) tp vs (length vs) (CHR 0x22 # cs) st" and "string_body cs = None"
    and "length s \<le> json_uint_max"
  shows "stops pow10 s st (Ok None)"
proof (rule reaches_stops)
  have "place s True (seek False) tp (vs @ before True [node_of True tp (length vs) (TreeStr [])] @ []) (length vs) (CHR 0x22 # cs) st"
    using assms(1) by simp
  from string_opens [OF this]
  show "reaches pow10 s st (quoted s False True (Some (length vs)) (vs @ [start_node True tp (length vs) (TreeStr [])]) (length vs + 1) 0 [] 0 cs)"
    by simp
next
  fix st1 assume st1: "quoted s False True (Some (length vs)) (vs @ [start_node True tp (length vs) (TreeStr [])]) (length vs + 1) 0 [] 0 cs st1"
  have "length cs \<le> json_uint_max" using placeD(5) [OF quotedD(1) [OF st1]] assms(3) suffix_length_le order_trans by blast
  with string_stops [OF st1 _ assms(2)] show "stops pow10 s st1 (Ok None)" by simp
qed

text \<open>\<^verbatim>\<open>true\<close>, \<^verbatim>\<open>false\<close> and \<^verbatim>\<open>null\<close>.\<close>

lemma word_value:
  assumes "place s first (seek False) tp (vs @ before first [node_of True tp (length vs) t] @ post) (length vs) (c # cs) st"
    and "(c, w, t, ty, val) \<in> {(CHR ''t'', ''rue'', TreeBool True, json_boolean, True),
      (CHR ''f'', ''alse'', TreeBool False, json_boolean, False), (CHR ''n'', ''ull'', TreeNull, json_null, False)}"
    and "first \<Longrightarrow> post = []" and "ready first tp vs" and "take (length w) cs = w"
  shows "reaches pow10 s st (stored s first tp vs (node_of first tp (length vs) t # post) (length vs + 1) (drop (length w) cs))"
proof -
  let ?st = "with_flags (fl_seek_value_update (\<lambda>_. False)) st"
  have c: "\<not> is_space c" "c \<noteq> CHR '']''" "CHR 0x00 \<notin> set w" "tree_type t = ty" "ty \<noteq> json_double"
    using assms(2) by (auto simp: is_space_def)
  note sk = seek_step [OF assms(1) c(1,2)]
  note d0 = placeD [OF sk(2)]
  have cs: "suffix cs s" "pos s cs = js_p ?st + 1" using d0(5,6) by (simp_all add: suffix_tail pos_Cons)
  have len: "length w \<le> length cs" using arg_cong [OF assms(5), of length] by simp
  have rest: "suffix (drop (length w) cs) s" "pos s (drop (length w) cs) = js_p ?st + 1 + length w"
    using take_drop_pos [OF cs(1) len] cs(2) by auto
  have word: "word_at s (js_p ?st + 1) w = Ok True"
    using word_at_pos [OF cs(1) c(3)] assms(5) cs(2) by simp
  have room: "\<not> length s - js_p ?st < length w" using suffix_length_le [OF cs(1)] cs(2) len by (simp add: pos_def)
  let ?p = "js_p ?st + length w"
  from new_value_place [OF sk(2), of ty] assms(3) c(4,5) obtain st1 where
    "new_value ty ?st = Ok st1" "place s first no_flags (Some (length vs)) (vs @ start_node first tp (length vs) t # post) (length vs + 1) (c # cs) st1"
    by auto
  moreover have "new_value ty (?st\<lparr>js_p := ?p\<rparr>) = map_outcome (\<lambda>st. st\<lparr>js_p := ?p\<rparr>) (new_value ty ?st)"
    by (simp add: new_value_def Let_def node_at_def set_node_def with_flags_def)
  ultimately obtain st2 where st2: "new_value ty (?st\<lparr>js_p := ?p\<rparr>) = Ok st2" "js_p st2 = ?p"
    "js_first st2 = first" "core (js_flags st2) = core no_flags" "js_top st2 = Some (length vs)" "js_root st2 = Some 0"
    "js_nodes st2 = vs @ start_node first tp (length vs) t # post" "js_alloc st2 = length vs + 1"
    by (auto simp: place_def)
  let ?v = "(start_node first tp (length vs) t)\<lparr>jv_boolean := (if val then True else jv_boolean (start_node first tp (length vs) t))\<rparr>"
  have v: "?v = node_of first tp (length vs) t"
    using assms(2) by (auto simp: start_node_def make_room_def fresh_node_def)
  let ?st3 = "with_flags (fl_next_update (\<lambda>_. True)) (set_node (length vs) ?v st2)"
  have "step_value s c ?st = step_word s w ty val ?st" using assms(2) by (auto simp: step_value_def)
  also have "\<dots> = Ok (Fall ?st3)" using room word st2 by (simp add: step_word_def on_top_nodes fall_def)
  finally have "json_step pow10 False s st = step_finish ?st3" using sk(1) by simp
  then show ?thesis unfolding v [symmetric]
  proof (rule fall_stored)
    show "core (js_flags ?st3) = core (no_flags\<lparr>fl_next := True\<rparr>)" using st2(4) by (simp add: core_iff)
    show "jv_parent ?v = tp" unfolding v by simp
  qed (use st2 rest assms(4) in \<open>simp_all add: d0\<close>)
qed

lemma word_value_lost:
  assumes "place s True (seek False) tp vs (length vs) (c # cs) st"
    and "(c, w) \<in> {(CHR ''t'', ''rue''), (CHR ''f'', ''alse''), (CHR ''n'', ''ull'')}" and "take (length w) cs \<noteq> w"
  shows "stops pow10 s st (Ok None)"
proof -
  let ?st = "with_flags (fl_seek_value_update (\<lambda>_. False)) st"
  have c: "\<not> is_space c" "c \<noteq> CHR '']''" "CHR 0x00 \<notin> set w" using assms(2) by (auto simp: is_space_def)
  note sk = seek_step [OF assms(1) c(1,2)]
  have cs: "suffix cs s" "pos s cs = js_p ?st + 1" using placeD(5,6) [OF sk(2)] by (simp_all add: suffix_tail pos_Cons)
  have "word_at s (js_p ?st + 1) w = Ok False" using word_at_pos [OF cs(1) c(3)] assms(3) cs(2) by simp
  then have "step_value s c ?st = Ok (Fails ''%d:%d: Unknown value'' ?st)"
    using assms(2) by (auto simp: step_value_def step_word_def fails_def)
  then show ?thesis using sk(1) by (intro stops_fails [of pow10 s st "''%d:%d: Unknown value''"]) simp
qed

end
