(* ===== verification/JsonTrees.thy ===== *)
theory JsonTrees
  imports JsonLeaves
begin

section \<open>The JSON parser takes what its reference takes\<close>

text \<open>
  By induction on the recursive descent: where it finds a value, each pass gets over the same text and
  leaves the nodes of that value, the first pass with what has to be allocated, the second one with the
  contents; where it finds none, the first pass ends the same way.
\<close>

subsection \<open>The rest is shorter\<close>

lemma then_parse_Some: "then_parse r f = Ok (Some y) \<longleftrightarrow> (\<exists>x rest. r = Ok (Some (x, rest)) \<and> f x rest = Ok (Some y))"
  by (cases r) (auto simp: then_parse_def no_parse_def split: option.splits)

lemma parsed_Some [simp]: "parsed x rest = Ok (Some (y, cs)) \<longleftrightarrow> x = y \<and> rest = cs" "no_parse \<noteq> Ok (Some z)"
  by (auto simp: parsed_def no_parse_def)

lemma skip_space_length: "length (skip_space cs) \<le> length cs"
  by (simp add: skip_space_def length_dropWhile_le)

lemma skip_space_Cons: "skip_space cs = c # ds \<Longrightarrow> length ds < length cs \<and> \<not> is_space c"
  using skip_space_length [of cs] hd_dropWhile [of is_space cs] by (auto simp: skip_space_def)

lemma number_shorter: "unsigned_number pow10 neg cs = Ok (Some (t, rest)) \<Longrightarrow> length rest \<le> length cs"
  using unsigned_number_taken [of cs pow10 neg] by (auto simp: number_taken_def)

lemma digit_number_shorter: "unsigned_number pow10 neg (c # cs) = Ok (Some (t, rest)) \<Longrightarrow> is_digit c \<Longrightarrow> length rest \<le> length cs"
  using unsigned_number_taken [of "c # cs" pow10 neg] by (auto simp: number_taken_def is_num_char_def Cons_eq_append_conv)

lemma looking_tl_length: "looking P cs \<Longrightarrow> length (tl cs) < length cs"
  by (cases cs) auto

lemma tree_shorter:
  "(value_tree pow10 n cs = Ok (Some (t, rest)) \<longrightarrow> length rest < length cs) \<and>
   (elems_tree pow10 n comma cs = Ok (Some (ts, rest)) \<longrightarrow> length rest < length cs) \<and>
   (members_tree pow10 n comma cs = Ok (Some (ms, rest)) \<longrightarrow> length rest < length cs)"
proof (induction n arbitrary: cs t ts ms comma rest)
  case (Suc n)
  have vals: "length rest < length cs" if "value_tree pow10 n cs = Ok (Some (t, rest))" for cs t rest
    using Suc.IH that by blast
  have elems: "length rest < length cs" if "elems_tree pow10 n comma cs = Ok (Some (ts, rest))" for cs ts rest comma
    using Suc.IH that by blast
  have members: "length rest < length cs" if "members_tree pow10 n comma cs = Ok (Some (ms, rest))" for cs ms rest comma
    using Suc.IH that by blast
  show ?case
  proof (cases "skip_space cs")
    case (Cons c ds)
    note len = skip_space_Cons [OF Cons]
    have "length rest < length cs" if "value_tree pow10 (Suc n) cs = Ok (Some (t, rest))"
      using that Cons len string_body_length [of ds _ rest] number_shorter [of pow10 True ds t rest]
        digit_number_shorter [of pow10 False c ds t rest]
      by (auto simp: then_parse_Some string_tree_def word_tree_def dest!: members elems
          split: if_splits option.splits)
    moreover have "length rest < length cs" if "elems_tree pow10 (Suc n) comma cs = Ok (Some (ts, rest))"
      using that Cons len
      by (auto simp: then_parse_Some dest!: elems vals split: if_splits)
    moreover have "length rest < length cs" if ms: "members_tree pow10 (Suc n) comma cs = Ok (Some (ms, rest))"
    proof (cases "c = CHR 0x22 \<and> \<not> comma")
      case True
      with ms Cons obtain key cs1 t cs2 ms2 where *: "string_body ds = Some (key, cs1)"
        "looking (\<lambda>c. c = CHR '':'') (skip_space cs1)"
        "value_tree pow10 n (tl (skip_space cs1)) = Ok (Some (t, cs2))"
        "members_tree pow10 n True cs2 = Ok (Some (ms2, rest))"
        by (auto simp: then_parse_Some split: option.splits if_splits)
      have "length rest < length cs2" using *(4) by (rule members)
      also have "\<dots> < length (tl (skip_space cs1))" using *(3) by (rule vals)
      also have "\<dots> < length (skip_space cs1)" using *(2) by (rule looking_tl_length)
      also have "\<dots> \<le> length cs1" by (rule skip_space_length)
      also have "\<dots> < length ds" using string_body_length [OF *(1)] by simp
      finally show ?thesis using len by simp
    qed (use ms Cons len in \<open>auto dest!: members split: if_splits\<close>)
    ultimately show ?thesis by blast
  qed simp
qed simp

lemmas value_shorter = tree_shorter [THEN conjunct1, rule_format]
lemmas elems_shorter = tree_shorter [THEN conjunct2, THEN conjunct1, rule_format]
lemmas members_shorter = tree_shorter [THEN conjunct2, THEN conjunct2, rule_format]

subsection \<open>Containers while they are filled\<close>

definition fill_arr :: "bool \<Rightarrow> nat \<Rightarrow> jtree list \<Rightarrow> json_value \<Rightarrow> json_value" where
  "fill_arr first i ts v = v\<lparr>jv_length := jv_length v + length ts,
     jv_elems := (if first then jv_elems v else jv_elems v @ map (\<lambda>j. ([], j)) (idxs i ts))\<rparr>"

definition fill_obj :: "bool \<Rightarrow> nat \<Rightarrow> (string \<times> jtree) list \<Rightarrow> json_value \<Rightarrow> json_value" where
  "fill_obj first i ms v = v\<lparr>jv_length := jv_length v + length ms,
     jv_names := (if first then jv_names v + names_length ms else jv_names v - names_length ms),
     jv_elems := (if first then jv_elems v else jv_elems v @ zip (map fst ms) (idxs i (map snd ms)))\<rparr>"

text \<open>An object with the name of its next member.\<close>

definition keyed :: "bool \<Rightarrow> string \<Rightarrow> json_value \<Rightarrow> json_value" where
  "keyed first key v =
     (if first then v\<lparr>jv_names := jv_names v + length key + 1\<rparr>
      else v\<lparr>jv_key := Some key, jv_names := jv_names v - (length key + 1)\<rparr>)"

lemma filled_Nil [simp]: "fill_arr first i [] v = v" "fill_obj first i [] v = v"
  by (simp_all add: fill_arr_def fill_obj_def)

lemma fill_arr_Cons:
  "jv_type v = json_array \<Longrightarrow> fill_arr first i (t # ts) v = fill_arr first (i + tsize t) ts (child first i v)"
  by (cases v) (simp add: fill_arr_def child_def Let_def)

lemma fill_obj_Cons:
  "jv_type v = json_object \<Longrightarrow> first \<or> jv_key v = None \<Longrightarrow>
    fill_obj first i ((key, t) # ms) v = fill_obj first (i + tsize t) ms (child first i (keyed first key v))"
  by (cases v; cases first) (simp_all add: fill_obj_def child_def keyed_def Let_def)

lemma child_simps [simp]:
  "jv_type (child first i v) = jv_type v" "jv_length (child first i v) = jv_length v + 1"
  "jv_room (child first i v) = jv_room v" "jv_names (child first i v) = jv_names v" "jv_parent (child first i v) = jv_parent v"
  "\<not> first \<Longrightarrow> jv_type v = json_object \<Longrightarrow> jv_key (child first i v) = None"
  by (simp_all add: child_def Let_def)

lemma keyed_simps [simp]:
  "jv_type (keyed first key v) = jv_type v" "jv_length (keyed first key v) = jv_length v"
  "jv_room (keyed first key v) = jv_room v" "jv_parent (keyed first key v) = jv_parent v"
  "jv_names (keyed False key v) = jv_names v - (length key + 1)" "jv_key (keyed False key v) = Some key"
  by (simp_all add: keyed_def)

lemma fill_start:
  "fill_arr first (i + 1) ts (start_node first p i (TreeArr ts)) = node_of first p i (TreeArr ts)"
  "fill_obj first (i + 1) ms (start_node first p i (TreeObj ms)) = node_of first p i (TreeObj ms)"
  by (cases ts; simp add: fill_arr_def start_node_def make_room_def fresh_node_def)
    (cases ms; simp add: fill_obj_def start_node_def make_room_def fresh_node_def)

subsection \<open>What the induction shows\<close>

text \<open>A container that may take the values of a text, and its nodes when it has them.\<close>

definition elems_fit :: "bool \<Rightarrow> nat \<Rightarrow> json_value list \<Rightarrow> jtree list \<Rightarrow> string \<Rightarrow> bool" where
  "elems_fit first k vs ts cs \<longleftrightarrow> k < length vs \<and> jv_type (vs ! k) = json_array \<and>
     jv_length (vs ! k) + length cs \<le> json_uint_max \<and> (first \<or> jv_length (vs ! k) + length ts \<le> jv_room (vs ! k))"

definition members_fit :: "bool \<Rightarrow> nat \<Rightarrow> json_value list \<Rightarrow> (string \<times> jtree) list \<Rightarrow> string \<Rightarrow> bool" where
  "members_fit first k vs ms cs \<longleftrightarrow> k < length vs \<and> jv_type (vs ! k) = json_object \<and>
     jv_length (vs ! k) + length cs \<le> json_uint_max \<and>
     (first \<or> jv_length (vs ! k) + length ms \<le> jv_room (vs ! k) \<and> names_length ms \<le> jv_names (vs ! k) \<and> jv_key (vs ! k) = None)"

definition elems_done :: "string \<Rightarrow> bool \<Rightarrow> nat \<Rightarrow> json_value list \<Rightarrow> jtree list \<Rightarrow> json_value list \<Rightarrow> string \<Rightarrow> json_state \<Rightarrow> bool" where
  "elems_done s first k vs ts post rest st \<longleftrightarrow> (\<exists>c. place s first (seek c) (Some k)
     (vs[k := fill_arr first (length vs) ts (vs ! k)] @ lays first (Some k) (length vs) ts @ post)
     (length vs + tsizes ts) (CHR '']'' # rest) st)"

definition members_done :: "string \<Rightarrow> bool \<Rightarrow> nat \<Rightarrow> json_value list \<Rightarrow> (string \<times> jtree) list \<Rightarrow> json_value list \<Rightarrow> string \<Rightarrow> json_state \<Rightarrow> bool" where
  "members_done s first k vs ms post rest st \<longleftrightarrow> (\<exists>c. place s first (members c) (Some k)
     (vs[k := fill_obj first (length vs) ms (vs ! k)] @ lays first (Some k) (length vs) (map snd ms) @ post)
     (length vs + tsizes (map snd ms)) (CHR ''}'' # rest) st)"

text \<open>The nodes with one more value in a container, and in an object behind its name.\<close>

definition with_child :: "bool \<Rightarrow> nat \<Rightarrow> json_value list \<Rightarrow> jtree \<Rightarrow> json_value list" where
  "with_child first k vs t = vs[k := child first (length vs) (vs ! k)] @ lay first (Some k) (length vs) t"

definition with_key :: "bool \<Rightarrow> nat \<Rightarrow> json_value list \<Rightarrow> string \<Rightarrow> json_value list" where
  "with_key first k vs key = vs[k := keyed first key (vs ! k)]"

lemma with_child_simps [simp]:
  "length (with_child first k vs t) = length vs + tsize t"
  "k < length vs \<Longrightarrow> with_child first k vs t ! k = child first (length vs) (vs ! k)"
  by (simp_all add: with_child_def nth_append)

lemma with_key_simps [simp]:
  "length (with_key first k vs key) = length vs" "k < length vs \<Longrightarrow> with_key first k vs key ! k = keyed first key (vs ! k)"
  by (simp_all add: with_key_def)

lemma elems_fit_shorter: "elems_fit first k vs ts cs \<Longrightarrow> length ds \<le> length cs \<Longrightarrow> elems_fit first k vs ts ds"
  by (simp add: elems_fit_def)

lemma elems_fit_Cons:
  "elems_fit first k vs (t # ts) cs \<Longrightarrow> length ds < length cs \<Longrightarrow> elems_fit first k (with_child first k vs t) ts ds"
  by (auto simp: elems_fit_def)

lemma elems_fit_ready: "elems_fit first k vs (t # ts) cs \<Longrightarrow> cs \<noteq> [] \<Longrightarrow> ready first (Some k) vs"
  by (cases cs) (auto simp: elems_fit_def ready_def)

lemma elems_done_Cons:
  "elems_fit first k vs (t # ts) cs \<Longrightarrow>
    elems_done s first k (with_child first k vs t) ts post rest st = elems_done s first k vs (t # ts) post rest st"
  by (simp add: elems_done_def elems_fit_def fill_arr_Cons add.assoc) (simp add: with_child_def list_update_append)

lemma members_fit_shorter: "members_fit first k vs ms cs \<Longrightarrow> length ds \<le> length cs \<Longrightarrow> members_fit first k vs ms ds"
  by (simp add: members_fit_def)

lemma members_fit_Cons:
  "members_fit first k vs ((key, t) # ms) cs \<Longrightarrow> length ds < length cs \<Longrightarrow>
    members_fit first k (with_child first k (with_key first k vs key) t) ms ds"
  by (cases first) (auto simp: members_fit_def)

lemma members_fit_ready:
  "members_fit first k vs ((key, t) # ms) cs \<Longrightarrow> cs \<noteq> [] \<Longrightarrow> ready first (Some k) (with_key first k vs key)"
  by (cases cs) (auto simp: members_fit_def ready_def)

lemma members_done_Cons:
  "members_fit first k vs ((key, t) # ms) cs \<Longrightarrow>
    members_done s first k (with_child first k (with_key first k vs key) t) ms post rest st =
    members_done s first k vs ((key, t) # ms) post rest st"
  by (auto simp: members_done_def members_fit_def fill_obj_Cons add.assoc with_child_def with_key_def list_update_append nth_append)

definition value_ok :: "(int \<Rightarrow> 64 word) \<Rightarrow> nat \<Rightarrow> bool" where
  "value_ok pow10 n \<longleftrightarrow> (\<forall>cs t rest s first tp vs post st.
     value_tree pow10 n cs = Ok (Some (t, rest)) \<longrightarrow> length s \<le> json_uint_max \<longrightarrow>
     place s first (seek False) tp (vs @ before first (lay True tp (length vs) t) @ post) (length vs) cs st \<longrightarrow>
     (first \<longrightarrow> post = []) \<longrightarrow> ready first tp vs \<longrightarrow>
     reaches pow10 s st (stored s first tp vs (lay first tp (length vs) t @ post) (length vs + tsize t) rest))"

definition elems_ok :: "(int \<Rightarrow> 64 word) \<Rightarrow> nat \<Rightarrow> bool" where
  "elems_ok pow10 n \<longleftrightarrow> (\<forall>comma cs ts rest s first k vs post st.
     elems_tree pow10 n comma cs = Ok (Some (ts, rest)) \<longrightarrow> length s \<le> json_uint_max \<longrightarrow>
     place s first (seek comma) (Some k) (vs @ before first (lays True (Some k) (length vs) ts) @ post) (length vs) cs st \<longrightarrow>
     (first \<longrightarrow> post = []) \<longrightarrow> elems_fit first k vs ts cs \<longrightarrow> reaches pow10 s st (elems_done s first k vs ts post rest))"

definition members_ok :: "(int \<Rightarrow> 64 word) \<Rightarrow> nat \<Rightarrow> bool" where
  "members_ok pow10 n \<longleftrightarrow> (\<forall>comma cs ms rest s first k vs post st.
     members_tree pow10 n comma cs = Ok (Some (ms, rest)) \<longrightarrow> length s \<le> json_uint_max \<longrightarrow>
     place s first (members comma) (Some k) (vs @ before first (lays True (Some k) (length vs) (map snd ms)) @ post) (length vs) cs st \<longrightarrow>
     (first \<longrightarrow> post = []) \<longrightarrow> members_fit first k vs ms cs \<longrightarrow> reaches pow10 s st (members_done s first k vs ms post rest))"

lemma value_okD:
  assumes "value_ok pow10 n" and "value_tree pow10 n cs = Ok (Some (t, rest))" and "length s \<le> json_uint_max"
    and "place s first (seek False) tp (vs @ before first (lay True tp (length vs) t) @ post) (length vs) cs st"
    and "first \<Longrightarrow> post = []" and "ready first tp vs"
  shows "reaches pow10 s st (stored s first tp vs (lay first tp (length vs) t @ post) (length vs + tsize t) rest)"
  using assms(1) [unfolded value_ok_def, rule_format, OF assms(2-4) _ assms(6)] assms(5) by blast

lemma elems_okD:
  assumes "elems_ok pow10 n" and "elems_tree pow10 n comma cs = Ok (Some (ts, rest))" and "length s \<le> json_uint_max"
    and "place s first (seek comma) (Some k) (vs @ before first (lays True (Some k) (length vs) ts) @ post) (length vs) cs st"
    and "first \<Longrightarrow> post = []" and "elems_fit first k vs ts cs"
  shows "reaches pow10 s st (elems_done s first k vs ts post rest)"
  using assms(1) [unfolded elems_ok_def, rule_format, OF assms(2-4) _ assms(6)] assms(5) by blast

lemma members_okD:
  assumes "members_ok pow10 n" and "members_tree pow10 n comma cs = Ok (Some (ms, rest))" and "length s \<le> json_uint_max"
    and "place s first (members comma) (Some k) (vs @ before first (lays True (Some k) (length vs) (map snd ms)) @ post) (length vs) cs st"
    and "first \<Longrightarrow> post = []" and "members_fit first k vs ms cs"
  shows "reaches pow10 s st (members_done s first k vs ms post rest)"
  using assms(1) [unfolded members_ok_def, rule_format, OF assms(2-4) _ assms(6)] assms(5) by blast

lemma child_reaches:
  assumes "value_ok pow10 n" and "value_tree pow10 n cs = Ok (Some (t, rest))" and "length s \<le> json_uint_max"
    and "place s first (seek False) (Some k) (vs @ before first (lay True (Some k) (length vs) t) @ post) (length vs) cs st"
    and "first \<Longrightarrow> post = []" and "ready first (Some k) vs"
  shows "reaches pow10 s st (place s first (if jv_type (vs ! k) = json_array then seek True else members True) (Some k)
    (with_child first k vs t @ post) (length vs + tsize t) rest)"
proof -
  have "stored s first (Some k) vs ws a cs = place s first (after_flags (Some k) vs) (Some k) (put first (Some k) (length vs) vs @ ws) a cs"
    for ws a cs by (rule ext) (simp add: stored_def value_top_def)
  with value_okD [OF assms] show ?thesis by (simp add: after_flags_def put_def with_child_def)
qed

lemma reaches_space:
  assumes "place s first f tp vs a cs st" and "at_space f tp vs"
    and "\<And>st'. place s first f tp vs a (skip_space cs) st' \<Longrightarrow> reaches pow10 s st' P"
  shows "reaches pow10 s st P"
  using skip_space_reaches [OF assms(1,2)] by (rule reaches_trans) (rule assms(3))

lemma stops_space:
  assumes "place s first f tp vs a cs st" and "at_space f tp vs"
    and "\<And>st'. place s first f tp vs a (skip_space cs) st' \<Longrightarrow> stops pow10 s st' r"
  shows "stops pow10 s st r"
  using skip_space_reaches [OF assms(1,2)] by (rule reaches_stops) (rule assms(3))

lemma at_space_simps [simp]:
  "at_space (seek comma) tp vs" "at_space seek_colon tp vs" "at_space whole tp vs"
  "k < length vs \<Longrightarrow> jv_type (vs ! k) = json_object \<Longrightarrow> at_space (members comma) (Some k) vs"
  by (simp_all add: at_space_def flag_defs)

text \<open>A comma in an array or an object.\<close>

lemma array_comma:
  assumes "place s first (seek True) tp vs a (CHR '','' # cs) st"
  shows "reaches pow10 s st (place s first (seek False) tp vs a cs)"
proof -
  note p = placeD [OF assms]
  let ?st = "(with_flags (fl_need_comma_update (\<lambda>_. False)) st)\<lparr>js_p := js_p st + 1\<rparr>"
  have "json_step pow10 False s st = Ok (Go ?st)"
    using p by (simp add: json_step_place [OF assms] step_rest_plain step_seek_def flag_defs continue_def go_def is_space_def)
  moreover have "place s first (seek False) tp vs a cs ?st"
    using p by (simp add: place_def core_iff flag_defs suffix_tail pos_Cons)
  ultimately show ?thesis using p(5,6)
    by (intro reaches_step [of pow10 s st ?st]) (simp_all add: pos_Cons pos_less_Cons)
qed

lemma object_comma:
  assumes "place s first (members True) (Some k) vs a (CHR '','' # cs) st" and "k < length vs" and "jv_type (vs ! k) = json_object"
  shows "reaches pow10 s st (place s first (members False) (Some k) vs a cs)"
proof -
  note p = placeD [OF assms(1)]
  let ?st = "(with_flags (fl_need_comma_update (\<lambda>_. False)) st)\<lparr>js_p := js_p st + 1\<rparr>"
  have "json_step pow10 False s st = Ok (Go ?st)"
    using p assms(2,3) by (simp add: json_step_place [OF assms(1)] step_rest_plain step_top_def on_top_nodes step_object_def
        flag_defs fall_def go_def is_space_def step_finish_def Let_def with_flags_def)
  moreover have "place s first (members False) (Some k) vs a cs ?st"
    using p by (simp add: place_def core_iff flag_defs suffix_tail pos_Cons)
  ultimately show ?thesis using p(5,6)
    by (intro reaches_step [of pow10 s st ?st]) (simp_all add: pos_Cons pos_less_Cons)
qed

text \<open>The bracket that opens a container.\<close>

lemma container_opens:
  assumes "place s first (seek False) tp (vs @ before first (node_of True tp (length vs) t # us) @ post) (length vs) (c # cs) st"
    and "first \<Longrightarrow> post = []"
    and "c = CHR ''{'' \<and> tree_type t = json_object \<and> f = members False \<or> c = CHR ''['' \<and> tree_type t = json_array \<and> f = seek False"
  shows "reaches pow10 s st (place s first f (Some (length vs)) (vs @ start_node first tp (length vs) t # before first us @ post)
    (length vs + 1) cs)"
proof -
  let ?st = "with_flags (fl_seek_value_update (\<lambda>_. False)) st"
  have c: "\<not> is_space c" "c \<noteq> CHR '']''" using assms(3) by (auto simp: is_space_def)
  note sk = seek_step [OF assms(1) c]
  from new_value_place [OF sk(2), of "tree_type t"] assms(2,3) obtain st1 where st1: "new_value (tree_type t) ?st = Ok st1"
    "place s first no_flags (Some (length vs)) (vs @ start_node first tp (length vs) t # before first us @ post) (length vs + 1) (c # cs) st1"
    by auto
  note d = placeD [OF st1(2)]
  let ?st2 = "(if c = CHR ''['' then with_flags (fl_seek_value_update (\<lambda>_. True)) st1 else st1)\<lparr>js_p := js_p st1 + 1\<rparr>"
  have "json_step pow10 False s st = Ok (Go ?st2)"
    using assms(3) by (elim disjE) (use st1(1) sk(1) in \<open>simp_all add: step_value_def continue_def go_def\<close>)
  moreover have "place s first f (Some (length vs)) (vs @ start_node first tp (length vs) t # before first us @ post)
      (length vs + 1) cs ?st2"
    using assms(3) by (elim disjE) (use st1(2) suffix_tail [OF d(5)] pos_Cons [OF d(5)] in \<open>simp_all add: place_def core_iff flag_defs\<close>)
  moreover have "js_p st < js_p ?st2" "js_p ?st2 \<le> length s"
    using d(5,6) placeD(6) [OF assms(1)] by (simp_all add: pos_Cons pos_less_Cons)
  ultimately show ?thesis by (intro reaches_step [of pow10 s st ?st2])
qed

text \<open>The name of a member, and the colon.\<close>

lemma key_opens:
  assumes "place s first (members False) (Some k) vs a (CHR 0x22 # cs) st" and "k < length vs"
    and "jv_type (vs ! k) = json_object"
  shows "reaches pow10 s st (quoted s False first (Some k) vs a 0 [] (jv_names (vs ! k)) cs)"
proof -
  note p = placeD [OF assms(1)]
  let ?st = "(with_flags (fl_string_update (\<lambda>_. True)) (st\<lparr>js_string := [], js_room := jv_names (vs ! k), js_string_length := 0\<rparr>))
    \<lparr>js_p := js_p st + 1\<rparr>"
  have "json_step pow10 False s st = Ok (Go ?st)"
    using p assms(2,3) by (simp add: json_step_place [OF assms(1)] step_rest_plain step_top_def on_top_nodes step_object_def
        flag_defs fall_def go_def is_space_def step_finish_def Let_def with_flags_def)
  moreover have "quoted s False first (Some k) vs a 0 [] (jv_names (vs ! k)) cs ?st"
    using p by (simp add: quoted_def place_def core_iff flag_defs suffix_tail pos_Cons)
  ultimately show ?thesis using p(5,6)
    by (intro reaches_step [of pow10 s st ?st]) (simp_all add: pos_Cons pos_less_Cons)
qed

lemma key_closes:
  assumes "quoted s False first (Some k) vs a n str room (CHR 0x22 # rest) st" and "k < length vs"
    and "jv_type (vs ! k) = json_object" and "n \<le> json_uint_max" and "n = length key" and "\<not> first \<Longrightarrow> str = key"
    and "first \<or> length key < room \<and> jv_length (vs ! k) < jv_room (vs ! k)"
  shows "reaches pow10 s st (place s first seek_colon (Some k) (vs[k := keyed first key (vs ! k)]) a rest)"
proof -
  note q = quotedD [OF assms(1)] and p = placeD [OF quotedD(1) [OF assms(1)]]
  let ?st = "(set_node k (keyed first key (vs ! k)) (with_flags (\<lambda>f. f\<lparr>fl_seek_value := True, fl_need_colon := True\<rparr>)
    (with_flags (fl_string_update (\<lambda>_. False)) st)))\<lparr>js_p := js_p st + 1\<rparr>"
  have "close_string st = Ok (Go ?st)"
    using assms(2,3,5-7) q p
    by (cases first) (simp_all add: close_string_def string_end_def on_top_nodes continue_def go_def keyed_def Let_def)
  then have "json_step pow10 False s st = Ok (Go ?st)"
    using assms(4) by (simp add: quoted_step [OF assms(1)])
  moreover have "place s first seek_colon (Some k) (vs[k := keyed first key (vs ! k)]) a rest ?st"
    using p by (simp add: place_def core_iff flag_defs suffix_tail pos_Cons)
  ultimately show ?thesis using p(5,6)
    by (intro reaches_step [of pow10 s st ?st]) (simp_all add: pos_Cons pos_less_Cons)
qed

lemma key_reaches:
  assumes "place s first (members False) (Some k) vs a (CHR 0x22 # cs) st" and "k < length vs"
    and "jv_type (vs ! k) = json_object" and "string_body cs = Some (key, rest)" and "length s \<le> json_uint_max"
    and "first \<or> length key < jv_names (vs ! k) \<and> jv_length (vs ! k) < jv_room (vs ! k)"
  shows "reaches pow10 s st (place s first seek_colon (Some k) (vs[k := keyed first key (vs ! k)]) a rest)"
proof (rule reaches_trans [OF key_opens [OF assms(1-3)]])
  fix st1 assume st1: "quoted s False first (Some k) vs a 0 [] (jv_names (vs ! k)) cs st1"
  have len: "length cs \<le> json_uint_max" using placeD(5) [OF quotedD(1) [OF st1]] assms(5) suffix_length_le order_trans by blast
  have "reaches pow10 s st1 (quoted s False first (Some k) vs a (length key) (if first then [] else key) (jv_names (vs ! k)) (CHR 0x22 # rest))"
    using string_reaches [OF st1 _ assms(4), of pow10] len assms(6) by (cases first) simp_all
  then show "reaches pow10 s st1 (place s first seek_colon (Some k) (vs[k := keyed first key (vs ! k)]) a rest)"
    by (rule reaches_trans, intro key_closes [OF _ assms(2,3), where n = "length key" and str = "if first then [] else key"])
      (use string_body_length [OF assms(4)] len assms(6) in auto)
qed

lemma key_stops:
  assumes "place s True (members False) (Some k) vs a (CHR 0x22 # cs) st" and "k < length vs"
    and "jv_type (vs ! k) = json_object" and "string_body cs = None" and "length s \<le> json_uint_max"
  shows "stops pow10 s st (Ok None)"
proof (rule reaches_stops [OF key_opens [OF assms(1-3)]])
  fix st1 assume st1: "quoted s False True (Some k) vs a 0 [] (jv_names (vs ! k)) cs st1"
  have "length cs \<le> json_uint_max" using placeD(5) [OF quotedD(1) [OF st1]] assms(5) suffix_length_le order_trans by blast
  with string_stops [OF st1 _ assms(4)] show "stops pow10 s st1 (Ok None)" by simp
qed

lemma colon_reaches:
  assumes "place s first seek_colon tp vs a (CHR '':'' # cs) st"
  shows "reaches pow10 s st (place s first (seek False) tp vs a cs)"
proof -
  note p = placeD [OF assms]
  let ?st = "(with_flags (fl_need_colon_update (\<lambda>_. False)) st)\<lparr>js_p := js_p st + 1\<rparr>"
  have "json_step pow10 False s st = Ok (Go ?st)"
    using p by (simp add: json_step_place [OF assms] step_rest_plain step_seek_def flag_defs continue_def go_def is_space_def)
  moreover have "place s first (seek False) tp vs a cs ?st"
    using p by (simp add: place_def core_iff flag_defs suffix_tail pos_Cons)
  ultimately show ?thesis using p(5,6)
    by (intro reaches_step [of pow10 s st ?st]) (simp_all add: pos_Cons pos_less_Cons)
qed

lemma colon_stops:
  assumes "place s first seek_colon (Some k) vs a cs st" and "k < length vs" and "jv_type (vs ! k) = json_object"
    and "\<not> looking is_space cs" and "\<not> looking (\<lambda>c. c = CHR '':'') cs"
  shows "stops pow10 s st (Ok None)"
proof -
  note p = placeD [OF assms(1)]
  have c: "\<not> is_space (next_char cs)" "next_char cs \<noteq> CHR '':''"
    using next_char_looking [OF assms(4)] next_char_looking [OF assms(5)] by simp_all
  have "\<exists>msg ft. json_step pow10 False s st = Ok (Fails msg ft)"
    using p c assms(2,3) by (simp add: json_step_place [OF assms(1)] step_rest_plain step_seek_def top_is_def node_at_def
        flag_defs fails_def)
  then show ?thesis by (auto intro: stops_fails)
qed

lemma skip_space_not_space: "\<not> looking is_space (skip_space cs)"
proof (cases "skip_space cs")
  case (Cons c ds)
  then show ?thesis using skip_space_Cons by fastforce
qed simp

subsection \<open>The induction for texts with a value\<close>

lemma elems_ok_Suc:
  assumes "value_ok pow10 n" and "elems_ok pow10 n"
  shows "elems_ok pow10 (Suc n)"
  unfolding elems_ok_def
proof (intro allI impI)
  fix comma cs ts rest s first k vs post st
  assume ts: "elems_tree pow10 (Suc n) comma cs = Ok (Some (ts, rest))" and max: "length s \<le> json_uint_max"
    and st: "place s first (seek comma) (Some k) (vs @ before first (lays True (Some k) (length vs) ts) @ post) (length vs) cs st"
    and post: "first \<longrightarrow> post = []" and fit: "elems_fit first k vs ts cs"
  obtain c ds where cs: "skip_space cs = c # ds" using ts by (cases "skip_space cs") auto
  note sp = skip_space_Cons [OF cs] and len = skip_space_length [of cs]
  show "reaches pow10 s st (elems_done s first k vs ts post rest)"
  proof (rule reaches_space [OF st])
    fix st1 assume st1: "place s first (seek comma) (Some k) (vs @ before first (lays True (Some k) (length vs) ts) @ post)
      (length vs) (skip_space cs) st1"
    consider "c = CHR '']''" | "c \<noteq> CHR '']''" "comma" | "c \<noteq> CHR '']''" "\<not> comma" by blast
    then show "reaches pow10 s st1 (elems_done s first k vs ts post rest)"
    proof cases
      case 1
      then have "ts = []" "rest = ds" using ts cs by simp_all
      with 1 cs st1 show ?thesis by (auto intro!: reaches_refl simp: elems_done_def)
    next
      case 2
      then have c: "c = CHR '',''" "elems_tree pow10 n False ds = Ok (Some (ts, rest))"
        using ts cs by (simp_all split: if_splits)
      have "elems_fit first k vs ts ds" using sp by (intro elems_fit_shorter [OF fit]) simp
      moreover have "place s first (seek True) (Some k) (vs @ before first (lays True (Some k) (length vs) ts) @ post)
        (length vs) (CHR '','' # ds) st1" using st1 cs c(1) 2 by simp
      ultimately show ?thesis
        using elems_okD [OF assms(2) c(2) max] post by (blast intro: reaches_trans [OF array_comma])
    next
      case 3
      then obtain t cs1 us where t: "value_tree pow10 n (c # ds) = Ok (Some (t, cs1))"
        "elems_tree pow10 n True cs1 = Ok (Some (us, rest))" "ts = t # us"
        using ts cs by (auto simp: then_parse_Some)
      have fit': "elems_fit first k vs (t # us) (c # ds)" using elems_fit_shorter [OF fit] len cs t(3) by simp
      have k: "jv_type (vs ! k) = json_array" using fit by (simp add: elems_fit_def)
      show ?thesis
      proof (rule reaches_trans [OF child_reaches [OF assms(1) t(1) max, where k = k]])
        show "place s first (seek False) (Some k) (vs @ before first (lay True (Some k) (length vs) t) @
            before first (lays True (Some k) (length vs + tsize t) us) @ post) (length vs) (c # ds) st1"
          using st1 cs 3(2) t(3) by simp
        fix st2 assume "place s first (if jv_type (vs ! k) = json_array then seek True else members True) (Some k)
          (with_child first k vs t @ before first (lays True (Some k) (length vs + tsize t) us) @ post) (length vs + tsize t) cs1 st2"
        with k post show "reaches pow10 s st2 (elems_done s first k vs ts post rest)"
          using elems_okD [OF assms(2) t(2) max _ _ elems_fit_Cons [OF fit' value_shorter [OF t(1)]]]
          unfolding t(3) elems_done_Cons [OF fit', abs_def] by simp
      qed (use post elems_fit_ready [OF fit'] in auto)
    qed
  qed simp
qed

text \<open>A member up to its value.\<close>

lemma member_opens:
  assumes "place s first (members False) (Some k) (vs @ ws) a (CHR 0x22 # ds) st" and "members_fit first k vs ((key, t) # ms) cs"
    and "cs \<noteq> []" and "string_body ds = Some (key, cs1)" and "skip_space cs1 = CHR '':'' # es" and "length s \<le> json_uint_max"
  shows "reaches pow10 s st (place s first (seek False) (Some k) (with_key first k vs key @ ws) a es)"
proof -
  have k: "k < length (vs @ ws)" "jv_type ((vs @ ws) ! k) = json_object" "(vs @ ws) ! k = vs ! k"
    using assms(2) by (simp_all add: members_fit_def nth_append)
  have room: "first \<or> length key < jv_names (vs ! k) \<and> jv_length (vs ! k) < jv_room (vs ! k)"
    using assms(2) by (auto simp: members_fit_def)
  have "reaches pow10 s st (place s first seek_colon (Some k) ((vs @ ws)[k := keyed first key (vs ! k)]) a cs1)"
    using key_reaches [OF assms(1) k(1,2) assms(4,6), of pow10] room unfolding k(3) .
  moreover have ws: "(vs @ ws)[k := keyed first key (vs ! k)] = with_key first k vs key @ ws"
    using assms(2) by (simp add: with_key_def members_fit_def list_update_append)
  moreover have "reaches pow10 s st1 (place s first (seek False) (Some k) us a es)"
    if "place s first seek_colon (Some k) us a cs1 st1" for st1 us
    using that by (rule reaches_space) (use assms(5) in \<open>auto intro: colon_reaches\<close>)
  ultimately show ?thesis by (auto elim: reaches_trans)
qed

lemma member_ok:
  assumes "value_ok pow10 n" and "members_ok pow10 n"
    and "string_body ds = Some (key, cs1)" and "skip_space cs1 = CHR '':'' # es"
    and "value_tree pow10 n es = Ok (Some (t, cs2))" and "members_tree pow10 n True cs2 = Ok (Some (ms, rest))"
    and "place s first (members False) (Some k) (vs @ before first (lays True (Some k) (length vs) (t # map snd ms)) @ post)
      (length vs) (CHR 0x22 # ds) st"
    and "first \<Longrightarrow> post = []" and fit: "members_fit first k vs ((key, t) # ms) (CHR 0x22 # ds)" and max: "length s \<le> json_uint_max"
  shows "reaches pow10 s st (members_done s first k vs ((key, t) # ms) post rest)"
proof (rule reaches_trans [OF member_opens [OF assms(7) fit _ assms(3,4) max]])
  let ?vs = "with_key first k vs key" and ?post = "before first (lays True (Some k) (length vs + tsize t) (map snd ms)) @ post"
  fix st1 assume st1: "place s first (seek False) (Some k) (?vs @ before first (lays True (Some k) (length vs) (t # map snd ms)) @ post)
    (length vs) es st1"
  have k: "jv_type (?vs ! k) = json_object" "length ?vs = length vs" using fit by (simp_all add: members_fit_def)
  have shorter: "length cs2 < length (CHR 0x22 # ds)"
    using value_shorter [OF assms(5)] assms(4) skip_space_length [of cs1] string_body_length [OF assms(3)] by simp
  show "reaches pow10 s st1 (members_done s first k vs ((key, t) # ms) post rest)"
  proof (rule reaches_trans [OF child_reaches [OF assms(1,5) max, where k = k and vs = ?vs and post = ?post]])
    fix st2 assume "place s first (if jv_type (?vs ! k) = json_array then seek True else members True) (Some k)
      (with_child first k ?vs t @ ?post) (length ?vs + tsize t) cs2 st2"
    with k assms(8) show "reaches pow10 s st2 (members_done s first k vs ((key, t) # ms) post rest)"
      using members_okD [OF assms(2,6) max _ _ members_fit_Cons [OF fit shorter]]
      unfolding members_done_Cons [OF fit, abs_def] by simp
  qed (use st1 assms(8) members_fit_ready [OF fit] in auto)
qed simp

lemma members_ok_Suc:
  assumes "value_ok pow10 n" and "members_ok pow10 n"
  shows "members_ok pow10 (Suc n)"
  unfolding members_ok_def
proof (intro allI impI)
  fix comma cs and ms :: "(string \<times> jtree) list" and rest s first k vs post st
  let ?ws = "vs @ before first (lays True (Some k) (length vs) (map snd ms)) @ post"
  assume ms: "members_tree pow10 (Suc n) comma cs = Ok (Some (ms, rest))" and max: "length s \<le> json_uint_max"
    and st: "place s first (members comma) (Some k) ?ws (length vs) cs st"
    and post: "first \<longrightarrow> post = []" and fit: "members_fit first k vs ms cs"
  have k: "k < length ?ws" "jv_type (?ws ! k) = json_object" using fit by (simp_all add: members_fit_def nth_append)
  obtain c ds where cs: "skip_space cs = c # ds" using ms by (cases "skip_space cs") auto
  note sp = skip_space_Cons [OF cs] and len = skip_space_length [of cs]
  show "reaches pow10 s st (members_done s first k vs ms post rest)"
  proof (rule reaches_space [OF st])
    fix st1 assume st1: "place s first (members comma) (Some k) ?ws (length vs) (skip_space cs) st1"
    consider "c = CHR ''}''" | "c = CHR '',''" "comma" | "c \<noteq> CHR ''}''" "\<not> (c = CHR '','' \<and> comma)" by blast
    then show "reaches pow10 s st1 (members_done s first k vs ms post rest)"
    proof cases
      case 1
      then have "ms = []" "rest = ds" using ms cs by simp_all
      with 1 cs st1 show ?thesis by (auto intro!: reaches_refl simp: members_done_def)
    next
      case 2
      then have c: "members_tree pow10 n False ds = Ok (Some (ms, rest))" using ms cs by simp
      have "members_fit first k vs ms ds" using sp by (intro members_fit_shorter [OF fit]) simp
      moreover have "place s first (members True) (Some k) ?ws (length vs) (CHR '','' # ds) st1" using st1 cs 2 by simp
      note reaches_trans [OF object_comma [OF this k]]
      ultimately show ?thesis using members_okD [OF assms(2) c max] post by blast
    next
      case 3
      then obtain key cs1 t cs2 us where t: "c = CHR 0x22" "\<not> comma" "string_body ds = Some (key, cs1)"
        "looking (\<lambda>c. c = CHR '':'') (skip_space cs1)"
        "value_tree pow10 n (tl (skip_space cs1)) = Ok (Some (t, cs2))"
        "members_tree pow10 n True cs2 = Ok (Some (us, rest))" "ms = (key, t) # us"
        using ms cs by (auto simp: then_parse_Some split: option.splits if_splits)
      obtain es where es: "skip_space cs1 = CHR '':'' # es" using t(4) by (cases "skip_space cs1") auto
      have "members_fit first k vs ((key, t) # us) (CHR 0x22 # ds)" using members_fit_shorter [OF fit] len cs t(1,7) by simp
      with st1 cs t(1,2,5) es post show ?thesis unfolding t(7)
        by (intro member_ok [OF assms t(3) es _ t(6) _ _ _ max]) (auto simp: t(7))
    qed
  qed (use k in simp)
qed

lemma lay_leaf: "kids t = [] \<Longrightarrow> lay first p i t = [node_of first p i t]" "kids t = [] \<Longrightarrow> tsize t = 1"
  by (simp_all add: lay.simps tsize.simps)

text \<open>A container that was just opened is behind the nodes before it.\<close>

lemma opened_fit:
  assumes "ready first tp vs" and "length ds < length s" and "length s \<le> json_uint_max"
  shows "elems_fit first (length vs) (vs @ [start_node first tp (length vs) (TreeArr ts)]) ts ds"
    and "members_fit first (length vs) (vs @ [start_node first tp (length vs) (TreeObj ms)]) ms ds"
  using assms by (simp_all add: elems_fit_def members_fit_def start_node_def make_room_def fresh_node_def)

lemma array_ok:
  assumes "elems_ok pow10 n" and "elems_tree pow10 n False ds = Ok (Some (ts, rest))" and "length s \<le> json_uint_max"
    and st: "place s first (seek False) tp (vs @ before first (lay True tp (length vs) (TreeArr ts)) @ post) (length vs) (CHR ''['' # ds) st"
    and post: "first \<Longrightarrow> post = []" and ready: "ready first tp vs"
  shows "reaches pow10 s st (stored s first tp vs (lay first tp (length vs) (TreeArr ts) @ post) (length vs + tsize (TreeArr ts)) rest)"
proof -
  let ?i = "length vs" and ?vs = "vs @ [start_node first tp (length vs) (TreeArr ts)]"
  have "length ds < length s" using suffix_length_le [OF placeD(5) [OF st]] by simp
  note fit = opened_fit(1) [OF ready this assms(3)]
  have "place s first (seek False) tp (vs @ before first (node_of True tp ?i (TreeArr ts) # lays True (Some ?i) (?i + 1) ts) @ post)
      ?i (CHR ''['' # ds) st" using st by (simp add: lay.simps)
  from container_opens [OF this, of "seek False" pow10] post
  have "reaches pow10 s st (place s first (seek False) (Some ?i) (?vs @ before first (lays True (Some ?i) (length ?vs) ts) @ post)
      (length ?vs) ds)" by simp
  then show ?thesis
  proof (rule reaches_trans [OF reaches_trans [OF _ elems_okD [OF assms(1-3) _ post fit]]])
    fix st2 assume "elems_done s first ?i ?vs ts post rest st2"
    then obtain c where "place s first (seek c) (Some ?i)
        (vs @ node_of first tp ?i (TreeArr ts) # lays first (Some ?i) (?i + 1) ts @ post) (?i + 1 + tsizes ts) (CHR '']'' # rest) st2"
      using fill_start(1) [of first ?i ts tp] by (auto simp: elems_done_def)
    from array_closes [OF this _ _ _ ready]
    show "reaches pow10 s st2 (stored s first tp vs (lay first tp ?i (TreeArr ts) @ post) (?i + tsize (TreeArr ts)) rest)"
      by (simp add: lay.simps tsize.simps del: node_of.simps)
  qed
qed

lemma object_ok:
  assumes "members_ok pow10 n" and "members_tree pow10 n False ds = Ok (Some (ms, rest))" and "length s \<le> json_uint_max"
    and st: "place s first (seek False) tp (vs @ before first (lay True tp (length vs) (TreeObj ms)) @ post) (length vs) (CHR ''{'' # ds) st"
    and post: "first \<Longrightarrow> post = []" and ready: "ready first tp vs"
  shows "reaches pow10 s st (stored s first tp vs (lay first tp (length vs) (TreeObj ms) @ post) (length vs + tsize (TreeObj ms)) rest)"
proof -
  let ?i = "length vs" and ?vs = "vs @ [start_node first tp (length vs) (TreeObj ms)]" and ?ts = "map snd ms"
  have "length ds < length s" using suffix_length_le [OF placeD(5) [OF st]] by simp
  note fit = opened_fit(2) [OF ready this assms(3)]
  have "place s first (seek False) tp (vs @ before first (node_of True tp ?i (TreeObj ms) # lays True (Some ?i) (?i + 1) ?ts) @ post)
      ?i (CHR ''{'' # ds) st" using st by (simp add: lay.simps)
  from container_opens [OF this, of "members False" pow10] post
  have "reaches pow10 s st (place s first (members False) (Some ?i) (?vs @ before first (lays True (Some ?i) (length ?vs) ?ts) @ post)
      (length ?vs) ds)" by simp
  then show ?thesis
  proof (rule reaches_trans [OF reaches_trans [OF _ members_okD [OF assms(1-3) _ post fit]]])
    fix st2 assume "members_done s first ?i ?vs ms post rest st2"
    then obtain c where "place s first (members c) (Some ?i)
        (vs @ node_of first tp ?i (TreeObj ms) # lays first (Some ?i) (?i + 1) ?ts @ post) (?i + 1 + tsizes ?ts) (CHR ''}'' # rest) st2"
      using fill_start(2) [of first ?i ms tp] by (auto simp: members_done_def)
    from object_closes [OF this _ _ _ ready]
    show "reaches pow10 s st2 (stored s first tp vs (lay first tp ?i (TreeObj ms) @ post) (?i + tsize (TreeObj ms)) rest)"
      by (simp add: lay.simps tsize.simps del: node_of.simps)
  qed
qed

lemma number_ok:
  assumes "unsigned_number pow10 (c = CHR ''-'') (if c = CHR ''-'' then ds else c # ds) = Ok (Some (t, rest))"
    and "c = CHR ''-'' \<or> is_digit c"
    and "place s first (seek False) tp (vs @ before first (lay True tp (length vs) t) @ post) (length vs) (c # ds) st"
    and "first \<Longrightarrow> post = []" and "ready first tp vs"
  shows "reaches pow10 s st (stored s first tp vs (lay first tp (length vs) t @ post) (length vs + tsize t) rest)"
proof -
  have kids: "kids t = []" using unsigned_number_taken assms(1) by (fastforce simp: number_taken_def)
  have leaf: "place s first (seek False) tp (vs @ before first [node_of True tp (length vs) t] @ post) (length vs) (c # ds) st"
    using assms(3) by (simp add: lay_leaf [OF kids])
  show ?thesis
  proof (cases first)
    case True
    then show ?thesis using leaf assms(4,5) first_number [of s tp vs c ds st, OF _ assms(2) _ refl, of pow10] assms(1)
      by (simp add: lay_leaf [OF kids])
  next
    case False
    then show ?thesis using leaf assms(5) second_number [of s tp vs t post c ds st pow10 rest, OF _ assms(2)] assms(1)
      by (simp add: lay_leaf [OF kids])
  qed
qed

lemma value_ok_Suc:
  assumes "elems_ok pow10 n" and "members_ok pow10 n"
  shows "value_ok pow10 (Suc n)"
  unfolding value_ok_def
proof (intro allI impI)
  fix cs t rest s first tp vs post st
  assume t: "value_tree pow10 (Suc n) cs = Ok (Some (t, rest))" and max: "length s \<le> json_uint_max"
    and st: "place s first (seek False) tp (vs @ before first (lay True tp (length vs) t) @ post) (length vs) cs st"
    and post: "first \<longrightarrow> post = []" and ready: "ready first tp vs"
  obtain c ds where cs: "skip_space cs = c # ds" using t by (cases "skip_space cs") auto
  show "reaches pow10 s st (stored s first tp vs (lay first tp (length vs) t @ post) (length vs + tsize t) rest)"
  proof (rule reaches_space [OF st])
    fix st1 assume "place s first (seek False) tp (vs @ before first (lay True tp (length vs) t) @ post) (length vs) (skip_space cs) st1"
    then have st1: "place s first (seek False) tp (vs @ before first (lay True tp (length vs) t) @ post) (length vs) (c # ds) st1"
      by (simp add: cs)
    consider (object) ms where "c = CHR ''{''" "t = TreeObj ms" "members_tree pow10 n False ds = Ok (Some (ms, rest))"
      | (array) ts where "c = CHR ''[''" "t = TreeArr ts" "elems_tree pow10 n False ds = Ok (Some (ts, rest))"
      | (string) str where "c = CHR 0x22" "t = TreeStr str" "string_body ds = Some (str, rest)"
      | (word) w ty val where "(c, w, t, ty, val) \<in> {(CHR ''t'', ''rue'', TreeBool True, json_boolean, True),
          (CHR ''f'', ''alse'', TreeBool False, json_boolean, False), (CHR ''n'', ''ull'', TreeNull, json_null, False)}"
          "take (length w) ds = w" "rest = drop (length w) ds"
      | (number) "c = CHR ''-'' \<or> is_digit c"
          "unsigned_number pow10 (c = CHR ''-'') (if c = CHR ''-'' then ds else c # ds) = Ok (Some (t, rest))"
      using t cs by (simp add: then_parse_Some string_tree_def word_tree_def split: if_splits option.splits prod.splits) blast+
    then show "reaches pow10 s st1 (stored s first tp vs (lay first tp (length vs) t @ post) (length vs + tsize t) rest)"
    proof cases
      case object
      then show ?thesis using object_ok [OF assms(2) object(3) max _ _ ready] st1 post by blast
    next
      case array
      then show ?thesis using array_ok [OF assms(1) array(3) max _ _ ready] st1 post by blast
    next
      case string
      then show ?thesis using string_value [of s first tp vs str post ds st1 rest pow10] st1 post ready max
        by (simp add: lay_leaf)
    next
      case word
      then have kids: "kids t = []" by auto
      from st1 have "place s first (seek False) tp (vs @ before first [node_of True tp (length vs) t] @ post) (length vs) (c # ds) st1"
        by (simp add: lay_leaf [OF kids])
      from word_value [OF this word(1) _ ready word(2), of pow10] word(3) post show ?thesis by (simp add: lay_leaf [OF kids])
    next
      case number
      then show ?thesis using number_ok [OF number(2,1) st1 _ ready] post by blast
    qed
  qed simp
qed

lemma trees_ok: "value_ok pow10 n \<and> elems_ok pow10 n \<and> members_ok pow10 n"
proof (induction n)
  case (Suc n)
  then show ?case by (simp add: value_ok_Suc elems_ok_Suc members_ok_Suc)
qed (simp add: value_ok_def elems_ok_def members_ok_def)

subsection \<open>The induction for texts without a value\<close>

definition value_lost :: "(int \<Rightarrow> 64 word) \<Rightarrow> nat \<Rightarrow> bool" where
  "value_lost pow10 n \<longleftrightarrow> (\<forall>cs s tp vs st. length s \<le> json_uint_max \<longrightarrow>
     place s True (seek False) tp vs (length vs) cs st \<longrightarrow> ready True tp vs \<longrightarrow>
     (\<forall>k. tp = Some k \<longrightarrow> jv_type (vs ! k) = json_array \<longrightarrow> \<not> looking (\<lambda>c. c = CHR '']'') (skip_space cs)) \<longrightarrow>
     lost pow10 s st (value_tree pow10 n cs))"

definition elems_lost :: "(int \<Rightarrow> 64 word) \<Rightarrow> nat \<Rightarrow> bool" where
  "elems_lost pow10 n \<longleftrightarrow> (\<forall>comma cs s k vs ts st. length s \<le> json_uint_max \<longrightarrow>
     place s True (seek comma) (Some k) vs (length vs) cs st \<longrightarrow> elems_fit True k vs ts cs \<longrightarrow>
     lost pow10 s st (elems_tree pow10 n comma cs))"

definition members_lost :: "(int \<Rightarrow> 64 word) \<Rightarrow> nat \<Rightarrow> bool" where
  "members_lost pow10 n \<longleftrightarrow> (\<forall>comma cs s k vs ms st. length s \<le> json_uint_max \<longrightarrow>
     place s True (members comma) (Some k) vs (length vs) cs st \<longrightarrow> members_fit True k vs ms cs \<longrightarrow>
     lost pow10 s st (members_tree pow10 n comma cs))"


lemma lost_then:
  "lost pow10 s st r \<Longrightarrow> (\<And>x rest. r = Ok (Some (x, rest)) \<Longrightarrow> lost pow10 s st (f x rest)) \<Longrightarrow> lost pow10 s st (then_parse r f)"
  by (cases r) (auto simp: lost_def then_parse_def no_parse_def split: option.splits)

lemma lost_reaches:
  assumes "reaches pow10 s st P" and "\<And>st'. P st' \<Longrightarrow> lost pow10 s st' r"
  shows "lost pow10 s st r"
proof (cases r)
  case (Ok x)
  with assms show ?thesis by (cases x) (auto simp: lost_def intro: reaches_stops)
next
  case (Err e)
  with assms show ?thesis by (auto simp: lost_def reaches_def)
next
  case (Panic q)
  with assms show ?thesis by (auto intro: reaches_stops)
qed

lemma lost_space:
  assumes "place s first f tp vs a cs st" and "at_space f tp vs"
    and "\<And>st'. place s first f tp vs a (skip_space cs) st' \<Longrightarrow> lost pow10 s st' r"
  shows "lost pow10 s st r"
  using skip_space_reaches [OF assms(1,2)] by (rule lost_reaches) (rule assms(3))

lemma lost_step:
  assumes "\<exists>msg ft. json_step pow10 False s st = Ok (Fails msg ft)"
  shows "lost pow10 s st no_parse"
  using assms by (auto intro: stops_fails)

text \<open>Steps that fail: before a value, behind one in an array, in an object.\<close>

lemma step_value_fails:
  "b \<notin> {CHR ''{'', CHR ''['', CHR 0x22, CHR ''t'', CHR ''f'', CHR ''n'', CHR ''-''} \<Longrightarrow> \<not> is_digit b \<Longrightarrow>
    \<exists>msg ft. step_value s b st = Ok (Fails msg ft)"
  by (simp add: step_value_def fails_def)

lemma value_fails:
  assumes "place s True (seek False) tp vs a cs st" and "\<not> is_space (next_char cs)"
    and "\<And>k. tp = Some k \<Longrightarrow> jv_type (vs ! k) = json_array \<Longrightarrow> next_char cs \<noteq> CHR '']''"
    and "\<And>k. tp = Some k \<Longrightarrow> k < length vs"
    and "next_char cs \<notin> {CHR ''{'', CHR ''['', CHR 0x22, CHR ''t'', CHR ''f'', CHR ''n'', CHR ''-''}"
    and "\<not> is_digit (next_char cs)"
  shows "lost pow10 s st no_parse"
proof (rule lost_step)
  note p = placeD [OF assms(1)]
  show "\<exists>msg ft. json_step pow10 False s st = Ok (Fails msg ft)"
  proof (cases "next_char cs = CHR '']''")
    case True
    have top: "top_is json_array st = Ok False"
    proof (cases tp)
      case (Some k)
      with assms(3) [of k] assms(4) [of k] True show ?thesis by (auto simp: top_is_def node_at_def p(2,3))
    qed (simp add: top_is_def p(2))
    have "\<exists>msg ft. step_seek s (CHR '']'') st = Ok (Fails msg ft)"
      by (simp add: step_seek_def top is_space_def fails_def)
    with True p(10,12,14) show ?thesis
      by (auto simp: json_step_place [OF assms(1)] step_rest_plain flag_defs)
  next
    case False
    obtain msg ft where "step_value s (next_char cs) (with_flags (fl_seek_value_update (\<lambda>_. False)) st) = Ok (Fails msg ft)"
      using step_value_fails [OF assms(5,6)] by blast
    then have "step_seek s (next_char cs) st = Ok (Fails msg ft)"
      using False assms(2) p(9,13) by (simp add: step_seek_def flag_defs)
    with p(10,12,14) show ?thesis
      by (simp add: json_step_place [OF assms(1)] step_rest_plain flag_defs)
  qed
qed

lemma elems_fails:
  assumes "place s True (seek True) tp vs a cs st" and "\<not> is_space (next_char cs)"
    and "next_char cs \<noteq> CHR '']''" and "next_char cs \<noteq> CHR '',''"
  shows "lost pow10 s st no_parse"
  using assms(2-4) placeD [OF assms(1)]
  by (intro lost_step) (simp add: json_step_place [OF assms(1)] step_rest_plain step_seek_def flag_defs fails_def)

lemma members_fails:
  assumes "place s True (members comma) (Some k) vs a cs st" and "k < length vs" and "jv_type (vs ! k) = json_object"
    and "\<not> is_space (next_char cs)" and "next_char cs \<noteq> CHR ''}''"
    and "\<not> (next_char cs = CHR '','' \<and> comma)" and "next_char cs \<noteq> CHR 0x22 \<or> comma"
  shows "lost pow10 s st no_parse"
proof (rule lost_step)
  note p = placeD [OF assms(1)]
  have "\<exists>msg ft. step_object (next_char cs) k (vs ! k) st = Ok (Fails msg ft)"
    using assms(4-7) p by (auto simp: step_object_def fails_def flag_defs)
  then show "\<exists>msg ft. json_step pow10 False s st = Ok (Fails msg ft)"
    using assms(2,3) p by (auto simp: json_step_place [OF assms(1)] step_rest_plain step_top_def on_top_nodes flag_defs)
qed

lemma place_nth_less: "ready first tp vs \<Longrightarrow> tp = Some k \<Longrightarrow> k < length vs"
  by (simp add: ready_def)

lemma elem_lost:
  assumes "value_lost pow10 n" and "elems_lost pow10 n" and max: "length s \<le> json_uint_max"
    and st: "place s True (seek False) (Some k) vs (length vs) (c # ds) st" and fit: "elems_fit True k vs ts cs"
    and c: "c \<noteq> CHR '']''" "\<not> is_space c" and len: "length ds < length cs"
  shows "lost pow10 s st (then_parse (value_tree pow10 n (c # ds)) (\<lambda>t rest.
    then_parse (elems_tree pow10 n True rest) (\<lambda>ts. parsed (t # ts))))"
proof (rule lost_then)
  have fit': "elems_fit True k vs us (c # ds)" for us using fit len by (simp add: elems_fit_def)
  have k: "jv_type (vs ! k) = json_array" using fit by (simp add: elems_fit_def)
  note ready = elems_fit_ready [OF fit']
  show "lost pow10 s st (value_tree pow10 n (c # ds))"
    using assms(1) [unfolded value_lost_def, rule_format, OF max st ready] c by (simp add: skip_space_def)
  fix t rest assume t: "value_tree pow10 n (c # ds) = Ok (Some (t, rest))"
  have "reaches pow10 s st (place s True (seek True) (Some k) (with_child True k vs t) (length (with_child True k vs t)) rest)"
    using child_reaches [OF trees_ok [THEN conjunct1] t max, of True k vs "[]" st] st ready k by simp
  then have "lost pow10 s st (elems_tree pow10 n True rest)"
    using assms(2) [unfolded elems_lost_def, rule_format, OF max _ elems_fit_Cons [OF fit' value_shorter [OF t]]]
    by (rule lost_reaches)
  then show "lost pow10 s st (then_parse (elems_tree pow10 n True rest) (\<lambda>ts. parsed (t # ts)))"
    by (rule lost_then) simp
qed

lemma elems_lost_Suc:
  assumes "value_lost pow10 n" and "elems_lost pow10 n"
  shows "elems_lost pow10 (Suc n)"
  unfolding elems_lost_def
proof (intro allI impI)
  fix comma cs s k vs ts st
  assume max: "length s \<le> json_uint_max" and st: "place s True (seek comma) (Some k) vs (length vs) cs st"
    and fit: "elems_fit True k vs ts cs"
  have k: "k < length vs" "jv_type (vs ! k) = json_array" using fit by (simp_all add: elems_fit_def)
  show "lost pow10 s st (elems_tree pow10 (Suc n) comma cs)"
  proof (rule lost_space [OF st])
    fix st1 assume st1: "place s True (seek comma) (Some k) vs (length vs) (skip_space cs) st1"
    show "lost pow10 s st1 (elems_tree pow10 (Suc n) comma cs)"
    proof (cases "skip_space cs")
      case Nil
      then show ?thesis
        using st1 elems_fails [of s "Some k" vs _ "[]" st1 pow10] value_fails [of s "Some k" vs _ "[]" st1 pow10] k
        by (cases comma) (simp_all add: is_space_def)
    next
      case (Cons c ds)
      note sp = skip_space_Cons [OF Cons]
      have fits: "elems_fit True k vs us es" if "length es < length (c # ds)" for us es
        using fit that sp by (simp add: elems_fit_def)
      show ?thesis
      proof (cases comma)
        case comma: True
        have "lost pow10 s st1 (elems_tree pow10 n False ds)" if "c = CHR '',''"
        proof (rule lost_reaches)
          show "reaches pow10 s st1 (place s True (seek False) (Some k) vs (length vs) ds)"
            using st1 Cons that comma by (intro array_comma) simp
        qed (use assms(2) [unfolded elems_lost_def, rule_format, OF max _ fits] in simp)
        then show ?thesis using Cons comma st1 sp elems_fails [of s "Some k" vs _ "c # ds" st1 pow10] by simp
      next
        case False
        with st1 Cons have st1': "place s True (seek False) (Some k) vs (length vs) (c # ds) st1" by simp
        then show ?thesis
          using elem_lost [OF assms max st1' fit] sp Cons False by simp
      qed
    qed
  qed simp
qed

lemma member_lost:
  assumes "value_lost pow10 n" and "members_lost pow10 n" and max: "length s \<le> json_uint_max"
    and st: "place s True (members False) (Some k) vs (length vs) (CHR 0x22 # ds) st"
    and fit: "\<And>ms. members_fit True k vs ms (CHR 0x22 # ds)"
    and key: "string_body ds = Some (key, cs1)" "skip_space cs1 = CHR '':'' # es"
  shows "lost pow10 s st (then_parse (value_tree pow10 n es) (\<lambda>t rest.
    then_parse (members_tree pow10 n True rest) (\<lambda>ms. parsed ((key, t) # ms))))"
proof (rule lost_reaches)
  let ?vs = "with_key True k vs key"
  have k: "jv_type (?vs ! k) = json_object" "length ?vs = length vs" using fit by (simp_all add: members_fit_def)
  note ready = members_fit_ready [OF fit]
  show "reaches pow10 s st (place s True (seek False) (Some k) ?vs (length ?vs) es)"
    using member_opens [OF _ fit _ key max, of "[]"] st by simp
  fix st1 assume st1: "place s True (seek False) (Some k) ?vs (length ?vs) es st1"
  show "lost pow10 s st1 (then_parse (value_tree pow10 n es) (\<lambda>t rest.
    then_parse (members_tree pow10 n True rest) (\<lambda>ms. parsed ((key, t) # ms))))"
  proof (rule lost_then)
    show "lost pow10 s st1 (value_tree pow10 n es)"
      using assms(1) [unfolded value_lost_def, rule_format, OF max st1 ready] k by simp
    fix t rest assume t: "value_tree pow10 n es = Ok (Some (t, rest))"
    have len: "length rest < length (CHR 0x22 # ds)"
      using value_shorter [OF t] key(2) skip_space_length [of cs1] string_body_length [OF key(1)] by simp
    have "reaches pow10 s st1 (place s True (members True) (Some k) (with_child True k ?vs t) (length (with_child True k ?vs t)) rest)"
      using child_reaches [OF trees_ok [THEN conjunct1] t max, of True k ?vs "[]" st1] st1 ready k by simp
    then have "lost pow10 s st1 (members_tree pow10 n True rest)"
      using assms(2) [unfolded members_lost_def, rule_format, OF max _ members_fit_Cons [OF fit len]]
      by (rule lost_reaches)
    then show "lost pow10 s st1 (then_parse (members_tree pow10 n True rest) (\<lambda>ms. parsed ((key, t) # ms)))"
      by (rule lost_then) simp
  qed
qed

lemma no_colon_stops:
  assumes "place s True seek_colon (Some k) vs a cs st" and "k < length vs" and "jv_type (vs ! k) = json_object"
    and "\<not> looking (\<lambda>c. c = CHR '':'') (skip_space cs)"
  shows "stops pow10 s st (Ok None)"
  by (rule stops_space [OF assms(1)]) (use colon_stops [OF _ assms(2,3) skip_space_not_space assms(4)] in auto)

lemma name_lost:
  assumes "value_lost pow10 n" and "members_lost pow10 n" and max: "length s \<le> json_uint_max"
    and st: "place s True (members False) (Some k) vs (length vs) (CHR 0x22 # ds) st"
    and fit: "\<And>ms. members_fit True k vs ms (CHR 0x22 # ds)"
    and sp: "skip_space cs = CHR 0x22 # ds"
  shows "lost pow10 s st (members_tree pow10 (Suc n) False cs)"
proof -
  have k: "k < length vs" "jv_type (vs ! k) = json_object" using fit by (simp_all add: members_fit_def)
  show ?thesis
  proof (cases "string_body ds")
    case None
    with key_stops [OF st k None max, of pow10] sp show ?thesis by simp
  next
    case (Some x)
    then obtain key cs1 where key: "string_body ds = Some (key, cs1)" by (cases x) auto
    show ?thesis
    proof (cases "looking (\<lambda>c. c = CHR '':'') (skip_space cs1)")
      case False
      have "stops pow10 s st (Ok None)" using key_reaches [OF st k key max, of pow10]
        by (rule reaches_stops) (use k False in \<open>auto intro: no_colon_stops\<close>)
      with False key sp show ?thesis by simp
    next
      case True
      then obtain es where es: "skip_space cs1 = CHR '':'' # es" by (cases "skip_space cs1") auto
      from member_lost [OF assms(1-5) key es] key es sp show ?thesis by simp
    qed
  qed
qed

lemma members_lost_Suc:
  assumes "value_lost pow10 n" and "members_lost pow10 n"
  shows "members_lost pow10 (Suc n)"
  unfolding members_lost_def
proof (intro allI impI)
  fix comma cs s k vs and ms :: "(string \<times> jtree) list" and st
  assume max: "length s \<le> json_uint_max" and st: "place s True (members comma) (Some k) vs (length vs) cs st"
    and fit: "members_fit True k vs ms cs"
  have k: "k < length vs" "jv_type (vs ! k) = json_object" using fit by (simp_all add: members_fit_def)
  show "lost pow10 s st (members_tree pow10 (Suc n) comma cs)"
  proof (rule lost_space [OF st])
    fix st1 assume st1: "place s True (members comma) (Some k) vs (length vs) (skip_space cs) st1"
    note fails = members_fails [OF st1 k, of pow10]
    show "lost pow10 s st1 (members_tree pow10 (Suc n) comma cs)"
    proof (cases "skip_space cs")
      case Nil
      with fails show ?thesis by simp
    next
      case (Cons c ds)
      note sp = skip_space_Cons [OF Cons]
      have fits: "members_fit True k vs ns es" if "length es \<le> length (c # ds)" for ns es
        using fit that sp by (simp add: members_fit_def)
      consider "c = CHR ''}''" | "c = CHR '',''" comma
        | "c \<noteq> CHR ''}''" "\<not> (c = CHR '','' \<and> comma)" "c \<noteq> CHR 0x22 \<or> comma" | "c = CHR 0x22" "\<not> comma" by blast
      then show ?thesis
      proof cases
        case 2
        have "lost pow10 s st1 (members_tree pow10 n False ds)"
        proof (rule lost_reaches)
          show "reaches pow10 s st1 (place s True (members False) (Some k) vs (length vs) ds)"
            using st1 Cons 2 k by (intro object_comma) simp_all
        qed (use assms(2) [unfolded members_lost_def, rule_format, OF max _ fits] in simp)
        with 2 Cons show ?thesis by simp
      next
        case 3
        with Cons fails sp have "lost pow10 s st1 no_parse" by simp
        with 3 Cons show ?thesis by auto
      next
        case 4
        then have st1': "place s True (members False) (Some k) vs (length vs) (CHR 0x22 # ds) st1" using st1 Cons by simp
        then show ?thesis using name_lost [OF assms max st1' _ _] fits 4 Cons by simp
      qed (use Cons in simp)
    qed
  qed (use k in simp)
qed


text \<open>A container that was just opened.\<close>

lemma container_opens_first:
  assumes "place s True (seek False) tp vs (length vs) (c # cs) st"
    and "c = CHR ''{'' \<and> t = TreeObj [] \<and> f = members False \<or> c = CHR ''['' \<and> t = TreeArr [] \<and> f = seek False"
  shows "reaches pow10 s st (place s True f (Some (length vs)) (vs @ [start_node True tp (length vs) t]) (length vs + 1) cs)"
proof -
  have "place s True (seek False) tp (vs @ before True (node_of True tp (length vs) t # []) @ []) (length vs) (c # cs) st"
    using assms(1) by simp
  from container_opens [OF this, of f pow10] assms(2) show ?thesis by (auto simp del: node_of.simps)
qed

lemma container_lost:
  assumes "elems_lost pow10 n" and "members_lost pow10 n" and max: "length s \<le> json_uint_max"
    and st: "place s True (seek False) tp vs (length vs) (c # ds) st" and ready: "ready True tp vs"
  shows "c = CHR ''{'' \<Longrightarrow> lost pow10 s st (members_tree pow10 n False ds)"
    and "c = CHR ''['' \<Longrightarrow> lost pow10 s st (elems_tree pow10 n False ds)"
proof -
  let ?i = "length vs"
  have "length ds < length s" using suffix_length_le [OF placeD(5) [OF st]] by simp
  note fit = opened_fit [OF ready this max]
  show "lost pow10 s st (members_tree pow10 n False ds)" if "c = CHR ''{''"
  proof (rule lost_reaches)
    show "reaches pow10 s st (place s True (members False) (Some ?i) (vs @ [start_node True tp ?i (TreeObj [])])
        (length (vs @ [start_node True tp ?i (TreeObj [])])) ds)"
      using container_opens_first [OF st, of "TreeObj []" "members False" pow10] that by simp
  qed (use assms(2) [unfolded members_lost_def, rule_format, OF max _ fit(2)] in simp)
  show "lost pow10 s st (elems_tree pow10 n False ds)" if "c = CHR ''[''"
  proof (rule lost_reaches)
    show "reaches pow10 s st (place s True (seek False) (Some ?i) (vs @ [start_node True tp ?i (TreeArr [])])
        (length (vs @ [start_node True tp ?i (TreeArr [])])) ds)"
      using container_opens_first [OF st, of "TreeArr []" "seek False" pow10] that by simp
  qed (use assms(1) [unfolded elems_lost_def, rule_format, OF max _ fit(1)] in simp)
qed

lemma value_lost_Suc:
  assumes "elems_lost pow10 n" and "members_lost pow10 n"
  shows "value_lost pow10 (Suc n)"
  unfolding value_lost_def
proof (intro allI impI)
  fix cs s tp vs st
  assume max: "length s \<le> json_uint_max" and st: "place s True (seek False) tp vs (length vs) cs st"
    and ready: "ready True tp vs"
    and close: "\<forall>k. tp = Some k \<longrightarrow> jv_type (vs ! k) = json_array \<longrightarrow> \<not> looking (\<lambda>c. c = CHR '']'') (skip_space cs)"
  show "lost pow10 s st (value_tree pow10 (Suc n) cs)"
  proof (rule lost_space [OF st])
    fix st1 assume st1: "place s True (seek False) tp vs (length vs) (skip_space cs) st1"
    show "lost pow10 s st1 (value_tree pow10 (Suc n) cs)"
    proof (cases "skip_space cs")
      case Nil
      then show ?thesis using value_fails [OF st1] ready place_nth_less by simp
    next
      case (Cons c ds)
      note sp = skip_space_Cons [OF Cons]
      have st1': "place s True (seek False) tp vs (length vs) (c # ds) st1" using st1 Cons by simp
      note container = container_lost [OF assms max st1' ready]
      have word: "lost pow10 s st1 (word_tree w t ds)"
        if "(c, w) \<in> {(CHR ''t'', ''rue''), (CHR ''f'', ''alse''), (CHR ''n'', ''ull'')}" for w t
        using word_value_lost [OF st1' that, of pow10] by (simp add: word_tree_def)
      have str: "lost pow10 s st1 (string_tree ds)" if "c = CHR 0x22"
        using string_value_lost [of s tp vs ds st1 pow10] st1' that max
        by (simp add: string_tree_def split: option.split prod.split)
      have num: "lost pow10 s st1 (unsigned_number pow10 (c = CHR ''-'') (if c = CHR ''-'' then ds else c # ds))"
        if "c = CHR ''-'' \<or> is_digit c"
        using first_number [OF st1' that ready refl] by blast
      consider "c = CHR ''{''" | "c = CHR ''[''" | "c = CHR 0x22" | "c = CHR ''t''" | "c = CHR ''f''" | "c = CHR ''n''"
        | "c = CHR ''-''" | "is_digit c" "c \<noteq> CHR ''-''"
        | "c \<notin> {CHR ''{'', CHR ''['', CHR 0x22, CHR ''t'', CHR ''f'', CHR ''n'', CHR ''-''}" "\<not> is_digit c" by blast
      then show ?thesis
      proof cases
        case 8
        with Cons num number_not_other [of c] show ?thesis by simp
      next
        case 9
        then have "lost pow10 s st1 no_parse" using value_fails [OF st1'] sp close ready place_nth_less Cons by auto
        with 9 Cons show ?thesis by simp
      qed (use Cons container str word num in \<open>auto intro: lost_then\<close>)
    qed
  qed simp
qed

lemma trees_lost: "value_lost pow10 n \<and> elems_lost pow10 n \<and> members_lost pow10 n"
proof (induction n)
  case (Suc n)
  then show ?case by (simp add: value_lost_Suc elems_lost_Suc members_lost_Suc)
qed (simp add: value_lost_def elems_lost_def members_lost_def)

end
