(* ===== verification/JsonFree.thy ===== *)
theory JsonFree
  imports JsonNodes
begin

section \<open>The nodes of the JSON parser are given back\<close>

text \<open>
  \<^verbatim>\<open>json_value_free\<close> walks the nodes without a stack: it goes into the last entry that is left, counts it
  off, and goes up over the parent. Over the nodes of a tree it gives back each block once and looks at
  none that is gone.
\<close>

subsection \<open>The blocks of a tree\<close>

fun own_blocks :: "nat \<Rightarrow> jtree \<Rightarrow> json_block list" where
  "own_blocks i (TreeStr str) = [BlockChars i]"
| "own_blocks i (TreeArr ts) = (if ts = [] then [] else [BlockValues i])"
| "own_blocks i (TreeObj ms) = (if ms = [] then [] else [BlockValues i])"
| "own_blocks i _ = []"

function blocks :: "nat \<Rightarrow> jtree \<Rightarrow> json_block list" and blockss :: "nat \<Rightarrow> jtree list \<Rightarrow> json_block list" where
  "blocks i t = blockss (i + 1) (kids t) @ own_blocks i t @ [BlockNode i]"
| "blockss i [] = []"
| "blockss i (t # ts) = blockss (i + tsize t) ts @ blocks i t"
  by pat_completeness auto

termination
  by (relation "measure (\<lambda>x. case x of Inl (_, t) \<Rightarrow> 2 * size t + 1 | Inr (_, ts) \<Rightarrow> 2 * size_list size ts)")
    (auto simp: size_kids le_imp_less_Suc)

declare blocks.simps [simp del]

fun block_of :: "json_block \<Rightarrow> nat" where
  "block_of (BlockNode i) = i"
| "block_of (BlockValues i) = i"
| "block_of (BlockChars i) = i"

lemma own_blocks_at: "b \<in> set (own_blocks i t) \<Longrightarrow> block_of b = i \<and> b \<noteq> BlockNode i"
  by (cases t) (auto split: if_splits)

lemma blocks_range:
  "b \<in> set (blocks i t) \<Longrightarrow> i \<le> block_of b \<and> block_of b < i + tsize t"
  "b \<in> set (blockss i ts) \<Longrightarrow> i \<le> block_of b \<and> block_of b < i + tsizes ts"
proof (induction i t and i ts rule: blocks_blockss.induct)
  case (1 i t)
  then show ?case using own_blocks_at [of b i t] by (auto simp: blocks.simps [of i t] tsize.simps [of t])
qed auto

lemma distinct_own: "distinct (own_blocks i t @ [BlockNode i])"
  by (cases t) auto

lemma blocks_distinct: "distinct (blocks i t)" "distinct (blockss i ts)"
proof (induction i t and i ts rule: blocks_blockss.induct)
  case (1 i t)
  have "set (blockss (i + 1) (kids t)) \<inter> set (own_blocks i t @ [BlockNode i]) = {}"
    using blocks_range(2) [of _ "i + 1" "kids t"] own_blocks_at [of _ i t] by fastforce
  then show ?case using 1 distinct_own [of i t] by (auto simp: blocks.simps [of i t])
next
  case (3 i t ts)
  have "set (blockss (i + tsize t) ts) \<inter> set (blocks i t) = {}"
    using blocks_range(2) [of _ "i + tsize t" ts] blocks_range(1) [of _ i t] by fastforce
  then show ?case using 3 by auto
qed simp

lemma blockss_snoc: "blockss i (ts @ [t]) = blocks (i + tsizes ts) t @ blockss i ts"
  by (induction ts arbitrary: i) (simp_all add: add.assoc)

lemma lays_snoc: "lays first p i (ts @ [t]) = lays first p i ts @ lay first p (i + tsizes ts) t"
  by (induction ts arbitrary: i) (simp_all add: add.assoc)

lemma tsizes_snoc [simp]: "tsizes (ts @ [t]) = tsizes ts + tsize t"
  by (induction ts) simp_all

lemma idxs_snoc: "idxs i (ts @ [t]) = idxs i ts @ [i + tsizes ts]"
  by (induction ts arbitrary: i) (simp_all add: add.assoc)

subsection \<open>Walks\<close>

text \<open>What a walk over a tree does: \<open>mess\<close> is what is left in its nodes.\<close>

definition walks :: "jtree \<Rightarrow> bool" where
  "walks t \<longleftrightarrow> (\<forall>m p pre post freed. set (blocks (length pre) t) \<inter> set freed = {} \<longrightarrow>
     (\<exists>mess. length mess = tsize t \<and>
        free_loop (2 * tsize t - 1 + m) (Some (length pre)) \<lparr>fr_nodes = pre @ lay False p (length pre) t @ post, fr_freed = freed\<rparr> =
        free_loop m p \<lparr>fr_nodes = pre @ mess @ post, fr_freed = freed @ blocks (length pre) t\<rparr>))"

definition open_node :: "nat \<Rightarrow> json_value \<Rightarrow> jtree list \<Rightarrow> bool" where
  "open_node i v ts \<longleftrightarrow> (jv_type v = json_array \<or> jv_type v = json_object) \<and> length ts \<le> jv_room v \<and>
     (\<exists>more. map snd (jv_elems v) = idxs (i + 1) ts @ more)"

lemma open_node_last:
  assumes "open_node i v (ts @ [t])"
  shows "open_node i (v\<lparr>jv_length := n\<rparr>) ts" and "snd (jv_elems v ! length ts) = i + 1 + tsizes ts"
    and "length ts < length (jv_elems v)" and "length ts < jv_room v"
proof -
  obtain more where more: "map snd (jv_elems v) = idxs (i + 1) ts @ (i + 1 + tsizes ts) # more"
    using assms by (auto simp: open_node_def idxs_snoc)
  then show "open_node i (v\<lparr>jv_length := n\<rparr>) ts" using assms by (auto simp: open_node_def)
  have "length (map snd (jv_elems v)) = length ts + 1 + length more" unfolding more by simp
  then show less: "length ts < length (jv_elems v)" by simp
  have "map snd (jv_elems v) ! length ts = i + 1 + tsizes ts" unfolding more by (simp add: nth_append)
  then show "snd (jv_elems v ! length ts) = i + 1 + tsizes ts" using less by simp
  show "length ts < jv_room v" using assms by (simp add: open_node_def)
qed

lemma walks_kids:
  assumes "\<forall>t\<in>set ts. walks t" and "open_node (length pre) v ts" and "jv_length v = length ts"
    and "set (blockss (length pre + 1) ts) \<inter> set freed = {}"
    and "BlockNode (length pre) \<notin> set freed" and "BlockValues (length pre) \<notin> set freed"
  shows "\<exists>mess. length mess = tsizes ts \<and>
    free_loop (2 * tsizes ts + m) (Some (length pre))
      \<lparr>fr_nodes = pre @ v # lays False (Some (length pre)) (length pre + 1) ts @ post, fr_freed = freed\<rparr> =
    free_loop m (Some (length pre))
      \<lparr>fr_nodes = pre @ v\<lparr>jv_length := 0\<rparr> # mess @ post, fr_freed = freed @ blockss (length pre + 1) ts\<rparr>"
  using assms
proof (induction ts arbitrary: v freed post m rule: rev_induct)
  case Nil
  then have "v\<lparr>jv_length := 0\<rparr> = v" by simp
  then show ?case by simp
next
  case (snoc t ts)
  let ?i = "length pre" and ?w = "v\<lparr>jv_length := length ts\<rparr>"
  let ?k = "?i + 1 + tsizes ts" and ?kids = "lays False (Some ?i) (?i + 1) ts"
  note o = open_node_last [OF snoc.prems(2)]
  have b: "set (blocks ?k t) \<inter> set freed = {}" using snoc.prems(4) by (auto simp: blockss_snoc)
  obtain mess where mess: "length mess = tsize t"
    "free_loop (2 * tsize t - 1 + (2 * tsizes ts + m)) (Some ?k)
       \<lparr>fr_nodes = (pre @ ?w # ?kids) @ lay False (Some ?i) ?k t @ post, fr_freed = freed\<rparr> =
     free_loop (2 * tsizes ts + m) (Some ?i) \<lparr>fr_nodes = (pre @ ?w # ?kids) @ mess @ post, fr_freed = freed @ blocks ?k t\<rparr>"
  proof -
    have "length (pre @ ?w # ?kids) = ?k" by simp
    then show ?thesis
      using that snoc.prems(1) b unfolding walks_def
      by (metis (no_types, lifting) in_set_conv_decomp)
  qed
  have fuel: "2 * tsizes (ts @ [t]) + m = Suc (2 * tsize t - 1 + (2 * tsizes ts + m))"
    by (simp add: tsize.simps [of t])
  have "free_step ?i \<lparr>fr_nodes = pre @ v # lays False (Some ?i) (?i + 1) (ts @ [t]) @ post, fr_freed = freed\<rparr> =
      Ok (Some ?k, \<lparr>fr_nodes = (pre @ ?w # ?kids) @ lay False (Some ?i) ?k t @ post, fr_freed = freed\<rparr>)"
    using o snoc.prems(2,3,5,6)
    by (auto simp: free_step_def last_entry_def open_node_def lays_snoc Let_def list_update_append)
  then have step: "free_loop (2 * tsizes (ts @ [t]) + m) (Some ?i)
      \<lparr>fr_nodes = pre @ v # lays False (Some ?i) (?i + 1) (ts @ [t]) @ post, fr_freed = freed\<rparr> =
    free_loop (2 * tsizes ts + m) (Some ?i) \<lparr>fr_nodes = pre @ ?w # ?kids @ mess @ post, fr_freed = freed @ blocks ?k t\<rparr>"
    unfolding fuel using mess(2) by (simp del: append_Cons append_assoc) simp
  have gone: "x \<notin> set (freed @ blocks ?k t)" if "x \<notin> set freed" "block_of x < ?k" for x
    using that blocks_range(1) [of x ?k t] by auto
  have "set (blockss (?i + 1) ts) \<inter> set (freed @ blocks ?k t) = {}"
    using snoc.prems(4) gone blocks_range(2) [of _ "?i + 1" ts] by (fastforce simp: blockss_snoc)
  moreover have "BlockNode ?i \<notin> set (freed @ blocks ?k t)" "BlockValues ?i \<notin> set (freed @ blocks ?k t)"
    using gone [of "BlockNode ?i"] gone [of "BlockValues ?i"] snoc.prems(5,6) by simp_all
  ultimately obtain mess2 where "length mess2 = tsizes ts"
    "free_loop (2 * tsizes ts + m) (Some ?i)
       \<lparr>fr_nodes = pre @ ?w # ?kids @ (mess @ post), fr_freed = freed @ blocks ?k t\<rparr> =
     free_loop m (Some ?i) \<lparr>fr_nodes = pre @ ?w\<lparr>jv_length := 0\<rparr> # mess2 @ (mess @ post),
       fr_freed = (freed @ blocks ?k t) @ blockss (?i + 1) ts\<rparr>"
    using snoc.IH [of ?w "freed @ blocks ?k t" m "mess @ post"] snoc.prems(1) o(1) by auto
  then show ?case using step mess(1) by (intro exI [of _ "mess2 @ mess"]) (simp add: blockss_snoc)
qed

text \<open>The kids of a container are walked, then its entries and itself are given back.\<close>

lemma walk_container:
  assumes kids: "\<And>u. u \<in> set (kids t) \<Longrightarrow> walks u" and ty: "tree_type t = json_array \<or> tree_type t = json_object"
    and dis: "set (blocks (length pre) t) \<inter> set freed = {}"
  shows "\<exists>mess. length mess = tsize t \<and>
    free_loop (2 * tsize t - 1 + m) (Some (length pre)) \<lparr>fr_nodes = pre @ lay False p (length pre) t @ post, fr_freed = freed\<rparr> =
    free_loop m p \<lparr>fr_nodes = pre @ mess @ post, fr_freed = freed @ blocks (length pre) t\<rparr>"
proof -
  let ?i = "length pre" and ?v = "node_of False p (length pre) t"
  let ?st = "\<lparr>fr_nodes = pre @ lay False p ?i t @ post, fr_freed = freed\<rparr>"
  have lay: "lay False p ?i t = ?v # lays False (Some ?i) (?i + 1) (kids t)" by (simp add: lay.simps)
  have gone: "BlockNode ?i \<notin> set freed" "set (own_blocks ?i t) \<inter> set freed = {}"
    and free: "set (blockss (?i + 1) (kids t)) \<inter> set freed = {}" using dis by (auto simp: blocks.simps [of ?i t])
  have v: "open_node ?i ?v (kids t)" "jv_length ?v = length (kids t)" "jv_room ?v = length (kids t)"
    "own_blocks ?i t = (if kids t = [] then [] else [BlockValues ?i])"
    using ty by (cases t; simp add: open_node_def fresh_node_def comp_def)+
  let ?freed = "freed @ blockss (?i + 1) (kids t)"
  have gone2: "x \<notin> set ?freed" if "x \<notin> set freed" "block_of x = ?i" for x
    using that blocks_range(2) [of x "?i + 1" "kids t"] by auto
  obtain mess where mess: "length mess = tsizes (kids t)"
    "free_loop (2 * tsizes (kids t) + Suc m) (Some ?i) ?st =
     free_loop (Suc m) (Some ?i) \<lparr>fr_nodes = pre @ ?v\<lparr>jv_length := 0\<rparr> # mess @ post, fr_freed = ?freed\<rparr>"
  proof (cases "kids t = []")
    case False
    then show ?thesis
      using walks_kids [OF _ v(1,2) free, of "Suc m" post] kids gone v(4) that by (auto simp: lay)
  next
    case True
    then have "?v\<lparr>jv_length := 0\<rparr> = ?v" using v(2) by simp
    with True show ?thesis by (intro that [of "[]"]) (simp_all add: lay)
  qed
  have "free_step ?i \<lparr>fr_nodes = pre @ ?v\<lparr>jv_length := 0\<rparr> # mess @ post, fr_freed = ?freed\<rparr> =
      Ok (p, \<lparr>fr_nodes = pre @ ?v\<lparr>jv_length := 0\<rparr> # mess @ post, fr_freed = freed @ blocks ?i t\<rparr>)"
    using ty v(3,4) gone gone2 [of "BlockNode ?i"] gone2 [of "BlockValues ?i"]
    by (cases "kids t = []") (auto simp: free_step_def free_values_def free_up_def mem_free_def Let_def blocks.simps [of ?i t])
  with mess show ?thesis
    by (intro exI [of _ "?v\<lparr>jv_length := 0\<rparr> # mess"]) (simp add: tsize.simps [of t])
qed

lemma kid_smaller: "u \<in> set (kids t) \<Longrightarrow> tsize u < tsize t"
proof -
  have "u \<in> set ts \<Longrightarrow> tsize u \<le> tsizes ts" for ts by (induction ts) auto
  then show "u \<in> set (kids t) \<Longrightarrow> tsize u < tsize t" by (fastforce simp: tsize.simps [of t])
qed

lemma walks_all: "walks t"
proof (induction "tsize t" arbitrary: t rule: less_induct)
  case less
  show ?case unfolding walks_def
  proof (intro allI impI)
    fix m p and pre post :: "json_value list" and freed assume dis: "set (blocks (length pre) t) \<inter> set freed = {}"
    let ?i = "length pre" and ?v = "node_of False p (length pre) t"
    let ?st = "\<lparr>fr_nodes = pre @ lay False p ?i t @ post, fr_freed = freed\<rparr>"
    show "\<exists>mess. length mess = tsize t \<and> free_loop (2 * tsize t - 1 + m) (Some ?i) ?st =
        free_loop m p \<lparr>fr_nodes = pre @ mess @ post, fr_freed = freed @ blocks ?i t\<rparr>"
    proof (cases "tree_type t = json_array \<or> tree_type t = json_object")
      case True
      then show ?thesis using dis less kid_smaller by (intro walk_container) auto
    next
      case False
      have lay: "lay False p ?i t = ?v # lays False (Some ?i) (?i + 1) (kids t)" by (simp add: lay.simps)
      have gone: "BlockNode ?i \<notin> set freed" "set (own_blocks ?i t) \<inter> set freed = {}"
        using dis by (auto simp: blocks.simps [of ?i t])
      have "kids t = []" using False by (cases t) simp_all
      moreover have "free_step ?i ?st = Ok (p, ?st\<lparr>fr_freed := freed @ blocks ?i t\<rparr>)"
        using False gone \<open>kids t = []\<close> unfolding lay blocks.simps [of ?i t] free_step_def
        by (cases t) (simp_all add: free_up_def mem_free_def fresh_node_def)
      ultimately show ?thesis by (intro exI [of _ "[?v]"]) (simp add: tsize.simps [of t] lay)
    qed
  qed
qed

lemma json_value_free_lay: "json_value_free (lay False None 0 t) 0 = Ok (blocks 0 t)"
proof -
  have root: "(lay False None 0 t)[0 := (lay False None 0 t ! 0)\<lparr>jv_parent := None\<rparr>] = lay False None 0 t"
    by (cases t) (simp_all add: lay.simps fresh_node_def)
  have n: "0 < tsize t" "2 * tsize t - 1 + 1 = 2 * tsize t" by (simp_all add: tsize.simps [of t])
  obtain mess where "free_loop (2 * tsize t - 1 + 1) (Some 0) \<lparr>fr_nodes = lay False None 0 t, fr_freed = []\<rparr> =
      free_loop 1 None \<lparr>fr_nodes = mess, fr_freed = blocks 0 t\<rparr>"
    using walks_all [of t, unfolded walks_def, rule_format, of "[]" "[]" 1 None "[]"] by auto
  then show ?thesis using n(1) by (simp add: json_value_free_def json_value_free_ex_def root n(2))
qed

subsection \<open>All blocks of the nodes\<close>

text \<open>What the second pass has from the allocator for each node.\<close>

definition node_blocks :: "nat \<Rightarrow> json_value \<Rightarrow> json_block set" where
  "node_blocks i v = {BlockNode i} \<union>
     (if (jv_type v = json_array \<or> jv_type v = json_object) \<and> jv_room v \<noteq> 0 then {BlockValues i} else {}) \<union>
     (if jv_type v = json_string then {BlockChars i} else {})"

definition all_blocks :: "json_value list \<Rightarrow> json_block set" where
  "all_blocks nodes = (\<Union>i<length nodes. node_blocks i (nodes ! i))"

definition blocks_from :: "nat \<Rightarrow> json_value list \<Rightarrow> json_block set" where
  "blocks_from i vs = (\<Union>k<length vs. node_blocks (i + k) (vs ! k))"

lemma blocks_from_Nil [simp]: "blocks_from i [] = {}"
  by (simp add: blocks_from_def)

lemma blocks_from_Cons: "blocks_from i (v # vs) = node_blocks i v \<union> blocks_from (i + 1) vs"
  by (simp add: blocks_from_def lessThan_Suc_eq_insert_0 image_image)

lemma blocks_from_append: "blocks_from i (vs @ us) = blocks_from i vs \<union> blocks_from (i + length vs) us"
  by (induction vs arbitrary: i) (auto simp: blocks_from_Cons)

lemma node_blocks_own: "node_blocks i (node_of False p i t) = set (own_blocks i t @ [BlockNode i])"
  by (cases t) (auto simp: node_blocks_def fresh_node_def)

lemma blocks_lay:
  "blocks_from i (lay False p i t) = set (blocks i t)"
  "blocks_from i (lays False p i ts) = set (blockss i ts)"
proof (induction "False" p i t and "False" p i ts rule: lay_lays.induct)
  case (1 p i t)
  then show ?case by (auto simp: lay.simps [of _ _ _ t] blocks.simps [of _ t] blocks_from_Cons node_blocks_own)
next
  case (3 p i t ts)
  then show ?case by (auto simp: blocks_from_append)
qed simp

lemma all_blocks_lay: "all_blocks (lay False None 0 t) = set (blocks 0 t)"
  using blocks_lay(1) [of 0 None t] by (simp add: all_blocks_def blocks_from_def)

end
