(* ===== verification/JsonSafe.thy ===== *)
theory JsonSafe
  imports JsonParse
begin

section \<open>The first pass of the JSON parser ends and stays inside the text\<close>

text \<open>
  An invariant of the loop of the first pass, a measure that every step lowers, and for each stage of
  the loop's body the lemma that it keeps the one and lowers the other. The only panic left is the
  overflow of a number's digits.
\<close>

subsection \<open>The nodes\<close>

definition container :: "json_type \<Rightarrow> bool" where
  "container ty \<longleftrightarrow> ty = json_object \<or> ty = json_array"

definition number :: "json_type \<Rightarrow> bool" where
  "number ty \<longleftrightarrow> ty = json_integer \<or> ty = json_double"

definition parents_ok :: "json_value list \<Rightarrow> bool" where
  "parents_ok vs \<longleftrightarrow> (\<forall>i<length vs. \<forall>k. jv_parent (vs ! i) = Some k \<longrightarrow> k < i \<and> container (jv_type (vs ! k)))"

definition tree_inv :: "json_state \<Rightarrow> bool" where
  "tree_inv st \<longleftrightarrow> js_alloc st \<le> length (js_nodes st) \<and> (js_first st \<longrightarrow> js_alloc st = length (js_nodes st)) \<and>
     parents_ok (js_nodes st) \<and> js_root st = (if js_top st = None then None else Some 0) \<and>
     (case js_top st of None \<Rightarrow> js_alloc st = 0 | Some i \<Rightarrow> i < js_alloc st)"

subsection \<open>What may come out of a step\<close>

definition ok_spec :: "('a \<Rightarrow> bool) \<Rightarrow> 'a outcome \<Rightarrow> bool" where
  "ok_spec P r \<longleftrightarrow> (case r of Ok x \<Rightarrow> P x | Err _ \<Rightarrow> False | Panic q \<Rightarrow> q = IntOverflow)"

text \<open>Wherever a step fails the nodes are as they should be.\<close>

definition flow_spec :: "(json_state \<Rightarrow> bool) \<Rightarrow> (json_state \<Rightarrow> bool) \<Rightarrow> (json_state \<Rightarrow> bool) \<Rightarrow> json_state flow outcome \<Rightarrow> bool" where
  "flow_spec G F D = ok_spec (\<lambda>fl. case fl of Go st \<Rightarrow> G st | Fall st \<Rightarrow> F st | Finished st \<Rightarrow> D st
     | Fails _ st \<Rightarrow> tree_inv st \<and> js_first st)"

lemma ok_spec_simps [simp]:
  "ok_spec P (Ok x) \<longleftrightarrow> P x" "ok_spec P (Err e) \<longleftrightarrow> False" "ok_spec P (Panic q) \<longleftrightarrow> q = IntOverflow"
  by (simp_all add: ok_spec_def)

lemma flow_spec_simps [simp]:
  "flow_spec G F D (go st) \<longleftrightarrow> G st" "flow_spec G F D (fall st) \<longleftrightarrow> F st"
  "flow_spec G F D (fails msg st) \<longleftrightarrow> tree_inv st \<and> js_first st" "flow_spec G F D (Ok (Finished st)) \<longleftrightarrow> D st"
  "flow_spec G F D (continue st) \<longleftrightarrow> G (st\<lparr>js_p := js_p st + 1\<rparr>)"
  "flow_spec G F D (Panic q) \<longleftrightarrow> q = IntOverflow"
  by (simp_all add: flow_spec_def go_def fall_def fails_def continue_def)

lemma flow_spec_then:
  assumes "ok_spec P r" and "\<And>x. P x \<Longrightarrow> flow_spec G F D (f x)"
  shows "flow_spec G F D (then_do r f)"
  using assms by (cases r) (auto simp: flow_spec_def)

lemma ok_spec_then:
  assumes "ok_spec P r" and "\<And>x. P x \<Longrightarrow> ok_spec Q (f x)"
  shows "ok_spec Q (then_do r f)"
  using assms by (cases r) auto

lemma flow_spec_and_then:
  assumes "flow_spec G F' D r" and "\<And>st. F' st \<Longrightarrow> flow_spec G F D (f st)"
  shows "flow_spec G F D (and_then r f)"
proof (cases r)
  case (Ok fl)
  with assms show ?thesis by (cases fl) (auto simp: flow_spec_def and_then_def)
qed (use assms in \<open>auto simp: flow_spec_def and_then_def\<close>)

lemma flow_spec_mono:
  assumes "flow_spec G F D r" and "\<And>st. G st \<Longrightarrow> G' st" and "\<And>st. F st \<Longrightarrow> F' st" and "\<And>st. D st \<Longrightarrow> D' st"
  shows "flow_spec G' F' D' r"
proof (cases r)
  case (Ok fl)
  with assms show ?thesis by (cases fl) (auto simp: flow_spec_def)
qed (use assms in \<open>auto simp: flow_spec_def\<close>)

lemma ok_spec_i64: "ok_spec (\<lambda>y. y = x) (i64 x)"
  by (simp add: i64_def)

lemma ok_spec_shift_in: "ok_spec (\<lambda>_. True) (shift_in n b)"
  by (auto simp: shift_in_def i64_def)

subsection \<open>Fields\<close>

lemma with_flags_simps [simp]:
  "js_first (with_flags f st) = js_first st" "js_p (with_flags f st) = js_p st"
  "js_flags (with_flags f st) = f (js_flags st)" "js_top (with_flags f st) = js_top st"
  "js_root (with_flags f st) = js_root st" "js_alloc (with_flags f st) = js_alloc st"
  "js_nodes (with_flags f st) = js_nodes st" "js_string (with_flags f st) = js_string st"
  "js_room (with_flags f st) = js_room st" "js_string_length (with_flags f st) = js_string_length st"
  "js_num_digits (with_flags f st) = js_num_digits st"
  by (simp_all add: with_flags_def)

lemma with_flags_p [simp]: "with_flags f (st\<lparr>js_p := p\<rparr>) = (with_flags f st)\<lparr>js_p := p\<rparr>"
  by (simp add: with_flags_def)

lemma set_node_simps [simp]:
  "js_first (set_node i v st) = js_first st" "js_p (set_node i v st) = js_p st"
  "js_flags (set_node i v st) = js_flags st" "js_top (set_node i v st) = js_top st"
  "js_root (set_node i v st) = js_root st" "js_alloc (set_node i v st) = js_alloc st"
  "js_nodes (set_node i v st) = (js_nodes st)[i := v]" "js_string (set_node i v st) = js_string st"
  "js_room (set_node i v st) = js_room st" "js_string_length (set_node i v st) = js_string_length st"
  "js_num_digits (set_node i v st) = js_num_digits st"
  by (simp_all add: set_node_def)

subsection \<open>Reading the text\<close>

lemma json_read_in: "p \<le> length s \<Longrightarrow> \<exists>b. json_read s p = Ok b"
  by (simp add: json_read_def)

lemma json_read_inside: "json_read s p = Ok b \<Longrightarrow> b \<noteq> CHR 0x00 \<Longrightarrow> p < length s"
  by (auto simp: json_read_def split: if_splits)

lemma json_read_spec: "p \<le> length s \<Longrightarrow> ok_spec (\<lambda>b. b \<noteq> CHR 0x00 \<longrightarrow> p < length s) (json_read s p)"
  by (auto simp: json_read_def)

lemma is_digit_not_NUL: "is_digit b \<Longrightarrow> b \<noteq> CHR 0x00"
  by (auto simp: is_digit_def)

lemma hex_run_spec:
  "p + n \<le> length s + 1 \<Longrightarrow> p \<le> length s \<Longrightarrow>
    ok_spec (\<lambda>r. case r of None \<Rightarrow> True | Some _ \<Rightarrow> p + n \<le> length s) (hex_run s n p acc)"
proof (induction n arbitrary: p acc)
  case (Suc n)
  show ?case
  proof (cases "hex_value (if p < length s then s ! p else CHR 0x00) = 0xFF")
    case True
    with Suc.prems show ?thesis by (auto simp: json_read_def split: if_splits)
  next
    case False
    then have p: "p < length s" by (auto split: if_splits)
    with False Suc.IH [of "p + 1" "acc * 16 + hex_value (s ! p)"] Suc.prems show ?thesis
      by (auto simp: json_read_def)
  qed
qed simp

lemma word_at_spec:
  "p + length w \<le> length s + 1 \<Longrightarrow> p \<le> length s \<Longrightarrow> CHR 0x00 \<notin> set w \<Longrightarrow>
    ok_spec (\<lambda>ok. ok \<longrightarrow> p + length w \<le> length s) (word_at s p w)"
proof (induction w arbitrary: p)
  case (Cons c w)
  show ?case
  proof (cases "p < length s")
    case True
    with Cons.IH [of "p + 1"] Cons.prems show ?thesis by (auto simp: json_read_def)
  next
    case False
    with Cons.prems show ?thesis by (auto simp: json_read_def)
  qed
qed simp

subsection \<open>The invariant and the measure\<close>

text \<open>
  Where the loop is, by its flags: in a string (a value or a key), behind the value, before a value in
  a container, in an object, or in a number.
\<close>

definition mode_ok :: "json_flags \<Rightarrow> json_type \<Rightarrow> bool" where
  "mode_ok f ty \<longleftrightarrow>
     (if fl_string f then (ty = json_string \<or> ty = json_object) \<and> \<not> fl_seek_value f \<and> \<not> fl_done f
      else if fl_done f then \<not> fl_seek_value f
      else if fl_seek_value f then container ty
      else ty = json_object \<or> number ty \<and> \<not> fl_need_comma f)"

definition start_mode :: "json_flags \<Rightarrow> bool" where
  "start_mode f \<longleftrightarrow> fl_seek_value f \<and> \<not> fl_need_comma f \<and> \<not> fl_need_colon f \<and> \<not> fl_string f \<and> \<not> fl_done f"

definition top_type :: "json_state \<Rightarrow> json_type" where
  "top_type st = (case js_top st of None \<Rightarrow> json_none | Some i \<Rightarrow> jv_type (js_nodes st ! i))"

definition loop_inv :: "bool \<Rightarrow> string \<Rightarrow> json_state \<Rightarrow> bool" where
  "loop_inv comments s st \<longleftrightarrow> js_p st \<le> length s \<and> \<not> fl_next (js_flags st) \<and> \<not> fl_reproc (js_flags st) \<and>
     ((fl_line_comment (js_flags st) \<or> fl_block_comment (js_flags st)) \<longrightarrow> comments \<and> \<not> fl_string (js_flags st)) \<and>
     (case js_top st of None \<Rightarrow> start_mode (js_flags st) | Some i \<Rightarrow> mode_ok (js_flags st) (jv_type (js_nodes st ! i)))"

definition rank :: "json_state \<Rightarrow> nat" where
  "rank st =
     (let f = js_flags st in
      if fl_line_comment f then 3
      else if fl_string f \<or> fl_done f \<or> fl_need_comma f then 0
      else if fl_seek_value f then 2
      else if number (top_type st) then 1 else 0)"

definition todo :: "string \<Rightarrow> json_state \<Rightarrow> nat" where
  "todo s st = 4 * (length s + 1 - js_p st) + rank st"

lemma rank_le: "rank st \<le> 3"
  by (simp add: rank_def Let_def)

lemma todo_advance: "js_p st < js_p st' \<Longrightarrow> js_p st' \<le> length s \<Longrightarrow> todo s st' < todo s st"
  using rank_le [of st'] by (simp add: todo_def)

lemma todo_rank: "js_p st' = js_p st \<Longrightarrow> rank st' < rank st \<Longrightarrow> todo s st' < todo s st"
  by (simp add: todo_def)

subsection \<open>The end of the body\<close>

lemma on_top_eval: "tree_inv st \<Longrightarrow> js_top st = Some i \<Longrightarrow> on_top f st = f i (js_nodes st ! i) st"
  by (auto simp: on_top_def node_at_def tree_inv_def)

lemma parents_ok_update:
  "parents_ok vs \<Longrightarrow> jv_parent v = jv_parent (vs ! i) \<Longrightarrow> container (jv_type v) = container (jv_type (vs ! i)) \<Longrightarrow>
    parents_ok (vs[i := v])"
  by (cases "i < length vs") (auto simp: parents_ok_def nth_list_update list_update_beyond)

lemma parents_ok_snoc:
  "parents_ok vs \<Longrightarrow> (\<And>k. jv_parent v = Some k \<Longrightarrow> k < length vs \<and> container (jv_type (vs ! k))) \<Longrightarrow>
    parents_ok (vs @ [v])"
  by (auto simp: parents_ok_def nth_append less_Suc_eq)

lemma tree_inv_set_node:
  "tree_inv st \<Longrightarrow> jv_parent v = jv_parent (js_nodes st ! i) \<Longrightarrow>
    container (jv_type v) = container (jv_type (js_nodes st ! i)) \<Longrightarrow> tree_inv (set_node i v st)"
  by (auto simp: tree_inv_def intro: parents_ok_update split: option.splits)

lemma tree_inv_with_flags [simp]: "tree_inv (with_flags f st) \<longleftrightarrow> tree_inv st"
  by (simp add: tree_inv_def split: option.split)

lemma top_type_with_flags [simp]: "top_type (with_flags f st) = top_type st"
  by (simp add: top_type_def split: option.split)

lemma tree_inv_fields [simp]:
  "tree_inv (st\<lparr>js_p := p\<rparr>) \<longleftrightarrow> tree_inv st" "tree_inv (st\<lparr>js_string_length := n\<rparr>) \<longleftrightarrow> tree_inv st"
  "tree_inv (st\<lparr>js_string := c\<rparr>) \<longleftrightarrow> tree_inv st" "tree_inv (st\<lparr>js_room := n\<rparr>) \<longleftrightarrow> tree_inv st"
  "tree_inv (st\<lparr>js_num_digits := x\<rparr>) \<longleftrightarrow> tree_inv st" "tree_inv (st\<lparr>js_num_e := x\<rparr>) \<longleftrightarrow> tree_inv st"
  "tree_inv (st\<lparr>js_num_fraction := x\<rparr>) \<longleftrightarrow> tree_inv st"
  by (simp_all add: tree_inv_def split: option.split)

lemma top_type_fields [simp]:
  "top_type (st\<lparr>js_p := p\<rparr>) = top_type st" "top_type (st\<lparr>js_string_length := n\<rparr>) = top_type st"
  "top_type (st\<lparr>js_string := c\<rparr>) = top_type st" "top_type (st\<lparr>js_room := n\<rparr>) = top_type st"
  "top_type (st\<lparr>js_num_digits := x\<rparr>) = top_type st" "top_type (st\<lparr>js_num_e := x\<rparr>) = top_type st"
  "top_type (st\<lparr>js_num_fraction := x\<rparr>) = top_type st"
  by (simp_all add: top_type_def split: option.split)

text \<open>What a state is that falls out of the body, compared to the one the body began with.\<close>

definition fall_ok :: "string \<Rightarrow> json_state \<Rightarrow> json_state \<Rightarrow> bool" where
  "fall_ok s st0 st \<longleftrightarrow> (let f = js_flags st in
     tree_inv st \<and> js_first st \<and> js_top st \<noteq> None \<and> js_p st0 \<le> js_p st \<and>
     \<not> fl_line_comment f \<and> \<not> fl_block_comment f \<and>
     (if fl_next f then \<not> fl_string f \<and> \<not> fl_seek_value f \<and> \<not> fl_done f else mode_ok f (top_type st)) \<and>
     (if fl_reproc f then js_p st \<le> length s \<and> (js_p st = js_p st0 \<longrightarrow> (if fl_next f then 0 else rank st) < rank st0)
      else js_p st < length s))"

text \<open>What a state is with which the loop goes on.\<close>

definition next_ok :: "bool \<Rightarrow> string \<Rightarrow> json_state \<Rightarrow> json_state \<Rightarrow> bool" where
  "next_ok comments s st0 st \<longleftrightarrow> tree_inv st \<and> loop_inv comments s st \<and> js_first st \<and> todo s st < todo s st0"

lemma value_done_ok:
  assumes "tree_inv st" and "js_first st" and "js_top st = Some i" and "js_p st \<le> length s"
    and "fl_need_comma (js_flags st)" and "\<not> fl_next (js_flags st)" and "\<not> fl_reproc (js_flags st)"
    and "\<not> fl_string (js_flags st)" and "\<not> fl_seek_value (js_flags st)" and "\<not> fl_done (js_flags st)"
    and "\<not> fl_line_comment (js_flags st)" and "\<not> fl_block_comment (js_flags st)"
  shows "flow_spec (\<lambda>st'. tree_inv st' \<and> loop_inv comments s st' \<and> js_first st' \<and> js_p st' = js_p st \<and> rank st' = 0)
    F D (value_done st)"
proof -
  let ?v = "js_nodes st ! i"
  have i: "i < length (js_nodes st)" using assms(1,3) by (auto simp: tree_inv_def)
  show ?thesis
  proof (cases "jv_parent ?v")
    case None
    with assms show ?thesis
      by (auto simp: value_done_def on_top_eval loop_inv_def mode_ok_def rank_def)
  next
    case (Some k)
    then have k: "k < i" "container (jv_type (js_nodes st ! k))"
      using assms(1) i by (auto simp: tree_inv_def parents_ok_def)
    let ?st = "if jv_type (js_nodes st ! k) = json_array then with_flags (fl_seek_value_update (\<lambda>_. True)) st else st"
    let ?pv = "(js_nodes st ! k)\<lparr>jv_length := jv_length (js_nodes st ! k) + 1\<rparr>"
    have "tree_inv ((set_node k ?pv ?st)\<lparr>js_top := Some k\<rparr>)"
      using assms(1,3) k i by (auto simp: tree_inv_def intro!: parents_ok_update)
    moreover have "tree_inv (set_node k ?pv ?st)" using assms(1) by (intro tree_inv_set_node) simp_all
    moreover have "loop_inv comments s ((set_node k ?pv ?st)\<lparr>js_top := Some k\<rparr>)"
      using assms k i by (auto simp: loop_inv_def mode_ok_def container_def)
    moreover have "rank ((set_node k ?pv ?st)\<lparr>js_top := Some k\<rparr>) = 0" using assms by (simp add: rank_def Let_def)
    ultimately show ?thesis using assms(1-3) Some k(1) i
      by (auto simp: value_done_def on_top_eval node_at_def store_in_parent_def Let_def)
  qed
qed

lemma step_finish_ok:
  assumes "fall_ok s st0 st"
  shows "flow_spec (next_ok comments s st0) F D (step_finish st)"
proof -
  define f where "f = js_flags st"
  obtain i where i: "js_top st = Some i" using assms by (auto simp: fall_ok_def Let_def)
  have tree: "tree_inv st" "js_first st" and p0: "js_p st0 \<le> js_p st"
    and com: "\<not> fl_line_comment f" "\<not> fl_block_comment f"
    using assms by (auto simp: fall_ok_def Let_def f_def)
  define st1 where "st1 = (if fl_reproc f then with_flags (fl_reproc_update (\<lambda>_. False)) st else st\<lparr>js_p := js_p st + 1\<rparr>)"
  have st1: "tree_inv st1" "js_first st1" "js_top st1 = Some i" "js_p st1 \<le> length s" "js_p st0 \<le> js_p st1"
    "js_nodes st1 = js_nodes st" "\<not> fl_reproc (js_flags st1)" "fl_next (js_flags st1) = fl_next f"
    "js_flags st1 = f\<lparr>fl_reproc := False\<rparr>"
    using assms tree i p0 by (auto simp: st1_def fall_ok_def Let_def f_def)
  have less: "todo s st' < todo s st0" if "js_p st' = js_p st1" "rank st' \<le> (if fl_next f then 0 else rank st1)" for st'
  proof (cases "js_p st0 < js_p st1")
    case True
    with that st1(4) show ?thesis by (intro todo_advance) simp_all
  next
    case False
    then have p: "js_p st1 = js_p st0" using st1(5) by simp
    then have r: "fl_reproc f" using p0 by (auto simp: st1_def split: if_splits)
    then have "rank st1 = rank st" by (simp add: st1_def rank_def Let_def)
    moreover have "js_p st = js_p st0" using p r by (simp add: st1_def)
    ultimately have "rank st' < rank st0" using assms that(2) r
      by (auto simp: fall_ok_def Let_def f_def split: if_splits)
    with that(1) p show ?thesis by (intro todo_rank) simp_all
  qed
  have run: "step_finish st = (if fl_next f
      then value_done (with_flags (\<lambda>f. f\<lparr>fl_next := False, fl_need_comma := True\<rparr>) st1) else go st1)"
    using st1(8) by (simp add: step_finish_def st1_def [symmetric] f_def [symmetric] Let_def del: with_flags_simps)
  show ?thesis
  proof (cases "fl_next f")
    case True
    let ?st2 = "with_flags (\<lambda>f. f\<lparr>fl_next := False, fl_need_comma := True\<rparr>) st1"
    have "\<not> fl_string f" "\<not> fl_seek_value f" "\<not> fl_done f"
      using assms True by (auto simp: fall_ok_def Let_def f_def)
    then have "flow_spec (\<lambda>st'. tree_inv st' \<and> loop_inv comments s st' \<and> js_first st' \<and> js_p st' = js_p ?st2 \<and>
        rank st' = 0) F D (value_done ?st2)"
      using st1 com by (intro value_done_ok [where i = i]) simp_all
    then show ?thesis unfolding run using True less
      by (auto simp: next_ok_def elim!: flow_spec_mono)
  next
    case False
    then have "loop_inv comments s st1"
      using assms st1 com i by (auto simp: loop_inv_def fall_ok_def Let_def f_def top_type_def mode_ok_def)
    with False st1 less [of st1] show ?thesis unfolding run by (simp add: next_ok_def)
  qed
qed

subsection \<open>The stages of the body\<close>

definition at_char :: "bool \<Rightarrow> string \<Rightarrow> json_state \<Rightarrow> char \<Rightarrow> bool" where
  "at_char comments s st b \<longleftrightarrow> tree_inv st \<and> loop_inv comments s st \<and> js_first st \<and> json_read s (js_p st) = Ok b"

lemma at_char_inside: "at_char comments s st b \<Longrightarrow> b \<noteq> CHR 0x00 \<Longrightarrow> js_p st < length s"
  by (auto simp: at_char_def dest: json_read_inside)

text \<open>A step forward that changes flags, but not the kind of place the loop is in.\<close>

lemma next_ok_forward:
  assumes "tree_inv st" and "js_first st" and "js_p st0 < js_p st" and "loop_inv comments s st"
  shows "next_ok comments s st0 st"
  using assms todo_advance [of st0 st s] by (simp add: next_ok_def loop_inv_def)

lemma string_adds_first: "js_first st \<Longrightarrow>
    string_adds cs st = Ok (st\<lparr>js_string_length := js_string_length st + length cs\<rparr>)"
  by (simp add: string_adds_def Let_def)

text \<open>The places in a string.\<close>

definition in_string :: "bool \<Rightarrow> string \<Rightarrow> json_state \<Rightarrow> bool" where
  "in_string comments s st \<longleftrightarrow> tree_inv st \<and> js_first st \<and> loop_inv comments s st \<and> fl_string (js_flags st)"

lemma in_stringD: "in_string comments s st \<Longrightarrow> tree_inv st" "in_string comments s st \<Longrightarrow> js_first st"
  by (simp_all add: in_string_def)

lemma in_string_fields [simp]:
  "in_string comments s (st\<lparr>js_string_length := n\<rparr>) \<longleftrightarrow> in_string comments s st"
  "in_string comments s (with_flags (fl_escaped_update e) st) \<longleftrightarrow> in_string comments s st"
  by (auto simp: in_string_def loop_inv_def mode_ok_def start_mode_def split: option.splits)

lemma in_string_move: "in_string comments s st \<Longrightarrow> p \<le> length s \<Longrightarrow> in_string comments s (st\<lparr>js_p := p\<rparr>)"
  by (auto simp: in_string_def loop_inv_def split: option.splits)

lemma in_string_next:
  "in_string comments s st \<Longrightarrow> js_p st0 < js_p st \<Longrightarrow> next_ok comments s st0 st"
  by (auto simp: in_string_def intro: next_ok_forward)

lemma add_and_continue_ok:
  assumes "in_string comments s st" and "js_p st < length s" and "js_p st0 \<le> js_p st"
  shows "flow_spec (next_ok comments s st0) F D (add_and_continue cs st)"
proof -
  let ?st = "st\<lparr>js_string_length := js_string_length st + length cs\<rparr>"
  have "in_string comments s (?st\<lparr>js_p := js_p ?st + 1\<rparr>)" using assms(1,2) by (intro in_string_move) simp_all
  then have "next_ok comments s st0 (?st\<lparr>js_p := js_p ?st + 1\<rparr>)" using assms(3) by (intro in_string_next) simp_all
  moreover have "js_first st" using assms(1) by (simp add: in_string_def)
  ultimately show ?thesis by (simp add: add_and_continue_def string_adds_first)
qed

lemma bad_unicode_ok [simp]: "flow_spec G F D (bad_unicode st) \<longleftrightarrow> tree_inv st \<and> js_first st"
  by (simp add: bad_unicode_def)

lemma step_surrogate_ok:
  assumes "in_string comments s st" and "js_p st < length s" and "js_p st0 \<le> js_p st"
  shows "flow_spec (next_ok comments s st0) F D (step_surrogate s u st)"
proof (cases "length s - js_p st < 6")
  case False
  let ?p = "js_p st"
  have w: "ok_spec (\<lambda>ok. ok \<longrightarrow> ?p + 3 \<le> length s) (word_at s (?p + 1) [CHR 0x5C, CHR ''u''])"
    using word_at_spec [of "?p + 1" "[CHR 0x5C, CHR ''u'']" s] False by (simp add: eval_nat_numeral del: word_at.simps)
  have h: "ok_spec (\<lambda>r. case r of None \<Rightarrow> True | Some _ \<Rightarrow> ?p + 7 \<le> length s) (hex_run s 4 (?p + 3) 0)"
    using hex_run_spec [of "?p + 3" 4 s 0] False by (simp add: add.commute)
  have "flow_spec (next_ok comments s st0) F D (add_and_continue cs (st\<lparr>js_p := ?p + 6\<rparr>))"
    if "?p + 7 \<le> length s" for cs
    using assms that by (intro add_and_continue_ok in_string_move) simp_all
  then show ?thesis unfolding step_surrogate_def if_not_P [OF False]
    by (intro flow_spec_then [OF w])
      (use in_stringD [OF assms(1)] in \<open>auto intro!: flow_spec_then [OF h] split: option.splits\<close>)
qed (use in_stringD [OF assms(1)] in \<open>simp add: step_surrogate_def\<close>)

lemma step_unicode_ok:
  assumes "in_string comments s st" and "js_p st < length s" and "js_p st0 \<le> js_p st"
  shows "flow_spec (next_ok comments s st0) F D (step_unicode s st)"
proof (cases "length s - js_p st < 4")
  case False
  let ?p = "js_p st"
  have h: "ok_spec (\<lambda>r. case r of None \<Rightarrow> True | Some _ \<Rightarrow> ?p + 5 \<le> length s) (hex_run s 4 (?p + 1) 0)"
    using hex_run_spec [of "?p + 1" 4 s 0] False assms(2) by (simp add: add.commute)
  show ?thesis unfolding step_unicode_def if_not_P [OF False]
    by (rule flow_spec_then [OF h])
      (use assms in_stringD [OF assms(1)]
        in \<open>auto simp: Let_def intro!: add_and_continue_ok step_surrogate_ok in_string_move split: option.splits\<close>)
qed (use in_stringD [OF assms(1)] in \<open>simp add: step_unicode_def\<close>)

lemma step_string_ok:
  assumes "at_char comments s st b" and "fl_string (js_flags st)"
  shows "flow_spec (next_ok comments s st)
    (\<lambda>st'. js_p st' = js_p st \<and> tree_inv st' \<and> js_first st' \<and> js_top st' \<noteq> None \<and> b = CHR 0x22 \<and> js_p st < length s \<and>
       js_flags st' = (js_flags st)\<lparr>fl_string := False, fl_next := True\<rparr> \<and> top_type st' = json_string) D (step_string s b st)"
proof (cases "b = CHR 0x00")
  case False
  have str: "in_string comments s st" using assms by (simp add: at_char_def in_string_def)
  have p: "js_p st < length s" using assms(1) False by (rule at_char_inside)
  have esc: "flow_spec (next_ok comments s st) F D (step_escaped s b st)" for F
    using str p by (auto simp: step_escaped_def Let_def intro!: add_and_continue_ok step_unicode_ok)
  have bs: "flow_spec (next_ok comments s st) F D (continue (with_flags (fl_escaped_update (\<lambda>_. True)) st))" for F
  proof -
    have "in_string comments s ((with_flags (fl_escaped_update (\<lambda>_. True)) st)\<lparr>js_p := js_p st + 1\<rparr>)"
      using str p by (intro in_string_move) simp_all
    then show ?thesis by (auto intro: in_string_next)
  qed
  have add: "flow_spec (next_ok comments s st) F D (add_and_continue [b] st)" for F
    using str p by (intro add_and_continue_ok) simp_all
  obtain i where i: "js_top st = Some i" using str
    by (auto simp: in_string_def loop_inv_def start_mode_def split: option.splits)
  let ?v = "js_nodes st ! i"
  let ?st = "with_flags (fl_string_update (\<lambda>_. False)) st"
  have len: "i < length (js_nodes st)" using str i by (auto simp: in_string_def tree_inv_def)
  have tree: "tree_inv ?st" "js_first st" using str by (auto simp: in_string_def)
  have mode: "jv_type ?v = json_string \<or> jv_type ?v = json_object" "\<not> fl_seek_value (js_flags st)" "\<not> fl_done (js_flags st)"
    "\<not> fl_next (js_flags st)" "\<not> fl_reproc (js_flags st)" "\<not> fl_line_comment (js_flags st)" "\<not> fl_block_comment (js_flags st)"
    using str i by (auto simp: in_string_def loop_inv_def mode_ok_def)
  have "close_string st = (case jv_type ?v of
      json_string \<Rightarrow> fall (with_flags (fl_next_update (\<lambda>_. True))
        (set_node i (?v\<lparr>jv_length := js_string_length st, jv_chars := js_string st\<rparr>) ?st))
    | _ \<Rightarrow> continue (set_node i (?v\<lparr>jv_names := jv_names ?v + js_string_length st + 1\<rparr>)
        (with_flags (\<lambda>f. f\<lparr>fl_seek_value := True, fl_need_colon := True\<rparr>) ?st)))"
    using i tree mode(1) by (auto simp: close_string_def string_end_def on_top_eval Let_def)
  moreover have "tree_inv (set_node i (?v\<lparr>jv_length := n, jv_chars := c\<rparr>) ?st)" for n c
    using tree(1) by (intro tree_inv_set_node) simp_all
  moreover have "tree_inv (set_node i (?v\<lparr>jv_names := n\<rparr>)
      (with_flags (\<lambda>f. f\<lparr>fl_seek_value := True, fl_need_colon := True\<rparr>) ?st))" for n
    using tree(1) by (intro tree_inv_set_node) simp_all
  ultimately have close: "flow_spec (next_ok comments s st)
      (\<lambda>st'. js_p st' = js_p st \<and> tree_inv st' \<and> js_first st' \<and> js_top st' \<noteq> None \<and>
         js_flags st' = (js_flags st)\<lparr>fl_string := False, fl_next := True\<rparr> \<and> top_type st' = json_string) D (close_string st)"
    using mode i tree(2) len p
    by (auto simp: top_type_def loop_inv_def mode_ok_def container_def intro!: next_ok_forward)
  show ?thesis
    using False esc bs add flow_spec_mono [OF close] p tree by (auto simp: step_string_def)
qed (use assms(1) in \<open>simp add: step_string_def at_char_def\<close>)

subsection \<open>Comments\<close>

text \<open>A place of the loop outside of a string.\<close>

definition outside :: "bool \<Rightarrow> string \<Rightarrow> json_state \<Rightarrow> char \<Rightarrow> bool" where
  "outside comments s st b \<longleftrightarrow> at_char comments s st b \<and> \<not> fl_string (js_flags st) \<and>
     \<not> fl_line_comment (js_flags st) \<and> \<not> fl_block_comment (js_flags st)"

lemma loop_inv_fields [simp]:
  "loop_inv comments s st \<Longrightarrow> loop_inv comments s (with_flags (fl_need_comma_update (\<lambda>_. False)) st)"
  "loop_inv comments s st \<Longrightarrow> loop_inv comments s (with_flags (fl_need_colon_update (\<lambda>_. False)) st)"
  "loop_inv comments s st \<Longrightarrow> loop_inv comments s (with_flags (fl_line_comment_update (\<lambda>_. False)) st)"
  "loop_inv comments s st \<Longrightarrow> loop_inv comments s (with_flags (fl_block_comment_update (\<lambda>_. False)) st)"
  by (auto simp: loop_inv_def mode_ok_def start_mode_def split: option.splits if_splits)

lemma loop_inv_comment:
  "loop_inv True s st \<Longrightarrow> \<not> fl_string (js_flags st) \<Longrightarrow> loop_inv True s (with_flags (fl_line_comment_update (\<lambda>_. True)) st)"
  "loop_inv True s st \<Longrightarrow> \<not> fl_string (js_flags st) \<Longrightarrow> loop_inv True s (with_flags (fl_block_comment_update (\<lambda>_. True)) st)"
  by (auto simp: loop_inv_def mode_ok_def start_mode_def split: option.splits if_splits)

lemma next_ok_continue:
  assumes "tree_inv st" and "js_first st" and "loop_inv comments s st" and "js_p st0 \<le> js_p st" and "js_p st < length s"
  shows "next_ok comments s st0 (st\<lparr>js_p := js_p st + 1\<rparr>)"
  using assms by (intro next_ok_forward) (auto simp: loop_inv_def split: option.splits)

text \<open>A step past a character of the text.\<close>

lemma next_ok_past:
  assumes "tree_inv st1" "js_first st1" "loop_inv True s st1" "js_p st \<le> q" "q < length s"
  shows "next_ok True s st (st1\<lparr>js_p := q + 1\<rparr>)"
  using next_ok_continue [of "st1\<lparr>js_p := q\<rparr>" True s st] assms by (auto simp: loop_inv_def split: option.splits)

lemma open_comment_ok:
  assumes st: "tree_inv st" "loop_inv True s st" "js_first st" and "\<not> fl_string (js_flags st)" and p: "js_p st < length s"
  shows "flow_spec (next_ok True s st) F D (open_comment s st)"
proof (cases "js_p st + 1 = length s")
  case False
  then have r: "ok_spec (\<lambda>c. c \<noteq> CHR 0x00 \<longrightarrow> js_p st + 1 < length s) (json_read s (js_p st + 1))"
    using p by (intro json_read_spec) simp
  show ?thesis unfolding open_comment_def if_not_P [OF False]
    by (rule flow_spec_then [OF r])
      (use st assms(4) next_ok_past [of "with_flags (fl_line_comment_update (\<lambda>_. True)) st" s st "js_p st + 1"]
        next_ok_past [of "with_flags (fl_block_comment_update (\<lambda>_. True)) st" s st "js_p st + 1"]
       in \<open>auto simp: loop_inv_comment Let_def\<close>)
qed (simp add: open_comment_def st)

lemma block_comment_ok:
  assumes st: "tree_inv st" "loop_inv True s st" "js_first st" and p: "b \<noteq> CHR 0x00 \<Longrightarrow> js_p st < length s"
    and 2: "\<not> fl_line_comment (js_flags st)" "fl_block_comment (js_flags st)"
  shows "flow_spec (next_ok True s st) F D (step_comment s b st)"
proof -
  let ?p = "js_p st"
  let ?st = "with_flags (fl_block_comment_update (\<lambda>_. False)) (st\<lparr>js_p := ?p + 1\<rparr>)"
  note move = next_ok_past [of _ s st]
  have "loop_inv True s (with_flags (fl_block_comment_update (\<lambda>_. False)) st)" using st(2) by simp
  then have "next_ok True s st (?st\<lparr>js_p := ?p + 1 + 1\<rparr>)" if "?p + 1 < length s"
    using move [of ?st "?p + 1"] st that by (auto simp: loop_inv_def split: option.splits)
  then have "flow_spec (next_ok True s st) F D (then_do (json_read s (?p + 1)) (\<lambda>c.
      if c = CHR ''/'' then continue ?st else continue st))" if "?p + 1 < length s" for F
    using st move [of st ?p] that by (intro flow_spec_then [OF json_read_spec]) auto
  with 2 st p move [of st ?p] show ?thesis by (auto simp: step_comment_def)
qed

lemma step_comment_ok:
  assumes "at_char True s st b" and "\<not> fl_string (js_flags st)"
  shows "flow_spec (next_ok True s st) (\<lambda>st'. st' = st \<and> outside True s st b) D (step_comment s b st)"
proof -
  have st: "tree_inv st" "loop_inv True s st" "js_first st"
    using assms by (auto simp: at_char_def)
  have p: "js_p st < length s" if "b \<noteq> CHR 0x00" using assms(1) that by (rule at_char_inside)
  consider "fl_line_comment (js_flags st)" | "\<not> fl_line_comment (js_flags st)" "fl_block_comment (js_flags st)"
    | "\<not> fl_line_comment (js_flags st)" "\<not> fl_block_comment (js_flags st)" by blast
  then show ?thesis
  proof cases
    case 1
    let ?st = "with_flags (fl_line_comment_update (\<lambda>_. False)) st"
    have "todo s ?st < todo s st" using 1 by (intro todo_rank) (auto simp: rank_def Let_def)
    with 1 st p next_ok_past [of st s st "js_p st"] show ?thesis by (auto simp: step_comment_def next_ok_def)
  next
    case 2
    with st p show ?thesis by (intro block_comment_ok) auto
  next
    case 3
    have out: "outside True s st b" using assms 3 by (simp add: outside_def)
    show ?thesis
    proof (cases "b = CHR ''/''")
      case True
      have "flow_spec (next_ok True s st) F D (open_comment s st)" for F
        using st assms(2) p True by (intro open_comment_ok) auto
      moreover obtain i where "js_top st = Some i" if "\<not> fl_seek_value (js_flags st)"
        using st(2) by (auto simp: loop_inv_def start_mode_def split: option.splits)
      ultimately show ?thesis using True 3 st(1,3) by (auto simp: step_comment_def on_top_eval)
    qed (use 3 out in \<open>simp add: step_comment_def\<close>)
  qed
qed

subsection \<open>Values\<close>

text \<open>A place where a new node may be made, and what it is like there afterwards.\<close>

definition value_place :: "json_state \<Rightarrow> bool" where
  "value_place st \<longleftrightarrow> tree_inv st \<and> js_first st \<and>
     (\<forall>k. js_top st = Some k \<longrightarrow> container (jv_type (js_nodes st ! k)))"

lemma value_place_simps [simp]:
  "value_place (with_flags f st) \<longleftrightarrow> value_place st" "value_place (st\<lparr>js_p := p\<rparr>) \<longleftrightarrow> value_place st"
  by (simp_all add: value_place_def)

text \<open>The flags without which a node is made.\<close>

definition value_flags :: "json_flags \<Rightarrow> bool" where
  "value_flags f \<longleftrightarrow> \<not> fl_string f \<and> \<not> fl_done f \<and> \<not> fl_seek_value f \<and> \<not> fl_need_comma f \<and> \<not> fl_next f \<and>
     \<not> fl_reproc f \<and> \<not> fl_line_comment f \<and> \<not> fl_block_comment f"

lemma new_value_ok:
  assumes "value_place st"
  obtains st' where "new_value ty st = Ok st'" and "tree_inv st'" and "js_first st'" and "top_type st' = ty"
    and "js_p st' = js_p st" and "js_flags st' = js_flags st" and "js_top st' = Some (js_alloc st)"
    and "js_alloc st < length (js_nodes st')" and "jv_type (js_nodes st' ! js_alloc st) = ty"
proof -
  let ?root = "if js_root st = None then Some (js_alloc st) else js_root st"
  let ?st = "st\<lparr>js_nodes := js_nodes st @ [fresh_node (js_top st) ty], js_top := Some (js_alloc st),
    js_root := ?root, js_alloc := js_alloc st + 1\<rparr>"
  have new: "new_value ty st = Ok ?st" using assms by (simp add: new_value_def value_place_def Let_def)
  have alloc: "js_alloc st = length (js_nodes st)" using assms by (simp add: value_place_def tree_inv_def)
  have "?root = Some 0" using assms by (auto simp: value_place_def tree_inv_def split: if_splits)
  then have root: "js_root st = None \<longrightarrow> js_nodes st = []" "(\<exists>y. js_root st = Some y) \<longrightarrow> js_root st = Some 0"
    using alloc by (auto split: if_splits)
  have "parents_ok (js_nodes st @ [fresh_node (js_top st) ty])"
    using assms by (intro parents_ok_snoc)
      (auto simp: value_place_def tree_inv_def fresh_node_def alloc split: option.splits)
  then have "tree_inv ?st" using alloc root by (simp add: tree_inv_def)
  with new alloc show ?thesis
    using assms by (intro that [of ?st]) (simp_all add: top_type_def fresh_node_def value_place_def nth_append)
qed

text \<open>The loop goes on behind a character, at a place outside of comments.\<close>

lemma next_ok_mode:
  assumes "tree_inv st" and "js_first st" and "js_p st0 \<le> js_p st" and "js_p st < length s" and "js_top st \<noteq> None"
    and "\<not> fl_next (js_flags st)" and "\<not> fl_reproc (js_flags st)" and "\<not> fl_line_comment (js_flags st)"
    and "\<not> fl_block_comment (js_flags st)" and "mode_ok (js_flags st) (top_type st)"
  shows "next_ok comments s st0 (st\<lparr>js_p := js_p st + 1\<rparr>)"
  using assms by (intro next_ok_continue) (auto simp: loop_inv_def top_type_def)

lemma fall_ok_next:
  assumes "tree_inv st" and "js_first st" and "js_p st0 \<le> js_p st" and "js_p st < length s" and "js_top st \<noteq> None"
    and "fl_next (js_flags st)" and "\<not> fl_reproc (js_flags st)" and "\<not> fl_string (js_flags st)"
    and "\<not> fl_seek_value (js_flags st)" and "\<not> fl_done (js_flags st)"
    and "\<not> fl_line_comment (js_flags st)" and "\<not> fl_block_comment (js_flags st)"
  shows "fall_ok s st0 st"
  using assms by (simp add: fall_ok_def Let_def)

lemma step_word_ok:
  assumes "value_place st" and "value_flags (js_flags st)" and "js_p st < length s" and "js_p st0 \<le> js_p st"
    and "CHR 0x00 \<notin> set w" and "w \<noteq> []"
  shows "flow_spec G (fall_ok s st0) D (step_word s w ty val st)"
proof (cases "length s - js_p st < length w")
  case False
  let ?p = "js_p st"
  have w: "ok_spec (\<lambda>ok. ok \<longrightarrow> ?p + 1 + length w \<le> length s) (word_at s (?p + 1) w)"
    using False assms(3,5,6) by (intro word_at_spec) simp_all
  obtain st' where st': "new_value ty (st\<lparr>js_p := ?p + length w\<rparr>) = Ok st'" "tree_inv st'" "js_first st'"
    "js_p st' = ?p + length w" "js_flags st' = js_flags st" "js_top st' = Some (js_alloc st)"
    using new_value_ok [of "st\<lparr>js_p := ?p + length w\<rparr>" ty] assms(1) by auto
  let ?v = "(js_nodes st' ! js_alloc st)\<lparr>jv_boolean := (if val then True else jv_boolean (js_nodes st' ! js_alloc st))\<rparr>"
  have "tree_inv (set_node (js_alloc st) ?v st')" using st'(2) by (intro tree_inv_set_node) simp_all
  then have "fall_ok s st0 (with_flags (fl_next_update (\<lambda>_. True)) (set_node (js_alloc st) ?v st'))"
    if "?p + 1 + length w \<le> length s"
    using st' assms(2,4) that by (intro fall_ok_next) (simp_all add: value_flags_def)
  then have "flow_spec G (fall_ok s st0) D (then_do (new_value ty (st\<lparr>js_p := ?p + length w\<rparr>)) (on_top (\<lambda>i v st.
      fall (with_flags (fl_next_update (\<lambda>_. True)) (set_node i (v\<lparr>jv_boolean := (if val then True else jv_boolean v)\<rparr>) st)))))"
    if "?p + 1 + length w \<le> length s"
    using st' that by (simp add: on_top_eval)
  then show ?thesis using assms(1) unfolding step_word_def if_not_P [OF False]
    by (intro flow_spec_then [OF w]) (auto simp: value_place_def)
qed (use assms(1) in \<open>simp add: step_word_def value_place_def\<close>)

lemma step_value_ok:
  assumes "value_place st" and "value_flags (js_flags st)" and "json_read s (js_p st) = Ok b"
    and "js_p st0 = js_p st" and "rank st0 = 2"
  shows "flow_spec (next_ok comments s st0) (fall_ok s st0) D (step_value s b st)"
proof -
  have p: "js_p st < length s" if "b \<noteq> CHR 0x00" using assms(3) that by (rule json_read_inside)
  have word: "flow_spec G (fall_ok s st0) D (step_word s w ty val st)"
    if "b \<noteq> CHR 0x00" "CHR 0x00 \<notin> set w" "w \<noteq> []" for G w ty val
    using assms p that by (intro step_word_ok) simp_all
  note f = assms(2) [unfolded value_flags_def]
  have obj: "flow_spec (next_ok comments s st0) F D (then_do (new_value json_object st) continue)"
    if "b \<noteq> CHR 0x00" for F
  proof -
    obtain st' where "new_value json_object st = Ok st'" "tree_inv st'" "js_first st'" "top_type st' = json_object"
      "js_p st' = js_p st" "js_flags st' = js_flags st" "js_top st' = Some (js_alloc st)"
      using new_value_ok [OF assms(1)] by blast
    with f assms(4) p that show ?thesis
      using next_ok_mode [of st' st0 s comments] by (simp add: mode_ok_def)
  qed
  have arr: "flow_spec (next_ok comments s st0) F D (then_do (new_value json_array st)
      (\<lambda>st. continue (with_flags (fl_seek_value_update (\<lambda>_. True)) st)))" if "b \<noteq> CHR 0x00" for F
  proof -
    obtain st' where "new_value json_array st = Ok st'" "tree_inv st'" "js_first st'" "top_type st' = json_array"
      "js_p st' = js_p st" "js_flags st' = js_flags st" "js_top st' = Some (js_alloc st)"
      using new_value_ok [OF assms(1)] by blast
    with f assms(4) p that show ?thesis
      using next_ok_mode [of "with_flags (fl_seek_value_update (\<lambda>_. True)) st'" st0 s comments]
      by (simp add: mode_ok_def container_def)
  qed
  have str: "flow_spec (next_ok comments s st0) F D (step_string_start st)" if "b \<noteq> CHR 0x00" for F
  proof -
    obtain st' where st': "new_value json_string st = Ok st'" "tree_inv st'" "js_first st'" "top_type st' = json_string"
      "js_p st' = js_p st" "js_flags st' = js_flags st" "js_top st' = Some (js_alloc st)"
      using new_value_ok [OF assms(1)] by blast
    with f assms(4) p that show ?thesis
      using next_ok_mode [of "with_flags (fl_string_update (\<lambda>_. True)) (st'\<lparr>js_string := [], js_room := r, js_string_length := 0\<rparr>)" st0 s comments for r]
      by (simp add: step_string_start_def on_top_eval mode_ok_def)
  qed
  have num: "flow_spec (next_ok comments s st0) (fall_ok s st0) D (step_number_start s b st)" if "b \<noteq> CHR 0x00"
  proof -
    obtain st' where st': "new_value json_integer st = Ok st'" "tree_inv st'" "js_first st'" "top_type st' = json_integer"
      "js_p st' = js_p st" "js_flags st' = js_flags st" "js_top st' = Some (js_alloc st)"
      using new_value_ok [OF assms(1)] by blast
    let ?st = "with_flags (\<lambda>f. f\<lparr>fl_num_negative := False, fl_num_e := False, fl_num_e_got_sign := False,
              fl_num_e_negative := False, fl_num_zero := False\<rparr>) (st'\<lparr>js_num_digits := 0, js_num_fraction := 0, js_num_e := 0\<rparr>)"
    have "top_type ?st = json_integer" using st'(4) by simp
    moreover from this have "rank (with_flags (fl_reproc_update (\<lambda>_. True)) ?st) = 1"
      using f st' by (simp add: rank_def number_def Let_def)
    ultimately show ?thesis
      using st' f assms(4,5) p that next_ok_mode [of "with_flags (fl_num_negative_update (\<lambda>_. True)) ?st" st0 s comments]
      by (auto simp: step_number_start_def fall_ok_def Let_def mode_ok_def number_def)
  qed
  show ?thesis
    using obj arr str num word assms(1) by (auto simp: step_value_def value_place_def dest: is_digit_not_NUL)
qed

lemma outsideD:
  assumes "outside comments s st b"
  shows "tree_inv st" and "js_first st" and "loop_inv comments s st" and "json_read s (js_p st) = Ok b"
    and "\<not> fl_string (js_flags st)" and "\<not> fl_line_comment (js_flags st)" and "\<not> fl_block_comment (js_flags st)"
    and "\<not> fl_next (js_flags st)" and "\<not> fl_reproc (js_flags st)" and "js_p st \<le> length s"
    and "b \<noteq> CHR 0x00 \<Longrightarrow> js_p st < length s"
    and "b \<noteq> CHR 0x00 \<Longrightarrow> next_ok comments s st (st\<lparr>js_p := js_p st + 1\<rparr>)"
proof -
  show "b \<noteq> CHR 0x00 \<Longrightarrow> js_p st < length s" using assms by (auto simp: outside_def intro: at_char_inside)
  with assms show "b \<noteq> CHR 0x00 \<Longrightarrow> next_ok comments s st (st\<lparr>js_p := js_p st + 1\<rparr>)"
    by (intro next_ok_continue) (auto simp: outside_def at_char_def)
qed (use assms in \<open>auto simp: outside_def at_char_def loop_inv_def\<close>)

lemma is_space_not_NUL: "is_space b \<Longrightarrow> b \<noteq> CHR 0x00"
  by (auto simp: is_space_def)

lemma top_is_eval: "tree_inv st \<Longrightarrow> ty \<noteq> json_none \<Longrightarrow> top_is ty st = Ok (top_type st = ty)"
  by (auto simp: top_is_def top_type_def node_at_def tree_inv_def split: option.splits)

lemma step_seek_ok:
  assumes "outside comments s st b" and "fl_seek_value (js_flags st)" and "\<not> fl_done (js_flags st)"
  shows "flow_spec (next_ok comments s st) (fall_ok s st) D (step_seek s b st)"
proof -
  note o = outsideD [OF assms(1)]
  let ?f = "js_flags st"
  have close: "fall_ok s st (with_flags (\<lambda>f. f\<lparr>fl_need_comma := False, fl_seek_value := False, fl_next := True\<rparr>) st)"
    if "b = CHR '']''" "top_type st = json_array"
    using o assms that by (intro fall_ok_next) (auto simp: top_type_def split: option.splits)
  have clear: "next_ok comments s st ((with_flags g st)\<lparr>js_p := js_p st + 1\<rparr>)"
    if "b \<noteq> CHR 0x00" "g = fl_need_comma_update (\<lambda>_. False) \<or> g = fl_need_colon_update (\<lambda>_. False)" for g
    using o that next_ok_continue [of "with_flags g st" comments s st] by auto
  have "flow_spec (next_ok comments s st) (fall_ok s st) D (step_value s b (with_flags (fl_seek_value_update (\<lambda>_. False)) st))"
    if "\<not> fl_need_comma ?f"
  proof (rule step_value_ok)
    show "value_place (with_flags (fl_seek_value_update (\<lambda>_. False)) st)"
      using o assms(2,3) by (auto simp: value_place_def loop_inv_def mode_ok_def)
  qed (use o assms that in \<open>auto simp: value_flags_def rank_def\<close>)
  with o close clear show ?thesis
    by (auto simp: step_seek_def top_is_eval dest: is_space_not_NUL)
qed

subsection \<open>Objects and numbers\<close>

lemma fall_ok_mode:
  assumes "tree_inv st" and "js_first st" and "js_top st \<noteq> None" and "js_p st0 \<le> js_p st" and "js_p st < length s"
    and "\<not> fl_next (js_flags st)" and "\<not> fl_reproc (js_flags st)" and "\<not> fl_line_comment (js_flags st)"
    and "\<not> fl_block_comment (js_flags st)" and "mode_ok (js_flags st) (top_type st)"
  shows "fall_ok s st0 st"
  using assms by (simp add: fall_ok_def Let_def)

lemma step_object_ok:
  assumes "outside comments s st b" and "js_top st = Some i" and "jv_type v = json_object" and "v = js_nodes st ! i"
    and "\<not> fl_seek_value (js_flags st)" and "\<not> fl_done (js_flags st)"
  shows "flow_spec (next_ok comments s st) (fall_ok s st) D (step_object b i v st)"
proof -
  note o = outsideD [OF assms(1)]
  have ty: "top_type st = json_object" using assms(2-4) by (simp add: top_type_def)
  have "fall_ok s st (with_flags (fl_string_update (\<lambda>_. True)) (st\<lparr>js_string := c, js_room := r, js_string_length := n\<rparr>))"
    if "b \<noteq> CHR 0x00" for c r n
    using o assms(2,5,6) ty that by (intro fall_ok_mode) (simp_all add: mode_ok_def)
  moreover have "fall_ok s st (with_flags (fl_need_comma_update (\<lambda>_. False)) st)" if "b \<noteq> CHR 0x00"
    using o assms(2,5,6) ty that by (intro fall_ok_mode) (simp_all add: mode_ok_def)
  moreover have "fall_ok s st (with_flags (\<lambda>f. f\<lparr>fl_need_comma := False, fl_next := True\<rparr>) st)" if "b \<noteq> CHR 0x00"
    using o assms(2,5,6) that by (intro fall_ok_next) simp_all
  ultimately show ?thesis
    using o by (auto simp: step_object_def dest: is_space_not_NUL)
qed

text \<open>A place in a number, and one in the same number later in the same step.\<close>

definition in_number :: "json_state \<Rightarrow> nat \<Rightarrow> json_value \<Rightarrow> json_state \<Rightarrow> bool" where
  "in_number st0 i v st \<longleftrightarrow> js_p st = js_p st0 \<and> tree_inv st \<and> js_first st \<and> js_top st = Some i \<and>
     number (top_type st) \<and> value_flags (js_flags st) \<and> jv_parent v = jv_parent (js_nodes st ! i) \<and> number (jv_type v)"

lemma in_number_top: "in_number st0 i v st \<Longrightarrow> i < length (js_nodes st) \<and> number (jv_type (js_nodes st ! i))"
  by (auto simp: in_number_def tree_inv_def top_type_def)

lemma in_number_inv: "in_number st0 i v st \<Longrightarrow> tree_inv st \<and> js_first st"
  by (simp add: in_number_def)

lemma in_number_set:
  assumes "in_number st0 i v st" and "number (jv_type w)" and "jv_parent w = jv_parent v"
  shows "in_number st0 i w (set_node i w st)"
proof -
  have "tree_inv (set_node i w st)"
    using assms in_number_top [OF assms(1)]
    by (intro tree_inv_set_node) (auto simp: in_number_def number_def container_def)
  with assms in_number_top [OF assms(1)] show ?thesis by (auto simp: in_number_def top_type_def)
qed

lemma in_number_set_same:
  "in_number st0 i v st \<Longrightarrow> number (jv_type w) \<Longrightarrow> jv_parent w = jv_parent v \<Longrightarrow> in_number st0 i v (set_node i w st)"
  using in_number_set [of st0 i v st w] by (auto simp: in_number_def)

lemma in_number_simps [simp]:
  "in_number st0 i v (st\<lparr>js_num_digits := x\<rparr>) \<longleftrightarrow> in_number st0 i v st"
  "in_number st0 i v (st\<lparr>js_num_e := x\<rparr>) \<longleftrightarrow> in_number st0 i v st"
  "in_number st0 i v (st\<lparr>js_num_fraction := x\<rparr>) \<longleftrightarrow> in_number st0 i v st"
  "in_number st0 i v (with_flags (fl_num_zero_update g) st) \<longleftrightarrow> in_number st0 i v st"
  "in_number st0 i v (with_flags (fl_num_e_got_sign_update g) st) \<longleftrightarrow> in_number st0 i v st"
  "in_number st0 i v (with_flags (\<lambda>f. f\<lparr>fl_num_e := x1, fl_num_zero := x2\<rparr>) st) \<longleftrightarrow> in_number st0 i v st"
  "in_number st0 i v (with_flags (\<lambda>f. f\<lparr>fl_num_e_got_sign := x1, fl_num_e_negative := h f\<rparr>) st) \<longleftrightarrow> in_number st0 i v st"
  by (simp_all add: in_number_def value_flags_def)

lemma in_number_next:
  assumes "in_number st0 i v st" and "js_p st0 < length s"
  shows "next_ok comments s st0 (st\<lparr>js_p := Suc (js_p st)\<rparr>)"
  using next_ok_mode [of st st0 s comments] assms by (simp add: in_number_def value_flags_def mode_ok_def)

lemma number_end_ok:
  assumes "in_number st0 i v st" and "rank st0 = 1" and "js_p st0 \<le> length s"
  shows "flow_spec G (fall_ok s st0) D (number_end i v st)"
proof -
  have "number (jv_type v)" using assms(1) by (simp add: in_number_def)
  then have "in_number st0 i w (set_node i w st)" if "jv_type w = jv_type v" "jv_parent w = jv_parent v" for w
    using that by (intro in_number_set [OF assms(1)]) simp_all
  then show ?thesis using assms
    by (auto simp: number_end_def Let_def fall_ok_def in_number_def value_flags_def)
qed

lemma step_number_ok:
  assumes "in_number st i v st" and "rank st = 1" and "js_p st \<le> length s" and "b \<noteq> CHR 0x00 \<Longrightarrow> js_p st < length s"
  shows "flow_spec (next_ok comments s st) (fall_ok s st) D (step_number pow10 b i v st)"
proof -
  have ty: "jv_type v = json_integer \<or> jv_type v = json_double" using assms(1) by (auto simp: in_number_def number_def)
  have cont: "next_ok comments s st (st'\<lparr>js_p := p\<rparr>)"
    if "in_number st i v st'" "b \<noteq> CHR 0x00" "p = Suc (js_p st)" for st' p
    using in_number_next [OF that(1) assms(4) [OF that(2)]] that(1,3) by (simp add: in_number_def)
  have digit: "flow_spec (next_ok comments s st) (fall_ok s st) D (step_digit b i v st)" if "is_digit b"
    using assms(1) is_digit_not_NUL [OF that] ty in_number_inv [OF assms(1)]
    by (auto simp: step_digit_def Let_def number_def intro!: flow_spec_then [OF ok_spec_shift_in] cont in_number_set_same)
  have other: "flow_spec (next_ok comments s st) (fall_ok s st) D (number_other pow10 b i v st)"
  proof -
    have "in_number st i w st" if "number (jv_type w)" "jv_parent w = jv_parent v" for w
      using assms(1) that by (auto simp: in_number_def)
    then show ?thesis using assms(1-3) ty in_number_inv [OF assms(1)]
      by (auto simp: number_other_def Let_def number_def intro!: cont in_number_set_same number_end_ok)
  qed
  show ?thesis using assms(1) ty digit other in_number_inv [OF assms(1)]
    by (auto simp: step_number_def number_def intro!: cont in_number_set_same)
qed

subsection \<open>The loop\<close>

definition pass_done :: "json_state \<Rightarrow> bool" where
  "pass_done st \<longleftrightarrow> tree_inv st \<and> js_first st \<and> js_root st \<noteq> None"

lemma step_rest_ok:
  assumes "at_char comments s st b" and "\<not> fl_string (js_flags st)"
  shows "flow_spec (next_ok comments s st) (fall_ok s st) pass_done (step_rest pow10 comments s b st)"
proof -
  have main: "flow_spec (next_ok comments s st) (fall_ok s st) pass_done
      (if fl_done (js_flags st) then
         (if b = CHR 0x00 then Ok (Finished st) else if is_space b then continue st else fails msg st)
       else if fl_seek_value (js_flags st) then step_seek s b st else step_top pow10 b st)"
    if "outside comments s st b" for msg
  proof -
    note o = outsideD [OF that]
    have "pass_done st" if "fl_done (js_flags st)"
      using o(1-3) that by (auto simp: pass_done_def tree_inv_def loop_inv_def start_mode_def split: option.splits)
    moreover have "flow_spec (next_ok comments s st) (fall_ok s st) pass_done (step_top pow10 b st)"
      if "\<not> fl_done (js_flags st)" "\<not> fl_seek_value (js_flags st)"
    proof -
      have "js_top st \<noteq> None" using o(3) that(2) by (auto simp: loop_inv_def start_mode_def split: option.splits)
      then obtain i where i: "js_top st = Some i" by blast
      have ty: "jv_type (js_nodes st ! i) = json_object \<or> number (jv_type (js_nodes st ! i)) \<and> \<not> fl_need_comma (js_flags st)"
        using o that i by (auto simp: loop_inv_def mode_ok_def)
      show ?thesis
      proof (cases "jv_type (js_nodes st ! i) = json_object")
        case True
        with i o(1) step_object_ok [OF \<open>outside comments s st b\<close>] that show ?thesis
          by (simp add: step_top_def on_top_eval)
      next
        case False
        with ty have n: "number (jv_type (js_nodes st ! i))" "\<not> fl_need_comma (js_flags st)" by auto
        then have "in_number st i (js_nodes st ! i) st" "rank st = 1"
          using i o that by (simp_all add: in_number_def top_type_def value_flags_def rank_def)
        then have "flow_spec (next_ok comments s st) (fall_ok s st) pass_done (step_number pow10 b i (js_nodes st ! i) st)"
          using o by (intro step_number_ok) auto
        with n i o(1) show ?thesis by (auto simp: step_top_def on_top_eval number_def)
      qed
    qed
    ultimately show ?thesis using step_seek_ok [OF that] o(1,2,12) by (auto dest: is_space_not_NUL)
  qed
  show ?thesis
  proof (cases comments)
    case True
    with assms have "flow_spec (next_ok True s st) (\<lambda>st'. st' = st \<and> outside True s st b) pass_done (step_comment s b st)"
      by (intro step_comment_ok) simp_all
    then show ?thesis unfolding step_rest_def using True main by (auto elim!: flow_spec_and_then)
  next
    case False
    with assms have "outside comments s st b" by (auto simp: outside_def at_char_def loop_inv_def)
    with False main show ?thesis unfolding step_rest_def by (simp add: and_then_def fall_def)
  qed
qed

lemma json_step_ok:
  assumes "tree_inv st" and "loop_inv comments s st" and "js_first st"
  shows "flow_spec (next_ok comments s st) (\<lambda>_. False) pass_done (json_step pow10 comments s st)"
proof -
  have "js_p st \<le> length s" using assms(2) by (simp add: loop_inv_def)
  then obtain b where b: "json_read s (js_p st) = Ok b" using json_read_in by blast
  have at: "at_char comments s st b" using assms b by (simp add: at_char_def)
  have "flow_spec (next_ok comments s st) (fall_ok s st) pass_done
      (and_then (if fl_string (js_flags st) then step_string s b st else fall st) (step_rest pow10 comments s b))"
  proof (cases "fl_string (js_flags st)")
    case True
    have "flow_spec (next_ok comments s st) (fall_ok s st) pass_done (step_rest pow10 comments s b st')"
      if "js_p st' = js_p st" "tree_inv st'" "js_first st'" "js_top st' \<noteq> None" "b = CHR 0x22" "js_p st < length s"
        "js_flags st' = (js_flags st)\<lparr>fl_string := False, fl_next := True\<rparr>" "top_type st' = json_string" for st'
    proof -
      have f: "\<not> fl_line_comment (js_flags st)" "\<not> fl_block_comment (js_flags st)" "\<not> fl_reproc (js_flags st)"
        "\<not> fl_done (js_flags st)" "\<not> fl_seek_value (js_flags st)"
        using assms(1,2) True that(2) by (auto simp: loop_inv_def mode_ok_def start_mode_def split: option.splits)
      have "fall_ok s st st'" using that f by (intro fall_ok_next) simp_all
      then show ?thesis using that f
        by (auto simp: step_rest_def and_then_def step_comment_def fall_def step_top_def on_top_eval top_type_def flow_spec_def)
    qed
    then have "flow_spec (next_ok comments s st) (fall_ok s st) pass_done
        (and_then (step_string s b st) (step_rest pow10 comments s b))"
      by (intro flow_spec_and_then [OF step_string_ok [OF at True]]) blast
    with True show ?thesis by simp
  next
    case False
    with step_rest_ok [OF at False] show ?thesis by (simp add: and_then_def fall_def)
  qed
  then have "flow_spec (next_ok comments s st) (\<lambda>_. False) pass_done
      (and_then (and_then (if fl_string (js_flags st) then step_string s b st else fall st)
         (step_rest pow10 comments s b)) step_finish)"
    by (rule flow_spec_and_then) (rule step_finish_ok)
  with b show ?thesis by (simp add: json_step_def)
qed

text \<open>Behind an error of the first pass each node goes, and there was nothing else yet.\<close>

lemma free_chain_fresh:
  "distinct is \<Longrightarrow> \<forall>i\<in>set is. BlockNode i \<notin> set (fr_freed st) \<Longrightarrow>
    free_chain is st = Ok (st\<lparr>fr_freed := fr_freed st @ map BlockNode is\<rparr>)"
proof (induction "is" arbitrary: st)
  case (Cons i "is")
  from Cons.IH [of "st\<lparr>fr_freed := fr_freed st @ [BlockNode i]\<rparr>"] Cons.prems show ?case by (auto simp: mem_free_def)
qed simp

lemma json_e_failed_first:
  assumes "tree_inv st" and "js_first st"
  shows "json_e_failed st = Ok (map BlockNode [0..<length (js_nodes st)])"
  using assms by (auto simp: json_e_failed_def Let_def free_chain_fresh tree_inv_def split: option.splits if_splits)

lemma tree_inv_alloc: "tree_inv st \<Longrightarrow> js_first st \<Longrightarrow> js_alloc st = length (js_nodes st) \<and> parents_ok (js_nodes st)"
  by (simp add: tree_inv_def)

definition pass_end :: "string \<times> json_state + json_state \<Rightarrow> bool" where
  "pass_end r \<longleftrightarrow> (case r of
      Inl (msg, st) \<Rightarrow> json_e_failed st = Ok (map BlockNode [0..<length (js_nodes st)])
    | Inr st \<Rightarrow> js_root st \<noteq> None \<and> js_alloc st = length (js_nodes st) \<and> parents_ok (js_nodes st))"

lemma json_pass_ok:
  "tree_inv st \<Longrightarrow> loop_inv comments s st \<Longrightarrow> js_first st \<Longrightarrow> todo s st < fuel \<Longrightarrow>
    ok_spec pass_end (json_pass fuel pow10 comments s st)"
proof (induction fuel arbitrary: st)
  case (Suc fuel)
  have "flow_spec (next_ok comments s st) (\<lambda>_. False) pass_done (json_step pow10 comments s st)"
    using Suc.prems by (intro json_step_ok)
  then show ?case
    using Suc.IH Suc.prems(4)
    by (cases "json_step pow10 comments s st")
      (auto simp: flow_spec_def next_ok_def pass_end_def pass_done_def json_e_failed_first tree_inv_alloc split: flow.splits)
qed simp

lemma pass_start_inv:
  "tree_inv (pass_start True [])" "loop_inv comments s (pass_start True [])" "js_first (pass_start True [])"
  "todo s (pass_start True []) < parse_fuel s"
  by (simp_all add: pass_start_def tree_inv_def parents_ok_def loop_inv_def start_mode_def no_flags_def
      todo_def rank_def parse_fuel_def)

lemma json_pass_first: "ok_spec pass_end (json_pass (parse_fuel s) pow10 comments s (pass_start True []))"
  by (rule json_pass_ok [OF pass_start_inv])

text \<open>
  C15. Over every text, with comments allowed or not, the first pass of the parser ends within four steps
  for each character and eight more; only a number's digits can overflow. When it finishes, it has a root,
  counts as many values as there are nodes, and every node's parent is a container made before it. When it
  fails, wherever that is, what comes behind the error gives each node back, once, and nothing else.
\<close>

theorem json_first_pass:
  "ok_spec (\<lambda>r. case r of
       Inl (msg, st) \<Rightarrow> json_e_failed st = Ok (map BlockNode [0..<length (js_nodes st)])
     | Inr st \<Rightarrow> js_root st \<noteq> None \<and> js_alloc st = length (js_nodes st) \<and> parents_ok (js_nodes st))
    (json_pass (4 * length s + 8) pow10 comments s (pass_start True []))"
  using json_pass_first [of s pow10 comments] unfolding parse_fuel_def pass_end_def [abs_def] .

end
