(* ===== verification/JsonEquiv.thy ===== *)
theory JsonEquiv
  imports JsonTrees JsonFree JsonSafe
begin

section \<open>The JSON parser is its reference\<close>

text \<open>
  Each pass takes the texts that the recursive descent takes; the nodes that they leave become its value,
  are given back, and what the reference cannot take has no value.
\<close>

subsection \<open>How the reference ends\<close>

text \<open>With fuel enough, all that may go wrong is the overflow of a number.\<close>

definition fueled :: "'a outcome \<Rightarrow> bool" where
  "fueled r \<longleftrightarrow> (case r of Ok x \<Rightarrow> True | Err e \<Rightarrow> False | Panic q \<Rightarrow> q = IntOverflow)"

lemma fueled_simps [simp]: "fueled (Ok x)" "fueled no_parse" "fueled (parsed y rest)" "fueled (Panic q) \<longleftrightarrow> q = IntOverflow"
  by (simp_all add: fueled_def no_parse_def parsed_def)

lemma fueled_then_do: "fueled r \<Longrightarrow> (\<And>x. r = Ok x \<Longrightarrow> fueled (f x)) \<Longrightarrow> fueled (then_do r f)"
  by (cases r) (auto simp: fueled_def)

lemma fueled_then_parse: "fueled r \<Longrightarrow> (\<And>x rest. r = Ok (Some (x, rest)) \<Longrightarrow> fueled (f x rest)) \<Longrightarrow> fueled (then_parse r f)"
  unfolding then_parse_def by (rule fueled_then_do) (auto split: option.split)

lemma fueled_digits: "fueled (digits n k cs)"
proof (induction cs arbitrary: n k)
  case (Cons c cs)
  then show ?case using shift_in_cases [of n c] by auto
qed simp

lemma fueled_number_rest: "fueled (number_rest t rest)"
  by (simp add: number_rest_def)

lemma fueled_exponent: "fueled (exponent pow10 neg n d cs)"
  unfolding exponent_def Let_def by (rule fueled_then_do [OF fueled_digits]) (auto simp: fueled_number_rest)

lemma fueled_fraction: "fueled (fraction pow10 neg n cs)"
  unfolding fraction_def
  by (rule fueled_then_do [OF fueled_digits]) (auto simp: fueled_number_rest fueled_exponent Let_def)

lemma fueled_number: "fueled (unsigned_number pow10 neg cs)"
proof (cases "zero_led cs")
  case False
  show ?thesis unfolding unsigned_number_def if_not_P [OF False]
    by (rule fueled_then_do [OF fueled_digits]) (auto simp: fueled_number_rest fueled_exponent fueled_fraction)
qed (simp add: unsigned_number_def)

lemma fueled_trees:
  "(2 * length cs < n \<longrightarrow> fueled (value_tree pow10 n cs)) \<and>
   (2 * length cs + 1 < n \<longrightarrow> fueled (elems_tree pow10 n comma cs)) \<and>
   (2 * length cs + 1 < n \<longrightarrow> fueled (members_tree pow10 n comma cs))"
proof (induction n arbitrary: cs comma)
  case (Suc n)
  have v: "fueled (value_tree pow10 n ds)" if "2 * length ds < n" for ds using Suc.IH that by blast
  have e: "fueled (elems_tree pow10 n b ds)" if "2 * length ds + 1 < n" for b ds using Suc.IH that by blast
  have m: "fueled (members_tree pow10 n b ds)" if "2 * length ds + 1 < n" for b ds using Suc.IH that by blast
  show ?case
  proof (cases "skip_space cs")
    case (Cons c ds)
    note sp = skip_space_Cons [OF Cons]
    have "fueled (value_tree pow10 (Suc n) cs)" if n: "2 * length cs < Suc n"
    proof -
      have "fueled (then_parse (members_tree pow10 n False ds) (\<lambda>ms. parsed (TreeObj ms)))"
        using n sp by (intro fueled_then_parse m) simp_all
      moreover have "fueled (then_parse (elems_tree pow10 n False ds) (\<lambda>ts. parsed (TreeArr ts)))"
        using n sp by (intro fueled_then_parse e) simp_all
      ultimately show ?thesis using Cons
        by (simp add: fueled_number string_tree_def word_tree_def split: option.split)
    qed
    moreover have "fueled (elems_tree pow10 (Suc n) comma cs)" if n: "2 * length cs + 1 < Suc n"
    proof -
      have "fueled (then_parse (value_tree pow10 n (c # ds)) (\<lambda>t rest.
          then_parse (elems_tree pow10 n True rest) (\<lambda>ts. parsed (t # ts))))"
        using n sp value_shorter [of pow10 n "c # ds"]
        by (intro fueled_then_parse v e) (fastforce simp: not_less_eq_eq)+
      moreover have "fueled (elems_tree pow10 n False ds)" using n sp by (intro e) simp
      ultimately show ?thesis using Cons by simp
    qed
    moreover have "fueled (members_tree pow10 (Suc n) comma cs)" if n: "2 * length cs + 1 < Suc n"
    proof -
      have "fueled (then_parse (value_tree pow10 n (tl (skip_space cs1))) (\<lambda>t rest.
          then_parse (members_tree pow10 n True rest) (\<lambda>ms. parsed ((key, t) # ms))))"
        if "string_body ds = Some (key, cs1)" for key cs1
      proof -
        have "length (tl (skip_space cs1)) < length ds"
          using string_body_length [OF that] skip_space_length [of cs1] by simp
        then show ?thesis using n sp value_shorter [of pow10 n "tl (skip_space cs1)"]
          by (intro fueled_then_parse v m) (fastforce simp: not_less_eq_eq)+
      qed
      moreover have "fueled (members_tree pow10 n False ds)" using n sp by (intro m) simp
      ultimately show ?thesis using Cons by (simp split: option.split)
    qed
    ultimately show ?thesis by blast
  qed simp
qed simp

lemma fueled_text: "fueled (value_tree pow10 (2 * length s + 1) s)"
  by (rule fueled_trees [THEN conjunct1, rule_format]) simp

lemma fueled_not_out: "fueled r \<Longrightarrow> r \<noteq> Panic OutOfFuel"
  by (auto simp: fueled_def)

subsection \<open>The value of the nodes\<close>

definition reads :: "nat \<Rightarrow> json_value list \<Rightarrow> bool" where
  "reads fuel nodes \<longleftrightarrow> (\<forall>p pre t post. nodes = pre @ lay False p (length pre) t @ post \<longrightarrow> tsize t \<le> fuel \<longrightarrow>
     srs_json_parse_tree fuel nodes (length pre) = Ok (Some (tree_value t)))"

lemma array_read:
  assumes "reads fuel nodes"
  shows "nodes = pre @ lays False p (length pre) ts @ post \<Longrightarrow> tsizes ts \<le> fuel \<Longrightarrow>
    tree_array fuel nodes (map (\<lambda>j. ([], j)) (idxs (length pre) ts)) vs = Ok (Some (JsonArray (vs @ map tree_value ts)))"
proof (induction ts arbitrary: pre vs)
  case (Cons t ts)
  have "srs_json_parse_tree fuel nodes (length pre) = Ok (Some (tree_value t))"
    using assms [unfolded reads_def, rule_format, of pre p t "lays False p (length pre + tsize t) ts @ post"] Cons.prems by simp
  then show ?case
    using Cons.IH [of "pre @ lay False p (length pre) t" "vs @ [tree_value t]"] Cons.prems
    by (simp add: json_arr_add_def)
qed simp

lemma members_read:
  assumes "reads fuel nodes"
  shows "nodes = pre @ lays False p (length pre) (map snd ms) @ post \<Longrightarrow> tsizes (map snd ms) \<le> fuel \<Longrightarrow>
    tree_object fuel nodes (zip (map fst ms) (idxs (length pre) (map snd ms))) ps = Ok (Some (JsonObject (members_value ms ps)))"
proof (induction ms arbitrary: pre ps)
  case (Cons x ms)
  obtain key t where x: "x = (key, t)" by (cases x)
  have "srs_json_parse_tree fuel nodes (length pre) = Ok (Some (tree_value t))"
    using assms [unfolded reads_def, rule_format, of pre p t "lays False p (length pre + tsize t) (map snd ms) @ post"] Cons.prems x
    by simp
  then show ?case
    using Cons.IH [of "pre @ lay False p (length pre) t" "json_set key (Some (tree_value t)) ps"] Cons.prems x by simp
qed simp

lemma reads_all: "reads fuel nodes"
proof (induction fuel)
  case (Suc fuel)
  show ?case unfolding reads_def
  proof (intro allI impI)
    fix p pre t post
    assume nodes: "nodes = pre @ lay False p (length pre) t @ post" and fuel: "tsize t \<le> Suc fuel"
    have v: "length pre < length nodes" "nodes ! length pre = node_of False p (length pre) t"
      by (simp_all add: nodes lay.simps)
    show "srs_json_parse_tree (Suc fuel) nodes (length pre) = Ok (Some (tree_value t))"
    proof (cases t)
      case (TreeArr ts)
      have "tree_array fuel nodes (map (\<lambda>j. ([], j)) (idxs (length (pre @ [node_of False p (length pre) t])) ts)) [] =
          Ok (Some (JsonArray ([] @ map tree_value ts)))"
        by (rule array_read [OF Suc.IH, where p = "Some (length pre)" and post = post])
          (use nodes fuel TreeArr in \<open>simp_all add: lay.simps tsize.simps\<close>)
      with v TreeArr show ?thesis by (simp add: fresh_node_def)
    next
      case (TreeObj ms)
      have "tree_object fuel nodes (zip (map fst ms) (idxs (length (pre @ [node_of False p (length pre) t])) (map snd ms))) [] =
          Ok (Some (JsonObject (members_value ms [])))"
        by (rule members_read [OF Suc.IH, where p = "Some (length pre)" and post = post])
          (use nodes fuel TreeObj in \<open>simp_all add: lay.simps tsize.simps\<close>)
      with v TreeObj show ?thesis by (simp add: fresh_node_def)
    qed (use v in \<open>simp_all add: fresh_node_def json_str_len_def\<close>)
  qed
qed (simp add: reads_def tsize.simps)

subsection \<open>The whole text\<close>

lemma stops_pass: "stops pow10 s st r \<Longrightarrow> js_p st \<le> length s \<Longrightarrow> json_run (parse_fuel s) pow10 s st = r"
proof -
  assume "stops pow10 s st r" and "js_p st \<le> length s"
  then obtain n where n: "ends pow10 s n st r" "n \<le> 3 * length s + 1" by (fastforce simp: stops_def)
  then have "parse_fuel s = n + (parse_fuel s - n)" by (simp add: parse_fuel_def)
  with n(1) show ?thesis unfolding ends_def by metis
qed

text \<open>Behind the value of the text.\<close>

lemma whole_stops:
  assumes "place s first whole tp vs a cs st"
  shows "\<exists>st'. place s first whole tp vs a (skip_space cs) st' \<and>
    stops pow10 s st (if looking (\<lambda>c. c \<noteq> CHR 0x00) (skip_space cs) then Ok None else Ok (Some st'))"
proof -
  obtain n st' where n: "runs pow10 s n st st'" "n + 3 * (length s - js_p st') \<le> 3 * (length s - js_p st)"
    "place s first whole tp vs a (skip_space cs) st'"
    using skip_space_reaches [OF assms, of pow10] by (auto simp: reaches_def)
  note p = placeD [OF n(3)]
  have "ends pow10 s 1 st' (if looking (\<lambda>c. c \<noteq> CHR 0x00) (skip_space cs) then Ok None else Ok (Some st'))"
  proof (cases "looking (\<lambda>c. c \<noteq> CHR 0x00) (skip_space cs)")
    case True
    then have "next_char (skip_space cs) \<noteq> CHR 0x00" using looking_next_char by fastforce
    moreover have "\<not> is_space (next_char (skip_space cs))"
      using next_char_looking [OF skip_space_not_space] by simp
    ultimately have "\<exists>ft. json_step pow10 False s st' = Ok (Fails ''%d:%d: Trailing garbage: `%c`'' ft)"
      using p by (simp add: json_step_place [OF n(3)] step_rest_plain flag_defs fails_def)
    then show ?thesis unfolding if_P [OF True] by (elim exE) (rule ends_fails)
  next
    case False
    then have "next_char (skip_space cs) = CHR 0x00" by (cases "skip_space cs") auto
    then have "json_step pow10 False s st' = Ok (Finished st')"
      using p by (simp add: json_step_place [OF n(3)] step_rest_plain flag_defs)
    with False show ?thesis by (simp add: ends_def)
  qed
  from runs_ends [OF n(1) this] n(2) have "stops pow10 s st (if looking (\<lambda>c. c \<noteq> CHR 0x00) (skip_space cs) then Ok None else Ok (Some st'))"
    unfolding stops_def by (intro exI [of _ "n + 1"]) simp
  with n(3) show ?thesis by blast
qed

lemma start_place: "place s first (seek False) None vs 0 s (pass_start first vs)"
  by (simp add: place_def pass_start_def seek_def pos_def no_flags_def)

lemma pass_over:
  assumes "value_tree pow10 n s = Ok (Some (t, rest))" and "length s \<le> json_uint_max"
  shows "\<exists>st'. place s first whole (Some 0) (lay first None 0 t) (tsize t) (skip_space rest) st' \<and>
    json_run (parse_fuel s) pow10 s (pass_start first (before first (lay True None 0 t))) =
      (if looking (\<lambda>c. c \<noteq> CHR 0x00) (skip_space rest) then Ok None else Ok (Some st'))"
proof -
  let ?st = "pass_start first (before first (lay True None 0 t))"
  have "place s first (seek False) None ([] @ before first (lay True None (length []) t) @ []) (length []) s ?st"
    using start_place [of s first] by simp
  from trees_ok [THEN conjunct1, unfolded value_ok_def, rule_format, OF assms this]
  have "reaches pow10 s ?st (stored s first None [] (lay first None 0 t) (tsize t) rest)" by (simp add: ready_def)
  then obtain m st1 where m: "runs pow10 s m ?st st1" "m + 3 * (length s - js_p st1) \<le> 3 * (length s - js_p ?st)"
    "place s first whole (Some 0) (lay first None 0 t) (tsize t) rest st1"
    by (auto simp: reaches_def stored_def after_flags_def value_top_def put_def)
  obtain st2 where st2: "place s first whole (Some 0) (lay first None 0 t) (tsize t) (skip_space rest) st2"
    "stops pow10 s st1 (if looking (\<lambda>c. c \<noteq> CHR 0x00) (skip_space rest) then Ok None else Ok (Some st2))"
    using whole_stops [OF m(3), of pow10] by blast
  have "reaches pow10 s ?st (\<lambda>x. x = st1)" using m by (auto simp: reaches_def)
  then have "stops pow10 s ?st (if looking (\<lambda>c. c \<noteq> CHR 0x00) (skip_space rest) then Ok None else Ok (Some st2))"
    by (rule reaches_stops) (use st2(2) in simp)
  with st2(1) stops_pass show ?thesis by (fastforce simp: pass_start_def)
qed

lemma pass_lost:
  assumes "length s \<le> json_uint_max"
  shows "lost pow10 s (pass_start True []) (value_tree pow10 n s)"
  using trees_lost [THEN conjunct1, unfolded value_lost_def, rule_format, OF assms, of None "[]" s "pass_start True []" pow10 n]
    start_place [of s True "[]"] by (simp add: ready_def)

text \<open>What the passes say of the parse; the memory that is given back behind an error does not matter to it.\<close>

lemma json_parse_lost:
  assumes "json_run (parse_fuel (skip_bom txt)) pow10 (skip_bom txt) (pass_start True []) = Ok None"
  shows "json_parse pow10 txt = Ok None"
proof -
  let ?pass = "json_pass (parse_fuel (skip_bom txt)) pow10 False (skip_bom txt) (pass_start True [])"
  obtain msg st where "?pass = Ok (Inl (msg, st))" using assms by (cases ?pass) (auto simp: json_run_def split: sum.splits)
  moreover from this have "json_e_failed st = Ok (map BlockNode [0..<length (js_nodes st)])"
    using json_pass_first [of "skip_bom txt" pow10 False] by (simp add: pass_end_def)
  ultimately show ?thesis by (simp add: json_parse_def json_parse_ex_def Let_def)
qed

lemma json_parse_panic:
  "json_run (parse_fuel (skip_bom txt)) pow10 (skip_bom txt) (pass_start True []) = Panic q \<Longrightarrow> json_parse pow10 txt = Panic q"
  by (cases "json_pass (parse_fuel (skip_bom txt)) pow10 False (skip_bom txt) (pass_start True [])")
    (simp_all add: json_run_def json_parse_def json_parse_ex_def Let_def)

lemma json_run_Some:
  "json_run n pow10 s st = Ok (Some st') \<longleftrightarrow> json_pass n pow10 False s st = Ok (Inr st')"
  by (cases "json_pass n pow10 False s st") (auto simp: json_run_def split: sum.splits)

lemma json_parse_both:
  assumes "json_run (parse_fuel (skip_bom txt)) pow10 (skip_bom txt) (pass_start True []) = Ok (Some st1)"
    and "json_run (parse_fuel (skip_bom txt)) pow10 (skip_bom txt) (pass_start False (js_nodes st1)) = Ok (Some st2)"
    and "js_root st2 = Some r"
  shows "json_parse pow10 txt = Ok (Some (js_nodes st2, r))"
  using assms by (simp add: json_run_Some json_parse_def json_parse_ex_def Let_def)

text \<open>The nodes of a text are the nodes of its tree.\<close>

lemma json_parse_nodes:
  assumes "length txt \<le> json_uint_max"
  shows "json_parse pow10 txt =
    map_outcome (map_option (\<lambda>t. (lay False None 0 t, 0))) (text_tree pow10 (skip_bom txt))"
proof -
  let ?s = "skip_bom txt"
  let ?r = "value_tree pow10 (2 * length ?s + 1) ?s"
  have max: "length ?s \<le> json_uint_max" using assms by (auto simp: skip_bom_def)
  have fuel: "?r \<noteq> Panic OutOfFuel" by (rule fueled_not_out [OF fueled_text])
  note lost = pass_lost [OF max, of pow10 "2 * length ?s + 1"]
  have p0: "js_p (pass_start True []) \<le> length ?s" by (simp add: pass_start_def)
  consider (bad) "?r = Ok None" | (over) q where "?r = Panic q" | (good) t rest where "?r = Ok (Some (t, rest))"
    using lost by (cases ?r) (auto simp: lost_def split: option.splits)
  then show ?thesis
  proof cases
    case bad
    then have "stops pow10 ?s (pass_start True []) (Ok None)" using lost by (simp add: lost_def)
    with bad show ?thesis by (simp add: json_parse_lost stops_pass [OF _ p0] text_tree_def)
  next
    case over
    then have "stops pow10 ?s (pass_start True []) (Panic q)" using lost fuel by (simp add: lost_def)
    with over show ?thesis by (simp add: json_parse_panic [where q = q] stops_pass [OF _ p0] text_tree_def)
  next
    case good
    obtain st1 where st1: "place ?s True whole (Some 0) (lay True None 0 t) (tsize t) (skip_space rest) st1"
      "json_run (parse_fuel ?s) pow10 ?s (pass_start True []) =
        (if looking (\<lambda>c. c \<noteq> CHR 0x00) (skip_space rest) then Ok None else Ok (Some st1))"
      using pass_over [OF good max, of True] by auto
    obtain st2 where st2: "place ?s False whole (Some 0) (lay False None 0 t) (tsize t) (skip_space rest) st2"
      "json_run (parse_fuel ?s) pow10 ?s (pass_start False (lay True None 0 t)) =
        (if looking (\<lambda>c. c \<noteq> CHR 0x00) (skip_space rest) then Ok None else Ok (Some st2))"
      using pass_over [OF good max, of False] by auto
    have root: "js_root st2 = Some 0" using placeD(17) [OF st2(1)] by (simp add: tsize.simps)
    show ?thesis
    proof (cases "looking (\<lambda>c. c \<noteq> CHR 0x00) (skip_space rest)")
      case True
      with good st1(2) show ?thesis by (simp add: json_parse_lost text_tree_def)
    next
      case False
      with st1(2) st2(2) placeD(3) [OF st1(1)] have "json_parse pow10 txt = Ok (Some (js_nodes st2, 0))"
        by (intro json_parse_both [OF _ _ root, where ?st1.0 = st1]) simp_all
      with False good placeD(3) [OF st2(1)] show ?thesis by (simp add: text_tree_def)
    qed
  qed
qed

lemma tree_of_lay: "srs_json_parse_tree (Suc (tsize t)) (lay False None 0 t) 0 = Ok (Some (tree_value t))"
proof -
  have "srs_json_parse_tree (length (lay False None 0 t) + 1) (lay False None 0 t) (length ([] :: json_value list)) =
      Ok (Some (tree_value t))"
    by (rule reads_all [unfolded reads_def, rule_format, of _ _ None _ "[]"]) simp_all
  then show ?thesis by (simp del: srs_json_parse_tree.simps)
qed

lemma json_loads_text:
  assumes "length txt \<le> json_uint_max"
  shows "json_loads pow10 txt = text_value pow10 txt"
  unfolding json_loads_def json_parse_nodes [OF assms] text_value_def
  by (cases "text_tree pow10 (skip_bom txt)")
    (simp_all add: json_value_free_lay tree_of_lay del: srs_json_parse_tree.simps split: option.split)

text \<open>
  C16. Whatever text is parsed, \<^verbatim>\<open>json_value_free\<close> ends and gives back each block of memory that the
  nodes have, the nodes, the entries of arrays and objects, the characters of strings, exactly once, and
  it looks at no block that is gone.
\<close>

theorem json_value_free_all:
  assumes "length txt \<le> json_uint_max" and "json_parse pow10 txt = Ok (Some (nodes, root))"
  shows "\<exists>freed. json_value_free nodes root = Ok freed \<and> distinct freed \<and> set freed = all_blocks nodes"
proof -
  obtain t where "nodes = lay False None 0 t" "root = 0"
    using assms(2) unfolding json_parse_nodes [OF assms(1)]
    by (cases "text_tree pow10 (skip_bom txt)") auto
  then show ?thesis using json_value_free_lay [of t] blocks_distinct(1) [of 0 t] all_blocks_lay [of t] by blast
qed

theorem json_value_free_all_witness:
  "\<exists>nodes freed. json_parse (\<lambda>k. dbl_of_int (10 ^ nat k)) ''[7, {}]'' = Ok (Some (nodes, 0)) \<and>
    json_value_free nodes 0 = Ok freed \<and> distinct freed \<and> set freed = all_blocks nodes"
proof -
  let ?txt = "''[7, {}]''" and ?pow = "\<lambda>k. dbl_of_int (10 ^ nat k)"
  have max: "length ?txt \<le> json_uint_max" by (simp add: json_uint_max_def)
  have "text_tree ?pow (skip_bom ?txt) = Ok (Some (TreeArr [TreeInt 7, TreeObj []]))" by code_simp
  then obtain nodes where nodes: "json_parse ?pow ?txt = Ok (Some (nodes, 0))"
    using json_parse_nodes [OF max, of ?pow] by simp
  from json_value_free_all [OF max this] nodes show ?thesis by blast
qed



end
