(* ===== verification/JsonLanguage.thy ===== *)
theory JsonLanguage
  imports JsonEquiv
begin

section \<open>What the JSON parser does with texts\<close>

text \<open>
  Properties of \<^verbatim>\<open>loads\<close> by way of its reference: how it may end, when numbers overflow, that it reads
  what \<^verbatim>\<open>dumps\<close> prints, and what the escapes of characters become.
\<close>

subsection \<open>How it ends\<close>

lemma text_value_ends: "fueled (text_value pow10 txt)"
proof -
  let ?s = "skip_bom txt"
  have "fueled (text_tree pow10 ?s)"
    unfolding text_tree_def by (rule fueled_then_do [OF fueled_text]) (auto split: option.split)
  then show ?thesis by (cases "text_tree pow10 ?s") (auto simp: text_value_def fueled_def)
qed

subsection \<open>Numbers with few digits\<close>

lemma hex4_rest: "hex4 cs = Some (n, rest) \<Longrightarrow> suffix rest cs"
  using hex4_suffix [of cs n rest] by (simp add: suffix_drop)

lemma unicode_rest:
  assumes "unicode cs = Some (u, rest)"
  shows "suffix rest cs"
proof -
  obtain n r where r: "hex4 cs = Some (n, r)" "rest = r \<or> (\<exists>m. hex4 (drop 2 r) = Some (m, rest))"
    using assms by (auto simp: unicode_def Let_def split: option.splits if_splits)
  then show ?thesis
    using hex4_rest [OF r(1)] hex4_rest suffix_drop suffix_order.trans by blast
qed

lemma string_body_rest: "string_body cs = Some (u, rest) \<Longrightarrow> suffix rest cs"
proof (induction cs arbitrary: u rest rule: length_induct)
  case (1 cs)
  have IH: "string_body ds = Some (v, r) \<Longrightarrow> length ds < length cs \<Longrightarrow> suffix r ds" for ds v r
    using "1.IH" by blast
  show ?case
  proof (cases cs rule: string_shape)
    case (unicode ds v es)
    then have es: "suffix es ds" "length es < length cs"
      using unicode_rest [of ds v es] suffix_length_le [of es ds] by auto
    obtain w where "string_body es = Some (w, rest)" using unicode "1.prems" by (auto simp: put_front_Some)
    then have "suffix rest ds" using IH [of es] es by (blast intro: suffix_order.trans)
    then show ?thesis using unicode by (simp add: suffix_ConsI)
  qed (use "1.prems" in \<open>auto simp: put_front_Some suffix_ConsI dest!: IH\<close>)
qed

lemma skip_space_suffix: "suffix (skip_space cs) cs"
  by (simp add: skip_space_def suffix_dropWhile)

lemma number_rest_suffix: "unsigned_number pow10 neg cs = Ok (Some (t, rest)) \<Longrightarrow> suffix rest cs"
  using unsigned_number_taken [of cs pow10 neg] by (auto simp: number_taken_def intro: suffixI)

lemma tree_rest:
  "(value_tree pow10 n cs = Ok (Some (t, rest)) \<longrightarrow> suffix rest cs) \<and>
   (elems_tree pow10 n comma cs = Ok (Some (ts, rest)) \<longrightarrow> suffix rest cs) \<and>
   (members_tree pow10 n comma cs = Ok (Some (ms, rest)) \<longrightarrow> suffix rest cs)"
proof (induction n arbitrary: cs t ts ms comma rest)
  case (Suc n)
  have v: "suffix rest cs" if "value_tree pow10 n cs = Ok (Some (t, rest))" for cs t rest
    using Suc.IH that by blast
  have e: "suffix rest cs" if "elems_tree pow10 n comma cs = Ok (Some (ts, rest))" for cs ts rest comma
    using Suc.IH that by blast
  have m: "suffix rest cs" if "members_tree pow10 n comma cs = Ok (Some (ms, rest))" for cs ms rest comma
    using Suc.IH that by blast
  show ?case
  proof (cases "skip_space cs")
    case (Cons c ds)
    have cds: "suffix (c # ds) cs" using skip_space_suffix [of cs] Cons by simp
    have tail: "suffix r cs" if "suffix r ds \<or> suffix r (c # ds)" for r
      using that cds suffix_ConsI [of r ds c] suffix_order.trans by blast
    have "suffix rest cs" if "value_tree pow10 (Suc n) cs = Ok (Some (t, rest))"
      by (rule tail) (use that Cons in \<open>auto simp: then_parse_Some string_tree_def word_tree_def suffix_drop
          dest: m e number_rest_suffix string_body_rest split: if_splits option.splits\<close>)
    moreover have "suffix rest cs" if "elems_tree pow10 (Suc n) comma cs = Ok (Some (ts, rest))"
      by (rule tail) (use that Cons e v suffix_order.trans in \<open>fastforce simp: then_parse_Some split: if_splits\<close>)
    moreover have "suffix rest cs" if ms: "members_tree pow10 (Suc n) comma cs = Ok (Some (ms, rest))"
    proof (cases "c = CHR 0x22 \<and> \<not> comma")
      case True
      with ms Cons obtain key cs1 t cs2 ms2 where *: "string_body ds = Some (key, cs1)"
        "looking (\<lambda>c. c = CHR '':'') (skip_space cs1)"
        "value_tree pow10 n (tl (skip_space cs1)) = Ok (Some (t, cs2))"
        "members_tree pow10 n True cs2 = Ok (Some (ms2, rest))"
        by (auto simp: then_parse_Some split: option.splits if_splits)
      have "suffix (tl (skip_space cs1)) cs1"
        using skip_space_suffix [of cs1] suffix_tl suffix_order.trans by blast
      then have "suffix cs2 ds" using v [OF *(3)] string_body_rest [OF *(1)] suffix_order.trans by blast
      with m [OF *(4)] show ?thesis using tail suffix_order.trans by blast
    qed (rule tail, use ms Cons in \<open>auto dest: m split: if_splits\<close>)
    ultimately show ?thesis by blast
  qed simp
qed simp

text \<open>The length of the longest run of digits of a text.\<close>

fun longest_digits :: "string \<Rightarrow> nat" where
  "longest_digits [] = 0"
| "longest_digits (c # cs) = max (length (takeWhile is_digit (c # cs))) (longest_digits cs)"

lemma longest_digits_suffix: "suffix ds cs \<Longrightarrow> longest_digits ds \<le> longest_digits cs"
  by (induction cs) (auto simp: suffix_Cons)

lemma longest_digits_run: "length (takeWhile is_digit cs) \<le> longest_digits cs"
  by (cases cs) auto

lemma shift_in_small: "0 \<le> n \<Longrightarrow> n < 10 ^ a \<Longrightarrow> a < 18 \<Longrightarrow> is_digit c \<Longrightarrow>
    \<exists>m. shift_in n c = Ok m \<and> 0 \<le> m \<and> m < 10 ^ Suc a"
proof -
  assume n: "0 \<le> n" "n < 10 ^ a" and a: "a < 18" and c: "is_digit c"
  let ?m = "n * 10 + digit_int c"
  have d: "0 \<le> digit_int c" "digit_int c \<le> 9" using c by (auto simp: digit_int_def digit_val_def is_digit_def)
  then have m: "0 \<le> ?m" "?m < 10 ^ Suc a" using n by simp_all
  have "(10::int) ^ Suc a \<le> 10 ^ 18" using a by (intro power_increasing) simp_all
  then have "n * 10 < 2 ^ 63" "?m < 2 ^ 63" using m d by simp_all
  then show ?thesis using n m d by (simp add: shift_in_def i64_def)
qed

lemma digits_small: "0 \<le> n \<Longrightarrow> n < 10 ^ a \<Longrightarrow> a + length (takeWhile is_digit cs) \<le> 18 \<Longrightarrow> is_ok (digits n k cs)"
proof (induction cs arbitrary: n k a)
  case (Cons c cs)
  show ?case
  proof (cases "is_digit c")
    case True
    then obtain m where "shift_in n c = Ok m" "0 \<le> m" "m < 10 ^ Suc a"
      using shift_in_small [of n a c] Cons.prems by auto
    with Cons.IH [of m "Suc a"] Cons.prems True show ?thesis by simp
  qed simp
qed simp

lemma small_run:
  assumes "longest_digits cs \<le> 18"
  shows "is_ok (digits 0 0 cs)"
  using digits_small [of 0 0 cs 0] longest_digits_run [of cs] assms by simp

lemma digits_rest: "digits n k cs = Ok (m, l, rest) \<Longrightarrow> suffix rest cs"
proof (induction cs arbitrary: n k)
  case (Cons c cs)
  then show ?case by (cases "is_digit c"; cases "shift_in n c") (auto simp: suffix_ConsI)
qed simp

lemma longest_digits_tl: "longest_digits (tl cs) \<le> longest_digits cs"
  by (rule longest_digits_suffix) (rule suffix_tl)

lemma small_digits:
  assumes "longest_digits cs \<le> 18" "\<And>n k rest. longest_digits rest \<le> 18 \<Longrightarrow> is_ok (f (n, k, rest))"
  shows "is_ok (then_do (digits 0 0 cs) f)"
proof -
  obtain n k rest where d: "digits 0 0 cs = Ok (n, k, rest)"
    using small_run [OF assms(1)] by (cases "digits 0 0 cs") auto
  have "longest_digits rest \<le> 18"
    using longest_digits_suffix [OF digits_rest [OF d]] assms(1) by linarith
  then show ?thesis using d assms(2) by simp
qed

lemma ok_number [simp]: "is_ok (number_rest t rest)" "is_ok no_parse" "is_ok (parsed x rest)"
  by (simp_all add: number_rest_def no_parse_def parsed_def)

lemma exponent_small: "longest_digits cs \<le> 18 \<Longrightarrow> is_ok (exponent pow10 neg n d cs)"
  unfolding exponent_def Let_def
  by (rule small_digits) (use longest_digits_tl [of cs] in \<open>auto simp: Let_def\<close>)

lemma fraction_small: "longest_digits cs \<le> 18 \<Longrightarrow> is_ok (fraction pow10 neg n cs)"
  unfolding fraction_def
proof (rule small_digits)
  fix m k rest assume "longest_digits rest \<le> 18"
  then have "is_ok (exponent pow10 neg n d (tl rest))" for d
    using longest_digits_tl [of rest] by (intro exponent_small) linarith
  then show "is_ok ((\<lambda>(f, k, rest). let d = dbl_plus (dbl_of_int n) (dbl_divide (dbl_of_int f) (pow10 k)) in
      if k = 0 then no_parse else if looking is_e rest then exponent pow10 neg n d (tl rest)
      else number_rest (TreeDbl n (signed_dbl neg d)) rest) (m, k, rest))"
    by (simp add: Let_def)
qed

lemma unsigned_number_small: "longest_digits cs \<le> 18 \<Longrightarrow> is_ok (unsigned_number pow10 neg cs)"
proof -
  assume cs: "longest_digits cs \<le> 18"
  have tl: "longest_digits (tl rest) \<le> 18" if "longest_digits rest \<le> 18" for rest
    using that longest_digits_tl [of rest] by linarith
  have "is_ok (then_do (digits 0 0 cs) (\<lambda>(n, k, rest).
        if looking (\<lambda>c. c = CHR ''.'') rest then
          (if k = 0 then no_parse else fraction pow10 neg n (tl rest))
        else if looking is_e rest then exponent pow10 neg n (dbl_of_int n) (tl rest)
        else number_rest (TreeInt (if neg then - n else n)) rest))"
    by (rule small_digits [OF cs]) (simp add: exponent_small fraction_small tl)
  then show ?thesis by (simp add: unsigned_number_def)
qed

text \<open>An outcome that is no overflow, and what is parsed of it with parsers that do not overflow.\<close>

definition no_overflow :: "'a outcome \<Rightarrow> bool" where
  "no_overflow r \<longleftrightarrow> r \<noteq> Panic IntOverflow"

lemma no_overflow_ok: "is_ok r \<Longrightarrow> no_overflow r"
  by (cases r) (auto simp: no_overflow_def)

lemma no_overflow_then:
  assumes "no_overflow r" "\<And>x rest. r = Ok (Some (x, rest)) \<Longrightarrow> no_overflow (f x rest)"
  shows "no_overflow (then_parse r f)"
proof (cases r)
  case (Ok x)
  then show ?thesis using assms by (cases x) (auto simp: then_parse_def no_overflow_def no_parse_def)
qed (use assms in \<open>auto simp: then_parse_def no_overflow_def\<close>)

lemma small_suffix: "suffix ds bs \<Longrightarrow> longest_digits bs \<le> 18 \<Longrightarrow> longest_digits ds \<le> 18"
  using longest_digits_suffix [of ds bs] by linarith

lemma elems_small:
  assumes v: "\<And>bs. longest_digits bs \<le> 18 \<Longrightarrow> no_overflow (value_tree pow10 n bs)"
    and e: "\<And>bs com. longest_digits bs \<le> 18 \<Longrightarrow> no_overflow (elems_tree pow10 n com bs)"
    and cs: "skip_space cs = c # ds" "longest_digits (c # ds) \<le> 18"
  shows "no_overflow (elems_tree pow10 (Suc n) comma cs)"
proof -
  have ds: "longest_digits ds \<le> 18" by (rule small_suffix [OF _ cs(2)]) (simp add: suffix_ConsI)
  have "no_overflow (then_parse (value_tree pow10 n (c # ds)) (\<lambda>t rest.
      then_parse (elems_tree pow10 n True rest) (\<lambda>ts. parsed (t # ts))))"
  proof (intro no_overflow_then v cs(2))
    fix t rest assume "value_tree pow10 n (c # ds) = Ok (Some (t, rest))"
    then have "suffix rest (c # ds)" using tree_rest by blast
    then show "no_overflow (elems_tree pow10 n True rest)" by (intro e small_suffix [OF _ cs(2)])
  qed (simp add: no_overflow_ok)
  then show ?thesis using cs(1) e [OF ds] by (simp add: no_overflow_ok)
qed

lemma members_small:
  assumes v: "\<And>bs. longest_digits bs \<le> 18 \<Longrightarrow> no_overflow (value_tree pow10 n bs)"
    and m: "\<And>bs com. longest_digits bs \<le> 18 \<Longrightarrow> no_overflow (members_tree pow10 n com bs)"
    and cs: "skip_space cs = c # ds" "longest_digits (c # ds) \<le> 18"
  shows "no_overflow (members_tree pow10 (Suc n) comma cs)"
proof -
  have ds: "longest_digits ds \<le> 18" by (rule small_suffix [OF _ cs(2)]) (simp add: suffix_ConsI)
  show ?thesis
  proof (cases "string_body ds")
    case (Some p)
    obtain key rest where p: "p = (key, rest)" by (cases p)
    have rest: "longest_digits rest \<le> 18" using string_body_rest small_suffix Some p ds by blast
    let ?r = "tl (skip_space rest)"
    have r: "longest_digits ?r \<le> 18" using small_suffix [OF suffix_tl small_suffix [OF skip_space_suffix rest]] .
    have "no_overflow (then_parse (value_tree pow10 n ?r) (\<lambda>t rest.
        then_parse (members_tree pow10 n True rest) (\<lambda>ms. parsed ((key, t) # ms))))"
    proof (intro no_overflow_then v r)
      fix t bs assume "value_tree pow10 n ?r = Ok (Some (t, bs))"
      then have "suffix bs ?r" using tree_rest by blast
      then show "no_overflow (members_tree pow10 n True bs)" by (intro m small_suffix [OF _ r])
    qed (simp add: no_overflow_ok)
    then show ?thesis using cs(1) m [OF ds] Some p by (simp add: no_overflow_ok)
  qed (use cs(1) m [OF ds] in \<open>simp add: no_overflow_ok\<close>)
qed

lemma tree_small:
  "(longest_digits cs \<le> 18 \<longrightarrow> no_overflow (value_tree pow10 n cs)) \<and>
   (longest_digits cs \<le> 18 \<longrightarrow> no_overflow (elems_tree pow10 n comma cs)) \<and>
   (longest_digits cs \<le> 18 \<longrightarrow> no_overflow (members_tree pow10 n comma cs))"
proof (induction n arbitrary: cs comma)
  case (Suc n)
  have v: "no_overflow (value_tree pow10 n bs)" and e: "no_overflow (elems_tree pow10 n com bs)"
    and m: "no_overflow (members_tree pow10 n com bs)" if "longest_digits bs \<le> 18" for bs com
    using Suc.IH that by blast+
  show ?case
  proof (cases "longest_digits cs \<le> 18")
    case True
    show ?thesis
    proof (cases "skip_space cs")
      case (Cons c ds)
      have cds: "longest_digits (c # ds) \<le> 18" using small_suffix [OF skip_space_suffix True] Cons by simp
      have ds: "longest_digits ds \<le> 18" by (rule small_suffix [OF _ cds]) (simp add: suffix_ConsI)
      have "no_overflow (value_tree pow10 (Suc n) cs)"
        using Cons by (simp add: no_overflow_then m [OF ds] e [OF ds] no_overflow_ok string_tree_def
            word_tree_def unsigned_number_small [OF ds] unsigned_number_small [OF cds] split: option.split)
      then show ?thesis using elems_small [OF v e Cons cds] members_small [OF v m Cons cds] by blast
    qed (simp add: no_overflow_ok)
  qed simp
qed (simp add: no_overflow_def)

lemma skip_bom_suffix: "suffix (skip_bom txt) txt"
  by (simp add: skip_bom_def suffix_drop)

lemma text_value_small:
  assumes "longest_digits txt \<le> 18"
  shows "is_ok (text_value pow10 txt)"
proof -
  let ?s = "skip_bom txt"
  have "longest_digits ?s \<le> 18" using longest_digits_suffix [OF skip_bom_suffix, of "txt"] assms by linarith
  then have "no_overflow (value_tree pow10 (2 * length ?s + 1) ?s)" using tree_small by blast
  then have "is_ok (value_tree pow10 (2 * length ?s + 1) ?s)"
    using fueled_text [of pow10 ?s] by (cases "value_tree pow10 (2 * length ?s + 1) ?s") (auto simp: fueled_def no_overflow_def)
  then show ?thesis
    by (cases "value_tree pow10 (2 * length ?s + 1) ?s") (auto simp: text_value_def text_tree_def split: option.split)
qed

text \<open>When no 19 digits of a text follow one another \<^verbatim>\<open>loads\<close> returns.\<close>

theorem few_digits_return:
  assumes "length txt \<le> json_uint_max" and "longest_digits txt \<le> 18"
  shows "is_ok (json_loads pow10 txt)"
  using text_value_small [OF assms(2)] by (simp add: json_loads_text [OF assms(1)])

theorem few_digits_return_witness: "is_ok (json_loads (\<lambda>k. dbl_of_int (10 ^ nat k)) ''[999999999999999999, 1'')"
  by (rule few_digits_return) (simp_all add: json_uint_max_def is_digit_def)



end
