(* ===== verification/JsonRoundtrip.thy ===== *)
theory JsonRoundtrip
  imports JsonLanguage
begin

section \<open>Reading what \<^verbatim>\<open>dumps\<close> prints\<close>

text \<open>
  The text of a JSON value and the reference of the parser on it: each kind of value, followed by
  anything that does not go on with a number, is read as its tree and what follows is left.
\<close>

subsection \<open>Which values are read back\<close>

text \<open>
  Keys are printed as they are, strings with their escapes; a NUL ends the text of a string. A double is
  printed with two decimals, and the digits of the least \<^verbatim>\<open>int64_t\<close> overflow when they are read.
\<close>

definition plain_key :: "string \<Rightarrow> bool" where
  "plain_key k \<longleftrightarrow> set k \<inter> {CHR 0x00, CHR 0x22, CHR 0x5C} = {}"

fun printable :: "json \<Rightarrow> bool" where
  "printable (JsonString v) = (CHR 0x00 \<notin> set v)"
| "printable (JsonBoolean v) = True"
| "printable (JsonInteger v) = (sint v \<noteq> - (2 ^ 63))"
| "printable (JsonNumber v) = False"
| "printable JsonNull = True"
| "printable (JsonObject ps) = (distinct (map fst ps) \<and> (\<forall>p\<in>set ps. plain_key (fst p) \<and> printable (snd p)))"
| "printable (JsonArray es) = (\<forall>e\<in>set es. printable e)"

fun tree_of :: "json \<Rightarrow> jtree"
  and members_of :: "json_props \<Rightarrow> (string \<times> jtree) list"
  and elems_of :: "json list \<Rightarrow> jtree list" where
  "tree_of (JsonString v) = TreeStr v"
| "tree_of (JsonBoolean v) = TreeBool v"
| "tree_of (JsonInteger v) = TreeInt (sint v)"
| "tree_of (JsonNumber v) = TreeDbl 0 v"
| "tree_of JsonNull = TreeNull"
| "tree_of (JsonObject ps) = TreeObj (members_of ps)"
| "tree_of (JsonArray es) = TreeArr (elems_of es)"
| "members_of [] = []"
| "members_of ((key, v) # ps) = (key, tree_of v) # members_of ps"
| "elems_of [] = []"
| "elems_of (v # es) = tree_of v # elems_of es"

lemma tree_of_value:
  "printable j \<Longrightarrow> tree_value (tree_of j) = j"
  "\<forall>p\<in>set ps. printable (snd p) \<Longrightarrow> distinct (map fst (qs @ ps)) \<Longrightarrow> members_value (members_of ps) qs = qs @ ps"
  "\<forall>e\<in>set es. printable e \<Longrightarrow> map tree_value (elems_of es) = es"
proof (induction j and ps and es arbitrary: and qs rule: tree_of_members_of_elems_of.induct)
  case (9 key v ps)
  then have "json_set key (Some v) qs = qs @ [(key, v)]"
    by (simp add: json_set_def erase_first_notin)
  with 9 show ?case by simp
qed simp_all

subsection \<open>Strings\<close>

lemma string_body_quote: "string_body (CHR 0x22 # rest) = Some ([], rest)"
  by (simp add: string_body.simps)

lemma string_body_plain:
  "c \<noteq> CHR 0x00 \<Longrightarrow> c \<noteq> CHR 0x22 \<Longrightarrow> c \<noteq> CHR 0x5C \<Longrightarrow> string_body (c # cs) = put_front [c] (string_body cs)"
  by (simp add: string_body.simps [of "c # cs"])

lemma string_body_escape:
  "e \<noteq> CHR 0x00 \<Longrightarrow> e \<noteq> CHR ''u'' \<Longrightarrow> string_body (CHR 0x5C # e # cs) = put_front [unescape e] (string_body cs)"
  by (simp add: string_body.simps [of "CHR 0x5C # e # cs"])

lemma string_body_escaped:
  assumes "c \<noteq> CHR 0x00"
  shows "string_body (escape_char c @ cs) = put_front [c] (string_body cs)"
  using assms by (simp add: string_body_escape string_body_plain unescape_def)

lemma string_body_printed:
  "CHR 0x00 \<notin> set v \<Longrightarrow> string_body (concat (map escape_char v) @ CHR 0x22 # rest) = Some (v, rest)"
proof (induction v)
  case (Cons c v)
  then show ?case
    by (auto simp: string_body_escaped put_front_def simp del: escape_char.simps)
qed (simp add: string_body_quote)

lemma string_body_key: "plain_key k \<Longrightarrow> string_body (k @ CHR 0x22 # rest) = Some (k, rest)"
proof (induction k)
  case (Cons c k)
  then show ?case by (auto simp: plain_key_def string_body_plain put_front_def)
qed (simp add: string_body_quote)

subsection \<open>Numbers\<close>

lemma dec_value_acc: "foldl (\<lambda>v c. 10 * v + digit_val c) a ds = a * 10 ^ length ds + dec_value ds"
proof (induction ds rule: rev_induct)
  case (snoc c ds)
  then show ?case by (simp add: algebra_simps)
qed (simp add: dec_value_def)

lemma dec_value_Cons: "dec_value (c # ds) = digit_val c * 10 ^ length ds + dec_value ds"
  using dec_value_acc [of "digit_val c" ds] by (simp add: dec_value_def)

lemma digits_run:
  assumes "list_all is_digit ds" "\<not> looking is_digit rest" "0 \<le> n" "n * 10 ^ length ds + int (dec_value ds) < 2 ^ 63"
  shows "digits n k (ds @ rest) = Ok (n * 10 ^ length ds + int (dec_value ds), k + int (length ds), rest)"
  using assms
proof (induction ds arbitrary: n k)
  case Nil
  then show ?case by (cases rest) (auto simp: dec_value_def)
next
  case (Cons c ds)
  let ?m = "n * 10 + digit_int c"
  have eq: "n * 10 ^ length (c # ds) + int (dec_value (c # ds)) = ?m * 10 ^ length ds + int (dec_value ds)"
    by (simp add: dec_value_Cons digit_int_def algebra_simps)
  have m: "0 \<le> digit_int c" "0 \<le> ?m" using Cons.prems by (simp_all add: digit_int_def)
  have "?m * 1 \<le> ?m * 10 ^ length ds" using m by (intro mult_left_mono) simp_all
  also have "\<dots> \<le> ?m * 10 ^ length ds + int (dec_value ds)" by simp
  also have "\<dots> < 2 ^ 63" using Cons.prems(4) unfolding eq .
  finally have "?m < 2 ^ 63" by simp
  then have "shift_in n c = Ok ?m" using m Cons.prems(3) by (simp add: shift_in_def i64_def)
  then show ?case using Cons.IH [of ?m "k + 1"] Cons.prems m eq by simp
qed

lemma dec_of_nat_leading: "dec_of_nat n = CHR ''0'' # ds \<Longrightarrow> n = 0"
proof (induction n arbitrary: ds rule: dec_of_nat.induct)
  case (1 n)
  show ?case
  proof (cases "n < 10")
    case True
    then have "digit_val (digit_char n) = digit_val (CHR ''0'')" using 1 by (simp add: dec_of_nat.simps [of n])
    then show ?thesis using True digit_val_char [of 0] by simp
  next
    case False
    then have "\<exists>es. dec_of_nat (n div 10) = CHR ''0'' # es"
      using "1.prems" by (cases "dec_of_nat (n div 10)") (simp_all add: dec_of_nat.simps [of n])
    then show ?thesis using 1 False by auto
  qed
qed

lemma not_num_char: "\<not> looking is_num_char rest \<Longrightarrow> (\<And>c. P c \<Longrightarrow> is_num_char c) \<Longrightarrow> \<not> looking P rest"
  by (cases rest) auto

lemma unsigned_number_printed:
  assumes "m < 2 ^ 63" and "\<not> looking is_num_char rest"
  shows "unsigned_number pow10 neg (dec_of_nat m @ rest) = parsed (TreeInt (if neg then - int m else int m)) rest"
proof -
  have no: "\<not> looking is_digit rest" "\<not> looking (\<lambda>c. c = CHR ''.'') rest" "\<not> looking is_e rest"
    by (rule not_num_char [OF assms(2)]; auto simp: is_num_char_def is_e_def)+
  have "\<not> zero_led (dec_of_nat m @ rest)"
  proof (cases "\<exists>ds. dec_of_nat m = CHR ''0'' # ds")
    case True
    then have "m = 0" using dec_of_nat_leading by blast
    then show ?thesis using no(1) by (simp add: zero_led_def dec_of_nat.simps)
  next
    case False
    then show ?thesis by (cases "dec_of_nat m") (auto simp: zero_led_def)
  qed
  moreover have "digits 0 0 (dec_of_nat m @ rest) = Ok (int m, int (length (dec_of_nat m)), rest)"
    using digits_run [of "dec_of_nat m" rest 0 0] no(1) assms(1) dec_of_nat_digits by simp
  ultimately show ?thesis
    using no assms(2) by (simp add: unsigned_number_def number_rest_def)
qed


subsection \<open>Values\<close>

lemma skip_space_other: "\<not> is_space c \<Longrightarrow> skip_space (c # cs) = c # cs"
  by (simp add: skip_space_def)

lemma dumps_first:
  assumes "printable j"
  obtains c cs where "json_dumps j = c # cs" "\<not> is_space c" "c \<noteq> CHR '']''" "c \<noteq> CHR 0xEF"
proof (cases j)
  case (JsonInteger v)
  show ?thesis
  proof (cases "sint v < 0")
    case False
    then obtain c cs where c: "json_dumps j = c # cs" "is_digit c"
      using JsonInteger dec_of_nat_digits [of "nat (sint v)"] dec_of_nat_not_Nil [of "nat (sint v)"]
      by (cases "dec_of_nat (nat (sint v))") (auto simp: srs_int2str_whole dec_of_int_def)
    then show ?thesis by (intro that [OF c(1)]) (auto simp: is_digit_def is_space_def)
  qed (use JsonInteger that in \<open>simp add: srs_int2str_whole dec_of_int_def is_space_def\<close>)
next
  case (JsonBoolean b)
  then show ?thesis by (cases b) (use that in \<open>auto simp: is_space_def\<close>)
qed (use assms that in \<open>auto simp: json_serialize_string_def is_space_def\<close>)

lemma skip_space_dumps: "printable j \<Longrightarrow> skip_space (json_dumps j @ rest) = json_dumps j @ rest"
  by (elim dumps_first) (simp add: skip_space_other)

lemma integer_printed:
  assumes "sint v \<noteq> - (2 ^ 63)" "\<not> looking is_num_char rest" "0 < n"
  shows "value_tree pow10 n (json_dumps (JsonInteger v) @ rest) = parsed (TreeInt (sint v)) rest"
proof -
  have range: "- (2 ^ 63) \<le> sint v" "sint v < 2 ^ 63"
    using sint_range_size [of v] by (simp_all add: word_size)
  obtain k where n: "n = Suc k" using assms(3) by (cases n) auto
  show ?thesis
  proof (cases "sint v < 0")
    case True
    have "- sint v < 2 ^ 63" using range assms(1) True by linarith
    then have "nat (- sint v) < 2 ^ 63" using True by (simp add: nat_less_iff)
    then show ?thesis
      using True unsigned_number_printed [OF _ assms(2), of "nat (- sint v)" pow10 True] n
      by (simp add: srs_int2str_whole dec_of_int_def skip_space_other is_space_def)
  next
    case False
    then obtain c cs where c: "dec_of_nat (nat (sint v)) = c # cs" "is_digit c"
      using dec_of_nat_digits [of "nat (sint v)"] dec_of_nat_not_Nil [of "nat (sint v)"]
      by (cases "dec_of_nat (nat (sint v))") auto
    have other: "\<not> is_space c" "c \<noteq> CHR ''{''" "c \<noteq> CHR ''[''" "c \<noteq> CHR 0x22" "c \<noteq> CHR ''t''" "c \<noteq> CHR ''f''"
        "c \<noteq> CHR ''n''" "c \<noteq> CHR ''-''"
      using c(2) by (auto simp: is_digit_def is_space_def)
    have "nat (sint v) < 2 ^ 63" using range False by (simp add: nat_less_iff)
    then show ?thesis
      using False unsigned_number_printed [OF _ assms(2), of "nat (sint v)" pow10 False] n c other
      by (simp add: srs_int2str_whole dec_of_int_def skip_space_other)
  qed
qed

lemma string_printed:
  assumes "CHR 0x00 \<notin> set v" "0 < n"
  shows "value_tree pow10 n (json_dumps (JsonString v) @ rest) = parsed (TreeStr v) rest"
  using assms string_body_printed [of v rest]
  by (cases n) (simp_all add: json_serialize_string_def skip_space_other is_space_def string_tree_def)

lemma word_printed:
  assumes "0 < n"
  shows "value_tree pow10 n (json_dumps (JsonBoolean b) @ rest) = parsed (TreeBool b) rest"
    and "value_tree pow10 n (json_dumps JsonNull @ rest) = parsed TreeNull rest"
  using assms by (cases n; simp add: skip_space_other is_space_def word_tree_def)+

lemma parsed_then [simp]: "then_parse (parsed x rest) f = f x rest"
  by (simp add: then_parse_def parsed_def)

lemma not_number [simp]: "\<not> is_num_char (CHR '','')" "\<not> is_num_char (CHR '']'')" "\<not> is_num_char (CHR ''}'')"
  by (simp_all add: is_num_char_def is_digit_def)

lemma elems_next:
  assumes "value_tree pow10 n (json_dumps j @ rest) = parsed t rest" "printable j"
  shows "elems_tree pow10 (Suc n) False (json_dumps j @ rest) =
    then_parse (elems_tree pow10 n True rest) (\<lambda>ts. parsed (t # ts))"
proof -
  obtain c cs where "json_dumps j = c # cs" "\<not> is_space c" "c \<noteq> CHR '']''"
    using dumps_first [OF assms(2)] .
  with assms(1) show ?thesis by (simp add: skip_space_other)
qed

lemma members_next:
  assumes "value_tree pow10 n (json_dumps j @ rest) = parsed t rest" "plain_key k"
  shows "members_tree pow10 (Suc n) False (SRS_JFIELD_NAME k @ json_dumps j @ rest) =
    then_parse (members_tree pow10 n True rest) (\<lambda>ms. parsed ((k, t) # ms))"
  using assms string_body_key [OF assms(2), of "CHR '':'' # json_dumps j @ rest"]
  by (simp add: SRS_JFIELD_NAME_def skip_space_other is_space_def)

lemma comma_next:
  "elems_tree pow10 (Suc n) True (CHR '','' # cs) = elems_tree pow10 n False cs"
  "members_tree pow10 (Suc n) True (CHR '','' # cs) = members_tree pow10 n False cs"
  by (simp_all add: skip_space_other is_space_def)

lemma closed_next:
  "elems_tree pow10 (Suc n) comma (CHR '']'' # cs) = parsed [] cs"
  "members_tree pow10 (Suc n) comma (CHR ''}'' # cs) = parsed [] cs"
  by (simp_all add: skip_space_other is_space_def)

text \<open>A member and an element, and those behind it.\<close>

lemma member_printed:
  assumes "plain_key k" and "\<And>r. \<not> looking is_num_char r \<Longrightarrow> value_tree pow10 (Suc a) (json_dumps v @ r) = parsed (tree_of v) r"
    and "ps \<noteq> [] \<Longrightarrow> members_tree pow10 a False (dumps_props ps @ CHR ''}'' # rest) = parsed (members_of ps) rest"
  shows "members_tree pow10 (Suc (Suc a)) False (dumps_props ((k, v) # ps) @ CHR ''}'' # rest) =
    parsed (members_of ((k, v) # ps)) rest"
proof -
  let ?rest = "(if ps \<noteq> [] then '','' else []) @ dumps_props ps @ CHR ''}'' # rest"
  have "members_tree pow10 (Suc (Suc a)) False (SRS_JFIELD_NAME k @ json_dumps v @ ?rest) =
      then_parse (members_tree pow10 (Suc a) True ?rest) (\<lambda>ms. parsed ((k, tree_of v) # ms))"
    using assms(1) by (intro members_next assms(2)) auto
  moreover have "members_tree pow10 (Suc a) True ?rest = parsed (members_of ps) rest"
    using assms(3) by (cases "ps = []") (simp_all add: comma_next closed_next del: members_tree.simps)
  ultimately show ?thesis by (simp del: members_tree.simps)
qed

lemma elem_printed:
  assumes "printable v" and "\<And>r. \<not> looking is_num_char r \<Longrightarrow> value_tree pow10 (Suc a) (json_dumps v @ r) = parsed (tree_of v) r"
    and "es \<noteq> [] \<Longrightarrow> elems_tree pow10 a False (dumps_elems es @ CHR '']'' # rest) = parsed (elems_of es) rest"
  shows "elems_tree pow10 (Suc (Suc a)) False (dumps_elems (v # es) @ CHR '']'' # rest) = parsed (elems_of (v # es)) rest"
proof -
  let ?rest = "(if es \<noteq> [] then '','' else []) @ dumps_elems es @ CHR '']'' # rest"
  have "elems_tree pow10 (Suc (Suc a)) False (json_dumps v @ ?rest) =
      then_parse (elems_tree pow10 (Suc a) True ?rest) (\<lambda>ts. parsed (tree_of v # ts))"
    using assms(1) by (intro elems_next assms(2)) auto
  moreover have "elems_tree pow10 (Suc a) True ?rest = parsed (elems_of es) rest"
    using assms(3) by (cases "es = []") (simp_all add: comma_next closed_next del: elems_tree.simps)
  ultimately show ?thesis by (simp del: elems_tree.simps)
qed

lemma values_printed:
  "printable j \<Longrightarrow> \<not> looking is_num_char rest \<Longrightarrow> 2 * length (json_dumps j) < n \<Longrightarrow>
     value_tree pow10 n (json_dumps j @ rest) = parsed (tree_of j) rest"
  "\<forall>p\<in>set ps. plain_key (fst p) \<and> printable (snd p) \<Longrightarrow> 2 * length (dumps_props ps) + 1 < n \<Longrightarrow>
     members_tree pow10 n False (dumps_props ps @ CHR ''}'' # rest) = parsed (members_of ps) rest"
  "\<forall>e\<in>set es. printable e \<Longrightarrow> 2 * length (dumps_elems es) + 1 < n \<Longrightarrow>
     elems_tree pow10 n False (dumps_elems es @ CHR '']'' # rest) = parsed (elems_of es) rest"
proof (induction j and ps and es arbitrary: rest n and rest n and rest n rule: json_dumps_dumps_props_dumps_elems.induct)
  case (1 v)
  then show ?case using string_printed [of v n pow10 rest] by simp
next
  case (2 v)
  then show ?case using word_printed(1) [of n pow10 v rest] by simp
next
  case (3 v)
  then show ?case using integer_printed [of v rest n pow10] by simp
next
  case (5)
  then show ?case using word_printed(2) [of n pow10 rest] by simp
next
  case (6 ps)
  then obtain k where n: "n = Suc k" by (cases n) auto
  with 6 have "members_tree pow10 k False (dumps_props ps @ CHR ''}'' # rest) = parsed (members_of ps) rest" by simp
  then show ?case using n by (simp add: skip_space_other is_space_def)
next
  case (7 es)
  then obtain k where n: "n = Suc k" by (cases n) auto
  with 7 have "elems_tree pow10 k False (dumps_elems es @ CHR '']'' # rest) = parsed (elems_of es) rest" by simp
  then show ?case using n by (simp add: skip_space_other is_space_def)
next
  case 8
  then show ?case by (cases n) (simp_all add: closed_next del: members_tree.simps)
next
  case (9 k v ps)
  obtain a where n: "n = Suc (Suc a)" using 9(4) by (cases n; cases "n - 1") auto
  show ?case unfolding n
    by (rule member_printed) (use 9 n in \<open>auto simp del: value_tree.simps members_tree.simps elems_tree.simps\<close>)
next
  case 10
  then show ?case by (cases n) (simp_all add: closed_next del: elems_tree.simps)
next
  case (11 v es)
  obtain a where n: "n = Suc (Suc a)" using 11(4) by (cases n; cases "n - 1") auto
  show ?case unfolding n
    by (rule elem_printed) (use 11 n in \<open>auto simp del: value_tree.simps members_tree.simps elems_tree.simps\<close>)
qed simp

subsection \<open>Texts\<close>

lemma text_value_dumps:
  assumes "printable j"
  shows "text_value pow10 (json_dumps j) = Ok (Some j)"
proof -
  have tree: "value_tree pow10 (2 * length (json_dumps j) + 1) (json_dumps j) = parsed (tree_of j) []"
    using values_printed(1) [OF assms, of "[]"] by (simp del: value_tree.simps)
  obtain c cs where c: "json_dumps j = c # cs" "c \<noteq> CHR 0xEF"
    using dumps_first [OF assms] .
  then have bom: "skip_bom (json_dumps j) = json_dumps j" by (simp add: skip_bom_def)
  have "text_tree pow10 (json_dumps j) = Ok (Some (tree_of j))"
    unfolding text_tree_def tree by (simp add: parsed_def skip_space_def)
  then show ?thesis
    using bom c tree_of_value(1) [OF assms] by (simp add: text_value_def)
qed



end
