(* ===== verification/JsonUnicode.thy ===== *)
theory JsonUnicode
  imports JsonLanguage
begin

section \<open>Characters of escapes\<close>

text \<open>
  What \<^verbatim>\<open>\u\<close> puts into a string: the bytes are the UTF-8 of the character, which a decoder written
  from the definition of UTF-8 reads back; the two halves of a pair give the character only when a bit of
  the first is zero.
\<close>

subsection \<open>Decoding UTF-8\<close>

text \<open>Bytes that go on with a character, six bits each.\<close>

fun utf8_tail :: "nat \<Rightarrow> nat \<Rightarrow> string \<Rightarrow> (nat \<times> string) option" where
  "utf8_tail 0 acc cs = Some (acc, cs)"
| "utf8_tail (Suc k) acc [] = None"
| "utf8_tail (Suc k) acc (c # cs) =
     (if 0x80 \<le> (of_char c :: nat) \<and> (of_char c :: nat) < 0xC0 then utf8_tail k (acc * 64 + (of_char c - 0x80)) cs else None)"

text \<open>A character, which must not be written longer than it is.\<close>

definition utf8_long :: "nat \<Rightarrow> nat \<Rightarrow> (nat \<times> string) option \<Rightarrow> (nat \<times> string) option" where
  "utf8_long lo hi r = (case r of None \<Rightarrow> None | Some (u, cs) \<Rightarrow> if lo \<le> u \<and> u < hi then r else None)"

fun utf8_point :: "string \<Rightarrow> (nat \<times> string) option" where
  "utf8_point [] = None"
| "utf8_point (c # cs) =
     (let b = of_char c :: nat in
      if b < 0x80 then Some (b, cs)
      else if b < 0xC0 then None
      else if b < 0xE0 then utf8_long 0x80 0x800 (utf8_tail 1 (b - 0xC0) cs)
      else if b < 0xF0 then utf8_long 0x800 0x10000 (utf8_tail 2 (b - 0xE0) cs)
      else if b < 0xF8 then utf8_long 0x10000 0x110000 (utf8_tail 3 (b - 0xF0) cs)
      else None)"

lemma or_above:
  fixes x y :: nat
  assumes "y < 2 ^ k"
  shows "push_bit k x OR y = x * 2 ^ k + y"
proof -
  have "push_bit k x + y = push_bit k x OR y"
  proof (rule disjunctive_add)
    show "\<not> bit (push_bit k x) n \<or> \<not> bit y n" for n
      using assms by (metis bit_push_bit_iff bit_take_bit_iff linorder_not_le take_bit_nat_eq_self)
  qed
  then show ?thesis by (simp add: push_bit_eq_mult)
qed

lemma or_lead:
  fixes y :: nat
  shows "y < 64 \<Longrightarrow> 0x80 OR y = 0x80 + y" "y < 32 \<Longrightarrow> 0xC0 OR y = 0xC0 + y"
    "y < 16 \<Longrightarrow> 0xE0 OR y = 0xE0 + y" "y < 8 \<Longrightarrow> 0xF0 OR y = 0xF0 + y"
  using or_above [of y 6 2] or_above [of y 5 6] or_above [of y 4 14] or_above [of y 3 30]
  by (simp_all add: push_bit_eq_mult)

lemma unat_low6: "unat (w AND 0x3F :: 32 word) = unat w mod 64"
proof -
  have "w AND 0x3F = take_bit 6 w" by (simp add: take_bit_eq_mask mask_eq_exp_minus_1)
  then have "unat (w AND 0x3F) = take_bit 6 (unat w)" by (simp only: unsigned_take_bit_eq)
  then show ?thesis by (simp add: take_bit_eq_mod)
qed

lemma unat_high: "unat (drop_bit k w) = unat w div 2 ^ k"
  using trans [OF unat_drop_bit_eq drop_bit_eq_div] .

lemma utf8_point_chars:
  fixes u :: "32 word"
  assumes "u < 0x110000"
  shows "utf8_point (utf8_chars u @ rest) = Some (unat u, rest)"
proof -
  define n where "n = unat u"
  have n: "n < 0x110000" using assms by (simp add: n_def word_less_nat_alt)
  have sixes: "n div 4096 = n div 64 div 64" "n div 262144 = n div 64 div 64 div 64"
    by (simp_all flip: div_mult2_eq)
  have le: "u \<le> 0x7F \<longleftrightarrow> n < 0x80" "u \<le> 0x7FF \<longleftrightarrow> n < 0x800" "u \<le> 0xFFFF \<longleftrightarrow> n < 0x10000"
    by (auto simp: n_def word_le_nat_alt)
  have part: "unat (0x80 OR (w AND 0x3F)) = 0x80 + unat w mod 64" for w :: "32 word"
    using or_lead(1) [of "unat w mod 64"] by (simp add: unsigned_or_eq unat_low6)
  have two: "unat (0xC0 OR drop_bit 6 u) = 0xC0 + n div 64" if "n < 0x800"
    using or_lead(2) [of "n div 64"] that by (simp add: unsigned_or_eq unat_high n_def)
  have three: "unat (0xE0 OR drop_bit 12 u) = 0xE0 + n div 4096" if "n < 0x10000"
    using or_lead(3) [of "n div 4096"] that by (simp add: unsigned_or_eq unat_high n_def)
  have high: "n div 262144 < 8" using n by (intro less_mult_imp_div_less) simp
  have four: "unat (0xF0 OR drop_bit 18 u) = 0xF0 + n div 262144"
    using or_lead(4) [OF high] by (simp add: unsigned_or_eq unat_high n_def)
  consider "n < 0x80" | "0x80 \<le> n" "n < 0x800" | "0x800 \<le> n" "n < 0x10000" | "0x10000 \<le> n"
    by linarith
  then show ?thesis
  proof cases
    case 1
    then show ?thesis by (simp add: utf8_chars_def le of_char_of n_def [symmetric])
  next
    case 2
    then have "utf8_chars u = [char_of (0xC0 + n div 64), char_of (0x80 + n mod 64)]"
      by (simp add: utf8_chars_def le two part n_def [symmetric])
    moreover have "n div 64 < 32" using 2 by (intro less_mult_imp_div_less) simp
    ultimately show ?thesis using 2 by (simp add: of_char_of utf8_long_def numeral_2_eq_2 Let_def n_def [symmetric])
  next
    case 3
    then have "utf8_chars u = [char_of (0xE0 + n div 4096), char_of (0x80 + n div 64 mod 64), char_of (0x80 + n mod 64)]"
      by (simp add: utf8_chars_def le three part unat_high n_def [symmetric])
    moreover have "n div 4096 < 16" using 3 by (intro less_mult_imp_div_less) simp
    moreover have "(n div 4096 * 64 + n div 64 mod 64) * 64 + n mod 64 = n"
      by (simp only: sixes div_mult_mod_eq)
    ultimately show ?thesis using 3 by (simp add: of_char_of utf8_long_def numeral_2_eq_2 Let_def n_def [symmetric])
  next
    case 4
    then have "utf8_chars u = [char_of (0xF0 + n div 262144), char_of (0x80 + n div 4096 mod 64),
        char_of (0x80 + n div 64 mod 64), char_of (0x80 + n mod 64)]"
      by (simp add: utf8_chars_def le four part unat_high n_def [symmetric])
    moreover have "((n div 262144 * 64 + n div 4096 mod 64) * 64 + n div 64 mod 64) * 64 + n mod 64 = n"
      by (simp only: sixes div_mult_mod_eq)
    ultimately show ?thesis using 4 n by (simp add: of_char_of utf8_long_def numeral_3_eq_3 Let_def high n_def [symmetric])
  qed
qed


text \<open>
  C35. The bytes that an escape puts into a string are the UTF-8 of its character: a decoder that
  refuses long forms and bytes out of range reads the character back and leaves the rest, for every
  character of Unicode.
\<close>

theorem utf8_of_escape:
  assumes "u < 0x110000"
  shows "utf8_point (utf8_chars u @ rest) = Some (unat u, rest)"
  by (rule utf8_point_chars [OF assms])

theorem utf8_of_escape_witness: "utf8_point (utf8_chars 0x1F600 @ ''x'') = Some (0x1F600, ''x'')"
  using utf8_of_escape [of "0x1F600" "''x''"] by simp

subsection \<open>Pairs\<close>

lemma or_plus: "x OR y = x + y" if "x AND y = 0" for x y :: "32 word"
  using word_plus_and_or [of x y] that by simp

lemma low10: "w AND 0x3FF = take_bit 10 w" for w :: "32 word"
  by (simp add: take_bit_eq_mask mask_eq_exp_minus_1)

lemma bit_pair: "bit (push_bit 10 (take_bit 10 u) OR take_bit 10 v) n \<longleftrightarrow>
    (if n < 10 then bit v n else n < 20 \<and> bit u (n - 10))" for u v :: "32 word"
  by (auto simp: bit_or_iff bit_push_bit_iff bit_take_bit_iff)

lemma pair_plus: "push_bit 10 (take_bit 10 u) + take_bit 10 v = push_bit 10 (take_bit 10 u) OR take_bit 10 v"
  for u v :: "32 word"
  by (rule or_plus [symmetric], rule bit_word_eqI) (auto simp: bit_and_iff bit_push_bit_iff bit_take_bit_iff)

lemma carry_or:
  fixes t :: "32 word"
  shows "0x10000 OR t = 0x10000 + t \<longleftrightarrow> \<not> bit t 16"
proof -
  have one: "bit (0x10000 :: 32 word) n \<longleftrightarrow> n = 16" for n
    using bit_push_bit_iff [of 16 "1 :: 32 word" n] by (auto simp: push_bit_eq_mult bit_1_iff)
  show ?thesis
  proof (cases "bit t 16")
    case True
    then have "0x10000 OR t = t" by (intro bit_word_eqI) (metis bit_or_iff one)
    moreover have "0x10000 + t \<noteq> t" by simp
    ultimately show ?thesis using True by metis
  next
    case False
    then have "0x10000 AND t = 0" by (intro bit_word_eqI) (metis bit_and_iff bit_0_eq bot_apply bot_bool_def one)
    then show ?thesis using False or_plus by blast
  qed
qed

text \<open>
  C34. Two halves make the character that UTF-16 means, \<open>0x10000\<close> plus the ten bits of each, exactly when
  bit 6 of the first half is zero: the code puts the summands together with an or, which loses the carry
  for every character from \<open>0x20000\<close> on whose plane has an even number.
\<close>

theorem surrogate_pairs:
  "surrogates u v = 0x10000 + push_bit 10 (u AND 0x3FF) + (v AND 0x3FF) \<longleftrightarrow> \<not> bit u 6"
  unfolding surrogates_def low10 or.assoc add.assoc pair_plus carry_or bit_pair by simp

end
