(* ===== verification/JsonAccess.thy ===== *)
theory JsonAccess
  imports JsonEquiv
begin

section \<open>The operators of a parsed JSON value\<close>

text \<open>
  The members of \<^verbatim>\<open>struct _json_value\<close> in \<^verbatim>\<open>srs_protocol_json.cpp\<close>: indices, names and conversions, over the
  nodes that the parser leaves. A reference to \<^verbatim>\<open>json_value_none\<close> is \<open>None\<close>.
\<close>

definition parsed_at :: "json_value list \<Rightarrow> nat \<Rightarrow> json_value outcome" where
  "parsed_at nodes i = (if i < length nodes then Ok (nodes ! i) else Panic UndefinedBehaviour)"

definition entry_at :: "nat \<Rightarrow> json_value \<Rightarrow> (string \<times> nat) outcome" where
  "entry_at k v = (if k < length (jv_elems v) then Ok (jv_elems v ! k) else Panic UndefinedBehaviour)"

definition value_index :: "json_value list \<Rightarrow> nat \<Rightarrow> int \<Rightarrow> nat option outcome" where
  "value_index nodes i index = then_do (parsed_at nodes i) (\<lambda>v.
     if jv_type v \<noteq> json_array \<or> index < 0 \<or> int (jv_length v) \<le> index then Ok None
     else map_outcome (\<lambda>e. Some (snd e)) (entry_at (nat index) v))"

text \<open>\<^verbatim>\<open>strcmp\<close> compares up to the first NUL of each.\<close>

function member_loop :: "json_value \<Rightarrow> string \<Rightarrow> nat \<Rightarrow> nat option outcome" where
  "member_loop v index k =
     (if jv_length v \<le> k then Ok None
      else then_do (entry_at k v) (\<lambda>(name, value).
        if c_str name = c_str index then Ok (Some value) else member_loop v index (k + 1)))"
  by pat_completeness auto

termination
  by (relation "measure (\<lambda>(v, index, k). jv_length v - k)") auto

declare member_loop.simps [simp del]

definition value_member :: "json_value list \<Rightarrow> nat \<Rightarrow> string \<Rightarrow> nat option outcome" where
  "value_member nodes i index = then_do (parsed_at nodes i) (\<lambda>v.
     if jv_type v \<noteq> json_object then Ok None else member_loop v index 0)"

definition value_chars :: "json_value \<Rightarrow> string" where
  "value_chars v = (if jv_type v = json_string then jv_chars v else [])"

definition value_int :: "json_value \<Rightarrow> int outcome" where
  "value_int v = (case jv_type v of
      json_integer \<Rightarrow> Ok (jv_integer v)
    | json_double \<Rightarrow> dbl_to_int64 (jv_dbl v)
    | _ \<Rightarrow> Ok 0)"

definition value_bool :: "json_value \<Rightarrow> bool" where
  "value_bool v = (if jv_type v \<noteq> json_boolean then False else jv_boolean v)"

definition value_dbl :: "json_value \<Rightarrow> 64 word" where
  "value_dbl v = (case jv_type v of
      json_integer \<Rightarrow> dbl_of_int (jv_integer v)
    | json_double \<Rightarrow> jv_dbl v
    | _ \<Rightarrow> 0)"

subsection \<open>The operators on a tree\<close>

text \<open>The nodes have a tree at an index.\<close>

definition tree_at :: "json_value list \<Rightarrow> nat \<Rightarrow> jtree \<Rightarrow> bool" where
  "tree_at nodes i t \<longleftrightarrow> (\<exists>p vs ws. nodes = vs @ lay False p i t @ ws \<and> length vs = i)"

lemma tree_node: "tree_at nodes i t \<Longrightarrow> \<exists>p. parsed_at nodes i = Ok (node_of False p i t)"
  by (auto simp: tree_at_def parsed_at_def lay.simps [of _ _ _ t])

lemma lays_nth:
  "k < length ts \<Longrightarrow> \<exists>vs ws. lays first p i ts = vs @ lay first p (idxs i ts ! k) (ts ! k) @ ws \<and> idxs i ts ! k = i + length vs"
proof (induction ts arbitrary: i k)
  case (Cons t ts)
  show ?case
  proof (cases k)
    case 0
    then show ?thesis by (intro exI [of _ "[]"] exI [of _ "lays first p (i + tsize t) ts"]) simp
  next
    case (Suc k')
    with Cons.prems have "k' < length ts" by simp
    from Cons.IH [OF this, of "i + tsize t"] obtain vs ws where
      "lays first p (i + tsize t) ts = vs @ lay first p (idxs (i + tsize t) ts ! k') (ts ! k') @ ws"
      "idxs (i + tsize t) ts ! k' = i + tsize t + length vs" by blast
    then show ?thesis using Suc by (intro exI [of _ "lay first p i t @ vs"] exI [of _ ws]) simp
  qed
qed simp

lemma kid_at:
  assumes "tree_at nodes i t" and "k < length (kids t)"
  shows "tree_at nodes (idxs (i + 1) (kids t) ! k) (kids t ! k)"
proof -
  from assms(1) obtain p vs ws where n: "nodes = vs @ lay False p i t @ ws" "length vs = i" by (auto simp: tree_at_def)
  from lays_nth [OF assms(2)] obtain us xs where
    "lays False (Some i) (i + 1) (kids t) = us @ lay False (Some i) (idxs (i + 1) (kids t) ! k) (kids t ! k) @ xs"
    "idxs (i + 1) (kids t) ! k = i + 1 + length us" by blast
  with n show ?thesis unfolding tree_at_def
    by (intro exI [of _ "Some i"] exI [of _ "vs @ node_of False p i t # us"] exI [of _ "xs @ ws"])
      (simp add: lay.simps [of _ _ _ t])
qed

text \<open>The position of the first member with a name, from \<open>k\<close> on.\<close>

lemma member_loop_finds:
  assumes "jv_elems v = zip names js" and "length names = length js" and "jv_length v = length js" and "k \<le> length js"
  shows "member_loop v index k = Ok (map_option (\<lambda>n. js ! (k + length n)) (if \<exists>name \<in> set (drop k names). c_str name = c_str index
     then Some (takeWhile (\<lambda>name. c_str name \<noteq> c_str index) (drop k names)) else None))"
  using assms(4)
proof (induction k rule: inc_induct)
  case base
  with assms show ?case by (simp add: member_loop.simps)
next
  case (step k)
  then have d: "drop k names = names ! k # drop (Suc k) names" using assms(2) by (simp add: Cons_nth_drop_Suc)
  have e: "entry_at k v = Ok (names ! k, js ! k)" using step.hyps assms by (simp add: entry_at_def)
  show ?case using step assms(3) by (subst member_loop.simps) (simp add: e d)
qed

text \<open>
  Of a value that was parsed, an index gives the element there and nothing when there is none; a name gives
  the first member with that name, names compared up to their first NUL, and nothing when no member has it;
  either gives nothing of any other value. What is found is again a value that was parsed.
\<close>

theorem value_operators:
  assumes "length txt \<le> json_uint_max" and "text_tree pow10 (skip_bom txt) = Ok (Some t)"
  shows "\<exists>nodes. json_parse pow10 txt = Ok (Some (nodes, 0)) \<and> tree_at nodes 0 t \<and>
    (\<forall>i u. tree_at nodes i u \<longrightarrow>
       (\<forall>k. value_index nodes i k = (case u of
          TreeArr ts \<Rightarrow> if 0 \<le> k \<and> k < int (length ts) then Ok (Some (idxs (i + 1) ts ! nat k)) else Ok None
        | _ \<Rightarrow> Ok None)) \<and>
       (\<forall>name. value_member nodes i name = (case u of
          TreeObj ms \<Rightarrow> let before = takeWhile (\<lambda>(key, _). c_str key \<noteq> c_str name) ms in
            if length before < length ms then Ok (Some (idxs (i + 1) (map snd ms) ! length before)) else Ok None
        | _ \<Rightarrow> Ok None)) \<and>
       (\<forall>k < length (kids u). tree_at nodes (idxs (i + 1) (kids u) ! k) (kids u ! k)))"
proof -
  let ?nodes = "lay False None 0 t"
  have "json_parse pow10 txt = Ok (Some (?nodes, 0))" using json_parse_nodes [OF assms(1)] assms(2) by simp
  moreover have "tree_at ?nodes 0 t" unfolding tree_at_def by (intro exI [of _ None] exI [of _ "[]"]) simp
  moreover have "value_index ?nodes i k = (case u of
          TreeArr ts \<Rightarrow> if 0 \<le> k \<and> k < int (length ts) then Ok (Some (idxs (i + 1) ts ! nat k)) else Ok None
        | _ \<Rightarrow> Ok None)" if "tree_at ?nodes i u" for i u k
    using tree_node [OF that] by (cases u) (auto simp: value_index_def entry_at_def fresh_node_def)
  moreover have "value_member ?nodes i name = (case u of
          TreeObj ms \<Rightarrow> let before = takeWhile (\<lambda>(key, _). c_str key \<noteq> c_str name) ms in
            if length before < length ms then Ok (Some (idxs (i + 1) (map snd ms) ! length before)) else Ok None
        | _ \<Rightarrow> Ok None)" if at: "tree_at ?nodes i u" for i u name
  proof (cases u)
    case (TreeObj ms)
    let ?before = "takeWhile (\<lambda>(key, _). c_str key \<noteq> c_str name) ms" and ?js = "idxs (i + 1) (map snd ms)"
    obtain p where p: "parsed_at ?nodes i = Ok (node_of False p i (TreeObj ms))" using tree_node [OF at] TreeObj by auto
    let ?v = "node_of False p i (TreeObj ms)"
    have "member_loop ?v name 0 = Ok (map_option (\<lambda>n. ?js ! (0 + length n)) (if \<exists>key \<in> set (drop 0 (map fst ms)). c_str key = c_str name
       then Some (takeWhile (\<lambda>key. c_str key \<noteq> c_str name) (drop 0 (map fst ms))) else None))"
      by (rule member_loop_finds) simp_all
    moreover have "takeWhile (\<lambda>key. c_str key \<noteq> c_str name) (map fst ms) = map fst ?before"
      by (simp add: takeWhile_map comp_def case_prod_unfold)
    moreover have "length ?before < length ms \<longleftrightarrow> (\<exists>key \<in> set (map fst ms). c_str key = c_str name)"
      by (induction ms) auto
    ultimately show ?thesis using p TreeObj by (simp add: value_member_def fresh_node_def Let_def)
  qed (use tree_node [OF at] in \<open>auto simp: value_member_def fresh_node_def\<close>)
  ultimately show ?thesis using kid_at by blast
qed

end
