(* ===== verification/AppClient.thy ===== *)
theory AppClient
  imports JsonRoundtrip "HOL-Library.Signed_Division"
begin

section \<open>The HTTP client and the heartbeat\<close>

text \<open>
  The client that the heartbeat and the query of the latest version use is not in the repository: its
  operations are a record of arguments, calls over a world \<open>'w\<close> of which nothing is known. The heartbeat
  of \<^verbatim>\<open>srs_app_heartbeat.cpp\<close> makes one request with it.
\<close>

subsection \<open>The client\<close>

record http_uri =
  uri_schema :: string
  uri_host :: string
  uri_port :: int
  uri_path :: string
  uri_query :: string

record 'w http_message =
  hm_status :: int
  hm_read_all :: "('w, string) call"

record 'w http_client =
  hc_uri :: "string \<Rightarrow> http_uri outcome"
  hc_initialize :: "string \<Rightarrow> string \<Rightarrow> int \<Rightarrow> ('w, unit) call"
  hc_get :: "string \<Rightarrow> string \<Rightarrow> ('w, 'w http_message) call"
  hc_post :: "string \<Rightarrow> string \<Rightarrow> ('w, 'w http_message) call"

text \<open>A call that does not touch the state, and a call whose error is freed and ignored.\<close>

definition stateless :: "'a outcome \<Rightarrow> ('s, 'a) call" where
  "stateless r s = (r, s)"

definition ignore_err :: "('s, 'a) call \<Rightarrow> ('s, unit) call" where
  "ignore_err m s = (case m s of (Panic q, s') \<Rightarrow> (Panic q, s') | (_, s') \<Rightarrow> (Ok (), s'))"

lemma bind_stateless_Ok [simp]: "bind (stateless (Ok x)) f = f x"
  by (rule ext) (simp add: bind_def stateless_def)

lemma bind_stateless_Panic [simp]: "bind (stateless (Panic q)) f s = (Panic q, s)"
  by (simp add: bind_def stateless_def)

lemma bind_stateless_Err [simp]: "bind (stateless (Err e)) f s = (Err e, s)"
  by (simp add: bind_def stateless_def)

lemma wrap_stateless_Ok [simp]: "wrap_err msg (stateless (Ok x)) = stateless (Ok x)"
  by (rule ext) (simp add: wrap_err_def stateless_def)

lemma wrap_Ok_iff [simp]: "wrap_err msg m s = (Ok x, s') \<longleftrightarrow> m s = (Ok x, s')"
  by (cases "m s"; cases "fst (m s)") (auto simp: wrap_err_def)

subsection \<open>The heartbeat\<close>

record 'w heartbeat_env =
  hb_client :: "'w http_client"
  hb_url :: string
  hb_device_id :: string
  hb_ips :: "string list"
  hb_stats_network :: int
  hb_summaries :: bool
  hb_dump_summaries :: "('w, json_props) call"

text \<open>\<^verbatim>\<open>ips[get_stats_network() % (int)ips.size()]\<close>; without an address the pointer stays \<^verbatim>\<open>NULL\<close> and is read.\<close>

definition heartbeat_ip :: "'w heartbeat_env \<Rightarrow> string outcome" where
  "heartbeat_ip env =
     (let ips = hb_ips env; i = hb_stats_network env smod int_of_size (length ips) in
      if ips = [] then Panic UndefinedBehaviour
      else if i < 0 \<or> int (length ips) \<le> i then Panic UndefinedBehaviour
      else Ok (ips ! nat i))"

text \<open>The summaries are put into the object before they are filled in; the object keeps a pointer to them.\<close>

definition heartbeat_object :: "'w heartbeat_env \<Rightarrow> ('w, json_props) call" where
  "heartbeat_object env =
     (let obj = json_set ''device_id'' (Some (json_str (Some (hb_device_id env)))) [] in
      bind (stateless (heartbeat_ip env)) (\<lambda>ip.
      let obj = json_set ''ip'' (Some (json_str (Some ip))) obj in
      if hb_summaries env
      then bind (hb_dump_summaries env) (\<lambda>summaries. ret (json_set ''summaries'' (Some (JsonObject summaries)) obj))
      else ret obj))"

definition do_heartbeat :: "'w heartbeat_env \<Rightarrow> ('w, unit) call" where
  "do_heartbeat env =
     (let c = hb_client env in
      bind (wrap_err ''http uri parse hartbeart url failed. url=%s'' (stateless (hc_uri c (hb_url env)))) (\<lambda>uri.
      bind (heartbeat_object env) (\<lambda>obj.
      bind (wrap_err ''init uri=%s'' (hc_initialize c (uri_schema uri) (uri_host uri) (uri_port uri))) (\<lambda>_.
      let req = json_dumps (JsonObject obj) in
      bind (wrap_err ''http post hartbeart uri failed. url=%s, request=%s'' (hc_post c (uri_path uri) req)) (\<lambda>msg.
      bind (wrap_err ''read body'' (hm_read_all msg)) (\<lambda>_. ret ()))))))"

definition heartbeat :: "'w heartbeat_env \<Rightarrow> ('w, unit) call" where
  "heartbeat env = ignore_err (do_heartbeat env)"

subsection \<open>What a heartbeat sends\<close>

lemma plain_keys: "plain_key ''device_id''" "plain_key ''ip''" "plain_key ''summaries''"
  by (simp_all add: plain_key_def)

lemma c_str_no_NUL: "CHR 0x00 \<notin> set (c_str v)"
  by (auto simp: c_str_def dest: set_takeWhileD)

lemma json_str_c_str: "json_str (Some v) = JsonString (c_str v)"
  by (simp add: json_str_def c_str_def)

definition heartbeat_props :: "'w heartbeat_env \<Rightarrow> string \<Rightarrow> json_props \<Rightarrow> json_props" where
  "heartbeat_props env ip sums = [(''device_id'', JsonString (c_str (hb_device_id env))), (''ip'', JsonString (c_str ip))] @
     (if hb_summaries env then [(''summaries'', JsonObject sums)] else [])"

lemma printable_props:
  "printable (JsonObject (heartbeat_props env ip sums)) \<longleftrightarrow> \<not> hb_summaries env \<or> printable (JsonObject sums)"
  by (auto simp: heartbeat_props_def plain_keys c_str_no_NUL)

lemma heartbeat_object_props:
  assumes "heartbeat_ip env = Ok ip"
    and "(if hb_summaries env then hb_dump_summaries env w else (Ok [], w)) = (Ok sums, w1)"
  shows "heartbeat_object env w = (Ok (heartbeat_props env ip sums), w1)"
  using assms by (auto simp: heartbeat_object_def Let_def json_set_def json_str_c_str heartbeat_props_def
      bind_def split: if_splits)


definition echo_client :: "string list http_client" where
  "echo_client = \<lparr>hc_uri = (\<lambda>url. Ok \<lparr>uri_schema = ''http'', uri_host = url, uri_port = 80, uri_path = ''/'', uri_query = []\<rparr>),
     hc_initialize = (\<lambda>_ _ _ w. (Ok (), w)),
     hc_get = (\<lambda>path _ w. (Ok \<lparr>hm_status = 200, hm_read_all = ret []\<rparr>, w @ [path])),
     hc_post = (\<lambda>path body w. (Ok \<lparr>hm_status = 200, hm_read_all = ret body\<rparr>, w @ [body]))\<rparr>"

definition echo_env :: "string list heartbeat_env" where
  "echo_env = \<lparr>hb_client = echo_client, hb_url = ''a.b'', hb_device_id = ''d1'', hb_ips = [''10.0.0.1'', ''10.0.0.2''],
     hb_stats_network = 3, hb_summaries = False, hb_dump_summaries = ret []\<rparr>"


end
