(* ===== verification/AppConfig.thy ===== *)
theory AppConfig
  imports Prelude
begin

section \<open>The configuration tree\<close>

text \<open>
  \<^verbatim>\<open>SrsConfDirective\<close> and \<^verbatim>\<open>SrsConfig\<close> of \<^verbatim>\<open>srs_app_config.cpp\<close>: a tree of directives, looked up by
  name, the file the log goes to, and the list of reload handlers. A handler is known by its address.
\<close>

datatype SrsConfDirective = Directive (conf_line: int) (conf_name: string) (conf_args: "string list")
    (directives: "SrsConfDirective list")

definition directive_new :: SrsConfDirective where
  "directive_new = Directive 0 [] [] []"

definition directive_get :: "string \<Rightarrow> SrsConfDirective \<Rightarrow> SrsConfDirective option" where
  "directive_get name d = find (\<lambda>c. conf_name c = name) (directives d)"

definition arg0 :: "SrsConfDirective \<Rightarrow> string" where
  "arg0 d = (if length (conf_args d) > 0 then conf_args d ! 0 else [])"

definition arg1 :: "SrsConfDirective \<Rightarrow> string" where
  "arg1 d = (if length (conf_args d) > 1 then conf_args d ! 1 else [])"

definition arg2 :: "SrsConfDirective \<Rightarrow> string" where
  "arg2 d = (if length (conf_args d) > 2 then conf_args d ! 2 else [])"

record SrsConfig =
  cf_dolphin :: bool
  cf_show_help :: bool
  cf_show_version :: bool
  cf_test_config :: bool
  cf_show_signature :: bool
  cf_root :: SrsConfDirective
  cf_subscribes :: "nat list"

definition SrsConfig_new :: SrsConfig where
  "SrsConfig_new = \<lparr>cf_dolphin = False, cf_show_help = False, cf_show_version = False,
     cf_test_config = False, cf_show_signature = False,
     cf_root = Directive 0 ''root'' [] [], cf_subscribes = []\<rparr>"

text \<open>\<^verbatim>\<open>std::find\<close>, then \<^verbatim>\<open>erase\<close> at what it found.\<close>

fun erase_handler :: "nat \<Rightarrow> nat list \<Rightarrow> nat list" where
  "erase_handler h [] = []"
| "erase_handler h (x # xs) = (if x = h then xs else x # erase_handler h xs)"

definition unsubscribe :: "nat \<Rightarrow> SrsConfig \<Rightarrow> SrsConfig" where
  "unsubscribe h cf =
     (if h \<in> set (cf_subscribes cf) then cf\<lparr>cf_subscribes := erase_handler h (cf_subscribes cf)\<rparr> else cf)"

definition default_log_file :: string where
  "default_log_file = ''./objs/srs.log''"

definition get_log_file :: "SrsConfig \<Rightarrow> string" where
  "get_log_file cf = (case directive_get ''srs_log_file'' (cf_root cf) of
      None \<Rightarrow> default_log_file
    | Some conf \<Rightarrow> if arg0 conf = [] then default_log_file else arg0 conf)"

subsection \<open>Look-ups and the subscribers\<close>

lemma erase_handler_remove1: "erase_handler h xs = remove1 h xs"
  by (induction xs) simp_all

lemma unsubscribe_removes_one: "cf_subscribes (unsubscribe h cf) = remove1 h (cf_subscribes cf)"
  by (simp add: unsubscribe_def erase_handler_remove1 remove1_idem)

lemma find_first: "\<forall>u\<in>set us. \<not> P u \<Longrightarrow> P c \<Longrightarrow> find P (us @ c # vs) = Some c"
  by (induction us) simp_all

lemma directive_get_first:
  assumes "directives d = us @ c # vs" and "conf_name c = name" and "name \<notin> conf_name ` set us"
  shows "directive_get name d = Some c"
  unfolding directive_get_def assms(1) by (rule find_first) (use assms(2,3) in \<open>auto simp: image_iff\<close>)

lemma directive_get_none: "directive_get name d = None \<longleftrightarrow> name \<notin> conf_name ` set (directives d)"
  by (auto simp: directive_get_def find_None_iff)

lemma get_log_file_not_empty [simp]: "get_log_file cf \<noteq> []"
  by (simp add: get_log_file_def default_log_file_def split: option.split)

text \<open>
  The log file of a configuration is the first argument of the first \<^verbatim>\<open>srs_log_file\<close> directive
  of its root, whatever comes after it, unless that directive has no arguments or an empty first one;
  then, and when there is no such directive, it is the default. It is never empty.
\<close>

theorem log_file_of_config:
  assumes "directives (cf_root cf) = us @ c # vs" and "conf_name c = ''srs_log_file''"
    and "''srs_log_file'' \<notin> conf_name ` set us"
  shows "get_log_file cf = (case conf_args c of a # as \<Rightarrow> if a = [] then default_log_file else a
      | [] \<Rightarrow> default_log_file) \<and>
    get_log_file (cf\<lparr>cf_root := Directive 0 ''root'' [] us\<rparr>) = default_log_file \<and>
    get_log_file cf \<noteq> []"
proof -
  have "directive_get ''srs_log_file'' (cf_root cf) = Some c"
    using assms by (rule directive_get_first)
  moreover have "directive_get ''srs_log_file'' (Directive 0 ''root'' [] us) = None"
    using assms(3) by (simp add: directive_get_none)
  ultimately show ?thesis by (auto simp: get_log_file_def arg0_def default_log_file_def split: list.split)
qed

theorem log_file_of_config_witness:
  "get_log_file (SrsConfig_new\<lparr>cf_root := Directive 0 ''root'' []
     [Directive 1 ''listen'' [''1935''] [], Directive 2 ''srs_log_file'' [''a.log''] [],
      Directive 3 ''srs_log_file'' [''b.log''] []]\<rparr>) = ''a.log''"
  using log_file_of_config [of "SrsConfig_new\<lparr>cf_root := Directive 0 ''root'' []
     [Directive 1 ''listen'' [''1935''] [], Directive 2 ''srs_log_file'' [''a.log''] [],
      Directive 3 ''srs_log_file'' [''b.log''] []]\<rparr>"
    "[Directive 1 ''listen'' [''1935''] []]" "Directive 2 ''srs_log_file'' [''a.log''] []"
    "[Directive 3 ''srs_log_file'' [''b.log''] []]"]
  by simp

end
