(* ===== verification/AppFeatures.thy ===== *)
theory AppFeatures
  imports AppConfig
begin

section \<open>The features a server reports\<close>

text \<open>
  \<^verbatim>\<open>srs_build_features\<close> of \<^verbatim>\<open>srs_app_latest_version.cpp\<close>: one walk over the configuration that notes which
  features some virtual host has, then the text of the query. What the configuration says of a
  directive is asked of functions the repository only calls; they are a record of arguments.
\<close>

record conf_queries =
  is_stream_caster :: "SrsConfDirective \<Rightarrow> bool"
  stream_caster_enabled :: "SrsConfDirective \<Rightarrow> bool"
  stream_caster_engine :: "SrsConfDirective \<Rightarrow> string"
  is_vhost :: "SrsConfDirective \<Rightarrow> bool"
  vhost_enabled :: "SrsConfDirective \<Rightarrow> bool"
  forward_enabled :: "SrsConfDirective \<Rightarrow> bool"
  vhost_is_edge :: "SrsConfDirective \<Rightarrow> bool"
  vhost_origin_cluster :: "SrsConfDirective \<Rightarrow> bool"
  hls_enabled :: "SrsConfDirective \<Rightarrow> bool"
  dvr_enabled :: "SrsConfDirective \<Rightarrow> bool"
  http_remux_enabled :: "SrsConfDirective \<Rightarrow> bool"
  http_hooks_enabled :: "SrsConfDirective \<Rightarrow> bool"
  dash_enabled :: "SrsConfDirective \<Rightarrow> bool"
  hds_enabled :: "SrsConfDirective \<Rightarrow> bool"
  exec_enabled :: "SrsConfDirective \<Rightarrow> bool"
  security_enabled :: "SrsConfDirective \<Rightarrow> bool"
  ingest_enabled :: "SrsConfDirective \<Rightarrow> bool"
  transcode_enabled :: "SrsConfDirective \<Rightarrow> bool"

text \<open>What the build and the rest of the configuration say.\<close>

record build_env =
  be_osx :: bool
  be_arch :: "string option"
  be_in_docker :: bool
  be_packager :: string
  be_cross :: bool
  be_rtc :: bool
  be_srt :: bool
  be_api :: bool
  be_https :: bool
  be_raw :: bool

record features =
  nn_vhosts :: int
  ft_rtsp :: bool
  ft_forward :: bool
  ft_ingest :: bool
  ft_edge :: bool
  ft_hls :: bool
  ft_dvr :: bool
  ft_flv :: bool
  ft_hooks :: bool
  ft_dash :: bool
  ft_hds :: bool
  ft_exec :: bool
  ft_transcode :: bool
  ft_security :: bool
  ft_flv2 :: bool
  ft_oc :: bool

definition features_none :: features where
  "features_none = \<lparr>nn_vhosts = 0, ft_rtsp = False, ft_forward = False, ft_ingest = False, ft_edge = False,
     ft_hls = False, ft_dvr = False, ft_flv = False, ft_hooks = False, ft_dash = False, ft_hds = False,
     ft_exec = False, ft_transcode = False, ft_security = False, ft_flv2 = False, ft_oc = False\<rparr>"

subsection \<open>The walk\<close>

definition scan_caster :: "conf_queries \<Rightarrow> SrsConfDirective \<Rightarrow> features \<Rightarrow> features" where
  "scan_caster q conf f =
     (if \<not> ft_rtsp f \<and> is_stream_caster q conf \<and> stream_caster_enabled q conf then
        (let engine = stream_caster_engine q conf in
         if engine = ''rtsp'' then f\<lparr>ft_rtsp := True\<rparr>
         else if engine = ''flv'' then f\<lparr>ft_flv2 := True\<rparr> else f)
      else f)"

definition scan_vhost :: "conf_queries \<Rightarrow> SrsConfDirective \<Rightarrow> features \<Rightarrow> features" where
  "scan_vhost q conf f =
     (let f = (if \<not> ft_forward f \<and> forward_enabled q conf then f\<lparr>ft_forward := True\<rparr> else f);
          f = (if \<not> ft_edge f \<and> vhost_is_edge q conf then f\<lparr>ft_edge := True\<rparr> else f);
          f = (if \<not> ft_oc f \<and> vhost_origin_cluster q conf then f\<lparr>ft_oc := True\<rparr> else f);
          f = (if \<not> ft_hls f \<and> hls_enabled q conf then f\<lparr>ft_hls := True\<rparr> else f);
          f = (if \<not> ft_dvr f \<and> dvr_enabled q conf then f\<lparr>ft_dvr := True\<rparr> else f);
          f = (if \<not> ft_flv f \<and> http_remux_enabled q conf then f\<lparr>ft_flv := True\<rparr> else f);
          f = (if \<not> ft_hooks f \<and> http_hooks_enabled q conf then f\<lparr>ft_hooks := True\<rparr> else f);
          f = (if \<not> ft_dash f \<and> dash_enabled q conf then f\<lparr>ft_dash := True\<rparr> else f);
          f = (if \<not> ft_hds f \<and> hds_enabled q conf then f\<lparr>ft_hds := True\<rparr> else f);
          f = (if \<not> ft_exec f \<and> exec_enabled q conf then f\<lparr>ft_exec := True\<rparr> else f);
          f = (if \<not> ft_security f \<and> security_enabled q conf then f\<lparr>ft_security := True\<rparr> else f)
      in f)"

fun scan_props :: "conf_queries \<Rightarrow> SrsConfDirective list \<Rightarrow> features \<Rightarrow> features" where
  "scan_props q [] f = f"
| "scan_props q (prop # props) f =
     (let f = (if \<not> ft_ingest f \<and> conf_name prop = ''ingest'' \<and> ingest_enabled q prop then f\<lparr>ft_ingest := True\<rparr> else f);
          f = (if \<not> ft_transcode f \<and> conf_name prop = ''transcode'' \<and> transcode_enabled q prop
               then f\<lparr>ft_transcode := True\<rparr> else f)
      in if ft_ingest f \<and> ft_transcode f then f else scan_props q props f)"

definition scan_conf :: "conf_queries \<Rightarrow> SrsConfDirective \<Rightarrow> features \<Rightarrow> features" where
  "scan_conf q conf f =
     (let f = scan_caster q conf f in
      if is_vhost q conf \<and> vhost_enabled q conf
      then scan_props q (take 64 (directives conf)) (scan_vhost q conf (f\<lparr>nn_vhosts := nn_vhosts f + 1\<rparr>))
      else f)"

definition scan_root :: "conf_queries \<Rightarrow> SrsConfDirective \<Rightarrow> features" where
  "scan_root q root = fold (scan_conf q) (take 128 (directives root)) features_none"

subsection \<open>The text\<close>

definition check_feature3 :: "bool \<Rightarrow> string \<Rightarrow> string \<Rightarrow> string" where
  "check_feature3 cond key v = (if cond then ''&'' @ key @ ''='' @ v else [])"

definition check_feature2 :: "bool \<Rightarrow> string \<Rightarrow> string" where
  "check_feature2 cond key = (if cond then ''&'' @ key @ ''=1'' else [])"

definition build_text :: "build_env \<Rightarrow> string" where
  "build_text be =
     (if be_osx be then ''&os=mac'' else ''&os=linux'') @
     (case be_arch be of None \<Rightarrow> [] | Some a \<Rightarrow> ''&'' @ a @ ''=1'') @
     check_feature2 (be_in_docker be) ''docker'' @
     check_feature3 (be_packager be \<noteq> []) ''packager'' (be_packager be) @
     check_feature2 (be_cross be) ''cross'' @
     check_feature2 (be_rtc be) ''rtc'' @ check_feature2 (be_srt be) ''srt'' @
     check_feature2 (be_api be) ''api'' @ check_feature2 (be_https be) ''https'' @ check_feature2 (be_raw be) ''raw''"

definition features_text :: "features \<Rightarrow> string" where
  "features_text f =
     check_feature2 (nn_vhosts f \<noteq> 0) ''vhosts'' @ check_feature2 (ft_rtsp f) ''rtsp'' @
     check_feature2 (ft_flv2 f) ''flv2'' @ check_feature2 (ft_forward f) ''forward'' @
     check_feature2 (ft_ingest f) ''ingest'' @ check_feature2 (ft_edge f) ''edge'' @
     check_feature2 (ft_oc f) ''oc'' @ check_feature2 (ft_hls f) ''hls'' @ check_feature2 (ft_dvr f) ''dvr'' @
     check_feature2 (ft_flv f) ''flv'' @ check_feature2 (ft_hooks f) ''hooks'' @ check_feature2 (ft_dash f) ''dash'' @
     check_feature2 (ft_hds f) ''hds'' @ check_feature2 (ft_exec f) ''exec'' @
     check_feature2 (ft_transcode f) ''transcode'' @ check_feature2 (ft_security f) ''security''"

definition srs_build_features :: "build_env \<Rightarrow> conf_queries \<Rightarrow> SrsConfDirective \<Rightarrow> string" where
  "srs_build_features be q root = build_text be @ features_text (scan_root q root)"

subsection \<open>What is reported\<close>

text \<open>
  The reference: the virtual hosts that are enabled and the enabled stream casters among the first
  directives, and what some of them have.
\<close>

definition vhosts_of :: "conf_queries \<Rightarrow> SrsConfDirective list \<Rightarrow> SrsConfDirective list" where
  "vhosts_of q cs = filter (\<lambda>c. is_vhost q c \<and> vhost_enabled q c) cs"

definition engines_of :: "conf_queries \<Rightarrow> SrsConfDirective list \<Rightarrow> string list" where
  "engines_of q cs = map (stream_caster_engine q) (filter (\<lambda>c. is_stream_caster q c \<and> stream_caster_enabled q c) cs)"

definition has_prop :: "string \<Rightarrow> (SrsConfDirective \<Rightarrow> bool) \<Rightarrow> SrsConfDirective list \<Rightarrow> bool" where
  "has_prop name P props \<longleftrightarrow> (\<exists>p\<in>set props. conf_name p = name \<and> P p)"

definition features_of :: "conf_queries \<Rightarrow> SrsConfDirective list \<Rightarrow> features" where
  "features_of q cs =
     (let vs = vhosts_of q cs; es = engines_of q cs; some = (\<lambda>P. \<exists>v\<in>set vs. P v) in
      \<lparr>nn_vhosts = int (length vs), ft_rtsp = (''rtsp'' \<in> set es), ft_forward = some (forward_enabled q),
       ft_ingest = some (\<lambda>v. has_prop ''ingest'' (ingest_enabled q) (take 64 (directives v))),
       ft_edge = some (vhost_is_edge q), ft_hls = some (hls_enabled q), ft_dvr = some (dvr_enabled q),
       ft_flv = some (http_remux_enabled q), ft_hooks = some (http_hooks_enabled q),
       ft_dash = some (dash_enabled q), ft_hds = some (hds_enabled q), ft_exec = some (exec_enabled q),
       ft_transcode = some (\<lambda>v. has_prop ''transcode'' (transcode_enabled q) (take 64 (directives v))),
       ft_security = some (security_enabled q), ft_flv2 = (''flv'' \<in> set (takeWhile (\<lambda>e. e \<noteq> ''rtsp'') es)),
       ft_oc = some (vhost_origin_cluster q)\<rparr>)"

lemma set_once:
  "(if \<not> ft_ingest f \<and> b then f\<lparr>ft_ingest := True\<rparr> else f) = f\<lparr>ft_ingest := ft_ingest f \<or> b\<rparr>"
  "(if \<not> ft_transcode f \<and> b then f\<lparr>ft_transcode := True\<rparr> else f) = f\<lparr>ft_transcode := ft_transcode f \<or> b\<rparr>"
  "(if \<not> ft_forward f \<and> b then f\<lparr>ft_forward := True\<rparr> else f) = f\<lparr>ft_forward := ft_forward f \<or> b\<rparr>"
  "(if \<not> ft_edge f \<and> b then f\<lparr>ft_edge := True\<rparr> else f) = f\<lparr>ft_edge := ft_edge f \<or> b\<rparr>"
  "(if \<not> ft_oc f \<and> b then f\<lparr>ft_oc := True\<rparr> else f) = f\<lparr>ft_oc := ft_oc f \<or> b\<rparr>"
  "(if \<not> ft_hls f \<and> b then f\<lparr>ft_hls := True\<rparr> else f) = f\<lparr>ft_hls := ft_hls f \<or> b\<rparr>"
  "(if \<not> ft_dvr f \<and> b then f\<lparr>ft_dvr := True\<rparr> else f) = f\<lparr>ft_dvr := ft_dvr f \<or> b\<rparr>"
  "(if \<not> ft_flv f \<and> b then f\<lparr>ft_flv := True\<rparr> else f) = f\<lparr>ft_flv := ft_flv f \<or> b\<rparr>"
  "(if \<not> ft_hooks f \<and> b then f\<lparr>ft_hooks := True\<rparr> else f) = f\<lparr>ft_hooks := ft_hooks f \<or> b\<rparr>"
  "(if \<not> ft_dash f \<and> b then f\<lparr>ft_dash := True\<rparr> else f) = f\<lparr>ft_dash := ft_dash f \<or> b\<rparr>"
  "(if \<not> ft_hds f \<and> b then f\<lparr>ft_hds := True\<rparr> else f) = f\<lparr>ft_hds := ft_hds f \<or> b\<rparr>"
  "(if \<not> ft_exec f \<and> b then f\<lparr>ft_exec := True\<rparr> else f) = f\<lparr>ft_exec := ft_exec f \<or> b\<rparr>"
  "(if \<not> ft_security f \<and> b then f\<lparr>ft_security := True\<rparr> else f) = f\<lparr>ft_security := ft_security f \<or> b\<rparr>"
  by (cases f; simp)+

lemma scan_props_reads:
  "scan_props q props f = f\<lparr>ft_ingest := ft_ingest f \<or> has_prop ''ingest'' (ingest_enabled q) props,
     ft_transcode := ft_transcode f \<or> has_prop ''transcode'' (transcode_enabled q) props\<rparr>"
proof (induction props arbitrary: f)
  case (Cons d ds)
  then show ?case unfolding scan_props.simps Let_def set_once by (auto simp: has_prop_def)
qed (simp add: has_prop_def)

lemma scan_vhost_reads:
  "scan_vhost q conf f = f\<lparr>ft_forward := ft_forward f \<or> forward_enabled q conf,
     ft_edge := ft_edge f \<or> vhost_is_edge q conf, ft_oc := ft_oc f \<or> vhost_origin_cluster q conf,
     ft_hls := ft_hls f \<or> hls_enabled q conf, ft_dvr := ft_dvr f \<or> dvr_enabled q conf,
     ft_flv := ft_flv f \<or> http_remux_enabled q conf, ft_hooks := ft_hooks f \<or> http_hooks_enabled q conf,
     ft_dash := ft_dash f \<or> dash_enabled q conf, ft_hds := ft_hds f \<or> hds_enabled q conf,
     ft_exec := ft_exec f \<or> exec_enabled q conf, ft_security := ft_security f \<or> security_enabled q conf\<rparr>"
  unfolding scan_vhost_def Let_def set_once by simp

lemma takeWhile_snoc: "takeWhile P (xs @ [x]) = takeWhile P xs @ (if (\<forall>y\<in>set xs. P y) \<and> P x then [x] else [])"
  by (induction xs) auto

lemma fold_scan: "fold (scan_conf q) cs features_none = features_of q cs"
proof (induction cs rule: rev_induct)
  case Nil
  then show ?case by (simp add: features_none_def features_of_def Let_def vhosts_of_def engines_of_def)
next
  case (snoc c cs)
  let ?f = "features_of q cs"
  have rtsp: "ft_rtsp ?f \<longleftrightarrow> ''rtsp'' \<in> set (engines_of q cs)" by (simp add: features_of_def Let_def)
  have es: "engines_of q (cs @ [c]) = engines_of q cs @
      (if is_stream_caster q c \<and> stream_caster_enabled q c then [stream_caster_engine q c] else [])"
    by (simp add: engines_of_def)
  have caster: "scan_caster q c ?f = ?f\<lparr>ft_rtsp := ''rtsp'' \<in> set (engines_of q (cs @ [c])),
      ft_flv2 := ''flv'' \<in> set (takeWhile (\<lambda>e. e \<noteq> ''rtsp'') (engines_of q (cs @ [c])))\<rparr>"
    unfolding es scan_caster_def rtsp by (auto simp: features_of_def Let_def takeWhile_snoc)
  have vs: "vhosts_of q (cs @ [c]) = vhosts_of q cs @ (if is_vhost q c \<and> vhost_enabled q c then [c] else [])"
    by (simp add: vhosts_of_def)
  have "scan_conf q c ?f = features_of q (cs @ [c])"
    unfolding scan_conf_def caster scan_vhost_reads scan_props_reads
    by (cases "is_vhost q c \<and> vhost_enabled q c") (auto simp: features_of_def Let_def vs)
  with snoc show ?case by simp
qed

text \<open>
  C27. A server reports a feature exactly when one of the enabled virtual hosts among the first 128
  directives has it, an ingester or a transcoder among the first 64 directives of the host, although the
  walk stops asking as soon as it knows. The one exception is the caster for FLV: it is reported only
  when it comes before the first caster for RTSP.
\<close>

theorem features_reported:
  "srs_build_features be q root = build_text be @ features_text (features_of q (take 128 (directives root)))"
  by (simp add: srs_build_features_def scan_root_def fold_scan)

end
