(* ===== verification/AppLog.thy ===== *)
theory AppLog
  imports AppConfig "HOL-Library.Signed_Division"
begin

section \<open>Logs and the context of a thread\<close>

text \<open>
  \<^verbatim>\<open>srs_log_header\<close>, \<^verbatim>\<open>SrsConsoleLog\<close> and \<^verbatim>\<open>SrsThreadContext\<close> of \<^verbatim>\<open>srs_service_log.cpp\<close> and
  \<^verbatim>\<open>SrsFileLog\<close> of \<^verbatim>\<open>srs_app_log.cpp\<close>. A log formats into a buffer of 8192 characters; the model
  keeps the characters of the buffer, and a write outside of it is undefined behaviour. The
  arguments of \<^verbatim>\<open>...\<close> are given as the text \<open>msg\<close> they make with the format.
\<close>

subsection \<open>The system around the logs\<close>

text \<open>
  What the C library and the kernel answer: the clock, the calendar, the process id, the error
  number with its text, and the descriptor that \<^verbatim>\<open>open\<close> returns for a file name.
\<close>

record tm =
  tm_year :: int
  tm_mon :: int
  tm_mday :: int
  tm_hour :: int
  tm_min :: int
  tm_sec :: int

record log_env =
  le_tv :: "(int \<times> int) option"
  le_gmtime :: "int \<Rightarrow> tm option"
  le_localtime :: "int \<Rightarrow> tm option"
  le_pid :: int
  le_errno :: int
  le_strerror :: "int \<Rightarrow> string"
  le_open :: "string \<Rightarrow> int"

datatype log_out = Stdout string | Stderr string | WriteFd int string | CloseFd int

definition SrsLogLevelForbidden :: int where "SrsLogLevelForbidden = 0x00"
definition SrsLogLevelVerbose :: int where "SrsLogLevelVerbose = 0x01"
definition SrsLogLevelInfo :: int where "SrsLogLevelInfo = 0x02"
definition SrsLogLevelTrace :: int where "SrsLogLevelTrace = 0x04"
definition SrsLogLevelWarn :: int where "SrsLogLevelWarn = 0x08"
definition SrsLogLevelError :: int where "SrsLogLevelError = 0x10"
definition SrsLogLevelDisabled :: int where "SrsLogLevelDisabled = 0x20"

lemmas level_defs = SrsLogLevelForbidden_def SrsLogLevelVerbose_def SrsLogLevelInfo_def
  SrsLogLevelTrace_def SrsLogLevelWarn_def SrsLogLevelError_def SrsLogLevelDisabled_def

definition LOG_MAX_SIZE :: int where "LOG_MAX_SIZE = 8192"
definition LOG_TAIL :: char where "LOG_TAIL = CHR 0x0A"
definition LOG_TAIL_SIZE :: int where "LOG_TAIL_SIZE = 1"
definition SRS_BASIC_LOG_SIZE :: int where "SRS_BASIC_LOG_SIZE = 8192"

lemmas log_size_defs = LOG_MAX_SIZE_def LOG_TAIL_SIZE_def SRS_BASIC_LOG_SIZE_def

subsection \<open>Formatting into the buffer\<close>

type_synonym log_buf = "char list"

text \<open>
  \<^verbatim>\<open>snprintf(buf + off, n, ...)\<close> with an \<^verbatim>\<open>int\<close> for \<open>n\<close>, which becomes a \<^verbatim>\<open>size_t\<close>: a negative one is
  a huge size. It fails for a text that does not fit an \<^verbatim>\<open>int\<close>.
\<close>

definition snprintf_at :: "int \<Rightarrow> int \<Rightarrow> string \<Rightarrow> (log_buf, int) call" where
  "snprintf_at off n txt b =
     (let size = n mod 2 ^ 64; room = int (length b) - off in
      if off < 0 \<or> room < 0 then (Panic UndefinedBehaviour, b)
      else if int (length txt) \<ge> 2 ^ 31 then (Ok (- 1), b)
      else if size = 0 then (Ok (int (length txt)), b)
      else
        let k = nat (min (int (length txt)) (size - 1)) in
        if room < int k + 1 then (Panic UndefinedBehaviour, b)
        else (Ok (int (length txt)), take (nat off) b @ take k txt @ [CHR 0x00] @ drop (nat off + k + 1) b))"

text \<open>\<^verbatim>\<open>size += n\<close> on an \<^verbatim>\<open>int\<close>.\<close>

definition add_int :: "int \<Rightarrow> int \<Rightarrow> ('s, int) call" where
  "add_int a n =
     (if - (2 ^ 31) \<le> a + n \<and> a + n < 2 ^ 31 then ret (a + n) else panic UndefinedBehaviour)"

text \<open>\<^verbatim>\<open>"%0wd"\<close>.\<close>

definition pad0 :: "nat \<Rightarrow> int \<Rightarrow> string" where
  "pad0 w i =
     (if i < 0 then CHR ''-'' # replicate (w - 1 - length (dec_of_nat (nat (- i)))) (CHR ''0'') @ dec_of_nat (nat (- i))
      else replicate (w - length (dec_of_nat (nat i))) (CHR ''0'') @ dec_of_nat (nat i))"

definition log_time :: "tm \<Rightarrow> int \<Rightarrow> string" where
  "log_time now usec =
     ''['' @ dec_of_int (1900 + tm_year now) @ ''-'' @ pad0 2 (1 + tm_mon now) @ ''-'' @ pad0 2 (tm_mday now) @
     '' '' @ pad0 2 (tm_hour now) @ '':'' @ pad0 2 (tm_min now) @ '':'' @ pad0 2 (tm_sec now) @
     ''.'' @ pad0 3 (usec sdiv 1000) @ '']''"

text \<open>The four formats: the error number is there when \<open>dangerous\<close>, the tag when there is one.\<close>

definition log_header_text :: "log_env \<Rightarrow> bool \<Rightarrow> string option \<Rightarrow> string \<Rightarrow> string \<Rightarrow> tm \<Rightarrow> int \<Rightarrow> string" where
  "log_header_text env dangerous tag cid level now usec =
     log_time now usec @ ''['' @ level @ '']['' @ dec_of_int (le_pid env) @ '']['' @ c_str cid @ '']'' @
     (if dangerous then ''['' @ dec_of_int (le_errno env) @ '']'' else []) @
     (case tag of None \<Rightarrow> [] | Some t \<Rightarrow> ''['' @ c_str t @ '']'') @ '' ''"

text \<open>The size of the header, \<open>None\<close> for the answer \<^verbatim>\<open>false\<close>.\<close>

definition srs_log_header ::
    "log_env \<Rightarrow> int \<Rightarrow> bool \<Rightarrow> bool \<Rightarrow> string option \<Rightarrow> string \<Rightarrow> string \<Rightarrow> (log_buf, int option) call" where
  "srs_log_header env cap utc dangerous tag cid level =
     (case le_tv env of
        None \<Rightarrow> ret None
      | Some (sec, usec) \<Rightarrow>
         (case (if utc then le_gmtime env sec else le_localtime env sec) of
            None \<Rightarrow> ret None
          | Some now \<Rightarrow>
             bind (snprintf_at 0 cap (log_header_text env dangerous tag cid level now usec)) (\<lambda>written.
             if written \<ge> cap then ret None
             else if written = - 1 then ret None
             else ret (Some written))))"

text \<open>What every log function begins with: the header, then the message after it.\<close>

definition log_body ::
    "log_env \<Rightarrow> int \<Rightarrow> bool \<Rightarrow> bool \<Rightarrow> string option \<Rightarrow> string \<Rightarrow> string \<Rightarrow> string \<Rightarrow> (log_buf, int option) call" where
  "log_body env cap utc dangerous tag cid level msg =
     bind (srs_log_header env cap utc dangerous tag cid level) (\<lambda>h. case h of
        None \<Rightarrow> ret None
      | Some len \<Rightarrow>
         bind (snprintf_at len (cap - len) msg) (\<lambda>n.
         bind (add_int len n) (\<lambda>len. ret (Some len))))"

definition log_strerror :: "log_env \<Rightarrow> int \<Rightarrow> int \<Rightarrow> (log_buf, int) call" where
  "log_strerror env cap len =
     bind (snprintf_at len (cap - len) (''('' @ le_strerror env (le_errno env) @ '')'')) (add_int len)"

subsection \<open>The file log\<close>

record SrsFileLog =
  fl_level :: int
  fl_data :: log_buf
  fl_fd :: int
  fl_tank :: bool
  fl_utc :: bool
  fl_out :: "log_out list"

text \<open>\<open>b\<close> is what \<^verbatim>\<open>new char[LOG_MAX_SIZE]\<close> happens to hold.\<close>

definition SrsFileLog_new :: "log_buf \<Rightarrow> SrsFileLog" where
  "SrsFileLog_new b = \<lparr>fl_level = SrsLogLevelTrace, fl_data = take (nat LOG_MAX_SIZE) b, fl_fd = - 1,
     fl_tank = False, fl_utc = False, fl_out = []\<rparr>"

definition on_data :: "(log_buf, 'a) call \<Rightarrow> (SrsFileLog, 'a) call" where
  "on_data m s = (case m (fl_data s) of (r, b) \<Rightarrow> (r, s\<lparr>fl_data := b\<rparr>))"

definition file_out :: "log_out \<Rightarrow> (SrsFileLog, unit) call" where
  "file_out x s = (Ok (), s\<lparr>fl_out := fl_out s @ [x]\<rparr>)"

definition open_log_file :: "log_env \<Rightarrow> SrsConfig option \<Rightarrow> (SrsFileLog, unit) call" where
  "open_log_file env config s = (case config of
      None \<Rightarrow> (Ok (), s)
    | Some cf \<Rightarrow>
       (let filename = get_log_file cf in
        if filename = [] then (Ok (), s) else (Ok (), s\<lparr>fl_fd := le_open env filename\<rparr>)))"

text \<open>\<^verbatim>\<open>str_log[i] = c\<close>.\<close>

definition put_char :: "int \<Rightarrow> char \<Rightarrow> (log_buf, unit) call" where
  "put_char i c b = (if 0 \<le> i \<and> i < int (length b) then (Ok (), b[nat i := c]) else (Panic UndefinedBehaviour, b))"

definition colored :: "int \<Rightarrow> string \<Rightarrow> string" where
  "colored level txt =
     (if level \<le> SrsLogLevelTrace then txt
      else if level = SrsLogLevelWarn then [CHR 0x1B] @ ''[33m'' @ txt @ [CHR 0x1B] @ ''[0m''
      else [CHR 0x1B] @ ''[31m'' @ txt @ [CHR 0x1B] @ ''[0m'')"

definition write_log :: "log_env \<Rightarrow> SrsConfig option \<Rightarrow> int \<Rightarrow> int \<Rightarrow> (SrsFileLog, unit) call" where
  "write_log env config len level =
     (let len = min (LOG_MAX_SIZE - 1 - LOG_TAIL_SIZE) len in
      bind (on_data (put_char len LOG_TAIL)) (\<lambda>_.
      let len = len + 1 in
      bind (gets fl_tank) (\<lambda>tank.
      if \<not> tank then
        bind (gets fl_data) (\<lambda>b. file_out (Stdout (colored level (take (nat len) (c_str b)))))
      else
        bind (gets fl_fd) (\<lambda>fd.
        bind (if fd < 0 then open_log_file env config else ret ()) (\<lambda>_.
        bind (gets fl_fd) (\<lambda>fd.
        if fd > 0 then bind (gets fl_data) (\<lambda>b. file_out (WriteFd fd (take (nat len) b)))
        else ret ()))))))"

definition file_log :: "log_env \<Rightarrow> SrsConfig option \<Rightarrow> int \<Rightarrow> bool \<Rightarrow> string \<Rightarrow>
    string option \<Rightarrow> string \<Rightarrow> string \<Rightarrow> (SrsFileLog, unit) call" where
  "file_log env config lvl dangerous name tag cid msg =
     bind (gets fl_level) (\<lambda>level.
     if level > lvl then ret ()
     else
       bind (gets fl_utc) (\<lambda>utc.
       bind (on_data (log_body env LOG_MAX_SIZE utc dangerous tag cid name msg)) (\<lambda>h. case h of
          None \<Rightarrow> ret ()
        | Some len \<Rightarrow> write_log env config len lvl)))"

definition file_verbose where
  "file_verbose env config = file_log env config SrsLogLevelVerbose False ''Verb''"

definition file_info where
  "file_info env config = file_log env config SrsLogLevelInfo False ''Debug''"

definition file_trace where
  "file_trace env config = file_log env config SrsLogLevelTrace False ''Trace''"

definition file_warn where
  "file_warn env config = file_log env config SrsLogLevelWarn True ''Warn''"

definition file_error :: "log_env \<Rightarrow> SrsConfig option \<Rightarrow> string option \<Rightarrow> string \<Rightarrow> string \<Rightarrow>
    (SrsFileLog, unit) call" where
  "file_error env config tag cid msg =
     bind (gets fl_level) (\<lambda>level.
     if level > SrsLogLevelError then ret ()
     else
       bind (gets fl_utc) (\<lambda>utc.
       bind (on_data (log_body env LOG_MAX_SIZE utc True tag cid ''Error'' msg)) (\<lambda>h. case h of
          None \<Rightarrow> ret ()
        | Some len \<Rightarrow>
           bind (if le_errno env \<noteq> 0 \<and> len < LOG_MAX_SIZE
                 then on_data (log_strerror env LOG_MAX_SIZE len) else ret len) (\<lambda>len.
           write_log env config len SrsLogLevelError))))"

text \<open>The destructor of the log at address \<open>this\<close>, and the configuration after it.\<close>

definition file_log_free :: "nat \<Rightarrow> SrsConfig option \<Rightarrow> SrsFileLog \<Rightarrow> log_out list \<times> SrsConfig option" where
  "file_log_free this config s =
     (fl_out s @ (if fl_fd s > 0 then [CloseFd (fl_fd s)] else []), map_option (unsubscribe this) config)"

subsection \<open>The console log\<close>

record SrsConsoleLog =
  cl_level :: int
  cl_utc :: bool
  cl_buf :: log_buf
  cl_out :: "log_out list"

definition SrsConsoleLog_new :: "log_buf \<Rightarrow> int \<Rightarrow> bool \<Rightarrow> SrsConsoleLog" where
  "SrsConsoleLog_new b l u = \<lparr>cl_level = l, cl_utc = u, cl_buf = take (nat SRS_BASIC_LOG_SIZE) b, cl_out = []\<rparr>"

definition on_buf :: "(log_buf, 'a) call \<Rightarrow> (SrsConsoleLog, 'a) call" where
  "on_buf m s = (case m (cl_buf s) of (r, b) \<Rightarrow> (r, s\<lparr>cl_buf := b\<rparr>))"

text \<open>\<^verbatim>\<open>fprintf(f, "%s\n", buffer)\<close>.\<close>

definition console_out :: "(string \<Rightarrow> log_out) \<Rightarrow> (SrsConsoleLog, unit) call" where
  "console_out f s = (Ok (), s\<lparr>cl_out := cl_out s @ [f (c_str (cl_buf s) @ [LOG_TAIL])]\<rparr>)"

definition console_log :: "log_env \<Rightarrow> (string \<Rightarrow> log_out) \<Rightarrow> int \<Rightarrow> bool \<Rightarrow> string \<Rightarrow>
    string option \<Rightarrow> string \<Rightarrow> string \<Rightarrow> (SrsConsoleLog, unit) call" where
  "console_log env f lvl dangerous name tag cid msg =
     bind (gets cl_level) (\<lambda>level.
     if level > lvl then ret ()
     else
       bind (gets cl_utc) (\<lambda>utc.
       bind (on_buf (log_body env SRS_BASIC_LOG_SIZE utc dangerous tag cid name msg)) (\<lambda>h. case h of
          None \<Rightarrow> ret ()
        | Some len \<Rightarrow> console_out f)))"

definition console_verbose where
  "console_verbose env = console_log env Stdout SrsLogLevelVerbose False ''Verb''"

definition console_info where
  "console_info env = console_log env Stdout SrsLogLevelInfo False ''Debug''"

definition console_trace where
  "console_trace env = console_log env Stdout SrsLogLevelTrace False ''Trace''"

definition console_warn where
  "console_warn env = console_log env Stderr SrsLogLevelWarn True ''Warn''"

definition console_error :: "log_env \<Rightarrow> string option \<Rightarrow> string \<Rightarrow> string \<Rightarrow> (SrsConsoleLog, unit) call" where
  "console_error env tag cid msg =
     bind (gets cl_level) (\<lambda>level.
     if level > SrsLogLevelError then ret ()
     else
       bind (gets cl_utc) (\<lambda>utc.
       bind (on_buf (log_body env SRS_BASIC_LOG_SIZE utc True tag cid ''Error'' msg)) (\<lambda>h. case h of
          None \<Rightarrow> ret ()
        | Some len \<Rightarrow>
           bind (if le_errno env \<noteq> 0 then on_buf (log_strerror env SRS_BASIC_LOG_SIZE len) else ret len) (\<lambda>_.
           console_out Stderr))))"

subsection \<open>The context of a thread\<close>

text \<open>
  A thread is known by its address. The two counters are the \<^verbatim>\<open>sugar\<close> of \<^verbatim>\<open>_srs_pps_cids_get\<close> and
  \<^verbatim>\<open>_srs_pps_cids_set\<close>, \<open>None\<close> as long as the pointer is \<^verbatim>\<open>NULL\<close>. A reference that is returned is
  read right after the call.
\<close>

record SrsThreadContext =
  cx_cache :: "nat \<Rightarrow> string option"
  cx_gets :: "int option"
  cx_sets :: "int option"

definition SrsThreadContext_new :: "int option \<Rightarrow> int option \<Rightarrow> SrsThreadContext" where
  "SrsThreadContext_new g s = \<lparr>cx_cache = (\<lambda>_. None), cx_gets = g, cx_sets = s\<rparr>"

definition generate_id :: "(SrsThreadContext, string) call" where
  "generate_id = ret []"

definition get_id :: "nat \<Rightarrow> (SrsThreadContext, string) call" where
  "get_id self cx = (case cx_gets cx of
      None \<Rightarrow> (Panic UndefinedBehaviour, cx)
    | Some n \<Rightarrow>
       (let cx = cx\<lparr>cx_gets := Some (n + 1)\<rparr> in
        (case cx_cache cx self of
           None \<Rightarrow> (Ok [], cx\<lparr>cx_cache := (cx_cache cx)(self := Some [])\<rparr>)
         | Some v \<Rightarrow> (Ok v, cx))))"

definition set_id :: "nat \<Rightarrow> string \<Rightarrow> (SrsThreadContext, string) call" where
  "set_id self v cx = (case cx_sets cx of
      None \<Rightarrow> (Panic UndefinedBehaviour, cx)
    | Some n \<Rightarrow>
       (let cx = cx\<lparr>cx_sets := Some (n + 1)\<rparr> in
        if cx_cache cx self = None then (Ok v, cx\<lparr>cx_cache := (cx_cache cx)(self := Some v)\<rparr>)
        else
          let cx = cx\<lparr>cx_cache := (cx_cache cx)(self := Some v)\<rparr> in
          (Ok (the (cx_cache cx self)), cx)))"

subsection \<open>What is in the buffer\<close>

text \<open>A buffer that holds the text \<open>t\<close>, cut to what fits before the final NUL.\<close>

definition holds :: "log_buf \<Rightarrow> string \<Rightarrow> bool" where
  "holds b t \<longleftrightarrow> length b = 8192 \<and> (\<exists>rest. b = take 8191 t @ CHR 0x00 # rest)"

lemma holds_length: "holds b t \<Longrightarrow> length b = 8192"
  by (simp add: holds_def)

lemma holds_short: "holds b t \<Longrightarrow> length t < 8192 \<Longrightarrow> take (length t) b = t"
  by (auto simp: holds_def)

lemma take_min_length: "take (nat (min (int (length xs)) (int n))) xs = take n xs"
  by (auto simp: min_def)

lemma snprintf_holds:
  assumes "length b = 8192" and "length u < 8192" and "take (length u) b = u" and "length txt < 2 ^ 31"
  obtains b' where "snprintf_at (int (length u)) (8192 - int (length u)) txt b = (Ok (int (length txt)), b')"
    "holds b' (u @ txt)"
proof -
  define m where "m = 8191 - length u"
  define k where "k = nat (min (int (length txt)) (int m))"
  let ?b = "u @ take k txt @ [CHR 0x00] @ drop (length u + k + 1) b"
  have n: "(8192 - int (length u)) mod 2 ^ 64 = 8192 - int (length u)"
    "8192 - int (length u) - 1 = int m" using assms(2) by (simp_all add: m_def)
  have k: "length u + k + 1 \<le> 8192" "k \<le> length txt" using assms(2) by (auto simp: k_def m_def)
  have kn: "nat (min (int (length txt)) (int m)) = k" by (simp add: k_def)
  have "snprintf_at (int (length u)) (8192 - int (length u)) txt b = (Ok (int (length txt)), ?b)"
    unfolding snprintf_at_def Let_def n kn using assms k(1) by (simp add: not_le)
  moreover have "holds ?b (u @ txt)"
  proof -
    have "take k txt = take m txt" unfolding k_def by (rule take_min_length)
    then have "take 8191 (u @ txt) = u @ take k txt" using assms(2) by (simp add: m_def)
    moreover have "length ?b = 8192" using assms(1) k by simp
    ultimately show ?thesis by (simp add: holds_def)
  qed
  ultimately show thesis by (rule that)
qed

text \<open>The header of a line, \<open>None\<close> when there is no time for it or it does not fit the buffer.\<close>

definition header_of :: "log_env \<Rightarrow> bool \<Rightarrow> bool \<Rightarrow> string option \<Rightarrow> string \<Rightarrow> string \<Rightarrow> string option" where
  "header_of env utc dangerous tag cid level =
     (case le_tv env of
        None \<Rightarrow> None
      | Some (sec, usec) \<Rightarrow>
         (case (if utc then le_gmtime env sec else le_localtime env sec) of
            None \<Rightarrow> None
          | Some now \<Rightarrow>
             (let h = log_header_text env dangerous tag cid level now usec in
              if length h < 8192 then Some h else None)))"

lemma srs_log_header_spec:
  assumes "length b = 8192"
  obtains b' where "srs_log_header env 8192 utc dangerous tag cid level b =
      (Ok (map_option (\<lambda>h. int (length h)) (header_of env utc dangerous tag cid level)), b')"
    "length b' = 8192" "\<And>h. header_of env utc dangerous tag cid level = Some h \<Longrightarrow> holds b' h"
proof (cases "le_tv env")
  case None
  then show thesis using assms by (intro that [of b]) (simp_all add: srs_log_header_def header_of_def)
next
  case (Some tv)
  obtain sec usec where tv: "le_tv env = Some (sec, usec)" using Some by (cases tv) auto
  show thesis
  proof (cases "if utc then le_gmtime env sec else le_localtime env sec")
    case None
    then show thesis using assms tv
      by (intro that [of b]) (simp_all add: srs_log_header_def header_of_def split del: if_split)
  next
    case (Some now)
    let ?h = "log_header_text env dangerous tag cid level now usec"
    have hd: "header_of env utc dangerous tag cid level = (if length ?h < 8192 then Some ?h else None)"
      using tv Some by (simp add: header_of_def Let_def)
    show thesis
    proof (cases "length ?h < 2 ^ 31")
      case True
      obtain b' where "snprintf_at 0 8192 ?h b = (Ok (int (length ?h)), b')" "holds b' ?h"
        using snprintf_holds [OF assms, of "[]" ?h] True by auto
      with hd show thesis using tv Some
        by (intro that [of b']) (auto simp: srs_log_header_def bind_def holds_length split: if_splits)
    next
      case False
      then have "snprintf_at 0 8192 ?h b = (Ok (- 1), b)" using assms by (simp add: snprintf_at_def)
      with hd False show thesis using tv Some assms
        by (intro that [of b]) (simp_all add: srs_log_header_def bind_def)
    qed
  qed
qed

lemma log_body_spec:
  assumes "length b = 8192" and "length msg < 2 ^ 30"
  obtains b' where "log_body env 8192 utc dangerous tag cid level msg b =
      (Ok (map_option (\<lambda>h. int (length (h @ msg))) (header_of env utc dangerous tag cid level)), b')"
    "length b' = 8192" "\<And>h. header_of env utc dangerous tag cid level = Some h \<Longrightarrow> holds b' (h @ msg)"
proof -
  obtain b1 where b1: "srs_log_header env 8192 utc dangerous tag cid level b =
      (Ok (map_option (\<lambda>h. int (length h)) (header_of env utc dangerous tag cid level)), b1)"
    "length b1 = 8192" "\<And>h. header_of env utc dangerous tag cid level = Some h \<Longrightarrow> holds b1 h"
    by (rule srs_log_header_spec [OF assms(1), where env = env and utc = utc and
          dangerous = dangerous and tag = tag and cid = cid and level = level]) blast
  show thesis
  proof (cases "header_of env utc dangerous tag cid level")
    case None
    with b1 show thesis by (intro that [of b1]) (simp_all add: log_body_def bind_def)
  next
    case (Some h)
    then have h: "length h < 8192" by (auto simp: header_of_def Let_def split: option.splits if_splits)
    then obtain b2 where "snprintf_at (int (length h)) (8192 - int (length h)) msg b1 = (Ok (int (length msg)), b2)"
      "holds b2 (h @ msg)"
      using snprintf_holds [OF b1(2) h holds_short [OF b1(3) [OF Some] h], of msg] assms(2) by auto
    with b1 Some h assms(2) show thesis
      by (intro that [of b2]) (simp_all add: log_body_def bind_def add_int_def holds_length)
  qed
qed

lemma log_strerror_spec:
  assumes "holds b t" and "length t < 8192" and "length (le_strerror env (le_errno env)) < 2 ^ 30"
  obtains b' where "log_strerror env 8192 (int (length t)) b =
      (Ok (int (length (t @ ''('' @ le_strerror env (le_errno env) @ '')''))), b')"
    "holds b' (t @ ''('' @ le_strerror env (le_errno env) @ '')'')"
proof -
  let ?e = "''('' @ le_strerror env (le_errno env) @ '')''"
  obtain b' where "snprintf_at (int (length t)) (8192 - int (length t)) ?e b = (Ok (int (length ?e)), b')"
    "holds b' (t @ ?e)"
    using snprintf_holds [OF holds_length [OF assms(1)] assms(2) holds_short [OF assms(1,2)], of ?e] assms(3)
    by auto
  with assms(2,3) show thesis
    by (intro that [of b']) (simp_all add: log_strerror_def bind_def add_int_def)
qed

subsection \<open>Lines of the file log\<close>

lemma take_takeWhile: "\<forall>c\<in>set (take n xs). P c \<Longrightarrow> take n (takeWhile P xs) = take n xs"
  by (induction xs arbitrary: n) (auto simp: take_Cons split: nat.splits)

text \<open>Where a line goes: the screen, or the file once it is open.\<close>

definition file_emit :: "log_env \<Rightarrow> SrsConfig option \<Rightarrow> int \<Rightarrow> string \<Rightarrow> SrsFileLog \<Rightarrow> SrsFileLog" where
  "file_emit env config level line s =
     (if fl_tank s then
        let fd = (if fl_fd s < 0 then case config of None \<Rightarrow> fl_fd s | Some cf \<Rightarrow> le_open env (get_log_file cf)
                  else fl_fd s) in
        s\<lparr>fl_fd := fd, fl_out := fl_out s @ (if fd > 0 then [WriteFd fd line] else [])\<rparr>
      else s\<lparr>fl_out := fl_out s @ [Stdout (colored level line)]\<rparr>)"

lemma write_log_holds:
  assumes "holds (fl_data s) t" and "CHR 0x00 \<notin> set t"
  obtains b where "write_log env config (int (length t)) level s =
      (Ok (), file_emit env config level (take 8190 t @ [LOG_TAIL]) (s\<lparr>fl_data := b\<rparr>))" "length b = 8192"
proof -
  define p where "p = min 8190 (length t)"
  let ?b = "(fl_data s)[p := LOG_TAIL]"
  obtain rest where b: "fl_data s = take 8191 t @ CHR 0x00 # rest" "length (fl_data s) = 8192"
    using assms(1) by (auto simp: holds_def)
  have p: "p < 8192" "min (LOG_MAX_SIZE - 1 - LOG_TAIL_SIZE) (int (length t)) = int p"
    by (simp_all add: p_def log_size_defs)
  have "take p (fl_data s) = take 8190 t" by (auto simp: b(1) p_def min_def)
  then have line: "take (Suc p) ?b = take 8190 t @ [LOG_TAIL]"
    using p(1) b(2) by (simp add: take_Suc_conv_app_nth)
  have "CHR 0x00 \<notin> set (take 8190 t @ [LOG_TAIL])"
    using assms(2) by (auto simp: LOG_TAIL_def dest: in_set_takeD)
  then have "take (Suc p) (c_str ?b) = take (Suc p) ?b" unfolding c_str_def
    by (intro take_takeWhile) (auto simp: line)
  note lines = this line
  have "nat (int p + 1) = Suc p" by simp
  moreover have "on_data (put_char (int p) LOG_TAIL) s = (Ok (), s\<lparr>fl_data := ?b\<rparr>)"
    using p(1) b(2) by (simp add: on_data_def put_char_def)
  ultimately have "write_log env config (int (length t)) level s =
      (Ok (), file_emit env config level (take 8190 t @ [LOG_TAIL]) (s\<lparr>fl_data := ?b\<rparr>))"
    by (auto simp: write_log_def p(2) bind_def Let_def lines file_out_def open_log_file_def file_emit_def
        split: option.splits)
  with b(2) show thesis by (intro that [of ?b]) simp_all
qed

lemma no_nul_dec: "CHR 0x00 \<notin> set (dec_of_nat n)"
  using dec_of_nat_digits [of n] by (auto simp: list_all_iff is_digit_def)

lemma no_nul_header:
  assumes "header_of env utc d tag cid name = Some h" and "CHR 0x00 \<notin> set name"
  shows "CHR 0x00 \<notin> set h"
proof -
  have c: "CHR 0x00 \<notin> set (c_str x)" for x by (auto simp: c_str_def dest: set_takeWhileD)
  have p: "CHR 0x00 \<notin> set (pad0 w i)" "CHR 0x00 \<notin> set (dec_of_int i)" for w i
    by (auto simp: pad0_def dec_of_int_def no_nul_dec)
  have "CHR 0x00 \<notin> set (log_header_text env d tag cid name now usec)" for now usec
    using assms(2) by (simp add: log_header_text_def log_time_def c p split: option.split)
  with assms(1) show ?thesis by (auto simp: header_of_def Let_def split: option.splits if_splits)
qed

definition error_suffix :: "log_env \<Rightarrow> string" where
  "error_suffix env = (if le_errno env = 0 then [] else ''('' @ le_strerror env (le_errno env) @ '')'')"

lemma file_log_spec:
  assumes "length (fl_data s) = 8192" and "length msg < 2 ^ 30" and "CHR 0x00 \<notin> set (name @ msg)"
  shows "\<exists>b. length b = 8192 \<and> file_log env config lvl dangerous name tag cid msg s = (Ok (),
    (case if fl_level s > lvl then None else header_of env (fl_utc s) dangerous tag cid name of
       None \<Rightarrow> s\<lparr>fl_data := b\<rparr>
     | Some h \<Rightarrow> file_emit env config lvl (take 8190 (h @ msg) @ [LOG_TAIL]) (s\<lparr>fl_data := b\<rparr>)))"
proof (cases "fl_level s > lvl")
  case True
  with assms(1) show ?thesis by (intro exI [of _ "fl_data s"]) (simp add: file_log_def)
next
  case False
  obtain b1 where b1: "log_body env 8192 (fl_utc s) dangerous tag cid name msg (fl_data s) =
      (Ok (map_option (\<lambda>h. int (length (h @ msg))) (header_of env (fl_utc s) dangerous tag cid name)), b1)"
    "length b1 = 8192"
    "\<And>h. header_of env (fl_utc s) dangerous tag cid name = Some h \<Longrightarrow> holds b1 (h @ msg)"
    by (rule log_body_spec [OF assms(1,2), where env = env and utc = "fl_utc s" and
          dangerous = dangerous and tag = tag and cid = cid and level = name]) blast
  show ?thesis
  proof (cases "header_of env (fl_utc s) dangerous tag cid name")
    case None
    with b1 False show ?thesis
      by (intro exI [of _ b1]) (simp add: file_log_def bind_def on_data_def log_size_defs)
  next
    case (Some h)
    then have "CHR 0x00 \<notin> set (h @ msg)" using no_nul_header [OF Some] assms(3) by simp
    moreover have "holds (fl_data (s\<lparr>fl_data := b1\<rparr>)) (h @ msg)" using b1(3) [OF Some] by simp
    ultimately obtain b where "length b = 8192"
      "write_log env config (int (length (h @ msg))) lvl (s\<lparr>fl_data := b1\<rparr>) =
        (Ok (), file_emit env config lvl (take 8190 (h @ msg) @ [LOG_TAIL]) (s\<lparr>fl_data := b1, fl_data := b\<rparr>))"
      by (metis write_log_holds)
    with b1 False Some show ?thesis
      by (intro exI [of _ b]) (simp add: file_log_def bind_def on_data_def log_size_defs)
  qed
qed

lemma take_8190_long: "8192 \<le> length t \<Longrightarrow> take 8190 (t @ e) = take 8190 t"
  by simp

text \<open>The text of errno behind a message, when there is room; what is behind the room does not show.\<close>

lemma error_text_spec:
  assumes "holds b1 t" and "CHR 0x00 \<notin> set (t @ error_suffix env)" and "length (le_strerror env (le_errno env)) < 2 ^ 30"
  shows "\<exists>b2 t'. (if le_errno env \<noteq> 0 \<and> int (length t) < LOG_MAX_SIZE
        then on_data (log_strerror env LOG_MAX_SIZE (int (length t))) else ret (int (length t))) (s\<lparr>fl_data := b1\<rparr>) =
      (Ok (int (length t')), s\<lparr>fl_data := b2\<rparr>) \<and>
    holds b2 t' \<and> take 8190 t' = take 8190 (t @ error_suffix env) \<and> CHR 0x00 \<notin> set t'"
proof (cases "le_errno env \<noteq> 0 \<and> length t < 8192")
  case True
  obtain b2 where "log_strerror env 8192 (int (length t)) b1 =
      (Ok (int (length (t @ ''('' @ le_strerror env (le_errno env) @ '')''))), b2)"
    "holds b2 (t @ ''('' @ le_strerror env (le_errno env) @ '')'')"
    using assms(1,3) True by (metis log_strerror_spec)
  with True assms(2) show ?thesis
    by (intro exI [of _ b2] exI [of _ "t @ ''('' @ le_strerror env (le_errno env) @ '')''"])
      (simp add: on_data_def log_size_defs error_suffix_def)
next
  case False
  with assms show ?thesis
    by (intro exI [of _ b1] exI [of _ t])
      (use take_8190_long [of t "error_suffix env"] in
        \<open>auto simp: log_size_defs error_suffix_def not_less simp del: take_append\<close>)
qed

lemma file_error_spec:
  assumes "length (fl_data s) = 8192" and "length msg < 2 ^ 30" and "CHR 0x00 \<notin> set (msg @ error_suffix env)"
    and "length (le_strerror env (le_errno env)) < 2 ^ 30"
  shows "\<exists>b. length b = 8192 \<and> file_error env config tag cid msg s = (Ok (),
    (case if fl_level s > SrsLogLevelError then None else header_of env (fl_utc s) True tag cid ''Error'' of
       None \<Rightarrow> s\<lparr>fl_data := b\<rparr>
     | Some h \<Rightarrow> file_emit env config SrsLogLevelError (take 8190 (h @ msg @ error_suffix env) @ [LOG_TAIL])
         (s\<lparr>fl_data := b\<rparr>)))"
proof (cases "fl_level s > SrsLogLevelError")
  case True
  with assms(1) show ?thesis by (intro exI [of _ "fl_data s"]) (simp add: file_error_def)
next
  case False
  obtain b1 where b1: "log_body env 8192 (fl_utc s) True tag cid ''Error'' msg (fl_data s) =
      (Ok (map_option (\<lambda>h. int (length (h @ msg))) (header_of env (fl_utc s) True tag cid ''Error'')), b1)"
    "length b1 = 8192"
    "\<And>h. header_of env (fl_utc s) True tag cid ''Error'' = Some h \<Longrightarrow> holds b1 (h @ msg)"
    by (rule log_body_spec [OF assms(1,2), where env = env and utc = "fl_utc s" and
          dangerous = True and tag = tag and cid = cid and level = "''Error''"]) blast
  show ?thesis
  proof (cases "header_of env (fl_utc s) True tag cid ''Error''")
    case None
    with b1 False show ?thesis
      by (intro exI [of _ b1]) (simp add: file_error_def bind_def on_data_def log_size_defs)
  next
    case (Some h)
    let ?t = "h @ msg"
    have "CHR 0x00 \<notin> set (?t @ error_suffix env)" using no_nul_header [OF Some] assms(3) by simp
    from error_text_spec [OF b1(3) [OF Some] this assms(4), of s]
    obtain b2 t where e: "(if le_errno env \<noteq> 0 \<and> int (length ?t) < LOG_MAX_SIZE
          then on_data (log_strerror env LOG_MAX_SIZE (int (length ?t))) else ret (int (length ?t)))
          (s\<lparr>fl_data := b1\<rparr>) = (Ok (int (length t)), s\<lparr>fl_data := b2\<rparr>)"
        "holds (fl_data (s\<lparr>fl_data := b2\<rparr>)) t" "take 8190 t = take 8190 (h @ msg @ error_suffix env)"
        "CHR 0x00 \<notin> set t" by auto
    then obtain b where "length b = 8192" "write_log env config (int (length t)) SrsLogLevelError (s\<lparr>fl_data := b2\<rparr>) =
        (Ok (), file_emit env config SrsLogLevelError (take 8190 (h @ msg @ error_suffix env) @ [LOG_TAIL])
          (s\<lparr>fl_data := b2, fl_data := b\<rparr>))"
      by (metis write_log_holds)
    moreover have "on_data (log_body env LOG_MAX_SIZE (fl_utc s) True tag cid ''Error'' msg) s =
        (Ok (Some (int (length ?t))), s\<lparr>fl_data := b1\<rparr>)"
      using b1(1) Some by (simp add: on_data_def log_size_defs)
    then have "file_error env config tag cid msg s = bind (if le_errno env \<noteq> 0 \<and> int (length ?t) < LOG_MAX_SIZE
        then on_data (log_strerror env LOG_MAX_SIZE (int (length ?t))) else ret (int (length ?t)))
        (\<lambda>l. write_log env config l SrsLogLevelError) (s\<lparr>fl_data := b1\<rparr>)"
      using False by (simp add: file_error_def bind_Ok del: length_append)
    moreover have "bind (if le_errno env \<noteq> 0 \<and> int (length ?t) < LOG_MAX_SIZE
        then on_data (log_strerror env LOG_MAX_SIZE (int (length ?t))) else ret (int (length ?t)))
        (\<lambda>l. write_log env config l SrsLogLevelError) (s\<lparr>fl_data := b1\<rparr>) =
        write_log env config (int (length t)) SrsLogLevelError (s\<lparr>fl_data := b2\<rparr>)"
      using e(1) by (rule bind_Ok)
    ultimately show ?thesis using False Some by auto
  qed
qed

text \<open>
  The state \<open>s'\<close> after a line of level \<open>lvl\<close>: nothing but the buffer changed when the level is
  switched off or there is no header; else the header and the text, cut to 8190 characters, went out
  with a newline.
\<close>

definition file_logged :: "log_env \<Rightarrow> SrsConfig option \<Rightarrow> int \<Rightarrow> bool \<Rightarrow> string \<Rightarrow> string option \<Rightarrow> string \<Rightarrow>
    string \<Rightarrow> SrsFileLog \<Rightarrow> SrsFileLog \<Rightarrow> bool" where
  "file_logged env config lvl dangerous name tag cid txt s s' \<longleftrightarrow>
     length (fl_data s') = 8192 \<and>
     s' = (case if fl_level s > lvl then None else header_of env (fl_utc s) dangerous tag cid name of
         None \<Rightarrow> s\<lparr>fl_data := fl_data s'\<rparr>
       | Some h \<Rightarrow> file_emit env config lvl (take 8190 (h @ txt) @ [LOG_TAIL]) (s\<lparr>fl_data := fl_data s'\<rparr>))"

lemma fl_data_emit [simp]: "fl_data (file_emit env config lvl line s) = fl_data s"
  by (simp add: file_emit_def Let_def)

lemma file_log_logged:
  assumes "length (fl_data s) = 8192" and "length msg < 2 ^ 30" and "CHR 0x00 \<notin> set (name @ msg)"
  shows "\<exists>s'. file_log env config lvl dangerous name tag cid msg s = (Ok (), s') \<and>
    file_logged env config lvl dangerous name tag cid msg s s'"
  using file_log_spec [OF assms, of env config lvl dangerous tag cid]
  by (auto simp: file_logged_def split: option.splits)

text \<open>
  C29. The file log never leaves its buffer, however long the header, the message or the text of the
  error number: every call returns, a line below the level of the log or without a header prints
  nothing, and any other goes out as its header, its message and, for an error with \<^verbatim>\<open>errno\<close> set, the
  text of the error number, cut to 8190 characters, with a newline.
\<close>

theorem file_log_lines:
  assumes "length (fl_data s) = 8192" and "length msg < 2 ^ 30" and "CHR 0x00 \<notin> set (msg @ error_suffix env)"
    and "length (le_strerror env (le_errno env)) < 2 ^ 30"
  shows "(\<exists>s'. file_verbose env config tag cid msg s = (Ok (), s') \<and>
      file_logged env config SrsLogLevelVerbose False ''Verb'' tag cid msg s s') \<and>
    (\<exists>s'. file_info env config tag cid msg s = (Ok (), s') \<and>
      file_logged env config SrsLogLevelInfo False ''Debug'' tag cid msg s s') \<and>
    (\<exists>s'. file_trace env config tag cid msg s = (Ok (), s') \<and>
      file_logged env config SrsLogLevelTrace False ''Trace'' tag cid msg s s') \<and>
    (\<exists>s'. file_warn env config tag cid msg s = (Ok (), s') \<and>
      file_logged env config SrsLogLevelWarn True ''Warn'' tag cid msg s s') \<and>
    (\<exists>s'. file_error env config tag cid msg s = (Ok (), s') \<and>
      file_logged env config SrsLogLevelError True ''Error'' tag cid (msg @ error_suffix env) s s')"
proof -
  have m: "CHR 0x00 \<notin> set msg" using assms(3) by simp
  have "\<exists>s'. file_error env config tag cid msg s = (Ok (), s') \<and>
      file_logged env config SrsLogLevelError True ''Error'' tag cid (msg @ error_suffix env) s s'"
    using file_error_spec [OF assms, of config tag cid]
    by (auto simp: file_logged_def simp del: take_append split: option.splits)
  then show ?thesis
    unfolding file_verbose_def file_info_def file_trace_def file_warn_def
    using m by (intro conjI file_log_logged [OF assms(1,2)]) simp_all
qed

definition example_env :: log_env where
  "example_env = \<lparr>le_tv = Some (1648944000, 123456), le_gmtime = (\<lambda>_. None),
     le_localtime = (\<lambda>_. Some \<lparr>tm_year = 122, tm_mon = 3, tm_mday = 3, tm_hour = 8, tm_min = 0, tm_sec = 0\<rparr>),
     le_pid = 42, le_errno = 4, le_strerror = (\<lambda>_. ''EINTR''), le_open = (\<lambda>_. 3)\<rparr>"

theorem file_log_lines_witness:
  "\<exists>s'. file_trace example_env None None ''7a'' ''hi'' (SrsFileLog_new (replicate 8192 (CHR ''?''))) = (Ok (), s') \<and>
     fl_out s' = [Stdout (''[2022-04-03 08:00:00.123][Trace][42][7a] hi'' @ [LOG_TAIL])]"
proof -
  let ?s = "SrsFileLog_new (replicate 8192 (CHR ''?''))"
  have s: "length (fl_data ?s) = 8192" "fl_level ?s = 4" "fl_utc ?s = False" "fl_tank ?s = False" "fl_out ?s = []"
    by (simp_all add: SrsFileLog_new_def log_size_defs level_defs)
  have h: "header_of example_env False False None ''7a'' ''Trace'' = Some ''[2022-04-03 08:00:00.123][Trace][42][7a] ''"
    by code_simp
  have "CHR 0x00 \<notin> set (''hi'' @ error_suffix example_env)"
    "length (le_strerror example_env (le_errno example_env)) < 2 ^ 30"
    by (simp_all add: error_suffix_def example_env_def)
  then obtain s' where "file_trace example_env None None ''7a'' ''hi'' ?s = (Ok (), s')"
    "file_logged example_env None SrsLogLevelTrace False ''Trace'' None ''7a'' ''hi'' ?s s'"
    using file_log_lines [OF s(1), of "''hi''" example_env None None "''7a''"] by auto
  moreover from this(2) have "s' = file_emit example_env None SrsLogLevelTrace
      (take 8190 (''[2022-04-03 08:00:00.123][Trace][42][7a] '' @ ''hi'') @ [LOG_TAIL]) (?s\<lparr>fl_data := fl_data s'\<rparr>)"
    unfolding file_logged_def s h by (simp add: level_defs)
  then have "fl_out s' = fl_out (file_emit example_env None SrsLogLevelTrace
      (take 8190 (''[2022-04-03 08:00:00.123][Trace][42][7a] '' @ ''hi'') @ [LOG_TAIL]) (?s\<lparr>fl_data := fl_data s'\<rparr>))"
    by (rule arg_cong)
  then have "fl_out s' = [Stdout (''[2022-04-03 08:00:00.123][Trace][42][7a] hi'' @ [LOG_TAIL])]"
    by (simp add: file_emit_def s colored_def level_defs)
  ultimately show ?thesis by blast
qed

subsection \<open>Lines of the console log\<close>

lemma holds_c_str: "holds b t \<Longrightarrow> CHR 0x00 \<notin> set t \<Longrightarrow> c_str b = take 8191 t"
  by (auto simp: holds_def c_str_def takeWhile_append dest: in_set_takeD)

lemma log_strerror_outside: "length b = 8192 \<Longrightarrow> 8192 < n \<Longrightarrow> log_strerror env 8192 n b = (Panic UndefinedBehaviour, b)"
  by (simp add: log_strerror_def bind_def snprintf_at_def)

lemma log_strerror_edge:
  assumes "length b = 8192" and "length (le_strerror env (le_errno env)) < 2 ^ 30"
  shows "\<exists>n. log_strerror env 8192 8192 b = (Ok n, b)"
  using assms by (simp add: log_strerror_def bind_def snprintf_at_def add_int_def)

lemma console_body:
  assumes "length (cl_buf s) = 8192" and "length msg < 2 ^ 30"
    and "header_of env (cl_utc s) d tag cid name = Some h"
  obtains b where "on_buf (log_body env SRS_BASIC_LOG_SIZE (cl_utc s) d tag cid name msg) s =
      (Ok (Some (int (length (h @ msg)))), s\<lparr>cl_buf := b\<rparr>)" "holds b (h @ msg)"
proof -
  obtain b where b: "log_body env 8192 (cl_utc s) d tag cid name msg (cl_buf s) =
      (Ok (map_option (\<lambda>h. int (length (h @ msg))) (header_of env (cl_utc s) d tag cid name)), b)"
    "\<And>h. header_of env (cl_utc s) d tag cid name = Some h \<Longrightarrow> holds b (h @ msg)"
    by (rule log_body_spec [OF assms(1,2), where env = env and utc = "cl_utc s" and
          dangerous = d and tag = tag and cid = cid and level = name]) blast
  with assms(3) show thesis by (intro that [of b]) (simp_all add: on_buf_def log_size_defs)
qed

text \<open>What an error line does behind its message.\<close>

lemma console_tail:
  assumes "holds b t" and "CHR 0x00 \<notin> set (t @ error_suffix env)" and "length (le_strerror env (le_errno env)) < 2 ^ 30"
    and "\<not> (le_errno env \<noteq> 0 \<and> 8192 < length t)"
  shows "\<exists>b'. length b' = 8192 \<and> bind (if le_errno env \<noteq> 0 then on_buf (log_strerror env SRS_BASIC_LOG_SIZE (int (length t)))
        else ret (int (length t))) (\<lambda>_. console_out Stderr) (s\<lparr>cl_buf := b\<rparr>) =
      (Ok (), s\<lparr>cl_buf := b', cl_out := cl_out s @ [Stderr (take 8191 (t @ error_suffix env) @ [LOG_TAIL])]\<rparr>)"
proof -
  let ?sx = "''('' @ le_strerror env (le_errno env) @ '')''"
  consider (none) "le_errno env = 0" | (fits) "le_errno env \<noteq> 0" "length t < 8192" | (edge) "le_errno env \<noteq> 0" "length t = 8192"
    using assms(4) by linarith
  then show ?thesis
  proof cases
    case none
    with assms(1,2) show ?thesis
      by (simp add: if_not_P del: length_append take_append, intro exI [of _ b])
        (simp_all add: console_out_def error_suffix_def holds_c_str holds_length del: take_append)
  next
    case fits
    obtain b' where "log_strerror env 8192 (int (length t)) b = (Ok (int (length (t @ ?sx))), b')"
      "holds b' (t @ ?sx)" using assms(1) fits(2) assms(3) by (rule log_strerror_spec)
    with fits assms(2) show ?thesis
      by (simp add: not_less del: length_append take_append, intro exI [of _ b'])
        (simp add: bind_def on_buf_def log_size_defs console_out_def error_suffix_def holds_c_str holds_length
          del: take_append length_append)
  next
    case edge
    obtain n where "log_strerror env 8192 8192 b = (Ok n, b)"
      using log_strerror_edge [OF holds_length [OF assms(1)] assms(3)] by blast
    moreover have "take 8191 (t @ error_suffix env) = take 8191 t" using edge(2) by simp
    ultimately show ?thesis using edge assms(1,2)
      by (simp add: not_less del: length_append take_append, intro exI [of _ b])
        (simp add: bind_def on_buf_def log_size_defs console_out_def holds_c_str holds_length
          del: take_append length_append)
  qed
qed

text \<open>
  C30. The console log has no such check: an error line whose header and message are longer than the
  buffer writes the text of the error number outside of it, when \<^verbatim>\<open>errno\<close> is set; and that is the
  only case. Every other error line is printed, cut to 8191 characters, with a newline.
\<close>

theorem console_error_overflow:
  assumes "length (cl_buf s) = 8192" and "cl_level s \<le> SrsLogLevelError"
    and "header_of env (cl_utc s) True tag cid ''Error'' = Some h"
    and "length msg < 2 ^ 30" and "CHR 0x00 \<notin> set (msg @ error_suffix env)"
    and "length (le_strerror env (le_errno env)) < 2 ^ 30"
  shows "if le_errno env \<noteq> 0 \<and> 8192 < length (h @ msg)
    then fst (console_error env tag cid msg s) = Panic UndefinedBehaviour
    else \<exists>b. length b = 8192 \<and> console_error env tag cid msg s =
      (Ok (), s\<lparr>cl_buf := b, cl_out := cl_out s @ [Stderr (take 8191 (h @ msg @ error_suffix env) @ [LOG_TAIL])]\<rparr>)"
proof -
  let ?t = "h @ msg"
  have lvl: "\<not> cl_level s > SrsLogLevelError" using assms(2) by simp
  have nul: "CHR 0x00 \<notin> set (?t @ error_suffix env)" using no_nul_header [OF assms(3)] assms(5) by simp
  obtain b where b: "on_buf (log_body env SRS_BASIC_LOG_SIZE (cl_utc s) True tag cid ''Error'' msg) s =
      (Ok (Some (int (length ?t))), s\<lparr>cl_buf := b\<rparr>)" "holds b ?t"
    using assms(1,4,3) by (rule console_body)
  have run: "console_error env tag cid msg s =
      bind (if le_errno env \<noteq> 0 then on_buf (log_strerror env SRS_BASIC_LOG_SIZE (int (length ?t)))
        else ret (int (length ?t))) (\<lambda>_. console_out Stderr) (s\<lparr>cl_buf := b\<rparr>)"
    using lvl b(1) by (simp add: console_error_def bind_Ok del: length_append)
  show ?thesis
  proof (cases "le_errno env \<noteq> 0 \<and> 8192 < length ?t")
    case True
    then have "log_strerror env 8192 (int (length ?t)) b = (Panic UndefinedBehaviour, b)"
      by (intro log_strerror_outside holds_length [OF b(2)]) simp
    with True show ?thesis unfolding run
      by (simp add: bind_def on_buf_def log_size_defs del: length_append)
  next
    case False
    from console_tail [OF b(2) nul assms(6) False, of s] show ?thesis unfolding run if_not_P [OF False] append_assoc .
  qed
qed

theorem console_error_overflow_witness:
  "fst (console_error example_env None ''7a'' (replicate 9000 (CHR ''x''))
     (SrsConsoleLog_new (replicate 8192 (CHR ''?'')) SrsLogLevelTrace False)) = Panic UndefinedBehaviour"
proof -
  let ?s = "SrsConsoleLog_new (replicate 8192 (CHR ''?'')) SrsLogLevelTrace False"
  have s: "length (cl_buf ?s) = 8192" "cl_level ?s \<le> SrsLogLevelError" "cl_utc ?s = False"
    by (simp_all add: SrsConsoleLog_new_def log_size_defs level_defs)
  have h: "header_of example_env False True None ''7a'' ''Error'' =
      Some ''[2022-04-03 08:00:00.123][Error][42][7a][4] ''" by code_simp
  have e: "CHR 0x00 \<notin> set (replicate 9000 (CHR ''x'') @ error_suffix example_env)"
    "length (le_strerror example_env (le_errno example_env)) < 2 ^ 30" "le_errno example_env \<noteq> 0"
    by (simp_all add: error_suffix_def example_env_def)
  have "header_of example_env (cl_utc ?s) True None ''7a'' ''Error'' =
      Some ''[2022-04-03 08:00:00.123][Error][42][7a][4] ''" unfolding s(3) by (rule h)
  from console_error_overflow [OF s(1,2) this _ e(1,2)] e(3) show ?thesis by simp
qed

subsection \<open>The context of each thread\<close>

text \<open>
  Once the two counters are made, the identity that a thread sets is the one it gets from then
  on, the identities of the other threads stay, and each call is counted. What \<^verbatim>\<open>set_id\<close> returns is the
  new identity too, also when there was an old one: the reference it keeps to the old value is a
  reference to the slot that it then overwrites. While a counter is not made, its call is undefined.
\<close>

theorem thread_context:
  assumes "cx_sets cx = Some n" and "cx_gets cx = Some k"
  shows "\<exists>cx'. set_id self v cx = (Ok v, cx') \<and> cx_sets cx' = Some (n + 1) \<and>
    (\<exists>cx''. get_id self cx' = (Ok v, cx'') \<and> cx_cache cx'' = cx_cache cx' \<and> cx_gets cx'' = Some (k + 1)) \<and>
    (\<forall>t. t \<noteq> self \<longrightarrow> fst (get_id t cx') = fst (get_id t cx)) \<and>
    fst (set_id self v (cx\<lparr>cx_sets := None\<rparr>)) = Panic UndefinedBehaviour"
  using assms by (auto simp: set_id_def get_id_def Let_def split: option.splits)

theorem thread_context_witness:
  "\<exists>cx. then_do (fst (set_id 1 ''a'' (SrsThreadContext_new (Some 0) (Some 0)))) (\<lambda>_.
     fst (set_id 1 ''b'' (snd (set_id 1 ''a'' (SrsThreadContext_new (Some 0) (Some 0)))))) = Ok ''b'' \<and>
     cx = snd (set_id 1 ''b'' (snd (set_id 1 ''a'' (SrsThreadContext_new (Some 0) (Some 0)))))"
proof -
  obtain cx where 1: "set_id 1 ''a'' (SrsThreadContext_new (Some 0) (Some 0)) = (Ok ''a'', cx)" "cx_sets cx = Some 1"
    using thread_context [of "SrsThreadContext_new (Some 0) (Some 0)" 0 0 1 "''a''"]
    by (auto simp: SrsThreadContext_new_def)
  then have "cx_gets cx = Some 0" by (auto simp: set_id_def SrsThreadContext_new_def)
  with thread_context [OF 1(2), of 0 1 "''b''"] 1 show ?thesis by auto
qed

end
