(* ===== verification/KernelTime.thy ===== *)
theory KernelTime
  imports Prelude "HOL-Library.Signed_Division"
begin

section \<open>Clock, rates and the clock monitor\<close>

text \<open>
  The cached system time of \<^verbatim>\<open>srs_kernel_utility.cpp\<close>, the rate samples and \<^verbatim>\<open>SrsPps\<close> of
  \<^verbatim>\<open>srs_kernel_kbps.cpp\<close>, and the timer and the clock monitor of \<^verbatim>\<open>srs_app_hourglass.cpp\<close> that drive
  them. Numbers of type \<^verbatim>\<open>int64_t\<close> are integers whose arithmetic is checked: a result outside of 64
  bits is undefined behaviour. What \<^verbatim>\<open>gettimeofday\<close> returns is an argument.
\<close>

subsection \<open>Units of time\<close>

definition SRS_UTIME_MILLISECONDS :: int where "SRS_UTIME_MILLISECONDS = 1000"
definition SRS_UTIME_SECONDS :: int where "SRS_UTIME_SECONDS = 1000000"

definition srsu2ms :: "int \<Rightarrow> int" where
  "srsu2ms us = us sdiv SRS_UTIME_MILLISECONDS"

lemmas utime_defs = SRS_UTIME_MILLISECONDS_def SRS_UTIME_SECONDS_def

subsection \<open>The system time\<close>

text \<open>The two globals \<^verbatim>\<open>_srs_system_time_us_cache\<close> and \<^verbatim>\<open>_srs_system_time_startup_time\<close>.\<close>

record sys_time =
  st_cache :: int
  st_startup :: int

definition sys_time_init :: sys_time where
  "sys_time_init = \<lparr>st_cache = 0, st_startup = 0\<rparr>"

text \<open>\<^verbatim>\<open>1000 * SYS_TIME_RESOLUTION_US\<close>, the macro being \<^verbatim>\<open>300*1000\<close> without parentheses.\<close>

definition clock_jump_us :: int where
  "clock_jump_us = 1000 * 300 * 1000"

text \<open>\<open>tv\<close> is the \<^verbatim>\<open>timeval\<close>, \<open>None\<close> when \<^verbatim>\<open>gettimeofday\<close> fails.\<close>

definition srs_update_system_time :: "(int \<times> int) option \<Rightarrow> (sys_time, int) call" where
  "srs_update_system_time tv s = (case tv of
      None \<Rightarrow> (Ok (- 1), s)
    | Some (sec, usec) \<Rightarrow>
       (case then_do (i64 (sec * 1000 * 1000)) (\<lambda>us. i64 (us + usec)) of
          Panic q \<Rightarrow> (Panic q, s)
        | Err e \<Rightarrow> (Err e, s)
        | Ok now_us \<Rightarrow>
           if st_cache s \<le> 0 then (Ok now_us, s\<lparr>st_startup := now_us, st_cache := now_us\<rparr>)
           else (case i64 (now_us - st_cache s) of
               Panic q \<Rightarrow> (Panic q, s)
             | Err e \<Rightarrow> (Err e, s)
             | Ok d \<Rightarrow>
                let diff = max 0 d;
                    s' = (if diff < 0 \<or> diff > clock_jump_us
                          then s\<lparr>st_startup := st_startup s + diff\<rparr> else s)
                in (Ok now_us, s'\<lparr>st_cache := now_us\<rparr>))))"

definition srs_get_system_time :: "(int \<times> int) option \<Rightarrow> (sys_time, int) call" where
  "srs_get_system_time tv =
     bind (gets (\<lambda>s. st_cache s \<le> 0)) (\<lambda>stale.
     bind (if stale then bind (srs_update_system_time tv) (\<lambda>_. ret ()) else ret ()) (\<lambda>_.
     gets st_cache))"

subsection \<open>Rate samples\<close>

record SrsRateSample =
  rs_total :: int
  rs_time :: int
  rs_rate :: int

definition sample_new :: SrsRateSample where
  "sample_new = \<lparr>rs_total = - 1, rs_time = - 1, rs_rate = 0\<rparr>"

definition sample_update :: "int \<Rightarrow> int \<Rightarrow> int \<Rightarrow> SrsRateSample \<Rightarrow> SrsRateSample" where
  "sample_update nn t k s = s\<lparr>rs_total := nn, rs_time := t, rs_rate := k\<rparr>"

definition srs_pps_init :: "int \<Rightarrow> int \<Rightarrow> SrsRateSample \<Rightarrow> SrsRateSample" where
  "srs_pps_init nn now s = (if rs_time s < 0 \<or> nn < rs_total s then sample_update nn now 0 s else s)"

text \<open>\<^verbatim>\<open>(int)\<close> of an \<^verbatim>\<open>int64_t\<close> keeps the low 32 bits.\<close>

definition int_of_i64 :: "int \<Rightarrow> int" where
  "int_of_i64 x = sint (word_of_int x :: 32 word)"

definition srs_pps_update :: "int \<Rightarrow> int \<Rightarrow> SrsRateSample \<Rightarrow> SrsRateSample outcome" where
  "srs_pps_update nn now s =
     then_do (i64 (nn - rs_total s)) (\<lambda>d.
     then_do (i64 (d * 1000)) (\<lambda>n.
     then_do (i64 (now - rs_time s)) (\<lambda>us.
     if srsu2ms us = 0 then Panic UndefinedBehaviour
     else
       let pps = int_of_i64 (n sdiv srsu2ms us);
           pps = (if pps = 0 \<and> nn > rs_total s then 1 else pps)
       in Ok (sample_update nn now pps s))))"

text \<open>\<^verbatim>\<open>if (now - sample.time >= window) srs_pps_update(sample, nn, now)\<close>.\<close>

definition sample_tick :: "int \<Rightarrow> int \<Rightarrow> int \<Rightarrow> SrsRateSample \<Rightarrow> SrsRateSample outcome" where
  "sample_tick window nn now s =
     then_do (i64 (now - rs_time s)) (\<lambda>d.
     if d \<ge> window * SRS_UTIME_SECONDS then srs_pps_update nn now s else Ok s)"

record SrsPps =
  pps_clk :: bool
  pps_10s :: SrsRateSample
  pps_30s :: SrsRateSample
  pps_1m :: SrsRateSample
  pps_5m :: SrsRateSample
  pps_60m :: SrsRateSample
  pps_sugar :: int

text \<open>\<open>clk\<close> tells whether \<^verbatim>\<open>_srs_clock\<close> was there when the object was made.\<close>

definition SrsPps_new :: "bool \<Rightarrow> SrsPps" where
  "SrsPps_new clk = \<lparr>pps_clk = clk, pps_10s = sample_new, pps_30s = sample_new, pps_1m = sample_new,
     pps_5m = sample_new, pps_60m = sample_new, pps_sugar = 0\<rparr>"

text \<open>\<open>now\<close> is what the clock says.\<close>

definition pps_update :: "int \<Rightarrow> int \<Rightarrow> SrsPps \<Rightarrow> SrsPps outcome" where
  "pps_update nn now p =
     (if \<not> pps_clk p then Panic AssertFailed
      else
       (let a = srs_pps_init nn now (pps_10s p);
            b = srs_pps_init nn now (pps_30s p);
            c = srs_pps_init nn now (pps_1m p);
            d = srs_pps_init nn now (pps_5m p);
            e = srs_pps_init nn now (pps_60m p) in
        then_do (sample_tick 10 nn now a) (\<lambda>a.
        then_do (sample_tick 30 nn now b) (\<lambda>b.
        then_do (sample_tick 60 nn now c) (\<lambda>c.
        then_do (sample_tick 300 nn now d) (\<lambda>d.
        then_do (sample_tick 3600 nn now e) (\<lambda>e.
        Ok (p\<lparr>pps_10s := a, pps_30s := b, pps_1m := c, pps_5m := d, pps_60m := e\<rparr>))))))))"

definition pps_update_sugar :: "int \<Rightarrow> SrsPps \<Rightarrow> SrsPps outcome" where
  "pps_update_sugar now p = pps_update (pps_sugar p) now p"

definition r10s :: "SrsPps \<Rightarrow> int" where
  "r10s p = 0"

subsection \<open>The clock monitor\<close>

text \<open>
  The counters, each the \<^verbatim>\<open>sugar\<close> of one \<^verbatim>\<open>_srs_pps_clock_*\<close>; the last is \<^verbatim>\<open>_srs_pps_timer_s\<close>.
  They are global pointers that start as \<^verbatim>\<open>NULL\<close> (\<open>None\<close>).
\<close>

datatype bucket = B15 | B20 | B25 | B30 | B35 | B40 | B80 | B160 | BSlow

definition bucket_of :: "int \<Rightarrow> bucket" where
  "bucket_of elapsed =
     (if elapsed \<le> 15 * SRS_UTIME_MILLISECONDS then B15
      else if elapsed \<le> 21 * SRS_UTIME_MILLISECONDS then B20
      else if elapsed \<le> 25 * SRS_UTIME_MILLISECONDS then B25
      else if elapsed \<le> 30 * SRS_UTIME_MILLISECONDS then B30
      else if elapsed \<le> 35 * SRS_UTIME_MILLISECONDS then B35
      else if elapsed \<le> 40 * SRS_UTIME_MILLISECONDS then B40
      else if elapsed \<le> 80 * SRS_UTIME_MILLISECONDS then B80
      else if elapsed \<le> 160 * SRS_UTIME_MILLISECONDS then B160
      else BSlow)"

text \<open>\<open>mon_clock\<close> is the function's static variable \<^verbatim>\<open>clock\<close>, 0 before the first call.\<close>

record monitor =
  mon_sys :: sys_time
  mon_clock :: int
  mon_count :: "bucket \<Rightarrow> int option"

definition monitor_init :: monitor where
  "monitor_init = \<lparr>mon_sys = sys_time_init, mon_clock = 0, mon_count = (\<lambda>_. None)\<rparr>"

definition clock_on_timer :: "(int \<times> int) option \<Rightarrow> (monitor, unit) call" where
  "clock_on_timer tv m = (case srs_update_system_time tv (mon_sys m) of
      (Panic q, s) \<Rightarrow> (Panic q, m\<lparr>mon_sys := s\<rparr>)
    | (Err e, s) \<Rightarrow> (Err e, m\<lparr>mon_sys := s\<rparr>)
    | (Ok now, s) \<Rightarrow>
       (let m = m\<lparr>mon_sys := s\<rparr> in
        if mon_clock m = 0 then (Ok (), m\<lparr>mon_clock := now\<rparr>)
        else (case i64 (now - mon_clock m) of
            Panic q \<Rightarrow> (Panic q, m)
          | Err e \<Rightarrow> (Err e, m)
          | Ok elapsed \<Rightarrow>
             let b = bucket_of elapsed; m = m\<lparr>mon_clock := now\<rparr> in
             (case mon_count m b of
                None \<Rightarrow> (Panic UndefinedBehaviour, m)
              | Some k \<Rightarrow> (Ok (), m\<lparr>mon_count := (mon_count m)(b := Some (k + 1))\<rparr>)))))"

subsection \<open>The samples against their specification\<close>

text \<open>
  What a sample is after an update: restarted when it is new or the total went down, as it was
  before the window is over, and else with the rate per second since its last change, at least 1
  when there was any progress.
\<close>

definition sample_spec :: "int \<Rightarrow> int \<Rightarrow> int \<Rightarrow> SrsRateSample \<Rightarrow> SrsRateSample" where
  "sample_spec window nn now s =
     (if rs_time s < 0 \<or> nn < rs_total s then s\<lparr>rs_total := nn, rs_time := now, rs_rate := 0\<rparr>
      else if now - rs_time s < window * 1000000 then s
      else s\<lparr>rs_total := nn, rs_time := now,
        rs_rate := max (if rs_total s < nn then 1 else 0)
          ((nn - rs_total s) * 1000 div ((now - rs_time s) div 1000))\<rparr>)"

text \<open>A sample as the program has it at time \<open>t\<close>.\<close>

definition sample_ok :: "int \<Rightarrow> SrsRateSample \<Rightarrow> bool" where
  "sample_ok t s \<longleftrightarrow> (rs_time s = - 1 \<or> 0 \<le> rs_time s \<and> rs_time s \<le> t \<and> 0 \<le> rs_total s) \<and> 0 \<le> rs_rate s"

lemma sdiv_nonneg: "0 \<le> a \<Longrightarrow> 0 < b \<Longrightarrow> a sdiv b = (a :: int) div b"
  by (cases "a = 0") (simp_all add: signed_divide_int_def)

text \<open>The rate of a sample: the operations of the count are those of the integers while nothing overflows.\<close>

lemma rate_bounds:
  assumes "0 \<le> n" and "n < 2 ^ 31" and "1000000 \<le> (d :: int)"
  shows "0 \<le> n * 1000 div (d div 1000)" and "n * 1000 div (d div 1000) < 2 ^ 31"
proof -
  have ms: "1000 \<le> d div 1000" using assms(3) by linarith
  have n1000: "0 \<le> n * 1000" using assms(1) by simp
  show "0 \<le> n * 1000 div (d div 1000)" using n1000 ms by (subst pos_imp_zdiv_nonneg_iff) simp_all
  have "n * 1000 div (d div 1000) \<le> n * 1000 div 1000" by (rule zdiv_mono2 [OF n1000 _ ms]) simp
  also have "\<dots> = n" by (rule nonzero_mult_div_cancel_right) simp
  finally show "n * 1000 div (d div 1000) < 2 ^ 31" using assms(2) by linarith
qed

lemma pps_update_value:
  assumes "0 \<le> nn - rs_total s" and "nn - rs_total s < 2 ^ 31" and "1000000 \<le> now - rs_time s" and "now - rs_time s < 2 ^ 63"
  shows "srs_pps_update nn now s =
    Ok (sample_update nn now (max (if rs_total s < nn then 1 else 0) ((nn - rs_total s) * 1000 div ((now - rs_time s) div 1000))) s)"
proof -
  let ?d = "now - rs_time s" and ?n = "nn - rs_total s"
  let ?q = "?n * 1000 div (?d div 1000)"
  note q = rate_bounds [OF assms(1-3)]
  have ms: "1000 \<le> ?d div 1000" using assms(3) by linarith
  have cast: "int_of_i64 ?q = ?q" using q by (simp add: int_of_i64_def signed_of_int signed_take_bit_int_eq_self)
  have div1: "srsu2ms ?d = ?d div 1000" using assms(3) by (simp add: srsu2ms_def utime_defs sdiv_nonneg)
  have div2: "(?n * 1000) sdiv (?d div 1000) = ?q" using assms(1) ms by (intro sdiv_nonneg) simp_all
  have ok: "i64 ?n = Ok ?n" "i64 (?n * 1000) = Ok (?n * 1000)" "i64 ?d = Ok ?d" using assms by (auto simp: i64_def)
  have "?d div 1000 \<noteq> 0" using ms by simp
  then have "srs_pps_update nn now s = Ok (sample_update nn now (if ?q = 0 \<and> nn > rs_total s then 1 else ?q) s)"
    unfolding srs_pps_update_def ok then_do.simps div1 div2 cast Let_def by simp
  moreover have "(if ?q = 0 \<and> nn > rs_total s then 1 else ?q) = max (if rs_total s < nn then 1 else 0) ?q" using q(1) by auto
  ultimately show ?thesis by (simp only:)
qed

lemma sample_step_spec:
  assumes "sample_ok t s" and "t \<le> now" and "0 \<le> now" and "now < 2 ^ 62" and "0 \<le> nn" and "nn < 2 ^ 31"
    and "1 \<le> w" and "w \<le> 3600"
  shows "sample_tick w nn now (srs_pps_init nn now s) = Ok (sample_spec w nn now s) \<and> sample_ok now (sample_spec w nn now s)"
proof -
  let ?d = "now - rs_time s" and ?n = "nn - rs_total s"
  consider (restart) "rs_time s < 0 \<or> nn < rs_total s"
    | (early) "0 \<le> rs_time s" "rs_total s \<le> nn" "?d < w * 1000000"
    | (late) "0 \<le> rs_time s" "rs_total s \<le> nn" "w * 1000000 \<le> ?d"
    by linarith
  then show ?thesis
  proof cases
    case restart
    then have "srs_pps_init nn now s = sample_spec w nn now s"
      by (simp add: srs_pps_init_def sample_spec_def sample_update_def)
    moreover have "rs_time (sample_spec w nn now s) = now" "rs_total (sample_spec w nn now s) = nn"
      "rs_rate (sample_spec w nn now s) = 0" using restart by (auto simp: sample_spec_def)
    ultimately show ?thesis using assms by (simp add: sample_tick_def i64_def utime_defs sample_ok_def)
  next
    case early
    then have s: "sample_spec w nn now s = s" "srs_pps_init nn now s = s"
      by (auto simp: sample_spec_def srs_pps_init_def)
    have "rs_time s \<le> t" using early(1) assms(1) by (auto simp: sample_ok_def)
    with early assms show ?thesis
      by (simp add: s) (auto simp: sample_tick_def i64_def utime_defs sample_ok_def)
  next
    case late
    have tot: "0 \<le> rs_total s" "rs_time s \<le> t" using late(1) assms(1) by (auto simp: sample_ok_def)
    have n: "0 \<le> ?n" "?n < 2 ^ 31" and d: "1000000 \<le> ?d" "?d < 2 ^ 63" using late assms tot by auto
    let ?q = "?n * 1000 div (?d div 1000)"
    have init: "srs_pps_init nn now s = s" using late by (auto simp: srs_pps_init_def)
    have "i64 ?d = Ok ?d" using d by (auto simp: i64_def)
    then have "sample_tick w nn now s = srs_pps_update nn now s" using late(3) by (simp add: sample_tick_def utime_defs)
    moreover have "sample_spec w nn now s = sample_update nn now (max (if rs_total s < nn then 1 else 0) ?q) s"
      using late by (auto simp: sample_spec_def sample_update_def)
    moreover have "sample_ok now (sample_update nn now (max k ?q) s)" for k
      using assms(3,5) rate_bounds(1) [OF n d(1)] by (simp only: sample_ok_def sample_update_def le_max_iff_disj) simp
    ultimately show ?thesis by (simp only: init pps_update_value [OF n d])
  qed
qed

definition pps_ok :: "int \<Rightarrow> SrsPps \<Rightarrow> bool" where
  "pps_ok t p \<longleftrightarrow> pps_clk p \<and> sample_ok t (pps_10s p) \<and> sample_ok t (pps_30s p) \<and>
     sample_ok t (pps_1m p) \<and> sample_ok t (pps_5m p) \<and> sample_ok t (pps_60m p)"

lemma pps_ok_new: "pps_ok t (SrsPps_new True)"
  by (simp add: pps_ok_def SrsPps_new_def sample_ok_def sample_new_def)

text \<open>
  C39. While the clock does not go back and totals stay below \<open>2 ^ 31\<close>, every update of a \<^verbatim>\<open>SrsPps\<close>
  goes through, each of its five samples becomes what its specification says for its window of
  10, 30, 60, 300 or 3600 seconds, and the state stays one from which the next update goes through;
  \<^verbatim>\<open>r10s\<close> reports 0 all the same.
\<close>

theorem pps_update_spec:
  assumes "pps_ok t p" and "t \<le> now" and "0 \<le> now" and "now < 2 ^ 62" and "0 \<le> nn" and "nn < 2 ^ 31"
  shows "\<exists>p'. pps_update nn now p = Ok p' \<and> pps_ok now p' \<and>
    pps_10s p' = sample_spec 10 nn now (pps_10s p) \<and> pps_30s p' = sample_spec 30 nn now (pps_30s p) \<and>
    pps_1m p' = sample_spec 60 nn now (pps_1m p) \<and> pps_5m p' = sample_spec 300 nn now (pps_5m p) \<and>
    pps_60m p' = sample_spec 3600 nn now (pps_60m p) \<and> r10s p' = 0"
  using assms(1) unfolding pps_ok_def pps_update_def Let_def r10s_def
  by (simp add: sample_step_spec [OF _ assms(2-6)])

theorem pps_update_spec_witness:
  "\<exists>p'. then_do (pps_update 5 1000000 (SrsPps_new True)) (pps_update 105 11000000) = Ok p' \<and>
     rs_rate (pps_10s p') = 10 \<and> r10s p' = 0"
proof -
  obtain p where p: "pps_update 5 1000000 (SrsPps_new True) = Ok p" "pps_ok 1000000 p"
    "pps_10s p = sample_spec 10 5 1000000 (pps_10s (SrsPps_new True))"
    using pps_update_spec [OF pps_ok_new, of 0 1000000 5] by auto
  obtain p' where "pps_update 105 11000000 p = Ok p'" "r10s p' = 0"
    "pps_10s p' = sample_spec 10 105 11000000 (pps_10s p)"
    using pps_update_spec [OF p(2), of 11000000 105] by auto
  with p show ?thesis by (simp add: sample_spec_def SrsPps_new_def sample_new_def)
qed

subsection \<open>The clock\<close>

text \<open>
  An update of the cached time with a clock value in range stores it; the start time never goes
  back, and the time since the start grows by no more than 300 seconds in one update, whatever the
  clock jumps ahead. When the clock goes back, the start time stays, so that the time since the
  start goes back with it.
\<close>

theorem system_time_update:
  assumes "0 < st_cache s" and "st_cache s < 2 ^ 62" and "0 \<le> sec" and "sec < 2 ^ 41"
    and "0 \<le> usec" and "usec < 1000000"
  defines "now \<equiv> sec * 1000000 + usec"
  shows "\<exists>t. srs_update_system_time (Some (sec, usec)) s = (Ok now, t) \<and> st_cache t = now \<and>
    st_startup s \<le> st_startup t \<and>
    st_cache t - st_startup t \<le> st_cache s - st_startup s + 300000000 \<and>
    (now \<le> st_cache s \<longrightarrow> st_startup t = st_startup s)"
proof -
  have us: "0 \<le> sec * 1000000" "sec * 1000000 < 2 ^ 41 * 1000000" using assms by simp_all
  then have r: "i64 (sec * 1000 * 1000) = Ok (sec * 1000000)" "i64 (sec * 1000000 + usec) = Ok now"
    using assms by (auto simp: i64_def)
  have "i64 (now - st_cache s) = Ok (now - st_cache s)"
    using assms(1,2,5,6) us by (auto simp: i64_def now_def)
  with r assms(1) show ?thesis
    by (simp add: srs_update_system_time_def Let_def clock_jump_us_def) (auto simp: max_def)
qed

theorem system_time_update_witness:
  "\<exists>t. srs_update_system_time (Some (2000, 0)) \<lparr>st_cache = 1000000000, st_startup = 1000000000\<rparr> = (Ok 2000000000, t) \<and>
     st_cache t - st_startup t \<le> 300000000"
  using system_time_update [of "\<lparr>st_cache = 1000000000, st_startup = 1000000000\<rparr>" 2000 0] by auto

subsection \<open>The monitor counts every tick once\<close>

definition counts :: "monitor \<Rightarrow> bucket \<Rightarrow> int" where
  "counts m b = (case mon_count m b of None \<Rightarrow> 0 | Some k \<Rightarrow> k)"

definition monitor_total :: "monitor \<Rightarrow> int" where
  "monitor_total m = counts m B15 + counts m B20 + counts m B25 + counts m B30 +
     counts m B35 + counts m B40 + counts m B80 + counts m B160 + counts m BSlow"

text \<open>The monitor once somebody made the counters, as \<^verbatim>\<open>SrsPps\<close> objects with \<^verbatim>\<open>sugar = 0\<close>.\<close>

definition monitor_start :: monitor where
  "monitor_start = monitor_init\<lparr>mon_count := (\<lambda>_. Some 0)\<rparr>"

definition all_made :: "monitor \<Rightarrow> bool" where
  "all_made m \<longleftrightarrow> (\<forall>b. mon_count m b \<noteq> None)"

fun monitor_run :: "(int \<times> int) option list \<Rightarrow> (monitor, unit) call" where
  "monitor_run [] = ret ()"
| "monitor_run (tv # tvs) = bind (clock_on_timer tv) (\<lambda>_. monitor_run tvs)"

definition valid_tv :: "(int \<times> int) option \<Rightarrow> bool" where
  "valid_tv tv \<longleftrightarrow> (\<exists>sec usec. tv = Some (sec, usec) \<and> 0 < sec \<and> sec < 2 ^ 41 \<and> 0 \<le> usec \<and> usec < 1000000)"

definition monitor_ok :: "monitor \<Rightarrow> bool" where
  "monitor_ok m \<longleftrightarrow> 0 \<le> st_cache (mon_sys m) \<and> st_cache (mon_sys m) < 2 ^ 62 \<and>
     mon_clock m = st_cache (mon_sys m)"

lemma update_valid:
  assumes "valid_tv tv" and "0 \<le> st_cache s" and "st_cache s < 2 ^ 62"
  obtains now t where "srs_update_system_time tv s = (Ok now, t)" "st_cache t = now" "0 < now" "now < 2 ^ 62"
proof -
  obtain sec usec where tv: "tv = Some (sec, usec)" "0 < sec" "sec < 2 ^ 41" "0 \<le> usec" "usec < 1000000"
    using assms(1) by (auto simp: valid_tv_def)
  let ?now = "sec * 1000000 + usec"
  have now: "0 < ?now" "?now < 2 ^ 62" using tv by simp_all
  show thesis
  proof (cases "st_cache s = 0")
    case True
    then have "srs_update_system_time tv s = (Ok ?now, s\<lparr>st_startup := ?now, st_cache := ?now\<rparr>)"
      using tv by (simp add: srs_update_system_time_def i64_def)
    with now show thesis using that by simp
  next
    case False
    with assms tv obtain t where "srs_update_system_time tv s = (Ok ?now, t)" "st_cache t = ?now"
      using system_time_update [of s sec usec] by auto
    with now show thesis using that by blast
  qed
qed

lemma bucket_counts_one: "mon_count m b = Some k \<Longrightarrow>
    monitor_total (m\<lparr>mon_count := (mon_count m)(b := Some (k + 1))\<rparr>) = monitor_total m + 1"
  by (cases b) (simp_all add: monitor_total_def counts_def)

lemma monitor_total_cong: "mon_count m = mon_count m' \<Longrightarrow> monitor_total m = monitor_total m'"
  by (simp add: monitor_total_def counts_def)

lemma clock_on_timer_first:
  assumes "valid_tv tv" and "monitor_ok m" and "mon_clock m = 0"
  obtains m' where "clock_on_timer tv m = (Ok (), m')" "monitor_ok m'" "0 < mon_clock m'"
    "mon_count m' = mon_count m"
proof -
  obtain now s where s: "srs_update_system_time tv (mon_sys m) = (Ok now, s)" "st_cache s = now"
    "0 < now" "now < 2 ^ 62" using update_valid [OF assms(1), of "mon_sys m"] assms(2) unfolding monitor_ok_def by metis
  with assms(3) show thesis
    by (intro that [of "m\<lparr>mon_sys := s, mon_clock := now\<rparr>"])
      (simp_all add: clock_on_timer_def Let_def monitor_ok_def)
qed

lemma clock_on_timer_next:
  assumes "valid_tv tv" and "monitor_ok m" and "0 < mon_clock m"
  obtains m1 b where "monitor_ok m1" "0 < mon_clock m1" "mon_count m1 = mon_count m"
    "clock_on_timer tv m = (case mon_count m b of
       None \<Rightarrow> (Panic UndefinedBehaviour, m1)
     | Some k \<Rightarrow> (Ok (), m1\<lparr>mon_count := (mon_count m)(b := Some (k + 1))\<rparr>))"
proof -
  obtain now s where s: "srs_update_system_time tv (mon_sys m) = (Ok now, s)" "st_cache s = now"
    "0 < now" "now < 2 ^ 62" using update_valid [OF assms(1), of "mon_sys m"] assms(2) unfolding monitor_ok_def by metis
  moreover have "i64 (now - mon_clock m) = Ok (now - mon_clock m)"
    using s assms(2) by (auto simp: i64_def monitor_ok_def)
  ultimately show thesis using assms(3)
    by (intro that [of "m\<lparr>mon_sys := s, mon_clock := now\<rparr>" "bucket_of (now - mon_clock m)"])
      (simp_all add: clock_on_timer_def Let_def monitor_ok_def split: option.split)
qed

lemma clock_on_timer_counts:
  assumes "valid_tv tv" and "monitor_ok m" and "0 < mon_clock m" and "all_made m"
  obtains m' where "clock_on_timer tv m = (Ok (), m')" "monitor_ok m'" "0 < mon_clock m'"
    "all_made m'" "monitor_total m' = monitor_total m + 1"
proof -
  obtain m1 b where m1: "monitor_ok m1" "0 < mon_clock m1" "mon_count m1 = mon_count m"
    "clock_on_timer tv m = (case mon_count m b of None \<Rightarrow> (Panic UndefinedBehaviour, m1)
       | Some k \<Rightarrow> (Ok (), m1\<lparr>mon_count := (mon_count m)(b := Some (k + 1))\<rparr>))"
    using assms(1-3) by (rule clock_on_timer_next)
  obtain k where k: "mon_count m b = Some k" using assms(4) by (auto simp: all_made_def)
  have "monitor_total (m1\<lparr>mon_count := (mon_count m1)(b := Some (k + 1))\<rparr>) = monitor_total m + 1"
    using bucket_counts_one [of m1 b k] monitor_total_cong [of m1 m] m1(3) k by simp
  with m1 k assms(4) show thesis
    by (intro that [of "m1\<lparr>mon_count := (mon_count m)(b := Some (k + 1))\<rparr>"])
      (simp_all add: monitor_ok_def all_made_def)
qed

text \<open>
  Whatever times the clock gives, each tick of the clock monitor after the first is counted in
  exactly one of its nine counters, provided that the counters were made; with the global pointers
  as they are defined, all \<^verbatim>\<open>NULL\<close>, the second tick already dereferences one of them.
\<close>

theorem monitor_counts_ticks:
  assumes "list_all valid_tv tvs" and "tvs \<noteq> []"
  shows "(\<exists>m. monitor_run tvs monitor_start = (Ok (), m) \<and> monitor_total m = int (length tvs) - 1) \<and>
    (length tvs \<noteq> 1 \<longrightarrow> fst (monitor_run tvs monitor_init) = Panic UndefinedBehaviour)"
proof -
  have run: "\<exists>m'. monitor_run tvs m = (Ok (), m') \<and> monitor_total m' = monitor_total m + int (length tvs)"
    if "list_all valid_tv tvs" "monitor_ok m" "0 < mon_clock m" "all_made m" for tvs m
    using that
  proof (induction tvs arbitrary: m)
    case (Cons tv tvs)
    then obtain m1 where m1: "clock_on_timer tv m = (Ok (), m1)" "monitor_ok m1" "0 < mon_clock m1"
      "all_made m1" "monitor_total m1 = monitor_total m + 1" by (auto elim: clock_on_timer_counts [of tv m])
    with Cons obtain m2 where "monitor_run tvs m1 = (Ok (), m2)"
      "monitor_total m2 = monitor_total m1 + int (length tvs)" by fastforce
    with m1 show ?case by (auto simp: bind_def)
  qed simp
  obtain tv us where tvs: "tvs = tv # us" using assms(2) by (cases tvs) auto
  have ok: "monitor_ok monitor_start" "mon_clock monitor_start = 0"
    "monitor_ok monitor_init" "mon_clock monitor_init = 0"
    by (simp_all add: monitor_ok_def monitor_start_def monitor_init_def sys_time_init_def)
  have tv: "valid_tv tv" "list_all valid_tv us" using assms(1) tvs by simp_all
  obtain m1 where m1: "clock_on_timer tv monitor_start = (Ok (), m1)" "monitor_ok m1" "0 < mon_clock m1"
    "mon_count m1 = mon_count monitor_start" using tv(1) ok(1,2) by (rule clock_on_timer_first)
  then have "all_made m1" "monitor_total m1 = 0"
    by (simp_all add: all_made_def monitor_start_def monitor_total_def counts_def)
  with run [OF tv(2) m1(2,3)] m1(1) tvs
  have 1: "\<exists>m. monitor_run tvs monitor_start = (Ok (), m) \<and> monitor_total m = int (length tvs) - 1"
    by (auto simp: bind_def)
  obtain m2 where m2: "clock_on_timer tv monitor_init = (Ok (), m2)" "monitor_ok m2" "0 < mon_clock m2"
    "mon_count m2 = mon_count monitor_init" using tv(1) ok(3,4) by (rule clock_on_timer_first)
  have "fst (monitor_run us m2) = Panic UndefinedBehaviour" if us: "us = u # us'" for u us'
  proof -
    have "valid_tv u" using tv(2) us by simp
    then obtain m3 where "clock_on_timer u m2 = (Panic UndefinedBehaviour, m3)"
      using m2(2-4) by (elim clock_on_timer_next) (auto simp: monitor_init_def)
    then show ?thesis by (simp add: us bind_def)
  qed
  then have "length tvs \<noteq> 1 \<Longrightarrow> fst (monitor_run tvs monitor_init) = Panic UndefinedBehaviour"
    using m2(1) by (cases us) (simp_all add: tvs bind_def)
  with 1 show ?thesis by blast
qed

theorem monitor_counts_ticks_witness:
  "(\<exists>m. monitor_run [Some (1, 0), Some (1, 20000), Some (2, 0)] monitor_start = (Ok (), m) \<and> monitor_total m = 2) \<and>
   fst (monitor_run [Some (1, 0), Some (1, 20000), Some (2, 0)] monitor_init) = Panic UndefinedBehaviour"
  using monitor_counts_ticks [of "[Some (1, 0), Some (1, 20000), Some (2, 0)]"]
  by (auto simp: valid_tv_def)

end
