(* ===== verification/AppVersion.thy ===== *)
theory AppVersion
  imports AppClient AppFeatures AppLog KernelTime
begin

section \<open>The query of the latest version\<close>

text \<open>
  \<^verbatim>\<open>SrsLatestVersion\<close> of \<^verbatim>\<open>srs_app_latest_version.cpp\<close>: the identity of the server, the wait before the
  first query, the loop of queries, and what a query takes from the answer. The world \<open>'w\<close>, the client,
  the generated constants and the functions of the system are arguments.
\<close>

definition ERROR_HTTP_DATA_INVALID :: int where "ERROR_HTTP_DATA_INVALID = 3008"
definition ERROR_RESPONSE_CODE :: int where "ERROR_RESPONSE_CODE = 3064"
definition ERROR_HTTP_STATUS_INVALID :: int where "ERROR_HTTP_STATUS_INVALID = 4005"

record 'w version_env =
  ve_client :: "'w http_client"
  ve_pow10 :: "int \<Rightarrow> 64 word"
  ve_enabled :: bool
  ve_version :: string
  ve_build :: build_env
  ve_conf :: conf_queries
  ve_root :: SrsConfDirective
  ve_eip :: "'w \<Rightarrow> string"
  ve_startup :: "'w \<Rightarrow> int"
  ve_timeofday :: "'w \<Rightarrow> (int \<times> int) option"
  ve_pid :: int
  ve_uuid :: "('w, nat list) call"
  ve_random :: "('w, int) call"
  ve_start :: "('w, unit) call"
  ve_pull :: "('w, unit) call"
  ve_usleep :: "int \<Rightarrow> 'w \<Rightarrow> 'w"

record 'w SrsLatestVersion =
  lv_world :: 'w
  lv_clock :: sys_time
  lv_server_id :: string
  lv_match :: string
  lv_stable :: string

definition on_world :: "('w, 'a) call \<Rightarrow> ('w SrsLatestVersion, 'a) call" where
  "on_world m s = (case m (lv_world s) of (r, w) \<Rightarrow> (r, s\<lparr>lv_world := w\<rparr>))"

definition get_time :: "'w version_env \<Rightarrow> ('w SrsLatestVersion, int) call" where
  "get_time env s = (case srs_get_system_time (ve_timeofday env (lv_world s)) (lv_clock s) of (r, c) \<Rightarrow> (r, s\<lparr>lv_clock := c\<rparr>))"

definition update_time :: "'w version_env \<Rightarrow> ('w SrsLatestVersion, int) call" where
  "update_time env s = (case srs_update_system_time (ve_timeofday env (lv_world s)) (lv_clock s) of (r, c) \<Rightarrow> (r, s\<lparr>lv_clock := c\<rparr>))"

definition sleep :: "'w version_env \<Rightarrow> int \<Rightarrow> ('w SrsLatestVersion, unit) call" where
  "sleep env usecs s = (Ok (), s\<lparr>lv_world := ve_usleep env usecs (lv_world s)\<rparr>)"

subsection \<open>The identity of the server\<close>

definition hex2 :: "nat \<Rightarrow> string" where
  "hex2 u = [hex_digit (u div 16), hex_digit (u mod 16)]"

text \<open>\<^verbatim>\<open>snprintf(buf + i * 2, sizeof(buf), "%02x", uuid[i])\<close> for the bytes from the \<open>i\<close>th on.\<close>

fun put_uuid :: "nat \<Rightarrow> nat list \<Rightarrow> (log_buf, unit) call" where
  "put_uuid i [] = ret ()"
| "put_uuid i (u # us) = bind (snprintf_at (int i * 2) 32 (hex2 u)) (\<lambda>_. put_uuid (i + 1) us)"

text \<open>\<open>buf\<close> are the 32 characters of the buffer before they are written.\<close>

definition version_start :: "'w version_env \<Rightarrow> log_buf \<Rightarrow> ('w SrsLatestVersion, unit) call" where
  "version_start env buf =
     (if \<not> ve_enabled env then ret ()
      else bind (on_world (ve_uuid env)) (\<lambda>uuid.
        bind (\<lambda>s. case put_uuid 0 uuid buf of
            (Ok _, b) \<Rightarrow> (Ok (), s\<lparr>lv_server_id := take 32 b\<rparr>)
          | (Err e, b) \<Rightarrow> (Err e, s)
          | (Panic q, b) \<Rightarrow> (Panic q, s)) (\<lambda>_.
        on_world (ve_start env))))"

subsection \<open>A query\<close>

definition latest_url :: "'w version_env \<Rightarrow> ('w SrsLatestVersion, string) call" where
  "latest_url env =
     bind (get_time env) (\<lambda>ts.
     bind (get_time env) (\<lambda>now.
     bind (gets (\<lambda>s. now - ve_startup env (lv_world s))) (\<lambda>up.
     bind (stateless (i64 up)) (\<lambda>up.
     gets (\<lambda>s. ''http://api.ossrs.net/service/v1/releases?'' @ ''version=v'' @ ve_version env @
       ''&id='' @ lv_server_id s @ ''&role=srs'' @ ''&eip='' @ ve_eip env (lv_world s) @
       ''&ts='' @ dec_of_int ts @ ''&alive='' @ dec_of_int (srsu2ms up sdiv 1000) @
       srs_build_features (ve_build env) (ve_conf env) (ve_root env))))))"

text \<open>What is done with the body of the answer. The first version is stored before the second is looked for.\<close>

definition take_string :: "string \<Rightarrow> string \<Rightarrow> json_props \<Rightarrow> (string \<Rightarrow> 's \<Rightarrow> 's) \<Rightarrow> ('s, unit) call" where
  "take_string name msg obj store = (case json_ensure_string name obj of
      None \<Rightarrow> fail (srs_error_new ERROR_RESPONSE_CODE msg)
    | Some prop \<Rightarrow> bind (stateless (json_to_str prop)) (\<lambda>v s. (Ok (), store v s)))"

definition read_release :: "'w version_env \<Rightarrow> string \<Rightarrow> ('w SrsLatestVersion, unit) call" where
  "read_release env res =
     bind (stateless (json_loads (ve_pow10 env) (c_str res))) (\<lambda>jres. case jres of
        None \<Rightarrow> fail (srs_error_new ERROR_HTTP_DATA_INVALID ''invalid response %s'')
      | Some j \<Rightarrow>
         if \<not> json_is_object j then fail (srs_error_new ERROR_HTTP_DATA_INVALID ''invalid response %s'')
         else bind (stateless (json_to_object j)) (\<lambda>obj.
           bind (take_string ''match_version'' ''no match_version'' obj (\<lambda>v s. s\<lparr>lv_match := v\<rparr>)) (\<lambda>_.
           take_string ''stable_version'' ''no stable_version'' obj (\<lambda>v s. s\<lparr>lv_stable := v\<rparr>))))"

definition query_latest_version :: "'w version_env \<Rightarrow> ('w SrsLatestVersion, unit) call" where
  "query_latest_version env =
     (let c = ve_client env in
      bind (latest_url env) (\<lambda>url.
      bind (wrap_err ''http: post failed. url=%s'' (stateless (hc_uri c url))) (\<lambda>uri.
      bind (on_world (hc_initialize c (uri_schema uri) (uri_host uri) (uri_port uri))) (\<lambda>_.
      bind (on_world (hc_get c (uri_path uri @ ''?'' @ uri_query uri) [])) (\<lambda>msg.
      bind (on_world (hm_read_all msg)) (\<lambda>res.
      if hm_status msg \<noteq> 200 then fail (srs_error_new ERROR_HTTP_STATUS_INVALID ''invalid response status=%d'')
      else if res = [] then fail (srs_error_new ERROR_HTTP_DATA_INVALID ''invalid empty response'')
      else read_release env res))))))"

subsection \<open>The loop\<close>

text \<open>
  The sum of the random number, the time and the process is an \<^verbatim>\<open>int64_t\<close>; then it is taken as a
  \<^verbatim>\<open>uint64_t\<close>.
\<close>

definition first_random_wait :: "'w version_env \<Rightarrow> ('w SrsLatestVersion, int) call" where
  "first_random_wait env =
     bind (on_world (ve_random env)) (\<lambda>r.
     bind (update_time env) (\<lambda>now.
     bind (stateless (i64 (r + now))) (\<lambda>x.
     bind (stateless (i64 (x + ve_pid env))) (\<lambda>x.
     ret ((x mod 2 ^ 64) mod (5 * 60) * SRS_UTIME_SECONDS + 5 * 60 * SRS_UTIME_SECONDS)))))"

text \<open>The body of the loop behind \<^verbatim>\<open>pull\<close>: any error of the query is freed and ignored.\<close>

definition version_body :: "'w version_env \<Rightarrow> ('w SrsLatestVersion, unit) call" where
  "version_body env =
     bind (update_time env) (\<lambda>starttime.
     bind (ignore_err (query_latest_version env)) (\<lambda>_.
     bind (update_time env) (\<lambda>now.
     bind (stateless (i64 (now - starttime))) (\<lambda>_.
     sleep env (3600 * SRS_UTIME_SECONDS)))))"

fun version_loop :: "nat \<Rightarrow> 'w version_env \<Rightarrow> ('w SrsLatestVersion, unit) call" where
  "version_loop 0 env = panic OutOfFuel"
| "version_loop (Suc fuel) env =
     bind (on_world (ve_pull env)) (\<lambda>_.
     bind (version_body env) (\<lambda>_. version_loop fuel env))"

definition version_cycle :: "nat \<Rightarrow> 'w version_env \<Rightarrow> ('w SrsLatestVersion, unit) call" where
  "version_cycle fuel env =
     bind (first_random_wait env) (\<lambda>wait.
     bind (sleep env wait) (\<lambda>_.
     version_loop fuel env))"

subsection \<open>The identity does not fit\<close>

lemma snprintf_hex2:
  assumes "length pre = 2 * i"
  shows "3 \<le> length mid \<Longrightarrow> snprintf_at (int i * 2) 32 (hex2 u) (pre @ mid) = (Ok 2, (pre @ hex2 u) @ CHR 0x00 # drop 3 mid)"
    and "length mid < 3 \<Longrightarrow> fst (snprintf_at (int i * 2) 32 (hex2 u) (pre @ mid)) = Panic UndefinedBehaviour"
proof -
  have off: "nat (int i * 2) = length pre" "int (length (pre @ mid)) - int i * 2 = int (length mid)"
    using assms by simp_all
  have k: "nat (min (int (length (hex2 u))) (32 mod 2 ^ 64 - 1)) = 2" by (simp add: hex2_def)
  have small: "\<not> 2 ^ 31 \<le> int (length (hex2 u))" by (simp add: hex2_def)
  have two: "take 2 (hex2 u) = hex2 u" "length (hex2 u) = 2" by (simp_all add: hex2_def)
  have "snprintf_at (int i * 2) 32 (hex2 u) (pre @ mid) =
    (if int (length mid) < int 2 + 1 then (Panic UndefinedBehaviour, pre @ mid)
     else (Ok (int (length (hex2 u))), take (length pre) (pre @ mid) @ take 2 (hex2 u) @ [CHR 0x00] @ drop (length pre + 2 + 1) (pre @ mid)))"
    unfolding snprintf_at_def off k Let_def using small by simp
  then show "3 \<le> length mid \<Longrightarrow> snprintf_at (int i * 2) 32 (hex2 u) (pre @ mid) = (Ok 2, (pre @ hex2 u) @ CHR 0x00 # drop 3 mid)"
    "length mid < 3 \<Longrightarrow> fst (snprintf_at (int i * 2) 32 (hex2 u) (pre @ mid)) = Panic UndefinedBehaviour"
    by (simp_all add: two)
qed

lemma hex2_length [simp]: "length (hex2 u) = 2"
  by (simp add: hex2_def)

lemma put_uuid_fits:
  "length pre = 2 * i \<Longrightarrow> 2 * length us + 1 \<le> length mid \<Longrightarrow> us \<noteq> [] \<Longrightarrow>
    put_uuid i us (pre @ mid) = (Ok (), pre @ concat (map hex2 us) @ [CHR 0x00] @ drop (2 * length us + 1) mid)"
proof (induction us arbitrary: i pre mid)
  case (Cons u us)
  have three: "3 \<le> length mid" using Cons.prems by simp
  have step: "put_uuid i (u # us) (pre @ mid) = put_uuid (i + 1) us ((pre @ hex2 u) @ CHR 0x00 # drop 3 mid)"
    using snprintf_hex2(1) [OF Cons.prems(1) three, of u] by (simp add: bind_def del: append_assoc)
  show ?case
  proof (cases "us = []")
    case False
    have "put_uuid (i + 1) us ((pre @ hex2 u) @ CHR 0x00 # drop 3 mid) = (Ok (), (pre @ hex2 u) @ concat (map hex2 us) @
        [CHR 0x00] @ drop (2 * length us + 1) (CHR 0x00 # drop 3 mid))"
      by (rule Cons.IH) (use Cons.prems False in simp_all)
    then show ?thesis unfolding step by (simp add: numeral_3_eq_3)
  next
    case True
    then show ?thesis unfolding step by (simp add: eval_nat_numeral)
  qed
qed simp

lemma put_uuid_overflow:
  "length pre = 2 * i \<Longrightarrow> length mid = 2 * length us \<Longrightarrow> us \<noteq> [] \<Longrightarrow>
    fst (put_uuid i us (pre @ mid)) = Panic UndefinedBehaviour"
proof (induction us arbitrary: i pre mid)
  case (Cons u us)
  show ?case
  proof (cases "us = []")
    case True
    then have "length mid < 3" using Cons.prems by simp
    from snprintf_hex2(2) [OF Cons.prems(1) this, of u] show ?thesis
      by (cases "snprintf_at (int i * 2) 32 (hex2 u) (pre @ mid)") (simp add: bind_def)
  next
    case False
    then have three: "3 \<le> length mid" using Cons.prems by (cases us) auto
    have "fst (put_uuid (i + 1) us ((pre @ hex2 u) @ CHR 0x00 # drop 3 mid)) = Panic UndefinedBehaviour"
      by (rule Cons.IH) (use Cons.prems three False in simp_all)
    then show ?thesis using snprintf_hex2(1) [OF Cons.prems(1) three, of u] by (simp add: bind_def del: append_assoc)
  qed
qed simp

text \<open>
  C24. The identity of the server does not fit its buffer: the two digits of the sixteenth byte and the NUL
  behind them need a character more than the 32 there are, so that starting the query is undefined
  whenever it is on. With one more character the buffer would be the digits of the bytes in order and
  the NUL.
\<close>

theorem version_identity:
  assumes "length buf = 32" and "ve_uuid env (lv_world s) = (Ok uuid, w)" and "length uuid = 16" and "ve_enabled env"
  shows "fst (version_start env buf s) = Panic UndefinedBehaviour \<and>
    put_uuid 0 uuid (buf @ [c]) = (Ok (), concat (map hex2 uuid) @ [CHR 0x00])"
proof -
  have "uuid \<noteq> []" using assms(3) by auto
  then have "fst (put_uuid 0 uuid buf) = Panic UndefinedBehaviour"
    and "put_uuid 0 uuid (buf @ [c]) = (Ok (), concat (map hex2 uuid) @ [CHR 0x00])"
    using put_uuid_overflow [of "[]" 0 buf uuid] put_uuid_fits [of "[]" 0 uuid "buf @ [c]"] assms(1,3) by simp_all
  moreover obtain b where "put_uuid 0 uuid buf = (Panic UndefinedBehaviour, b)"
    using calculation(1) by (cases "put_uuid 0 uuid buf") auto
  ultimately show ?thesis using assms(2,4) by (simp add: version_start_def bind_def on_world_def)
qed

subsection \<open>The wait\<close>

lemma on_world_Ok: "m (lv_world s) = (r, w) \<Longrightarrow> on_world m s = (r, s\<lparr>lv_world := w\<rparr>)"
  by (simp add: on_world_def)

lemma wait_bounds:
  fixes x :: int
  shows "5 * 60 * SRS_UTIME_SECONDS \<le> (x mod 2 ^ 64) mod (5 * 60) * SRS_UTIME_SECONDS + 5 * 60 * SRS_UTIME_SECONDS"
    and "(x mod 2 ^ 64) mod (5 * 60) * SRS_UTIME_SECONDS + 5 * 60 * SRS_UTIME_SECONDS < 10 * 60 * SRS_UTIME_SECONDS"
proof -
  have "0 \<le> (x mod 2 ^ 64) mod (5 * 60)" "(x mod 2 ^ 64) mod (5 * 60) < 5 * 60" by simp_all
  then show "5 * 60 * SRS_UTIME_SECONDS \<le> (x mod 2 ^ 64) mod (5 * 60) * SRS_UTIME_SECONDS + 5 * 60 * SRS_UTIME_SECONDS"
    "(x mod 2 ^ 64) mod (5 * 60) * SRS_UTIME_SECONDS + 5 * 60 * SRS_UTIME_SECONDS < 10 * 60 * SRS_UTIME_SECONDS"
    by (simp_all add: SRS_UTIME_SECONDS_def)
qed

lemma random_overflow:
  assumes "ve_random env (lv_world s) = (Ok r, w)" and "update_time env (s\<lparr>lv_world := w\<rparr>) = (Ok now, s1)"
    and "2 ^ 63 \<le> r + now"
  shows "fst (version_cycle fuel env s) = Panic IntOverflow"
proof -
  have "i64 (r + now) = Panic IntOverflow" using assms(3) by (simp add: i64_def)
  with assms(1,2) show ?thesis
    by (simp add: version_cycle_def first_random_wait_def bind_def on_world_def stateless_def)
qed

subsection \<open>The rounds\<close>

lemma update_time_no_err: "fst (update_time env s) \<noteq> Err e"
  by (auto simp: update_time_def srs_update_system_time_def i64_def Let_def split: prod.splits option.splits outcome.splits if_splits)

lemma ignore_err_no_err: "fst (ignore_err m s) \<noteq> Err e"
  by (auto simp: ignore_err_def split: prod.splits outcome.splits)

lemma bind_no_err:
  assumes "\<And>s e. fst (m s) \<noteq> Err e" "\<And>x s e. fst (f x s) \<noteq> Err e"
  shows "fst (bind m f s) \<noteq> Err e"
  using assms(1) [of s e] assms(1) [of s] assms(2)
  by (cases "m s"; cases "fst (m s)") (auto simp: bind_def)

lemma stateless_i64_no_err: "fst (stateless (i64 x) s) \<noteq> Err e"
  by (simp add: stateless_def i64_def)

lemma version_body_no_err: "fst (version_body env s) \<noteq> Err e"
  unfolding version_body_def
  by (intro bind_no_err update_time_no_err ignore_err_no_err stateless_i64_no_err) (simp add: sleep_def)

definition version_round :: "'w version_env \<Rightarrow> 'w SrsLatestVersion \<Rightarrow> 'w SrsLatestVersion" where
  "version_round env s = snd (version_body env (snd (on_world (ve_pull env) s)))"

definition round_goes :: "'w version_env \<Rightarrow> 'w SrsLatestVersion \<Rightarrow> bool" where
  "round_goes env s \<longleftrightarrow> fst (ve_pull env (lv_world s)) = Ok () \<and>
     \<not> is_panic (fst (version_body env (snd (on_world (ve_pull env) s))))"

lemma version_loop_round:
  assumes "round_goes env s"
  shows "version_loop (Suc fuel) env s = version_loop fuel env (version_round env s)"
proof -
  obtain w where w: "ve_pull env (lv_world s) = (Ok (), w)"
    using assms by (cases "ve_pull env (lv_world s)") (auto simp: round_goes_def)
  obtain u where "version_body env (s\<lparr>lv_world := w\<rparr>) = (Ok (), u)"
    using assms version_body_no_err [of env "s\<lparr>lv_world := w\<rparr>"] w
    by (cases "version_body env (s\<lparr>lv_world := w\<rparr>)"; cases "fst (version_body env (s\<lparr>lv_world := w\<rparr>))")
      (auto simp: round_goes_def on_world_Ok)
  with w show ?thesis by (simp add: bind_def on_world_def version_round_def)
qed

lemma version_loop_rounds:
  assumes "\<forall>i<k. round_goes env ((version_round env ^^ i) s)"
    and "ve_pull env (lv_world ((version_round env ^^ k) s)) = (Err e, w)"
  shows "version_loop (k + 1 + j) env s = (Err e, ((version_round env ^^ k) s)\<lparr>lv_world := w\<rparr>) \<and>
    fst (version_loop k env s) = Panic OutOfFuel"
  using assms
proof (induction k arbitrary: s)
  case 0
  then show ?case by (simp add: bind_def on_world_def panic_def)
next
  case (Suc k)
  have goes: "round_goes env s" using Suc.prems(1) by (auto dest: spec [of _ 0])
  have "\<forall>i<k. round_goes env ((version_round env ^^ i) (version_round env s))"
    using Suc.prems(1) by (auto simp: funpow_swap1 dest: spec [of _ "Suc _"])
  then show ?case
    using Suc.IH [of "version_round env s"] Suc.prems(2) version_loop_round [OF goes] by (simp add: funpow_swap1 del: version_loop.simps)
qed


subsection \<open>What a query takes from the answer\<close>

definition said :: "string \<Rightarrow> json_props \<Rightarrow> string option" where
  "said name ps = (case json_get_property name ps of Some (JsonString v) \<Rightarrow> Some v | _ \<Rightarrow> None)"

lemma take_string_said:
  "take_string name msg obj store s = (case said name obj of
     None \<Rightarrow> (Err (srs_error_new ERROR_RESPONSE_CODE msg), s) | Some v \<Rightarrow> (Ok (), store v s))"
  by (auto simp: take_string_def said_def json_ensure_string_def json_ensure_def json_is_string_def json_to_str_def
      fail_def split: option.split json.split)

lemma dumps_no_NUL:
  "printable j \<Longrightarrow> CHR 0x00 \<notin> set (json_dumps j)"
  "\<forall>p\<in>set ps. plain_key (fst p) \<and> printable (snd p) \<Longrightarrow> CHR 0x00 \<notin> set (dumps_props ps)"
  "\<forall>e\<in>set es. printable e \<Longrightarrow> CHR 0x00 \<notin> set (dumps_elems es)"
proof (induction j and ps and es rule: json_dumps_dumps_props_dumps_elems.induct)
  case (1 v)
  then show ?case by (auto simp: json_serialize_string_def split: if_splits)
next
  case (3 v)
  have "c \<in> set (dec_of_nat n) \<Longrightarrow> c \<noteq> CHR 0x00" for c n
    using dec_of_nat_digits [of n] by (auto simp: list_all_iff is_digit_def)
  then show ?case by (auto simp: srs_int2str_whole dec_of_int_def)
next
  case (9 k v ps)
  then show ?case by (auto simp: SRS_JFIELD_NAME_def plain_key_def)
qed auto



subsection \<open>Concrete servers\<close>

definition no_queries :: conf_queries where
  "no_queries = \<lparr>is_stream_caster = (\<lambda>_. False), stream_caster_enabled = (\<lambda>_. False), stream_caster_engine = (\<lambda>_. []),
     is_vhost = (\<lambda>_. False), vhost_enabled = (\<lambda>_. False), forward_enabled = (\<lambda>_. False), vhost_is_edge = (\<lambda>_. False),
     vhost_origin_cluster = (\<lambda>_. False), hls_enabled = (\<lambda>_. False), dvr_enabled = (\<lambda>_. False),
     http_remux_enabled = (\<lambda>_. False), http_hooks_enabled = (\<lambda>_. False), dash_enabled = (\<lambda>_. False),
     hds_enabled = (\<lambda>_. False), exec_enabled = (\<lambda>_. False), security_enabled = (\<lambda>_. False),
     ingest_enabled = (\<lambda>_. False), transcode_enabled = (\<lambda>_. False)\<rparr>"

definition plain_build :: build_env where
  "plain_build = \<lparr>be_osx = False, be_arch = Some ''x86'', be_in_docker = False, be_packager = [], be_cross = False,
     be_rtc = False, be_srt = False, be_api = True, be_https = False, be_raw = False\<rparr>"

text \<open>The world counts the pulls; two of them let the loop go on.\<close>

definition example_version :: "string outcome \<Rightarrow> nat version_env" where
  "example_version answer = \<lparr>ve_client = \<lparr>
       hc_uri = (\<lambda>url. map_outcome (\<lambda>_. \<lparr>uri_schema = ''http'', uri_host = ''h'', uri_port = 80, uri_path = ''/'', uri_query = []\<rparr>) answer),
       hc_initialize = (\<lambda>_ _ _ w. (Ok (), w)),
       hc_get = (\<lambda>path _ w. (Ok \<lparr>hm_status = 200, hm_read_all = (\<lambda>w. (answer, w))\<rparr>, w)),
       hc_post = (\<lambda>path _ w. (Ok \<lparr>hm_status = 200, hm_read_all = (\<lambda>w. (answer, w))\<rparr>, w))\<rparr>,
     ve_pow10 = (\<lambda>_. 0), ve_enabled = True, ve_version = ''5.0.1'', ve_build = plain_build, ve_conf = no_queries,
     ve_root = directive_new, ve_eip = (\<lambda>_. ''1.2.3.4''), ve_startup = (\<lambda>_. 0),
     ve_timeofday = (\<lambda>_. Some (1000, 5)), ve_pid = 7, ve_uuid = (\<lambda>w. (Ok (replicate 16 0xAB), w)),
     ve_random = (\<lambda>w. (Ok 100, w)), ve_start = ret (),
     ve_pull = (\<lambda>w. if w < 2 then (Ok (), w + 1) else (Err (srs_error_new 1070 ''interrupted''), w)),
     ve_usleep = (\<lambda>_ w. w)\<rparr>"

definition version_begin :: "nat SrsLatestVersion" where
  "version_begin = \<lparr>lv_world = 0, lv_clock = sys_time_init, lv_server_id = ''id'', lv_match = [], lv_stable = []\<rparr>"

theorem version_identity_witness:
  "fst (version_start (example_version (Ok [])) (replicate 32 (CHR ''x'')) version_begin) = Panic UndefinedBehaviour"
  using version_identity [of "replicate 32 (CHR ''x'')" "example_version (Ok [])" version_begin "replicate 16 0xAB" 0]
  by (simp add: example_version_def version_begin_def)

definition noon :: sys_time where
  "noon = \<lparr>st_cache = 1000000005, st_startup = 1000000005\<rparr>"

lemmas example_eval = example_version_def bind_def stateless_def i64_def on_world_def get_time_def update_time_def
  srs_get_system_time_def srs_update_system_time_def

lemma example_url:
  "lv_clock s = noon \<Longrightarrow> \<exists>url. latest_url (example_version answer) s = (Ok url, s)"
  by (simp add: latest_url_def example_eval noon_def)

lemma example_body:
  assumes "lv_clock s = noon"
  shows "version_body (example_version (Err e)) s = (Ok (), s)"
proof -
  obtain url where url: "latest_url (example_version (Err e)) s = (Ok url, s)" using example_url [OF assms] by blast
  then have "query_latest_version (example_version (Err e)) s = (Err (srs_error_wrap e ''http: post failed. url=%s''), s)"
    by (simp add: query_latest_version_def Let_def bind_def stateless_def wrap_err_def) (simp add: example_version_def)
  moreover have "update_time (example_version (Err e)) s = (Ok 1000000005, s)"
    using assms by (simp add: example_eval noon_def Let_def)
  ultimately show ?thesis
    by (simp add: version_body_def bind_def ignore_err_def stateless_def i64_def sleep_def) (simp add: example_version_def)
qed



end
