(* ===== verification/AppHttp.thy ===== *)
theory AppHttp
  imports AppClient AppConfig AppLog KernelTime
begin

section \<open>HTTP connections\<close>

text \<open>
  \<^verbatim>\<open>SrsHttpConn\<close>, \<^verbatim>\<open>SrsResponseOnlyHttpConn\<close> and \<^verbatim>\<open>SrsHttpServer\<close> of \<^verbatim>\<open>srs_app_http_conn.cpp\<close>. The parser of
  messages, the muxes and the sockets are not in the repository: they are arguments, calls over a world
  \<open>'w\<close>. A message is a value of type \<open>'m\<close>, a request made of one a value of type \<open>'r\<close>.
\<close>

definition ERROR_SOCKET_TIMEOUT :: int where "ERROR_SOCKET_TIMEOUT = 1011"

text \<open>
  \<open>hn_last\<close> is \<^verbatim>\<open>*preq\<close>, the last request; \<open>hn_made\<close> and \<open>hn_freed\<close> are the requests that were allocated
  and freed, \<open>hn_messages\<close> the number of messages that were parsed and not freed. \<open>hn_removed\<close> counts how
  often the manager was told to remove the connection.
\<close>

record ('w, 'r) http_conn =
  hn_world :: 'w
  hn_clock :: sys_time
  hn_last :: "'r option"
  hn_made :: "'r list"
  hn_freed :: "'r list"
  hn_messages :: nat
  hn_removed :: nat

definition in_world :: "('w, 'a) call \<Rightarrow> (('w, 'r) http_conn, 'a) call" where
  "in_world m s = (case m (hn_world s) of (r, w) \<Rightarrow> (r, s\<lparr>hn_world := w\<rparr>))"

definition world_do :: "('w \<Rightarrow> 'w) \<Rightarrow> (('w, 'r) http_conn, unit) call" where
  "world_do f s = (Ok (), s\<lparr>hn_world := f (hn_world s)\<rparr>)"

subsection \<open>The owner of a connection\<close>

text \<open>The interface \<^verbatim>\<open>ISrsHttpConnOwner\<close>. \<open>on_conn_done\<close> takes an error or none and gives one back.\<close>

record ('w, 'r, 'm) conn_owner =
  on_start :: "(('w, 'r) http_conn, unit) call"
  on_http_message :: "'m \<Rightarrow> (('w, 'r) http_conn, unit) call"
  on_message_done :: "'m \<Rightarrow> (('w, 'r) http_conn, unit) call"
  on_conn_done :: "srs_error option \<Rightarrow> (('w, 'r) http_conn, srs_error option) call"

subsection \<open>The connection\<close>

record ('w, 'r, 'm) conn_env =
  ce_timeout :: int
  ce_recv_timeout :: "int \<Rightarrow> 'w \<Rightarrow> 'w"
  ce_parser_init :: "('w, unit) call"
  ce_parse_message :: "('w, 'm option) call"
  ce_set_connection :: "'m \<Rightarrow> 'w \<Rightarrow> 'w"
  ce_to_request :: "'m \<Rightarrow> 'w \<Rightarrow> 'r"
  ce_keep_alive :: "'m \<Rightarrow> 'w \<Rightarrow> bool"
  ce_pull :: "('w, unit) call"
  ce_trd_start :: "('w, unit) call"
  ce_serve :: "'m \<Rightarrow> ('w, unit) call"
  ce_cors_init :: "bool \<Rightarrow> ('w, unit) call"
  ce_set_jsonp :: "bool \<Rightarrow> 'w \<Rightarrow> 'w"
  ce_interrupt :: "'w \<Rightarrow> 'w"

text \<open>What a connection knows of itself from its constructor; the clock and the context are the global ones.\<close>

record conn_info =
  ci_ip :: string
  ci_port :: int
  ci_create_time :: int
  ci_cid :: string

definition SrsHttpConn_new :: "nat \<Rightarrow> (int \<times> int) option \<Rightarrow> string \<Rightarrow> int \<Rightarrow> (SrsThreadContext \<times> sys_time, conn_info) call" where
  "SrsHttpConn_new self tv cip cport =
     bind (on_snd (srs_get_system_time tv)) (\<lambda>us.
     bind (on_fst (get_id self)) (\<lambda>cid.
     ret \<lparr>ci_ip = cip, ci_port = cport, ci_create_time = srsu2ms us, ci_cid = cid\<rparr>))"

definition SrsHttpConn_free :: "('w, 'r, 'm) conn_env \<Rightarrow> 'w \<Rightarrow> 'w" where
  "SrsHttpConn_free env = ce_interrupt env"

definition set_jsonp :: "('w, 'r, 'm) conn_env \<Rightarrow> bool \<Rightarrow> ('w, unit) call" where
  "set_jsonp env v w = (Ok (), ce_set_jsonp env v w)"

definition conn_pull :: "('w, 'r, 'm) conn_env \<Rightarrow> ('w, unit) call" where
  "conn_pull env = ce_pull env"

definition conn_expire :: "('w, 'r, 'm) conn_env \<Rightarrow> 'w \<Rightarrow> 'w" where
  "conn_expire env = ce_interrupt env"

definition conn_start :: "('w, 'r, 'm) conn_env \<Rightarrow> (('w, 'r) http_conn, unit) call" where
  "conn_start env = wrap_err ''coroutine'' (in_world (ce_trd_start env))"

definition set_crossdomain_enabled :: "('w, 'r, 'm) conn_env \<Rightarrow> bool \<Rightarrow> (('w, 'r) http_conn, unit) call" where
  "set_crossdomain_enabled env v = wrap_err ''init cors'' (in_world (ce_cors_init env v))"

text \<open>\<^verbatim>\<open>srs_freep(*preq)\<close>, and a new request.\<close>

definition free_last :: "(('w, 'r) http_conn, unit) call" where
  "free_last s = (Ok (), case hn_last s of None \<Rightarrow> s | Some q \<Rightarrow> s\<lparr>hn_last := None, hn_freed := hn_freed s @ [q]\<rparr>)"

definition make_request :: "('w, 'r, 'm) conn_env \<Rightarrow> 'm \<Rightarrow> (('w, 'r) http_conn, unit) call" where
  "make_request env req s =
     (let q = ce_to_request env req (hn_world s) in (Ok (), s\<lparr>hn_last := Some q, hn_made := hn_made s @ [q]\<rparr>))"

definition process_request :: "('w, 'r, 'm) conn_env \<Rightarrow> 'm \<Rightarrow> (('w, 'r) http_conn, unit) call" where
  "process_request env req = wrap_err ''mux serve'' (in_world (ce_serve env req))"

definition on_disconnect :: "(('w, 'r) http_conn, unit) call" where
  "on_disconnect = ret ()"

text \<open>What is done with a message, up to whether the connection is kept alive.\<close>

definition serve_message :: "('w, 'r, 'm) conn_env \<Rightarrow> ('w, 'r, 'm) conn_owner \<Rightarrow> 'm \<Rightarrow> (('w, 'r) http_conn, bool) call" where
  "serve_message env own req =
     bind (world_do (ce_set_connection env req)) (\<lambda>_.
     bind free_last (\<lambda>_.
     bind (make_request env req) (\<lambda>_.
     bind (wrap_err ''on http message'' (on_http_message own req)) (\<lambda>_.
     bind (wrap_err ''process request=%d'' (process_request env req)) (\<lambda>_.
     bind (wrap_err ''on message done'' (on_message_done own req)) (\<lambda>_.
     gets (\<lambda>s. ce_keep_alive env req (hn_world s))))))))"

text \<open>A call and what is done behind it in any case, as a destructor is.\<close>

definition finally_do :: "('s, 'a) call \<Rightarrow> ('s, unit) call \<Rightarrow> ('s, 'a) call" where
  "finally_do m f s = (case m s of (Panic q, s) \<Rightarrow> (Panic q, s) | (r, s) \<Rightarrow> (r, snd (f s)))"

definition own_message :: "(('w, 'r) http_conn, unit) call" where
  "own_message s = (Ok (), s\<lparr>hn_messages := hn_messages s + 1\<rparr>)"

definition free_message :: "(('w, 'r) http_conn, unit) call" where
  "free_message s = (Ok (), s\<lparr>hn_messages := hn_messages s - 1\<rparr>)"

text \<open>The loop, with fuel; \<open>req_id\<close> is an \<^verbatim>\<open>int\<close>.\<close>

fun process_requests :: "nat \<Rightarrow> ('w, 'r, 'm) conn_env \<Rightarrow> ('w, 'r, 'm) conn_owner \<Rightarrow> int \<Rightarrow> (('w, 'r) http_conn, unit) call" where
  "process_requests 0 env own req_id = panic OutOfFuel"
| "process_requests (Suc fuel) env own req_id =
     bind (wrap_err ''pull'' (in_world (ce_pull env))) (\<lambda>_.
     bind (wrap_err ''parse message'' (in_world (ce_parse_message env))) (\<lambda>req. case req of
        None \<Rightarrow> panic AssertFailed
      | Some req \<Rightarrow>
         bind (finally_do (bind own_message (\<lambda>_. serve_message env own req)) free_message) (\<lambda>keep_alive.
         if \<not> keep_alive then ret ()
         else bind (add_int req_id 1) (\<lambda>req_id. process_requests fuel env own req_id))))"

text \<open>\<^verbatim>\<open>on_disconnect\<close> always succeeds; its error would wrap the one of the loop.\<close>

definition then_disconnect :: "(('w, 'r) http_conn, unit) call \<Rightarrow> (('w, 'r) http_conn, unit) call" where
  "then_disconnect m s = (case m s of
      (Panic q, s) \<Rightarrow> (Panic q, s)
    | (r, s) \<Rightarrow> (case on_disconnect s of
         (Err r0, s) \<Rightarrow> (case r of Err e \<Rightarrow> (Err (srs_error_wrap e ''on disconnect %s''), s)
                                | _ \<Rightarrow> (Err (SrsError 0 [''on disconnect %s'']), s))
       | (Panic q, s) \<Rightarrow> (Panic q, s)
       | (Ok _, s) \<Rightarrow> (r, s)))"

definition do_cycle :: "nat \<Rightarrow> ('w, 'r, 'm) conn_env \<Rightarrow> ('w, 'r, 'm) conn_owner \<Rightarrow> (('w, 'r) http_conn, unit) call" where
  "do_cycle fuel env own =
     bind (world_do (ce_recv_timeout env (ce_timeout env))) (\<lambda>_.
     bind (wrap_err ''init parser for %s'' (in_world (ce_parser_init env))) (\<lambda>_.
     bind (wrap_err ''start'' (on_start own)) (\<lambda>_.
     finally_do (then_disconnect (process_requests fuel env own 0)) free_last)))"

fun error_of :: "'a outcome \<Rightarrow> srs_error option" where
  "error_of (Err e) = Some e"
| "error_of _ = None"

text \<open>
  Whatever the owner makes of the error, it is logged and freed; \<^verbatim>\<open>srs_freep\<close> leaves a null pointer, which
  is success.
\<close>

definition conn_cycle :: "nat \<Rightarrow> ('w, 'r, 'm) conn_env \<Rightarrow> ('w, 'r, 'm) conn_owner \<Rightarrow> (('w, 'r) http_conn, unit) call" where
  "conn_cycle fuel env own s = (case do_cycle fuel env own s of
      (Panic q, s) \<Rightarrow> (Panic q, s)
    | (r, s) \<Rightarrow> bind (on_conn_done own (error_of r)) (\<lambda>err. case err of
         None \<Rightarrow> ret ()
       | Some e \<Rightarrow> if err_code e = 0 then ret () else ret ()) s)"

subsection \<open>The owner that only responds\<close>

text \<open>\<^verbatim>\<open>SrsResponseOnlyHttpConn\<close>: a connection over TCP, or over TLS when \<open>re_ssl\<close>.\<close>

record ('w, 'm) resp_env =
  re_ssl :: bool
  re_handshake :: "('w, unit) call"
  re_timeofday :: "'w \<Rightarrow> (int \<times> int) option"
  re_set_https :: "'m \<Rightarrow> 'w \<Rightarrow> 'w"
  re_content_length :: "'m \<Rightarrow> 'w \<Rightarrow> int"
  re_body_eof :: "'m \<Rightarrow> 'w \<Rightarrow> bool"
  re_body_read :: "'m \<Rightarrow> ('w, unit) call"
  re_read :: "('w, unit) call"
  re_recv_timeout :: "int \<Rightarrow> 'w \<Rightarrow> 'w"
  re_crossdomain :: "'w \<Rightarrow> bool"
  re_init_socket :: "('w, unit) call"
  re_set_tcp_nodelay :: "bool \<Rightarrow> ('w, unit) call"
  re_set_socket_buffer :: "int \<Rightarrow> ('w, unit) call"
  re_subscribe :: "nat \<Rightarrow> SrsConfig \<Rightarrow> SrsConfig"

text \<open>
  The constructor gives the thread a new identity before the connection takes it, and subscribes the object
  \<open>this\<close> to the configuration, the destructor unsubscribes it.
\<close>

definition resp_new :: "('w, 'm) resp_env \<Rightarrow> nat \<Rightarrow> nat \<Rightarrow> (int \<times> int) option \<Rightarrow> string \<Rightarrow> int \<Rightarrow>
    ((SrsThreadContext \<times> sys_time) \<times> SrsConfig, conn_info) call" where
  "resp_new env self this tv cip port =
     bind (on_fst (on_fst (bind generate_id (set_id self)))) (\<lambda>_.
     bind (on_fst (SrsHttpConn_new self tv cip port)) (\<lambda>conn.
     bind (on_snd (\<lambda>cf. (Ok (), re_subscribe env this cf))) (\<lambda>_. ret conn)))"

definition resp_free :: "('w, 'r, 'm) conn_env \<Rightarrow> nat \<Rightarrow> SrsConfig \<times> 'w \<Rightarrow> SrsConfig \<times> 'w" where
  "resp_free ce this = (\<lambda>(cf, w). (unsubscribe this cf, SrsHttpConn_free ce w))"

definition resp_set_tcp_nodelay :: "('w, 'm) resp_env \<Rightarrow> bool \<Rightarrow> ('w, unit) call" where
  "resp_set_tcp_nodelay env v = re_set_tcp_nodelay env v"

definition resp_set_socket_buffer :: "('w, 'm) resp_env \<Rightarrow> int \<Rightarrow> ('w, unit) call" where
  "resp_set_socket_buffer env buffer_v = re_set_socket_buffer env buffer_v"

definition conn_time :: "('w, 'm) resp_env \<Rightarrow> (('w, 'r) http_conn, int) call" where
  "conn_time env s = (case srs_update_system_time (re_timeofday env (hn_world s)) (hn_clock s) of (r, c) \<Rightarrow> (r, s\<lparr>hn_clock := c\<rparr>))"

definition resp_on_start :: "('w, 'm) resp_env \<Rightarrow> (('w, 'r) http_conn, unit) call" where
  "resp_on_start env =
     (if re_ssl env then
        bind (conn_time env) (\<lambda>starttime.
        bind (wrap_err ''handshake'' (in_world (re_handshake env))) (\<lambda>_.
        bind (conn_time env) (\<lambda>now.
        bind (stateless (i64 (now - starttime))) (\<lambda>_. ret ()))))
      else ret ())"

text \<open>The loop that drops a body, with fuel.\<close>

fun drop_body :: "nat \<Rightarrow> ('w, 'm) resp_env \<Rightarrow> 'm \<Rightarrow> (('w, 'r) http_conn, unit) call" where
  "drop_body 0 env req = panic OutOfFuel"
| "drop_body (Suc fuel) env req =
     bind (gets (\<lambda>s. re_body_eof env req (hn_world s))) (\<lambda>eof.
     if eof then ret ()
     else bind (wrap_err ''read response'' (in_world (re_body_read env req))) (\<lambda>_. drop_body fuel env req))"

definition resp_on_http_message :: "nat \<Rightarrow> ('w, 'm) resp_env \<Rightarrow> 'm \<Rightarrow> (('w, 'r) http_conn, unit) call" where
  "resp_on_http_message fuel env req =
     bind (world_do (if re_ssl env then re_set_https env req else id)) (\<lambda>_.
     bind (gets (\<lambda>s. re_content_length env req (hn_world s))) (\<lambda>len.
     if len = - 1 then ret () else drop_body fuel env req))"

definition resp_on_message_done :: "'m \<Rightarrow> (('w, 'r) http_conn, unit) call" where
  "resp_on_message_done req = ret ()"

definition resp_on_conn_done :: "srs_error option \<Rightarrow> (('w, 'r) http_conn, srs_error option) call" where
  "resp_on_conn_done r0 s = (Ok r0, s\<lparr>hn_removed := hn_removed s + 1\<rparr>)"

definition response_owner :: "nat \<Rightarrow> ('w, 'm) resp_env \<Rightarrow> ('w, 'r, 'm) conn_owner" where
  "response_owner fuel env = \<lparr>on_start = resp_on_start env, on_http_message = resp_on_http_message fuel env,
     on_message_done = resp_on_message_done, on_conn_done = resp_on_conn_done\<rparr>"

text \<open>The loop that waits for the client to go away, with fuel. A timeout only makes it look at \<^verbatim>\<open>pull\<close> again.\<close>

fun pop_loop :: "nat \<Rightarrow> ('w, 'r, 'm) conn_env \<Rightarrow> ('w, 'm) resp_env \<Rightarrow> (('w, 'r) http_conn, unit) call" where
  "pop_loop 0 ce env = panic OutOfFuel"
| "pop_loop (Suc fuel) ce env =
     bind (wrap_err ''timeout'' (in_world (ce_pull ce))) (\<lambda>_ s.
     case in_world (re_read env) s of
       (Err e, s) \<Rightarrow> if err_code e = ERROR_SOCKET_TIMEOUT then pop_loop fuel ce env s
                   else (Err (srs_error_wrap e ''read response''), s)
     | (Panic q, s) \<Rightarrow> (Panic q, s)
     | (Ok _, s) \<Rightarrow> pop_loop fuel ce env s)"

definition pop_message :: "nat \<Rightarrow> ('w, 'r, 'm) conn_env \<Rightarrow> ('w, 'm) resp_env \<Rightarrow> (('w, 'r) http_conn, unit) call" where
  "pop_message fuel ce env =
     bind (world_do (re_recv_timeout env (3 * SRS_UTIME_SECONDS))) (\<lambda>_. pop_loop fuel ce env)"

definition on_reload_http_stream_crossdomain :: "('w, 'r, 'm) conn_env \<Rightarrow> ('w, 'm) resp_env \<Rightarrow> (('w, 'r) http_conn, unit) call" where
  "on_reload_http_stream_crossdomain ce env =
     bind (gets (\<lambda>s. re_crossdomain env (hn_world s))) (set_crossdomain_enabled ce)"

definition resp_start :: "('w, 'r, 'm) conn_env \<Rightarrow> ('w, 'm) resp_env \<Rightarrow> (('w, 'r) http_conn, unit) call" where
  "resp_start ce env =
     bind (gets (\<lambda>s. re_crossdomain env (hn_world s))) (\<lambda>v.
     bind (wrap_err ''set cors=%d'' (set_crossdomain_enabled ce v)) (\<lambda>_.
     bind (wrap_err ''init socket'' (in_world (re_init_socket env))) (\<lambda>_.
     conn_start ce)))"

definition resp_desc :: "('w, 'm) resp_env \<Rightarrow> string" where
  "resp_desc env = (if re_ssl env then ''HttpsStream'' else ''HttpStream'')"

subsection \<open>The server of streams and files\<close>

record ('w, 'm) http_muxes =
  mx_handle_versions :: "('w, unit) call"
  mx_stream_init :: "('w, unit) call"
  mx_static_init :: "('w, unit) call"
  mx_find_not_found :: "'m \<Rightarrow> ('w, bool) call"
  mx_stream_serve :: "'m \<Rightarrow> ('w, unit) call"
  mx_static_serve :: "'m \<Rightarrow> ('w, unit) call"
  mx_mount :: "nat \<Rightarrow> 'm \<Rightarrow> ('w, unit) call"
  mx_unmount :: "nat \<Rightarrow> 'm \<Rightarrow> 'w \<Rightarrow> 'w"

definition http_server_initialize :: "('w, 'm) http_muxes \<Rightarrow> ('w, unit) call" where
  "http_server_initialize mx =
     bind (wrap_err ''handle versions'' (mx_handle_versions mx)) (\<lambda>_.
     bind (wrap_err ''http stream'' (mx_stream_init mx)) (\<lambda>_.
     wrap_err ''http static'' (mx_static_init mx)))"

definition http_server_serve :: "('w, 'm) http_muxes \<Rightarrow> 'm \<Rightarrow> ('w, unit) call" where
  "http_server_serve mx req =
     bind (wrap_err ''find handler'' (mx_find_not_found mx req)) (\<lambda>not_found.
     if \<not> not_found then mx_stream_serve mx req else mx_static_serve mx req)"

definition http_mount :: "('w, 'm) http_muxes \<Rightarrow> nat \<Rightarrow> 'm \<Rightarrow> ('w, unit) call" where
  "http_mount mx src req = mx_mount mx src req"

definition http_unmount :: "('w, 'm) http_muxes \<Rightarrow> nat \<Rightarrow> 'm \<Rightarrow> 'w \<Rightarrow> 'w" where
  "http_unmount mx src req = mx_unmount mx src req"

subsection \<open>Construction and destruction\<close>

text \<open>A connection has the identity that its thread got for it.\<close>

lemma resp_new_identity:
  assumes "resp_new env self this tv cip port ((cx, c), cf) = (Ok conn, ((cx', c'), cf'))"
  shows "ci_cid conn = [] \<and> cx_cache cx' self = Some [] \<and> (\<forall>t. t \<noteq> self \<longrightarrow> cx_cache cx' t = cx_cache cx t) \<and>
    ci_ip conn = cip \<and> ci_port conn = port \<and> ci_create_time conn = srsu2ms (st_cache c') \<and> cf' = re_subscribe env this cf"
proof -
  obtain cx1 where 1: "bind generate_id (set_id self) cx = (Ok [], cx1)" "cx_cache cx1 = (cx_cache cx)(self := Some [])"
    using assms by (auto simp: resp_new_def on_fst_def bind_def set_id_def generate_id_def Let_def split: option.splits if_splits)
  obtain us c1 where 2: "srs_get_system_time tv c = (Ok us, c1)"
    using assms 1(1) by (auto simp: resp_new_def SrsHttpConn_new_def on_fst_def on_snd_def bind_def split: prod.splits outcome.splits)
  then have "us = st_cache c1"
    by (auto simp: srs_get_system_time_def bind_def split: if_splits prod.splits outcome.splits)
  with 1 2 assms show ?thesis
    by (auto simp: resp_new_def SrsHttpConn_new_def on_fst_def on_snd_def bind_def get_id_def ret_def Let_def
        split: prod.splits outcome.splits option.splits)
qed

text \<open>When subscribing puts the object behind the others, its destructor leaves the subscribers as they were.\<close>

lemma resp_free_new:
  assumes "resp_new env self this tv cip port (cs, cf) = (Ok conn, (cs', cf'))"
    and "re_subscribe env this cf = cf\<lparr>cf_subscribes := cf_subscribes cf @ [this]\<rparr>" and "this \<notin> set (cf_subscribes cf)"
  shows "resp_free ce this (cf', w) = (cf, ce_interrupt ce w)"
proof -
  have "cf' = cf\<lparr>cf_subscribes := cf_subscribes cf @ [this]\<rparr>"
    using resp_new_identity [of env self this tv cip port "fst cs" "snd cs" cf] assms(1,2) by (cases cs'; cases cs) auto
  then show ?thesis using assms(3)
    by (cases cf) (simp add: resp_free_def SrsHttpConn_free_def unsubscribe_def erase_handler_remove1 remove1_append)
qed

subsection \<open>Requests and removal\<close>

text \<open>A call that neither makes nor frees a request nor removes the connection.\<close>

definition books :: "('w, 'r) http_conn \<Rightarrow> 'r option \<times> 'r list \<times> 'r list \<times> nat \<times> nat" where
  "books s = (hn_last s, hn_made s, hn_freed s, hn_messages s, hn_removed s)"

definition quiet :: "(('w, 'r) http_conn, 'a) call \<Rightarrow> bool" where
  "quiet m \<longleftrightarrow> (\<forall>s. books (snd (m s)) = books s)"

named_theorems quiet_rules \<open>calls that are quiet\<close>

lemma snd_bind: "snd (bind m f s) = (case m s of (Ok x, t) \<Rightarrow> snd (f x t) | (_, t) \<Rightarrow> t)"
  by (simp add: bind_def split: prod.split outcome.split)

lemma quiet_bind [quiet_rules]: "quiet m \<Longrightarrow> (\<And>x. quiet (f x)) \<Longrightarrow> quiet (bind m f)"
  unfolding quiet_def snd_bind by (auto split: prod.split outcome.split) (metis snd_conv)+

lemma quiet_wrap [quiet_rules]: "quiet m \<Longrightarrow> quiet (wrap_err msg m)"
  unfolding quiet_def wrap_err_def by (auto split: prod.splits outcome.splits) (metis snd_conv)+

lemma quiet_simple [quiet_rules]: "quiet (ret x)" "quiet (gets g)" "quiet (panic q)" "quiet (stateless r)"
  "quiet (in_world n)" "quiet (world_do h)" "quiet (add_int i j)"
  by (simp_all add: quiet_def panic_def stateless_def in_world_def world_do_def books_def add_int_def split: prod.split)

lemma quiet_if [quiet_rules]: "(b \<Longrightarrow> quiet m) \<Longrightarrow> (\<not> b \<Longrightarrow> quiet n) \<Longrightarrow> quiet (if b then m else n)"
  by simp

lemma quiet_conn_time [quiet_rules]: "quiet (conn_time env)"
  by (simp add: quiet_def conn_time_def books_def split: prod.split)

text \<open>
  Every request but the last was freed, in order, \<open>k\<close> messages are alive and the connection was removed
  \<open>n\<close> times.
\<close>

definition balanced :: "nat \<Rightarrow> nat \<Rightarrow> ('w, 'r) http_conn \<Rightarrow> bool" where
  "balanced n k s \<longleftrightarrow> hn_made s = hn_freed s @ (case hn_last s of None \<Rightarrow> [] | Some q \<Rightarrow> [q]) \<and>
     hn_messages s = k \<and> hn_removed s = n"

definition balances :: "nat \<Rightarrow> nat \<Rightarrow> (('w, 'r) http_conn, 'a) call \<Rightarrow> bool" where
  "balances n k m \<longleftrightarrow> (\<forall>s r t. balanced n k s \<longrightarrow> m s = (r, t) \<longrightarrow> is_panic r \<or> balanced n k t)"

lemma quiet_balances: "quiet m \<Longrightarrow> balances n k m"
  by (auto simp: quiet_def balances_def balanced_def books_def) (metis snd_conv)+

lemma balances_bind:
  assumes m: "balances n k m" and f: "\<And>x. balances n k (f x)"
  shows "balances n k (bind m f)"
  unfolding balances_def
proof (intro allI impI)
  fix s r t assume s: "balanced n k s" and run: "bind m f s = (r, t)"
  obtain r1 t1 where m1: "m s = (r1, t1)" by fastforce
  then have t1: "is_panic r1 \<or> balanced n k t1" using m s unfolding balances_def by blast
  show "is_panic r \<or> balanced n k t"
  proof (cases r1)
    case (Ok x)
    then show ?thesis using f [of x] run m1 t1 unfolding balances_def by (auto simp: bind_def)
  qed (use run m1 t1 in \<open>auto simp: bind_def\<close>)
qed

lemma balances_new:
  assumes "\<And>x. balances n k (f x)"
  shows "balances n k (bind free_last (\<lambda>_. bind (make_request env req) f))"
  unfolding balances_def
proof (intro allI impI)
  fix s r t assume s: "balanced n k s" and run: "bind free_last (\<lambda>_. bind (make_request env req) f) s = (r, t)"
  define u where "u = snd (make_request env req (snd (free_last s)))"
  have "f () u = (r, t)"
    using run by (simp add: u_def bind_def free_last_def make_request_def Let_def split: option.splits)
  moreover have "balanced n k u"
    using s by (auto simp: u_def free_last_def make_request_def balanced_def Let_def split: option.splits)
  ultimately show "is_panic r \<or> balanced n k t" using assms [of "()"] unfolding balances_def by blast
qed

lemma balances_message:
  assumes "balances n (Suc k) m" shows "balances n k (finally_do (bind own_message (\<lambda>_. m)) free_message)"
  unfolding balances_def
proof (intro allI impI)
  fix s r t assume s: "balanced n k s" and run: "finally_do (bind own_message (\<lambda>_. m)) free_message s = (r, t)"
  obtain r1 t1 where m1: "m (s\<lparr>hn_messages := hn_messages s + 1\<rparr>) = (r1, t1)" by fastforce
  have "balanced n (Suc k) (s\<lparr>hn_messages := hn_messages s + 1\<rparr>)" using s by (simp add: balanced_def)
  with assms m1 have "is_panic r1 \<or> balanced n (Suc k) t1" unfolding balances_def by blast
  then show "is_panic r \<or> balanced n k t"
    using run m1 by (cases r1) (auto simp: finally_do_def own_message_def bind_def free_message_def balanced_def)
qed

lemma free_last_balanced: "balanced n k s \<Longrightarrow> balanced n k (snd (free_last s)) \<and> hn_last (snd (free_last s)) = None"
  by (auto simp: balanced_def free_last_def split: option.splits)

text \<open>
  The contract of an owner: what it does at the start and for a message is quiet; when the connection is
  done it removes it once, and does nothing else to the books.
\<close>

locale conn_owner_law =
  fixes own :: "('w, 'r, 'm) conn_owner"
  assumes quiet_start: "quiet (on_start own)"
    and quiet_message: "quiet (on_http_message own req)"
    and quiet_done: "quiet (on_message_done own req)"
    and done_removes: "\<exists>e' t. on_conn_done own e s = (Ok e', t) \<and>
      books t = (hn_last s, hn_made s, hn_freed s, hn_messages s, hn_removed s + 1)"
begin

lemma serve_balances: "balances n k (serve_message env own req)"
  unfolding serve_message_def process_request_def
  by (intro balances_bind [OF quiet_balances] balances_new quiet_balances quiet_rules quiet_message quiet_done)

lemma requests_balance: "balances n k (process_requests fuel env own req_id)"
proof (induction fuel arbitrary: req_id)
  case (Suc fuel)
  have "balances n k (case req of None \<Rightarrow> panic AssertFailed | Some req \<Rightarrow>
      bind (finally_do (bind own_message (\<lambda>_. serve_message env own req)) free_message) (\<lambda>keep_alive. if \<not> keep_alive then ret ()
        else bind (add_int req_id 1) (\<lambda>req_id. process_requests fuel env own req_id)))" for req
  proof (cases req)
    case (Some m)
    have "balances n k (if \<not> keep_alive then ret () else bind (add_int req_id 1) (\<lambda>req_id. process_requests fuel env own req_id))" for keep_alive
      by (simp add: balances_bind [OF quiet_balances] quiet_balances quiet_simple Suc.IH)
    with Some show ?thesis by (simp add: balances_bind [OF balances_message [OF serve_balances]])
  qed (simp add: quiet_balances quiet_simple)
  then show ?case
    unfolding process_requests.simps by (intro balances_bind [OF quiet_balances] quiet_rules)
qed (simp add: quiet_balances quiet_rules)

lemma loop_balances: "balanced n 0 s \<Longrightarrow> finally_do (then_disconnect (process_requests fuel env own i)) free_last s = (r, t) \<Longrightarrow>
    is_panic r \<or> balanced n 0 t \<and> hn_last t = None"
proof -
  assume s: "balanced n 0 s" and run: "finally_do (then_disconnect (process_requests fuel env own i)) free_last s = (r, t)"
  obtain r1 t1 where p: "process_requests fuel env own i s = (r1, t1)" by fastforce
  then have "is_panic r1 \<or> balanced n 0 t1" using requests_balance [of n 0 fuel env i] s unfolding balances_def by blast
  with free_last_balanced [of n 0 t1] run p show ?thesis
    by (cases r1) (auto simp: finally_do_def then_disconnect_def on_disconnect_def)
qed

lemma do_cycle_balances:
  assumes "balanced n 0 s" and "hn_last s = None" and "do_cycle fuel env own s = (r, t)"
  shows "is_panic r \<or> balanced n 0 t \<and> hn_last t = None"
proof -
  let ?ok = "\<lambda>m :: (('w, 'r) http_conn, unit) call. \<forall>s r t. balanced n 0 s \<longrightarrow> hn_last s = None \<longrightarrow> m s = (r, t) \<longrightarrow>
    is_panic r \<or> balanced n 0 t \<and> hn_last t = None"
  have step: "?ok (bind m f)" if "quiet m" "\<And>x. ?ok (f x)" for m :: "(('w, 'r) http_conn, unit) call" and f
  proof (intro allI impI)
    fix s r t assume s: "balanced n 0 s" "hn_last s = None" and run: "bind m f s = (r, t)"
    obtain r1 t1 where m: "m s = (r1, t1)" by fastforce
    have "books t1 = books s" using that(1) m unfolding quiet_def by (metis snd_conv)
    then have t1: "balanced n 0 t1" "hn_last t1 = None" using s by (auto simp: books_def balanced_def)
    show "is_panic r \<or> balanced n 0 t \<and> hn_last t = None"
    proof (cases r1)
      case (Ok x)
      then have "f x t1 = (r, t)" using run m by (simp add: bind_def)
      then show ?thesis using that(2) [of x] t1 by blast
    qed (use run m t1 in \<open>auto simp: bind_def\<close>)
  qed
  have "?ok (do_cycle fuel env own)"
    unfolding do_cycle_def
    by (intro step quiet_rules quiet_start) (use loop_balances in blast)
  with assms show ?thesis by blast
qed

lemma cycle_ends:
  assumes "balanced n 0 s" and "hn_last s = None" and "conn_cycle fuel env own s = (r, t)"
  shows "is_panic r \<or> r = Ok () \<and> hn_removed t = n + 1 \<and> hn_freed t = hn_made t \<and> hn_last t = None \<and> hn_messages t = 0"
proof -
  obtain r1 t1 where d: "do_cycle fuel env own s = (r1, t1)" by fastforce
  show ?thesis
  proof (cases "is_panic r1")
    case True
    then show ?thesis using d assms(3) by (cases r1) (auto simp: conn_cycle_def)
  next
    case False
    then have t1: "balanced n 0 t1" "hn_last t1 = None" using do_cycle_balances [OF assms(1,2) d] by auto
    obtain e' u where u: "on_conn_done own (error_of r1) t1 = (Ok e', u)"
      "books u = (hn_last t1, hn_made t1, hn_freed t1, hn_messages t1, hn_removed t1 + 1)"
      using done_removes by blast
    have "conn_cycle fuel env own s = (Ok (), u)"
      using False d u(1) by (cases r1; cases e') (auto simp: conn_cycle_def bind_def)
    then show ?thesis using assms(3) u(2) t1 by (auto simp: books_def balanced_def)
  qed
qed

end

lemma quiet_drop_body [quiet_rules]: "quiet (drop_body fuel env req)"
proof (induction fuel)
  case (Suc fuel)
  then show ?case unfolding drop_body.simps by (intro quiet_rules)
qed (simp add: quiet_simple)

lemma resp_conn_done_removes: "\<exists>e' t. resp_on_conn_done e s = (Ok e', t) \<and>
    books t = (hn_last s, hn_made s, hn_freed s, hn_messages s, hn_removed s + 1)"
  by (simp add: resp_on_conn_done_def books_def)

interpretation response: conn_owner_law "response_owner fuel env" for fuel env
  by unfold_locales
    (auto simp: response_owner_def resp_on_start_def resp_on_http_message_def resp_on_message_done_def resp_conn_done_removes [simplified]
      intro!: quiet_rules)


text \<open>A client that sends the messages of a list and wants the connection kept for all but message \<open>0\<close>.\<close>

definition example_conn :: "(nat list, nat, nat) conn_env" where
  "example_conn = \<lparr>ce_timeout = 15000000, ce_recv_timeout = (\<lambda>_ w. w), ce_parser_init = ret (),
     ce_parse_message = (\<lambda>w. case w of [] \<Rightarrow> (Err (SrsError 1004 []), []) | m # w \<Rightarrow> (Ok (Some m), w)),
     ce_set_connection = (\<lambda>_ w. w), ce_to_request = (\<lambda>m w. m), ce_keep_alive = (\<lambda>m w. m \<noteq> 0),
     ce_pull = ret (), ce_trd_start = ret (), ce_serve = (\<lambda>_. ret ()), ce_cors_init = (\<lambda>_. ret ()),
     ce_set_jsonp = (\<lambda>_ w. w), ce_interrupt = (\<lambda>w. w)\<rparr>"

definition example_resp :: "(nat list, nat) resp_env" where
  "example_resp = \<lparr>re_ssl = False, re_handshake = ret (), re_timeofday = (\<lambda>_. None), re_set_https = (\<lambda>_ w. w),
     re_content_length = (\<lambda>m w. if m = 7 then - 1 else 3), re_body_eof = (\<lambda>m w. True), re_body_read = (\<lambda>_. ret ()),
     re_read = (\<lambda>w. (Err (SrsError (if w = [] then 1004 else ERROR_SOCKET_TIMEOUT) []), tl w)),
     re_recv_timeout = (\<lambda>_ w. w), re_crossdomain = (\<lambda>w. True), re_init_socket = ret (),
     re_set_tcp_nodelay = (\<lambda>_. ret ()), re_set_socket_buffer = (\<lambda>_. ret ()), re_subscribe = (\<lambda>_ cf. cf)\<rparr>"

definition example_http :: "nat list \<Rightarrow> (nat list, nat) http_conn" where
  "example_http w = \<lparr>hn_world = w, hn_clock = sys_time_init, hn_last = None, hn_made = [], hn_freed = [],
     hn_messages = 0, hn_removed = 0\<rparr>"

lemmas example_http_defs = example_http_def example_conn_def example_resp_def


subsection \<open>Bodies and clients that go away\<close>

lemma drop_body_eof: "drop_body fuel env req s = (Ok (), t) \<Longrightarrow> re_body_eof env req (hn_world t)"
proof (induction fuel arbitrary: s)
  case (Suc fuel)
  then show ?case
    by (auto simp: bind_def split: if_splits prod.splits outcome.splits)
qed (simp add: panic_def)

text \<open>
  When a message was taken, either it had a length, and its body was read to its end, or its length was
  not given, as it is for a body in chunks, and nothing at all was read of the body.
\<close>

theorem http_body_dropped:
  assumes "resp_on_http_message fuel env req s = (Ok (), t)"
    and "w = (if re_ssl env then re_set_https env req (hn_world s) else hn_world s)"
  shows "if re_content_length env req w = - 1 then t = s\<lparr>hn_world := w\<rparr> else re_body_eof env req (hn_world t)"
  using assms drop_body_eof [of fuel env req "s\<lparr>hn_world := w\<rparr>" t]
  by (auto simp: resp_on_http_message_def bind_def world_do_def split: if_splits)

theorem http_body_dropped_witness:
  "resp_on_http_message 1 example_resp 7 (example_http [1]) = (Ok (), example_http [1]) \<and>
   re_content_length example_resp 7 [1] = - 1 \<and> re_body_eof example_resp 8 [1]"
proof -
  have a: "resp_on_http_message 1 example_resp 7 (example_http [1]) = (Ok (), example_http [1])"
    and b: "resp_on_http_message 1 example_resp 8 (example_http [1]) = (Ok (), example_http [1])"
    by code_simp+
  show ?thesis
    using http_body_dropped [OF a refl] http_body_dropped [OF b refl] a by (simp add: example_http_defs)
qed

definition gone :: "('w, 'r, 'm) conn_env \<Rightarrow> ('w, 'm) resp_env \<Rightarrow> unit outcome \<Rightarrow> bool" where
  "gone ce env r \<longleftrightarrow> is_panic r \<or> (\<exists>e u w. r = Err (srs_error_wrap e ''timeout'') \<and> ce_pull ce u = (Err e, w)) \<or>
    (\<exists>e u w. r = Err (srs_error_wrap e ''read response'') \<and> re_read env u = (Err e, w) \<and> err_code e \<noteq> ERROR_SOCKET_TIMEOUT)"

lemma pop_loop_ends: "pop_loop fuel ce env s = (r, t) \<Longrightarrow> books t = books s \<and> gone ce env r"
proof (induction fuel arbitrary: s)
  case (Suc fuel)
  have b: "books (s\<lparr>hn_world := w\<rparr>) = books s" for w by (simp add: books_def)
  obtain r1 w1 where p: "ce_pull ce (hn_world s) = (r1, w1)" by fastforce
  obtain r2 w2 where q: "re_read env w1 = (r2, w2)" by fastforce
  note run = Suc.prems p b Suc.IH [of "s\<lparr>hn_world := w2\<rparr>"]
  show ?case
  proof (cases r1)
    case ok: (Ok x)
    show ?thesis
    proof (cases r2)
      case (Err e)
      show ?thesis
      proof (cases "err_code e = ERROR_SOCKET_TIMEOUT")
        case False
        then have "r = Err (srs_error_wrap e ''read response'')" "t = s\<lparr>hn_world := w2\<rparr>"
          using run ok q Err by (simp_all add: bind_def wrap_err_def in_world_def)
        then show ?thesis using False q Err b unfolding gone_def by blast
      qed (use run ok q Err in \<open>simp add: bind_def wrap_err_def in_world_def\<close>)
    qed (use run ok q in \<open>auto simp: bind_def wrap_err_def in_world_def gone_def\<close>)
  next
    case (Err e)
    then have "r = Err (srs_error_wrap e ''timeout'')" "t = s\<lparr>hn_world := w1\<rparr>"
      using run by (simp_all add: bind_def wrap_err_def in_world_def)
    then show ?thesis using Err p b unfolding gone_def by blast
  next
    case (Panic q)
    then show ?thesis using run by (auto simp: bind_def wrap_err_def in_world_def gone_def)
  qed
qed (auto simp: panic_def gone_def)



subsection \<open>Requests one after another\<close>

text \<open>One round of the loop, up to whether the connection is kept alive.\<close>

definition one_request :: "('w, 'r, 'm) conn_env \<Rightarrow> ('w, 'r, 'm) conn_owner \<Rightarrow> (('w, 'r) http_conn, bool) call" where
  "one_request env own =
     bind (wrap_err ''pull'' (in_world (ce_pull env))) (\<lambda>_.
     bind (wrap_err ''parse message'' (in_world (ce_parse_message env))) (\<lambda>req. case req of
        None \<Rightarrow> panic AssertFailed
      | Some req \<Rightarrow> finally_do (bind own_message (\<lambda>_. serve_message env own req)) free_message))"

definition after_request :: "('w, 'r, 'm) conn_env \<Rightarrow> ('w, 'r, 'm) conn_owner \<Rightarrow> ('w, 'r) http_conn \<Rightarrow> ('w, 'r) http_conn" where
  "after_request env own s = snd (one_request env own s)"

lemma bind_case_option:
  "bind (case req of None \<Rightarrow> panic q | Some req \<Rightarrow> m req) f = (case req of None \<Rightarrow> panic q | Some req \<Rightarrow> bind (m req) f)"
  by (cases req) (auto simp: bind_def panic_def)

lemma process_requests_round:
  "process_requests (Suc fuel) env own req_id =
     bind (one_request env own) (\<lambda>keep_alive. if \<not> keep_alive then ret ()
       else bind (add_int req_id 1) (\<lambda>req_id. process_requests fuel env own req_id))"
  by (simp add: one_request_def bind_assoc bind_case_option)



end
