(* ===== verification/AppThread.thy ===== *)
theory AppThread
  imports AppLog
begin

section \<open>Coroutines, wait groups and timers\<close>

text \<open>
  \<^verbatim>\<open>SrsFastCoroutine\<close> and \<^verbatim>\<open>SrsWaitGroup\<close> of \<^verbatim>\<open>srs_app_st.cpp\<close> and the loop of \<^verbatim>\<open>SrsFastTimer\<close>
  of \<^verbatim>\<open>srs_app_hourglass.cpp\<close>. The entry of a thread, \<^verbatim>\<open>SrsFastCoroutine::pfn\<close>, is declared and
  never defined, so what a thread does is a relation the state machine takes as given, with the one
  promise that the comment in \<^verbatim>\<open>stop\<close> makes: the error it returns is the one it left in \<^verbatim>\<open>trd_err\<close>.
  The functions of the state-threads library are arguments.
\<close>

subsection \<open>The coroutine\<close>

definition ERROR_ST_CREATE_CYCLE_THREAD :: int where "ERROR_ST_CREATE_CYCLE_THREAD = 1017"
definition ERROR_THREAD_DISPOSED :: int where "ERROR_THREAD_DISPOSED = 1069"
definition ERROR_THREAD_INTERRUPED :: int where "ERROR_THREAD_INTERRUPED = 1070"
definition ERROR_THREAD_TERMINATED :: int where "ERROR_THREAD_TERMINATED = 1071"
definition ERROR_THREAD_STARTED :: int where "ERROR_THREAD_STARTED = 1078"

text \<open>An error object: its address, which \<^verbatim>\<open>stop\<close> compares, and what it says.\<close>

type_synonym err_ref = "nat \<times> srs_error"

text \<open>
  \<open>co_next\<close> is the next address for an error object; \<open>co_signals\<close> counts the calls of
  \<^verbatim>\<open>st_thread_interrupt\<close>.
\<close>

record SrsFastCoroutine =
  co_name :: string
  co_stack_size :: int
  co_trd :: "nat option"
  co_cid :: string
  co_trd_err :: "err_ref option"
  co_started :: bool
  co_interrupted :: bool
  co_disposed :: bool
  co_cycle_done :: bool
  co_stopping :: bool
  co_stopping_cid :: string
  co_next :: nat
  co_signals :: nat

text \<open>The constructor without a context id has the empty one.\<close>

definition SrsFastCoroutine_new :: "string \<Rightarrow> string \<Rightarrow> SrsFastCoroutine" where
  "SrsFastCoroutine_new n cid = \<lparr>co_name = n, co_stack_size = 0, co_trd = None, co_cid = cid,
     co_trd_err = None, co_started = False, co_interrupted = False, co_disposed = False,
     co_cycle_done = False, co_stopping = False, co_stopping_cid = [], co_next = 0, co_signals = 0\<rparr>"

definition new_err :: "srs_error \<Rightarrow> SrsFastCoroutine \<Rightarrow> err_ref \<times> SrsFastCoroutine" where
  "new_err e s = ((co_next s, e), s\<lparr>co_next := co_next s + 1\<rparr>)"

text \<open>\<^verbatim>\<open>trd_err = e\<close> for a new error, and \<^verbatim>\<open>if (trd_err == srs_success) trd_err = e\<close>.\<close>

definition set_err :: "srs_error \<Rightarrow> SrsFastCoroutine \<Rightarrow> SrsFastCoroutine" where
  "set_err e s = (let (r, s) = new_err e s in s\<lparr>co_trd_err := Some r\<rparr>)"

definition set_err_first :: "srs_error \<Rightarrow> SrsFastCoroutine \<Rightarrow> SrsFastCoroutine" where
  "set_err_first e s = (if co_trd_err s = None then set_err e s else s)"

text \<open>\<open>create\<close> is what \<^verbatim>\<open>_pfn_st_thread_create\<close> returns.\<close>

definition co_start :: "nat option \<Rightarrow> SrsFastCoroutine \<Rightarrow> err_ref option \<times> SrsFastCoroutine" where
  "co_start create s =
     (if co_started s \<or> co_disposed s then
        (let e = (if co_disposed s then srs_error_new ERROR_THREAD_DISPOSED ''disposed''
                  else srs_error_new ERROR_THREAD_STARTED ''started'');
             (err, s) = new_err e s
         in (Some err, set_err_first e s))
      else
        (let s = s\<lparr>co_trd := create\<rparr> in
         if create = None then
           (let e = srs_error_new ERROR_ST_CREATE_CYCLE_THREAD ''create failed''; (err, s) = new_err e s
            in (Some err, set_err e s))
         else (None, s\<lparr>co_started := True\<rparr>)))"

definition co_interrupt :: "SrsFastCoroutine \<Rightarrow> SrsFastCoroutine" where
  "co_interrupt s =
     (if \<not> co_started s \<or> co_interrupted s \<or> co_cycle_done s then s
      else
        (let s = set_err_first (srs_error_new ERROR_THREAD_INTERRUPED ''interrupted'') (s\<lparr>co_interrupted := True\<rparr>)
         in s\<lparr>co_signals := co_signals s + 1\<rparr>))"

definition co_pull :: "SrsFastCoroutine \<Rightarrow> err_ref option \<times> SrsFastCoroutine" where
  "co_pull s = (case co_trd_err s of
      None \<Rightarrow> (None, s)
    | Some r \<Rightarrow> (let (c, s) = new_err (snd r) s in (Some c, s)))"

text \<open>
  \<^verbatim>\<open>stop\<close> up to the join, and from the join on. \<open>join\<close> is what happens until \<^verbatim>\<open>st_thread_join\<close>
  returns: its return value, the result of the thread, and the object then.
\<close>

definition stop_begin :: "SrsFastCoroutine \<Rightarrow> SrsFastCoroutine" where
  "stop_begin s = co_interrupt (s\<lparr>co_disposed := True, co_stopping := True\<rparr>)"

definition stop_end :: "SrsFastCoroutine \<Rightarrow> SrsFastCoroutine" where
  "stop_end s =
     (if co_trd_err s = None \<and> \<not> co_cycle_done s
      then set_err (srs_error_new ERROR_THREAD_TERMINATED ''terminated'') s else s)\<lparr>co_stopping := False\<rparr>"

definition co_stop :: "(SrsFastCoroutine \<Rightarrow> int \<times> err_ref option \<times> SrsFastCoroutine) \<Rightarrow>
    (SrsFastCoroutine, unit) call" where
  "co_stop join s =
     (if co_disposed s then (if co_stopping s then (Panic AssertFailed, s) else (Ok (), s))
      else
        (let s = stop_begin s in
         if co_trd s = None then (Ok (), stop_end s)
         else (case join s of (r0, res, s) \<Rightarrow>
           if r0 \<noteq> 0 then (Panic AssertFailed, s)
           else if res \<noteq> None \<and> co_trd_err s \<noteq> res then (Panic AssertFailed, s)
           else (Ok (), stop_end s))))"

text \<open>
  \<^verbatim>\<open>cycle\<close>, over the context (\<open>None\<close> when there is none) and the object; \<open>handler\<close> is what the
  handler of the coroutine does.
\<close>

type_synonym co_world = "SrsThreadContext option \<times> SrsFastCoroutine"

definition enter_context :: "nat \<Rightarrow> (co_world, unit) call" where
  "enter_context self w = (case w of
      (None, s) \<Rightarrow> (Ok (), w)
    | (Some cx, s) \<Rightarrow>
       (let s = (if co_cid s = [] then (case generate_id cx of (Ok v, _) \<Rightarrow> s\<lparr>co_cid := v\<rparr> | _ \<Rightarrow> s) else s) in
        (case set_id self (co_cid s) cx of
           (Ok v, cx) \<Rightarrow> (Ok (), (Some cx, s))
         | (Err e, cx) \<Rightarrow> (Err e, (Some cx, s))
         | (Panic q, cx) \<Rightarrow> (Panic q, (Some cx, s)))))"

definition co_cycle :: "nat \<Rightarrow> (co_world, err_ref option) call \<Rightarrow> (co_world, err_ref option) call" where
  "co_cycle self handler =
     bind (enter_context self) (\<lambda>_.
     bind handler (\<lambda>err. case err of
        Some r \<Rightarrow> (\<lambda>(cx, s). let (r', s) = new_err (srs_error_wrap (snd r) ''coroutine cycle'') s
                    in (Ok (Some r'), (cx, s)))
      | None \<Rightarrow> (\<lambda>(cx, s). (Ok None, (cx, s\<lparr>co_cycle_done := True\<rparr>)))))"

text \<open>The destructor.\<close>

definition co_free :: "(SrsFastCoroutine \<Rightarrow> int \<times> err_ref option \<times> SrsFastCoroutine) \<Rightarrow>
    (SrsFastCoroutine, unit) call" where
  "co_free join = bind (co_stop join) (\<lambda>_ s. (Ok (), s\<lparr>co_trd_err := None\<rparr>))"

subsection \<open>The state machine of a coroutine\<close>

text \<open>
  What the thread may have done between two operations of others: it allocates errors, takes its
  context id, ends its cycle, and leaves an error, which it never takes back.
\<close>

definition worker :: "SrsFastCoroutine \<Rightarrow> SrsFastCoroutine \<Rightarrow> bool" where
  "worker s s' \<longleftrightarrow> co_started s \<and> co_next s \<le> co_next s' \<and>
     (co_trd_err s \<noteq> None \<longrightarrow> co_trd_err s' \<noteq> None) \<and> (co_cycle_done s \<longrightarrow> co_cycle_done s') \<and>
     co_name s' = co_name s \<and> co_stack_size s' = co_stack_size s \<and> co_trd s' = co_trd s \<and>
     co_started s' = co_started s \<and> co_interrupted s' = co_interrupted s \<and>
     co_disposed s' = co_disposed s \<and> co_stopping s' = co_stopping s \<and>
     co_stopping_cid s' = co_stopping_cid s \<and> co_signals s' = co_signals s"

text \<open>
  The operations of any number of other coroutines and the thread itself, interleaved; a call of
  \<^verbatim>\<open>stop\<close> is two steps, as others run while it waits.
\<close>

inductive co_step :: "SrsFastCoroutine \<Rightarrow> SrsFastCoroutine \<Rightarrow> bool" where
  start: "co_step s (snd (co_start create s))"
| interrupt: "co_step s (co_interrupt s)"
| pull: "co_step s (snd (co_pull s))"
| work: "worker s s' \<Longrightarrow> co_step s s'"
| stopping: "\<not> co_disposed s \<Longrightarrow> co_step s (stop_begin s)"
| stopped: "co_stopping s \<Longrightarrow> co_step s (stop_end s)"

inductive_cases co_stepE: "co_step s s'"

abbreviation co_steps :: "SrsFastCoroutine \<Rightarrow> SrsFastCoroutine \<Rightarrow> bool" where
  "co_steps \<equiv> co_step\<^sup>*\<^sup>*"

definition co_ok :: "SrsFastCoroutine \<Rightarrow> bool" where
  "co_ok s \<longleftrightarrow>
     (co_started s \<longleftrightarrow> co_trd s \<noteq> None) \<and>
     (co_interrupted s \<longrightarrow> co_started s \<and> co_trd_err s \<noteq> None) \<and>
     co_signals s = (if co_interrupted s then 1 else 0) \<and>
     (co_stopping s \<longrightarrow> co_disposed s) \<and>
     (co_disposed s \<and> co_started s \<longrightarrow> co_interrupted s \<or> co_cycle_done s) \<and>
     (co_disposed s \<and> \<not> co_stopping s \<longrightarrow> co_trd_err s \<noteq> None \<or> co_cycle_done s) \<and>
     (co_cycle_done s \<longrightarrow> co_started s)"

lemmas co_defs = co_start_def co_interrupt_def co_pull_def stop_begin_def stop_end_def
  new_err_def set_err_def set_err_first_def

lemma co_ok_new: "co_ok (SrsFastCoroutine_new n cid)"
  by (simp add: co_ok_def SrsFastCoroutine_new_def)

lemma co_ok_step: "co_step s s' \<Longrightarrow> co_ok s \<Longrightarrow> co_ok s'"
  by (induction rule: co_step.induct)
    (auto simp: co_ok_def co_defs worker_def Let_def split: option.splits)

lemma co_ok_steps: "co_steps s s' \<Longrightarrow> co_ok s \<Longrightarrow> co_ok s'"
  by (induction rule: rtranclp_induct) (auto intro: co_ok_step)

text \<open>What is never taken back.\<close>

definition co_keeps :: "SrsFastCoroutine \<Rightarrow> SrsFastCoroutine \<Rightarrow> bool" where
  "co_keeps s s' \<longleftrightarrow> (co_trd_err s \<noteq> None \<longrightarrow> co_trd_err s' \<noteq> None) \<and>
     (co_disposed s \<longrightarrow> co_disposed s' \<and> co_trd s' = co_trd s \<and> co_started s' = co_started s) \<and>
     (co_disposed s \<and> \<not> co_stopping s \<longrightarrow> \<not> co_stopping s') \<and>
     (co_started s \<longrightarrow> co_started s' \<and> co_trd s' = co_trd s) \<and> (co_cycle_done s \<longrightarrow> co_cycle_done s')"

lemma co_keeps_step: "co_step s s' \<Longrightarrow> co_ok s \<Longrightarrow> co_keeps s s'"
  by (induction rule: co_step.induct)
    (auto simp: co_ok_def co_keeps_def co_defs worker_def Let_def split: option.splits)

lemma co_keeps_steps: "co_steps s s' \<Longrightarrow> co_ok s \<Longrightarrow> co_keeps s s'"
proof (induction rule: rtranclp_induct)
  case (step t u)
  then have "co_keeps t u" by (intro co_keeps_step co_ok_steps [of s t]) auto
  with step show ?case by (auto simp: co_keeps_def)
qed (simp add: co_keeps_def)

text \<open>\<^verbatim>\<open>cycle\<close> is within what the machine lets a thread do, if its handler is.\<close>

lemma worker_refl: "co_started s \<Longrightarrow> worker s s"
  by (simp add: worker_def)

lemma worker_trans: "worker s t \<Longrightarrow> worker t u \<Longrightarrow> worker s u"
  by (simp add: worker_def)

lemma enter_context_worker:
  assumes "enter_context self (cx, s) = (r, (cx', s'))" and "co_started s"
  shows "worker s s'"
proof -
  have cid: "worker s (s\<lparr>co_cid := v\<rparr>)" for v using assms(2) by (simp add: worker_def)
  have "s' = s \<or> (\<exists>v. s' = s\<lparr>co_cid := v\<rparr>)"
    using assms(1) by (cases cx) (auto simp: enter_context_def Let_def generate_id_def
        split: prod.splits outcome.splits if_splits)
  then show ?thesis using cid worker_refl [OF assms(2)] by auto
qed

lemma worker_new_err: "worker s t \<Longrightarrow> worker s (t\<lparr>co_next := Suc (co_next t)\<rparr>)"
  by (simp add: worker_def)

lemma worker_done: "worker s t \<Longrightarrow> worker s (t\<lparr>co_cycle_done := True\<rparr>)"
  by (simp add: worker_def)

lemma worker_started: "worker s t \<Longrightarrow> co_started t"
  by (simp add: worker_def)

lemma co_cycle_worker:
  assumes handler: "\<And>cx s r cx' s'. handler (cx, s) = (r, (cx', s')) \<Longrightarrow> co_started s \<Longrightarrow> worker s s'"
    and run: "co_cycle self handler (cx, s) = (r, (cx', s'))" and "co_started s"
  shows "worker s s' \<and> (r = Ok None \<longrightarrow> co_cycle_done s')"
proof -
  obtain r1 cx1 s1 where 1: "enter_context self (cx, s) = (r1, (cx1, s1))" by (metis surj_pair)
  then have w1: "worker s s1" using \<open>co_started s\<close> by (rule enter_context_worker)
  obtain r2 cx2 s2 where 2: "handler (cx1, s1) = (r2, (cx2, s2))" by (metis surj_pair)
  have "worker s1 s2" using 2 worker_started [OF w1] by (rule handler)
  with w1 have w2: "worker s s2" by (rule worker_trans)
  note eqs = run 1 2
  show ?thesis
  proof (cases r1)
    case (Ok u)
    show ?thesis
    proof (cases r2)
      case (Ok x)
      then show ?thesis using \<open>r1 = Ok u\<close> eqs worker_new_err [OF w2] worker_done [OF w2]
        by (cases x) (auto simp: co_cycle_def bind_def new_err_def)
    next
      case (Err e)
      then have "s' = s2 \<and> r = Err e" using \<open>r1 = Ok u\<close> eqs by (simp add: co_cycle_def bind_def)
      with w2 show ?thesis by simp
    next
      case (Panic q)
      then have "s' = s2 \<and> r = Panic q" using \<open>r1 = Ok u\<close> eqs by (simp add: co_cycle_def bind_def)
      with w2 show ?thesis by simp
    qed
  next
    case (Err e)
    then have "s' = s1 \<and> r = Err e" using eqs by (simp add: co_cycle_def bind_def)
    with w1 show ?thesis by simp
  next
    case (Panic q)
    then have "s' = s1 \<and> r = Panic q" using eqs by (simp add: co_cycle_def bind_def)
    with w1 show ?thesis by simp
  qed
qed

subsection \<open>What a coroutine promises\<close>

text \<open>
  C11. Whatever operations come in whatever order, from other coroutines and from the thread itself,
  a coroutine has a thread exactly when it was started, the thread is interrupted at most once, an
  interrupted or a stopped one has an error for the next \<^verbatim>\<open>pull\<close> unless its cycle was done before,
  and an error, the disposal and the thread are never taken back.
\<close>

theorem coroutine_reachable:
  assumes "co_steps (SrsFastCoroutine_new n cid) s" and "co_steps s s'"
  shows "(co_started s \<longleftrightarrow> co_trd s \<noteq> None) \<and> co_signals s \<le> 1 \<and>
    (co_interrupted s \<longrightarrow> fst (co_pull s) \<noteq> None) \<and>
    (co_disposed s \<and> \<not> co_stopping s \<longrightarrow> fst (co_pull s) \<noteq> None \<or> co_cycle_done s) \<and>
    (fst (co_pull s) \<noteq> None \<longrightarrow> fst (co_pull s') \<noteq> None) \<and>
    (co_disposed s \<longrightarrow> co_disposed s') \<and> (co_started s \<longrightarrow> co_trd s' = co_trd s)"
proof -
  have ok: "co_ok s" using assms(1) co_ok_new by (rule co_ok_steps)
  have "co_keeps s s'" using assms(2) ok by (rule co_keeps_steps)
  moreover have pull: "fst (co_pull t) \<noteq> None \<longleftrightarrow> co_trd_err t \<noteq> None" for t
    by (simp add: co_pull_def Let_def new_err_def split: option.split)
  ultimately show ?thesis using ok unfolding pull by (auto simp: co_ok_def co_keeps_def)
qed

theorem coroutine_reachable_witness:
  "fst (co_pull (stop_begin (snd (co_start (Some 7) (SrsFastCoroutine_new ''hybrid'' []))))) \<noteq> None"
proof -
  let ?s = "stop_begin (snd (co_start (Some 7) (SrsFastCoroutine_new ''hybrid'' [])))"
  have "co_step (snd (co_start (Some 7) (SrsFastCoroutine_new ''hybrid'' []))) ?s"
    by (intro co_step.stopping) (simp add: co_start_def SrsFastCoroutine_new_def)
  then have "co_steps (SrsFastCoroutine_new ''hybrid'' []) ?s"
    by (meson co_step.start converse_rtranclp_into_rtranclp r_into_rtranclp)
  moreover have "co_interrupted ?s"
    by (simp add: co_defs SrsFastCoroutine_new_def Let_def)
  ultimately show ?thesis using coroutine_reachable [of "''hybrid''" "[]" ?s ?s] by blast
qed

text \<open>A join as the comment in \<^verbatim>\<open>stop\<close> has it: it succeeds, others run, the result is in \<^verbatim>\<open>trd_err\<close>.\<close>

definition join_ok :: "(SrsFastCoroutine \<Rightarrow> int \<times> err_ref option \<times> SrsFastCoroutine) \<Rightarrow> bool" where
  "join_ok join \<longleftrightarrow> (\<forall>s r0 res s'. join s = (r0, res, s') \<longrightarrow>
     r0 = 0 \<and> co_steps s s' \<and> co_stopping s' = co_stopping s \<and> (res \<noteq> None \<longrightarrow> co_trd_err s' = res))"

lemma stop_begin_fields: "co_disposed (stop_begin s)" "co_stopping (stop_begin s)"
  "co_trd (stop_begin s) = co_trd s" "co_started (stop_begin s) = co_started s"
  by (simp_all add: co_defs Let_def)

lemma co_stop_steps:
  assumes "join_ok join" and "\<not> co_disposed s"
  obtains s' where "co_stop join s = (Ok (), s')" "co_steps s s'" "\<not> co_stopping s'" "co_step\<^sup>+\<^sup>+ s s'"
    "\<exists>t. co_steps (stop_begin s) t \<and> s' = stop_end t"
proof -
  have b: "co_step s (stop_begin s)" using assms(2) by (rule co_step.stopping)
  have e: "\<not> co_stopping (stop_end t)" for t by (simp add: stop_end_def)
  show thesis
  proof (cases "co_trd s")
    case None
    have "co_step (stop_begin s) (stop_end (stop_begin s))"
      by (intro co_step.stopped) (simp add: stop_begin_fields)
    with b e assms(2) None show thesis
      by (intro that [of "stop_end (stop_begin s)"])
        (auto simp: co_stop_def Let_def stop_begin_fields intro: rtranclp_trans tranclp.intros)
  next
    case (Some trd)
    obtain r0 res t where j: "join (stop_begin s) = (r0, res, t)" by (metis surj_pair)
    then have t: "r0 = 0" "co_steps (stop_begin s) t" "co_stopping t" "res \<noteq> None \<longrightarrow> co_trd_err t = res"
      using assms(1) by (auto simp: join_ok_def stop_begin_fields)
    have "co_step t (stop_end t)" using t(3) by (rule co_step.stopped)
    with b t(2) have "co_step\<^sup>+\<^sup>+ s (stop_end t)"
      by (meson rtranclp_into_tranclp1 rtranclp_into_tranclp2 tranclp_into_rtranclp
          converse_rtranclp_into_rtranclp)
    with e j t assms(2) Some show thesis
      by (intro that [of "stop_end t"])
        (auto simp: co_stop_def Let_def stop_begin_fields intro: tranclp_into_rtranclp)
  qed
qed


definition idle_join :: "SrsFastCoroutine \<Rightarrow> int \<times> err_ref option \<times> SrsFastCoroutine" where
  "idle_join s = (0, None, s)"


text \<open>
  Two corners of the contract in the header file. A second \<^verbatim>\<open>start\<close> of a running coroutine is
  refused and makes no thread, but its error is also what the running thread then finds in \<^verbatim>\<open>pull\<close>.
  And a thread that ends its cycle without an error is reported as still running, before and after it
  is stopped: \<^verbatim>\<open>pull\<close> never says \<^verbatim>\<open>ERROR_THREAD_TERMINATED\<close> of it.
\<close>

theorem coroutine_corners:
  assumes "co_started s" and "\<not> co_disposed s" and "co_trd_err s = None"
  shows "(\<exists>r r'. fst (co_start c s) = Some r \<and> err_code (snd r) = ERROR_THREAD_STARTED \<and>
      co_trd (snd (co_start c s)) = co_trd s \<and>
      fst (co_pull (snd (co_start c s))) = Some r' \<and> err_code (snd r') = ERROR_THREAD_STARTED) \<and>
    (co_cycle_done s \<and> join_ok join \<and> join (stop_begin s) = (0, None, stop_begin s) \<longrightarrow>
      fst (co_pull s) = None \<and> (\<exists>s'. co_stop join s = (Ok (), s') \<and> fst (co_pull s') = None))"
  using assms by (auto simp: co_start_def co_stop_def co_pull_def stop_begin_def stop_end_def
      co_interrupt_def set_err_first_def set_err_def new_err_def Let_def)

theorem coroutine_corners_witness:
  "\<exists>r. fst (co_pull (snd (co_start (Some 8) (snd (co_start (Some 7) (SrsFastCoroutine_new ''c'' [])))))) = Some r \<and>
     err_code (snd r) = ERROR_THREAD_STARTED"
  using coroutine_corners [of "snd (co_start (Some 7) (SrsFastCoroutine_new ''c'' []))" "Some 8" idle_join]
  by (auto simp: co_start_def SrsFastCoroutine_new_def)

subsection \<open>Wait groups\<close>

text \<open>
  Threads are known by their addresses. A thread that calls \<^verbatim>\<open>srs_cond_wait\<close> joins the queue of the
  condition, and \<^verbatim>\<open>srs_cond_signal\<close> lets the first of them go on, as the state-threads library has
  it; \<open>wg_returned\<close> are the threads whose \<^verbatim>\<open>wait\<close> returned, in order.
\<close>

record SrsWaitGroup =
  wg_nn :: int
  wg_waiting :: "nat list"
  wg_returned :: "nat list"

definition SrsWaitGroup_new :: SrsWaitGroup where
  "SrsWaitGroup_new = \<lparr>wg_nn = 0, wg_waiting = [], wg_returned = []\<rparr>"

definition wg_set :: "int \<Rightarrow> (SrsWaitGroup, unit) call" where
  "wg_set n g = (Ok (), g\<lparr>wg_nn := n\<rparr>)"

definition cond_signal :: "(SrsWaitGroup, unit) call" where
  "cond_signal g = (case wg_waiting g of
      [] \<Rightarrow> (Ok (), g)
    | w # ws \<Rightarrow> (Ok (), g\<lparr>wg_waiting := ws, wg_returned := wg_returned g @ [w]\<rparr>))"

definition wg_add :: "int \<Rightarrow> (SrsWaitGroup, unit) call" where
  "wg_add n = bind (gets wg_nn) (\<lambda>k. bind (add_int k n) wg_set)"

definition wg_done :: "(SrsWaitGroup, unit) call" where
  "wg_done = bind (gets wg_nn) (\<lambda>k. bind (add_int k (- 1)) (\<lambda>k. bind (wg_set k) (\<lambda>_.
     if k \<le> 0 then cond_signal else ret ())))"

definition wg_wait :: "nat \<Rightarrow> (SrsWaitGroup, unit) call" where
  "wg_wait w g =
     (if wg_nn g > 0 then (Ok (), g\<lparr>wg_waiting := wg_waiting g @ [w]\<rparr>)
      else (Ok (), g\<lparr>wg_returned := wg_returned g @ [w]\<rparr>))"

fun wg_waits :: "nat list \<Rightarrow> (SrsWaitGroup, unit) call" where
  "wg_waits [] = ret ()"
| "wg_waits (w # ws) = bind (wg_wait w) (\<lambda>_. wg_waits ws)"

fun wg_dones :: "nat \<Rightarrow> (SrsWaitGroup, unit) call" where
  "wg_dones 0 = ret ()"
| "wg_dones (Suc k) = bind (wg_dones k) (\<lambda>_. wg_done)"

lemma wg_waits_blocked: "wg_nn g > 0 \<Longrightarrow> wg_waits ws g = (Ok (), g\<lparr>wg_waiting := wg_waiting g @ ws\<rparr>)"
  by (induction ws arbitrary: g) (simp_all add: bind_def wg_wait_def)

lemma wg_dones_wake:
  assumes "0 < n" and "n < 2 ^ 31" and "int k \<le> n + 2 ^ 31"
  shows "wg_dones k \<lparr>wg_nn = n, wg_waiting = ws, wg_returned = []\<rparr> =
    (Ok (), \<lparr>wg_nn = n - int k, wg_waiting = drop (k + 1 - nat n) ws, wg_returned = take (k + 1 - nat n) ws\<rparr>)"
  using assms(3)
proof (induction k)
  case 0
  have "1 - nat n = 0" using assms(1) by simp
  then show ?case by simp
next
  case (Suc k)
  let ?g = "\<lparr>wg_nn = n - int k, wg_waiting = drop (k + 1 - nat n) ws, wg_returned = take (k + 1 - nat n) ws\<rparr>"
  let ?m = "n - int k - 1"
  have dones: "wg_dones k \<lparr>wg_nn = n, wg_waiting = ws, wg_returned = []\<rparr> = (Ok (), ?g)" using Suc by simp
  have add: "add_int (n - int k) (- 1) g = (Ok ?m, g)" for g :: SrsWaitGroup
    using Suc.prems assms(1,2) by (simp add: add_int_def)
  show ?case
  proof (cases "?m \<le> 0")
    case True
    then have j: "Suc k + 1 - nat n = Suc (k + 1 - nat n)" using assms(1) by simp
    show ?thesis
    proof (cases "drop (k + 1 - nat n) ws")
      case Nil
      then show ?thesis using dones add True unfolding j
        by (simp add: bind_def wg_done_def wg_set_def cond_signal_def)
    next
      case (Cons w us)
      then have "take (Suc (k + 1 - nat n)) ws = take (k + 1 - nat n) ws @ [w]"
        "drop (Suc (k + 1 - nat n)) ws = us"
        by (metis take_Suc_conv_app_nth nth_via_drop drop_eq_Nil list.distinct(1) not_le)
          (metis Cons drop_Suc list.sel(3) tl_drop)
      then show ?thesis using dones add True Cons unfolding j
        by (simp add: bind_def wg_done_def wg_set_def cond_signal_def)
    qed
  next
    case False
    then have "k + 1 - nat n = 0" "Suc k + 1 - nat n = 0" by simp_all
    then show ?thesis using dones add False
      by (simp add: bind_def wg_done_def wg_set_def)
  qed
qed



subsection \<open>The loop of a timer\<close>

text \<open>
  \<open>'e\<close> is the rest of the system, which \<^verbatim>\<open>pull\<close> and the handlers may change. \<open>ti_sugar\<close> is the
  counter of \<^verbatim>\<open>_srs_pps_timer\<close>, \<open>None\<close> as long as the pointer is \<^verbatim>\<open>NULL\<close>; \<open>ti_slept\<close> are the
  microseconds spent in \<^verbatim>\<open>srs_usleep\<close>. The loop has fuel, one unit a round.
\<close>

record 'e SrsFastTimer =
  ti_env :: 'e
  ti_sugar :: "int option"
  ti_slept :: int

definition on_env :: "('e, 'a) call \<Rightarrow> ('e SrsFastTimer, 'a) call" where
  "on_env m s = (case m (ti_env s) of (r, e) \<Rightarrow> (r, s\<lparr>ti_env := e\<rparr>))"

definition count_tick :: "('e SrsFastTimer, unit) call" where
  "count_tick s = (case ti_sugar s of
      None \<Rightarrow> (Panic UndefinedBehaviour, s)
    | Some n \<Rightarrow> (Ok (), s\<lparr>ti_sugar := Some (n + 1)\<rparr>))"

text \<open>Any error of a handler is freed and ignored.\<close>

fun run_handlers :: "int \<Rightarrow> (int \<Rightarrow> ('e, unit) call) list \<Rightarrow> ('e, unit) call" where
  "run_handlers interval [] = ret ()"
| "run_handlers interval (h # hs) = (\<lambda>e. case h interval e of
      (Panic q, e) \<Rightarrow> (Panic q, e)
    | (_, e) \<Rightarrow> run_handlers interval hs e)"

fun fast_timer_cycle :: "nat \<Rightarrow> ('e, unit) call \<Rightarrow> (int \<Rightarrow> ('e, unit) call) list \<Rightarrow> int \<Rightarrow>
    ('e SrsFastTimer, unit) call" where
  "fast_timer_cycle 0 pull hs interval = panic OutOfFuel"
| "fast_timer_cycle (Suc fuel) pull hs interval =
     bind (wrap_err ''quit'' (on_env pull)) (\<lambda>_.
     bind count_tick (\<lambda>_.
     bind (on_env (run_handlers interval hs)) (\<lambda>_.
     bind (\<lambda>s. (Ok (), s\<lparr>ti_slept := ti_slept s + interval\<rparr>)) (\<lambda>_.
     fast_timer_cycle fuel pull hs interval))))"

text \<open>One round on the rest of the system: \<^verbatim>\<open>pull\<close>, then each handler once, in order.\<close>

definition timer_round :: "('e, unit) call \<Rightarrow> (int \<Rightarrow> ('e, unit) call) list \<Rightarrow> int \<Rightarrow> 'e \<Rightarrow> 'e" where
  "timer_round pull hs interval e = foldl (\<lambda>e h. snd (h interval e)) (snd (pull e)) hs"

lemma run_handlers_fold:
  assumes "\<forall>h\<in>set hs. \<forall>e. \<not> is_panic (fst (h interval e))"
  shows "run_handlers interval hs e = (Ok (), foldl (\<lambda>e h. snd (h interval e)) e hs)"
  using assms
proof (induction hs arbitrary: e)
  case (Cons h hs)
  then have "\<not> is_panic (fst (h interval e))" by simp
  with Cons show ?case by (cases "h interval e"; cases "fst (h interval e)") auto
qed simp

lemma fast_timer_round:
  assumes "\<forall>h\<in>set hs. \<forall>e. \<not> is_panic (fst (h interval e))"
    and "fst (pull (ti_env s)) = Ok ()" and "ti_sugar s = Some n"
  shows "fast_timer_cycle (Suc fuel) pull hs interval s = fast_timer_cycle fuel pull hs interval
    (s\<lparr>ti_env := timer_round pull hs interval (ti_env s), ti_sugar := Some (n + 1),
       ti_slept := ti_slept s + interval\<rparr>)"
  using assms(2,3) by (cases "pull (ti_env s)"; cases s)
    (simp add: bind_def wrap_err_def on_env_def count_tick_def timer_round_def run_handlers_fold [OF assms(1)])

text \<open>
  The loop of a timer ends exactly when \<^verbatim>\<open>pull\<close> has an error, and with that error, wrapped: when
  \<^verbatim>\<open>pull\<close> lets it go on for \<open>k\<close> rounds, every round calls each handler once, in order, whatever errors
  they had before, counts one tick and sleeps one interval. It takes \<open>k + 1\<close> units of fuel, and never
  ends by itself with less. While \<^verbatim>\<open>_srs_pps_timer\<close> is \<^verbatim>\<open>NULL\<close>, the first round is undefined.
\<close>

theorem fast_timer_rounds:
  assumes "\<forall>h\<in>set hs. \<forall>e. \<not> is_panic (fst (h interval e))"
    and "\<forall>i<k. fst (pull ((timer_round pull hs interval ^^ i) (ti_env s))) = Ok ()"
    and "pull ((timer_round pull hs interval ^^ k) (ti_env s)) = (Err err, e')"
    and "ti_sugar s = Some n"
  shows "fast_timer_cycle (k + 1 + j) pull hs interval s = (Err (srs_error_wrap err ''quit''),
      s\<lparr>ti_env := e', ti_sugar := Some (n + int k), ti_slept := ti_slept s + int k * interval\<rparr>) \<and>
    fst (fast_timer_cycle k pull hs interval s) = Panic OutOfFuel \<and>
    (0 < k \<longrightarrow> fst (fast_timer_cycle (k + 1 + j) pull hs interval (s\<lparr>ti_sugar := None\<rparr>)) =
      Panic UndefinedBehaviour)"
proof -
  have "fast_timer_cycle (k + 1 + j) pull hs interval s = (Err (srs_error_wrap err ''quit''),
      s\<lparr>ti_env := e', ti_sugar := Some (n + int k), ti_slept := ti_slept s + int k * interval\<rparr>) \<and>
    fst (fast_timer_cycle k pull hs interval s) = Panic OutOfFuel"
    using assms(2-4)
  proof (induction k arbitrary: s n)
    case 0
    then show ?case by (simp add: bind_def wrap_err_def on_env_def panic_def)
  next
    case (Suc k)
    let ?s = "s\<lparr>ti_env := timer_round pull hs interval (ti_env s), ti_sugar := Some (n + 1),
       ti_slept := ti_slept s + interval\<rparr>"
    have "\<forall>i<k. fst (pull ((timer_round pull hs interval ^^ i) (ti_env ?s))) = Ok ()"
      using Suc.prems(1) by (auto simp: funpow_swap1 dest: spec [of _ "Suc _"])
    moreover have "pull ((timer_round pull hs interval ^^ k) (ti_env ?s)) = (Err err, e')"
      using Suc.prems(2) by (simp add: funpow_swap1)
    ultimately have IH: "fast_timer_cycle (k + 1 + j) pull hs interval ?s = (Err (srs_error_wrap err ''quit''),
        ?s\<lparr>ti_env := e', ti_sugar := Some (n + 1 + int k), ti_slept := ti_slept ?s + int k * interval\<rparr>) \<and>
      fst (fast_timer_cycle k pull hs interval ?s) = Panic OutOfFuel"
      by (rule Suc.IH) simp
    have "fst (pull (ti_env s)) = Ok ()" using Suc.prems(1) by (auto dest: spec [of _ 0])
    note round = fast_timer_round [where pull = pull and s = s and n = n and interval = interval and hs = hs,
        OF assms(1) this Suc.prems(3)]
    show ?case using IH by (simp add: round algebra_simps del: fast_timer_cycle.simps)
  qed
  moreover have "fst (fast_timer_cycle (k + 1 + j) pull hs interval (s\<lparr>ti_sugar := None\<rparr>)) =
      Panic UndefinedBehaviour" if "0 < k"
  proof -
    have "fst (pull (ti_env s)) = Ok ()" using assms(2) that by (auto dest: spec [of _ 0])
    then show ?thesis by (cases "pull (ti_env s)") (simp add: bind_def wrap_err_def on_env_def count_tick_def)
  qed
  ultimately show ?thesis by blast
qed

theorem fast_timer_rounds_witness:
  "fst (fast_timer_cycle 3 (\<lambda>e. if e < (4 :: nat) then (Ok (), e) else (Err (srs_error_new 1070 ''interrupted''), e))
     [\<lambda>_ e. (Ok (), e + 1), \<lambda>_ e. (Err (srs_error_new 1000 ''x''), e + 1)] 20000
     \<lparr>ti_env = 0, ti_sugar = Some 0, ti_slept = 0\<rparr>) =
   Err (srs_error_wrap (srs_error_new 1070 ''interrupted'') ''quit'')"
proof -
  let ?pull = "\<lambda>e. if e < (4 :: nat) then (Ok (), e) else (Err (srs_error_new 1070 ''interrupted''), e)"
  let ?hs = "[\<lambda>_ e. (Ok (), e + 1), \<lambda>_ e. (Err (srs_error_new 1000 ''x''), e + 1)]"
  let ?s = "\<lparr>ti_env = 0, ti_sugar = Some 0, ti_slept = 0\<rparr>"
  have env: "(timer_round ?pull ?hs 20000 ^^ i) (ti_env ?s) = 2 * i" for i
    by (induction i) (simp_all add: timer_round_def)
  have 1: "\<forall>i<2. fst (?pull ((timer_round ?pull ?hs 20000 ^^ i) (ti_env ?s))) = Ok ()"
    unfolding env by auto
  have 2: "?pull ((timer_round ?pull ?hs 20000 ^^ 2) (ti_env ?s)) =
      (Err (srs_error_new 1070 ''interrupted''), 4)"
    unfolding env by simp
  have 3: "\<forall>h\<in>set ?hs. \<forall>e. \<not> is_panic (fst (h 20000 e))" by simp
  have "ti_sugar ?s = Some 0" by simp
  from fast_timer_rounds [OF 3 1 2 this, THEN conjunct1, of 0] have "fst (fast_timer_cycle (2 + 1 + 0) ?pull ?hs 20000 ?s) =
      Err (srs_error_wrap (srs_error_new 1070 ''interrupted'') ''quit'')"
    by (simp only: fst_conv)
  then show ?thesis by simp
qed

end
