(* ===== verification/AppUtility.thy ===== *)
theory AppUtility
  imports Prelude
begin

section \<open>The statistics of the process\<close>

text \<open>
  \<^verbatim>\<open>SrsProcSelfStat\<close> of \<^verbatim>\<open>srs_app_utility.hpp\<close>, the fields of \<^verbatim>\<open>/proc/[pid]/stat\<close>. Signed integers are
  integers, \<^verbatim>\<open>percent\<close> is the \<^verbatim>\<open>double\<close> of a hundred times it, which is all that is read of it. The
  repository has no function that fills the record, so that everything stays as the constructor leaves it.
\<close>

record SrsProcSelfStat =
  ps_ok :: bool
  ps_sample_time :: int
  ps_percent :: "64 word"
  ps_pid :: int
  ps_comm :: string
  ps_state :: char
  ps_ppid :: int
  ps_pgrp :: int
  ps_session :: int
  ps_tty_nr :: int
  ps_tpgid :: int
  ps_flags :: "32 word"
  ps_minflt :: "64 word"
  ps_cminflt :: "64 word"
  ps_majflt :: "64 word"
  ps_cmajflt :: "64 word"
  ps_utime :: "64 word"
  ps_stime :: "64 word"
  ps_cutime :: int
  ps_cstime :: int
  ps_priority :: int
  ps_nice :: int
  ps_num_threads :: int
  ps_itrealvalue :: int
  ps_starttime :: int
  ps_vsize :: "64 word"
  ps_rss :: int
  ps_rsslim :: "64 word"
  ps_startcode :: "64 word"
  ps_endcode :: "64 word"
  ps_startstack :: "64 word"
  ps_kstkesp :: "64 word"
  ps_kstkeip :: "64 word"
  ps_signal :: "64 word"
  ps_blocked :: "64 word"
  ps_sigignore :: "64 word"
  ps_sigcatch :: "64 word"
  ps_wchan :: "64 word"
  ps_nswap :: "64 word"
  ps_cnswap :: "64 word"
  ps_exit_signal :: int
  ps_processor :: int
  ps_rt_priority :: "32 word"
  ps_policy :: "32 word"
  ps_delayacct_blkio_ticks :: "64 word"
  ps_guest_time :: "64 word"
  ps_cguest_time :: int

definition SrsProcSelfStat_new :: SrsProcSelfStat where
  "SrsProcSelfStat_new = \<lparr>ps_ok = False, ps_sample_time = 0, ps_percent = 0, ps_pid = 0, ps_comm = replicate 32 (CHR 0x00), ps_state = CHR ''0'',
     ps_ppid = 0, ps_pgrp = 0, ps_session = 0, ps_tty_nr = 0, ps_tpgid = 0, ps_flags = 0,
     ps_minflt = 0, ps_cminflt = 0, ps_majflt = 0, ps_cmajflt = 0, ps_utime = 0, ps_stime = 0,
     ps_cutime = 0, ps_cstime = 0, ps_priority = 0, ps_nice = 0, ps_num_threads = 0, ps_itrealvalue = 0,
     ps_starttime = 0, ps_vsize = 0, ps_rss = 0, ps_rsslim = 0, ps_startcode = 0, ps_endcode = 0,
     ps_startstack = 0, ps_kstkesp = 0, ps_kstkeip = 0, ps_signal = 0, ps_blocked = 0, ps_sigignore = 0,
     ps_sigcatch = 0, ps_wchan = 0, ps_nswap = 0, ps_cnswap = 0, ps_exit_signal = 0, ps_processor = 0,
     ps_rt_priority = 0, ps_policy = 0, ps_delayacct_blkio_ticks = 0, ps_guest_time = 0, ps_cguest_time = 0\<rparr>"

text \<open>The global \<^verbatim>\<open>_srs_system_cpu_self_stat\<close>, as \<^verbatim>\<open>srs_get_self_proc_stat()\<close> finds it.\<close>

definition self_proc_stat :: SrsProcSelfStat where
  "self_proc_stat = SrsProcSelfStat_new"

lemma self_proc_stat_idle [simp]: "ps_percent self_proc_stat = 0" "ps_rss self_proc_stat = 0" "\<not> ps_ok self_proc_stat"
  by (simp_all add: self_proc_stat_def SrsProcSelfStat_new_def)

end
