(* ===== verification/AppHybrid.thy ===== *)
theory AppHybrid
  imports AppClient AppThread AppUtility KernelTime
begin

section \<open>The hybrid server\<close>

text \<open>
  \<^verbatim>\<open>SrsHybridServer\<close> and \<^verbatim>\<open>SrsServerAdapter\<close> of \<^verbatim>\<open>srs_app_hybrid.cpp\<close>: the report that its timer prints,
  and how it initialises and runs the servers that were registered. The servers, the start of a timer and
  its subscription are not in the repository; they are arguments over a world \<open>'w\<close>. The macros \<^verbatim>\<open>SRS_DEBUG\<close> and
  \<^verbatim>\<open>SRS_RTC\<close> are not defined.
\<close>

subsection \<open>The report of the timer\<close>

text \<open>The global pointers to rates; all but the first two start as \<^verbatim>\<open>NULL\<close> and are never set.\<close>

datatype rate_name = RateCidsGet | RateCidsSet | RateTimer | RatePub | RateConn | RateDispose | RateClock bucket

text \<open>\<open>hy_alive\<close> are the JSON objects that were made and not freed, \<open>hy_descs\<close> the descriptions of the last call.\<close>

record hybrid_state =
  hy_sys :: sys_time
  hy_rates :: "rate_name \<Rightarrow> SrsPps option"
  hy_alive :: "json list"
  hy_descs :: "string list"
  hy_printed :: "string list"

definition update_rate :: "(int \<times> int) option \<Rightarrow> rate_name \<Rightarrow> (hybrid_state, unit) call" where
  "update_rate tv n s = (case hy_rates s n of
      None \<Rightarrow> (Panic UndefinedBehaviour, s)
    | Some p \<Rightarrow>
       (case srs_get_system_time tv (hy_sys s) of
          (Panic q, t) \<Rightarrow> (Panic q, s\<lparr>hy_sys := t\<rparr>)
        | (Err e, t) \<Rightarrow> (Err e, s\<lparr>hy_sys := t\<rparr>)
        | (Ok now, t) \<Rightarrow>
           (case pps_update_sugar now p of
              Panic q \<Rightarrow> (Panic q, s\<lparr>hy_sys := t\<rparr>)
            | Err e \<Rightarrow> (Err e, s\<lparr>hy_sys := t\<rparr>)
            | Ok p \<Rightarrow> (Ok (), s\<lparr>hy_sys := t, hy_rates := (hy_rates s)(n := Some p)\<rparr>))))"

fun update_rates :: "(int \<times> int) option \<Rightarrow> rate_name list \<Rightarrow> (hybrid_state, unit) call" where
  "update_rates tv [] = ret ()"
| "update_rates tv (n # ns) = bind (update_rate tv n) (\<lambda>_. update_rates tv ns)"

text \<open>A description: empty when every rate is 0, else the rates behind a title, cut to the buffer of 128 bytes.\<close>

definition rate_of :: "hybrid_state \<Rightarrow> rate_name \<Rightarrow> int" where
  "rate_of s n = (case hy_rates s n of None \<Rightarrow> 0 | Some p \<Rightarrow> r10s p)"

fun comma_list :: "int list \<Rightarrow> string" where
  "comma_list [] = []"
| "comma_list (x # xs) = dec_of_int x @ (if xs = [] then [] else '','' @ comma_list xs)"

definition rates_desc :: "string \<Rightarrow> rate_name list \<Rightarrow> hybrid_state \<Rightarrow> string" where
  "rates_desc title ns s =
     (if \<exists>n\<in>set ns. rate_of s n \<noteq> 0 then take 127 ('', '' @ title @ ''='' @ comma_list (map (rate_of s) ns)) else [])"

definition describe :: "(int \<times> int) option \<Rightarrow> string \<Rightarrow> rate_name list \<Rightarrow> (hybrid_state, unit) call" where
  "describe tv title ns =
     bind (update_rates tv ns) (\<lambda>_ s. (Ok (), s\<lparr>hy_descs := hy_descs s @ [rates_desc title ns s]\<rparr>))"

definition clock_rates :: "rate_name list" where
  "clock_rates = map RateClock [B15, B20, B25, B30, B35, B40, B80, B160, BSlow]"

text \<open>\<^verbatim>\<open>u->percent * 100\<close>, \<^verbatim>\<open>(int)(u->rss * 4 / 1024)\<close>, and the object that is printed.\<close>

definition report_object :: "SrsProcSelfStat \<Rightarrow> json_props outcome" where
  "report_object u =
     map_outcome (\<lambda>kb.
       let memory = int_of_i64 (kb sdiv 1024);
           base = json_set ''app'' (Some (json_str (Some ''livestream''))) [];
           base = json_set ''prdline'' (Some (json_str (Some ''live''))) base;
           base = json_set ''cpu'' (Some (JsonNumber (ps_percent u))) base
       in json_set ''menory'' (Some (JsonNumber (dbl_of_int memory))) base)
     (i64 (ps_rss u * 4))"

definition print_object :: "json_props \<Rightarrow> (hybrid_state, unit) call" where
  "print_object base s = (Ok (), s\<lparr>hy_alive := hy_alive s @ [JsonObject base],
     hy_printed := hy_printed s @ [json_dumps (JsonObject base) @ [CHR 0x0A]]\<rparr>)"

text \<open>\<open>info\<close> is \<^verbatim>\<open>print_stream_info\<close>, which is not in the repository.\<close>

definition hybrid_on_timer ::
    "(hybrid_state, unit) call \<Rightarrow> (int \<times> int) option \<Rightarrow> SrsProcSelfStat \<Rightarrow> int \<Rightarrow> (hybrid_state, unit) call" where
  "hybrid_on_timer info tv u interval =
     bind (stateless (report_object u)) (\<lambda>base.
     bind (\<lambda>s. (Ok (), s\<lparr>hy_descs := []\<rparr>)) (\<lambda>_.
     bind (describe tv ''cid'' [RateCidsGet, RateCidsSet]) (\<lambda>_.
     bind (describe tv ''timer'' [RateTimer, RatePub, RateConn]) (\<lambda>_.
     bind (describe tv ''free'' [RateDispose]) (\<lambda>_.
     bind (describe tv ''clock'' clock_rates) (\<lambda>_.
     bind (print_object base) (\<lambda>_. info)))))))"

subsection \<open>The servers\<close>

datatype timer_name = Timer20ms | Timer100ms | Timer1s | Timer5s

datatype timer_handler = ClockMonitor | HybridReport

definition timer_interval :: "timer_name \<Rightarrow> int" where
  "timer_interval t = (case t of Timer20ms \<Rightarrow> 20 * SRS_UTIME_MILLISECONDS | Timer100ms \<Rightarrow> 100 * SRS_UTIME_MILLISECONDS
     | Timer1s \<Rightarrow> 1 * SRS_UTIME_SECONDS | Timer5s \<Rightarrow> 5 * SRS_UTIME_SECONDS)"

record 'w hybrid_server =
  sv_initialize :: "('w, unit) call"
  sv_run :: "('w \<times> SrsWaitGroup, unit) call"

record 'w SrsHybridServer =
  hs_servers :: "'w hybrid_server list"

text \<open>Each of the four timers asks the context of the thread for the current identity.\<close>

definition SrsHybridServer_new :: "nat \<Rightarrow> (SrsThreadContext, 'w SrsHybridServer) call" where
  "SrsHybridServer_new self =
     bind (get_id self) (\<lambda>_. bind (get_id self) (\<lambda>_. bind (get_id self) (\<lambda>_. bind (get_id self) (\<lambda>_.
     ret \<lparr>hs_servers = []\<rparr>))))"

definition register_server :: "'w hybrid_server \<Rightarrow> 'w SrsHybridServer \<Rightarrow> 'w SrsHybridServer" where
  "register_server svr h = h\<lparr>hs_servers := hs_servers h @ [svr]\<rparr>"

record 'w timer_env =
  tm_start :: "timer_name \<Rightarrow> ('w, unit) call"
  tm_subscribe :: "timer_name \<Rightarrow> timer_handler \<Rightarrow> 'w \<Rightarrow> 'w"

fun initialize_servers :: "'w hybrid_server list \<Rightarrow> ('w, unit) call" where
  "initialize_servers [] = ret ()"
| "initialize_servers (sv # svs) = bind (wrap_err ''init server'' (sv_initialize sv)) (\<lambda>_. initialize_servers svs)"

definition hybrid_initialize :: "'w timer_env \<Rightarrow> 'w SrsHybridServer \<Rightarrow> ('w, unit) call" where
  "hybrid_initialize env h =
     bind (wrap_err ''start timer'' (tm_start env Timer20ms)) (\<lambda>_.
     bind (wrap_err ''start timer'' (tm_start env Timer100ms)) (\<lambda>_.
     bind (wrap_err ''start timer'' (tm_start env Timer1s)) (\<lambda>_.
     bind (wrap_err ''start timer'' (tm_start env Timer5s)) (\<lambda>_.
     bind (\<lambda>w. (Ok (), tm_subscribe env Timer20ms ClockMonitor w)) (\<lambda>_.
     bind (\<lambda>w. (Ok (), tm_subscribe env Timer5s HybridReport w)) (\<lambda>_.
     initialize_servers (hs_servers h)))))))"

fun run_servers :: "'w hybrid_server list \<Rightarrow> ('w \<times> SrsWaitGroup, unit) call" where
  "run_servers [] = ret ()"
| "run_servers (sv # svs) = bind (wrap_err ''run server'' (sv_run sv)) (\<lambda>_. run_servers svs)"

text \<open>
  \<open>self\<close> is the thread that runs. The wait group lives in the call; the thread is in \<open>wg_waiting\<close> as long as
  it waits, and in \<open>wg_returned\<close> when \<^verbatim>\<open>wait\<close> has returned.
\<close>

definition hybrid_run :: "nat \<Rightarrow> 'w SrsHybridServer \<Rightarrow> ('w \<times> SrsWaitGroup, unit) call" where
  "hybrid_run self h =
     bind (run_servers (hs_servers h)) (\<lambda>_ (w, wg). case wg_wait self wg of (r, wg) \<Rightarrow> (r, (w, wg)))"

text \<open>The one server that is registered; \<open>srs_initialize\<close> is \<^verbatim>\<open>srs->initialize(NULL)\<close>.\<close>

definition adapter_run :: "('w, unit) call \<Rightarrow> ('w \<times> SrsWaitGroup, unit) call" where
  "adapter_run srs_initialize =
     bind (wrap_err ''server initialize'' (\<lambda>(w, wg). case srs_initialize w of (r, w) \<Rightarrow> (r, (w, wg)))) (\<lambda>_. ret ())"

subsection \<open>What the report prints\<close>

definition hybrid_ok :: "hybrid_state \<Rightarrow> bool" where
  "hybrid_ok s \<longleftrightarrow> 0 < st_cache (hy_sys s) \<and> st_cache (hy_sys s) < 2 ^ 62 \<and>
     (\<forall>n. \<exists>p. hy_rates s n = Some p \<and> pps_ok (st_cache (hy_sys s)) p \<and> 0 \<le> pps_sugar p \<and> pps_sugar p < 2 ^ 31)"

lemma pps_update_goes:
  assumes "pps_ok t p" and "t \<le> now" and "0 \<le> now" and "now < 2 ^ 62" and "0 \<le> nn" and "nn < 2 ^ 31"
  obtains p' where "pps_update nn now p = Ok p'" "pps_ok now p'" "pps_sugar p' = pps_sugar p"
  using assms(1) unfolding pps_ok_def pps_update_def Let_def
  by (simp add: sample_step_spec [OF _ assms(2-6)])

text \<open>A call that only updates rates.\<close>

definition rates_only :: "(hybrid_state, unit) call \<Rightarrow> bool" where
  "rates_only m \<longleftrightarrow> (\<forall>s. hybrid_ok s \<longrightarrow> (\<exists>r. m s = (Ok (), s\<lparr>hy_rates := r\<rparr>) \<and> hybrid_ok (s\<lparr>hy_rates := r\<rparr>)))"

lemma update_rate_only: "rates_only (update_rate tv n)"
  unfolding rates_only_def
proof (intro allI impI)
  fix s assume s: "hybrid_ok s"
  let ?now = "st_cache (hy_sys s)"
  obtain p where p: "hy_rates s n = Some p" "pps_ok ?now p" "0 \<le> pps_sugar p" "pps_sugar p < 2 ^ 31" "0 < ?now" "?now < 2 ^ 62"
    using s by (auto simp: hybrid_ok_def)
  obtain p' where p': "pps_update (pps_sugar p) ?now p = Ok p'" "pps_ok ?now p'" "pps_sugar p' = pps_sugar p"
    using pps_update_goes [OF p(2) order_refl _ p(6,3,4)] p(5) by auto
  have now: "srs_get_system_time tv (hy_sys s) = (Ok ?now, hy_sys s)"
    using p(5) by (simp add: srs_get_system_time_def bind_def)
  have "update_rate tv n s = (Ok (), s\<lparr>hy_rates := (hy_rates s)(n := Some p')\<rparr>)"
    using p(1) p' now by (simp add: update_rate_def pps_update_sugar_def)
  moreover have "hybrid_ok (s\<lparr>hy_rates := (hy_rates s)(n := Some p')\<rparr>)"
    using s p p' by (auto simp: hybrid_ok_def)
  ultimately show "\<exists>r. update_rate tv n s = (Ok (), s\<lparr>hy_rates := r\<rparr>) \<and> hybrid_ok (s\<lparr>hy_rates := r\<rparr>)" by blast
qed

lemma rates_only_bind: "rates_only m \<Longrightarrow> rates_only n \<Longrightarrow> rates_only (bind m (\<lambda>_. n))"
  unfolding rates_only_def by (fastforce simp: bind_def)

lemma update_rates_only: "rates_only (update_rates tv ns)"
  by (induction ns) (auto intro: rates_only_bind update_rate_only, simp add: rates_only_def, metis surjective_pairing
      hybrid_state.surjective hybrid_state.update_convs(2))

lemma rates_desc_empty: "rates_desc title ns s = []"
  by (auto simp: rates_desc_def rate_of_def r10s_def split: option.splits)

lemma describe_ok:
  assumes "hybrid_ok s"
  obtains r where "describe tv title ns s = (Ok (), s\<lparr>hy_rates := r, hy_descs := hy_descs s @ [[]]\<rparr>)"
    "hybrid_ok (s\<lparr>hy_rates := r, hy_descs := hy_descs s @ [[]]\<rparr>)"
proof -
  obtain r where "update_rates tv ns s = (Ok (), s\<lparr>hy_rates := r\<rparr>)" "hybrid_ok (s\<lparr>hy_rates := r\<rparr>)"
    using update_rates_only [of tv ns] assms unfolding rates_only_def by blast
  then show thesis by (intro that [of r]) (simp_all add: describe_def bind_def rates_desc_empty hybrid_ok_def)
qed

text \<open>An update of a list of rates in which one is a null pointer is undefined.\<close>

lemma then_do_Err: "then_do m f = Err e \<longleftrightarrow> m = Err e \<or> (\<exists>x. m = Ok x \<and> f x = Err e)"
  by (cases m) auto

lemma i64_not_Err: "i64 x \<noteq> Err e"
  by (simp add: i64_def)

lemma sample_tick_not_Err: "sample_tick w nn now p \<noteq> Err e"
  by (simp add: sample_tick_def srs_pps_update_def Let_def then_do_Err i64_not_Err)

lemma pps_update_not_Err: "pps_update nn now p \<noteq> Err e"
  by (simp add: pps_update_def Let_def then_do_Err sample_tick_not_Err)

lemma get_time_not_Err: "srs_get_system_time tv s \<noteq> (Err e, t)"
  by (auto simp: srs_get_system_time_def bind_def srs_update_system_time_def i64_def Let_def split: option.splits if_splits)

lemma update_rate_not_Err: "update_rate tv n s \<noteq> (Err e, t)"
  by (auto simp: update_rate_def get_time_not_Err pps_update_not_Err pps_update_sugar_def split: option.splits prod.splits outcome.splits)

lemma update_rate_null:
  assumes "hy_rates s n = None" and "update_rate tv k s = (r, t)"
  shows "is_panic r \<or> k \<noteq> n \<and> r = Ok () \<and> hy_rates t n = None"
  using assms update_rate_not_Err [of tv k s]
  by (auto simp: update_rate_def pps_update_not_Err pps_update_sugar_def split: option.splits prod.splits outcome.splits)

lemma update_rates_null: "hy_rates s n = None \<Longrightarrow> update_rates tv ns s = (r, t) \<Longrightarrow>
    is_panic r \<or> n \<notin> set ns \<and> r = Ok () \<and> hy_rates t n = None"
proof (induction ns arbitrary: s)
  case (Cons k ns)
  obtain r1 t1 where u: "update_rate tv k s = (r1, t1)" by fastforce
  from update_rate_null [OF Cons.prems(1) u] show ?case
    using Cons.prems(2) Cons.IH [of t1] u by (cases r1) (auto simp: bind_def)
qed simp

lemma describe_null:
  assumes "hy_rates s n = None" and "describe tv title ns s = (r, t)"
  shows "is_panic r \<or> n \<notin> set ns \<and> r = Ok () \<and> hy_rates t n = None"
proof -
  obtain r1 t1 where u: "update_rates tv ns s = (r1, t1)" by fastforce
  from update_rates_null [OF assms(1) u] show ?thesis
    using assms(2) u by (cases r1) (auto simp: describe_def bind_def)
qed

text \<open>The line of the report, between quotes \<open>q\<close>.\<close>

definition report_line :: "SrsProcSelfStat \<Rightarrow> string" where
  "report_line u =
     (let q = [CHR 0x22] in ''{'' @ q @ ''app'' @ q @ '':'' @ q @ ''livestream'' @ q @ '','' @ q @ ''prdline'' @ q @ '':'' @
       q @ ''live'' @ q @ '','' @ q @ ''cpu'' @ q @ '':'' @ take 21 (dbl_fixed 2 (ps_percent u)) @ '','' @ q @ ''menory'' @ q @ '':'' @
       take 21 (dbl_fixed 2 (dbl_of_int (int_of_i64 (ps_rss u * 4 sdiv 1024)))) @ ''}'' @ [CHR 0x0A])"

lemma report_object_line:
  assumes "\<bar>ps_rss u\<bar> < 2 ^ 61"
  obtains base where "report_object u = Ok base" "json_dumps (JsonObject base) @ [CHR 0x0A] = report_line u"
proof -
  let ?base = "[(''app'', JsonString ''livestream''), (''prdline'', JsonString ''live''), (''cpu'', JsonNumber (ps_percent u)),
    (''menory'', JsonNumber (dbl_of_int (int_of_i64 (ps_rss u * 4 sdiv 1024))))]"
  have "i64 (ps_rss u * 4) = Ok (ps_rss u * 4)" using assms by (auto simp: i64_def)
  then have "report_object u = Ok ?base"
    by (simp add: report_object_def Let_def json_set_def json_str_c_str c_str_def)
  moreover have "json_dumps (JsonObject ?base) @ [CHR 0x0A] = report_line u"
    by (simp add: report_line_def Let_def SRS_JFIELD_NAME_def json_serialize_string_def)
  ultimately show thesis by (rule that)
qed

text \<open>The four descriptions, one behind the other.\<close>

definition report_rates :: "(int \<times> int) option \<Rightarrow> (hybrid_state, unit) call" where
  "report_rates tv =
     bind (describe tv ''cid'' [RateCidsGet, RateCidsSet]) (\<lambda>_.
     bind (describe tv ''timer'' [RateTimer, RatePub, RateConn]) (\<lambda>_.
     bind (describe tv ''free'' [RateDispose]) (\<lambda>_.
     describe tv ''clock'' clock_rates)))"

lemma on_timer_report:
  "report_object u = Ok base \<Longrightarrow> hybrid_on_timer info tv u interval s =
     bind (report_rates tv) (\<lambda>_. bind (print_object base) (\<lambda>_. info)) (s\<lparr>hy_descs := []\<rparr>)"
  by (simp add: hybrid_on_timer_def report_rates_def bind_assoc, simp add: bind_def)

definition described :: "nat \<Rightarrow> (hybrid_state, unit) call \<Rightarrow> bool" where
  "described k m \<longleftrightarrow> (\<forall>s. hybrid_ok s \<longrightarrow> (\<exists>r. let t = s\<lparr>hy_rates := r, hy_descs := hy_descs s @ replicate k []\<rparr>
     in m s = (Ok (), t) \<and> hybrid_ok t))"

lemma described_one: "described 1 (describe tv title ns)"
  unfolding described_def by (simp add: Let_def) (metis describe_ok)

lemma described_bind:
  assumes "described k m" and "described l n" shows "described (k + l) (bind m (\<lambda>_. n))"
  unfolding described_def
proof (intro allI impI)
  fix s assume "hybrid_ok s"
  then obtain r where r: "m s = (Ok (), s\<lparr>hy_rates := r, hy_descs := hy_descs s @ replicate k []\<rparr>)"
    "hybrid_ok (s\<lparr>hy_rates := r, hy_descs := hy_descs s @ replicate k []\<rparr>)"
    using assms(1) unfolding described_def Let_def by blast
  then obtain r' where "n (s\<lparr>hy_rates := r, hy_descs := hy_descs s @ replicate k []\<rparr>) =
      (Ok (), s\<lparr>hy_rates := r', hy_descs := hy_descs s @ replicate k [] @ replicate l []\<rparr>)"
    "hybrid_ok (s\<lparr>hy_rates := r', hy_descs := hy_descs s @ replicate k [] @ replicate l []\<rparr>)"
    using assms(2) unfolding described_def Let_def by force
  with r(1) show "\<exists>r. let t = s\<lparr>hy_rates := r, hy_descs := hy_descs s @ replicate (k + l) []\<rparr>
     in bind m (\<lambda>_. n) s = (Ok (), t) \<and> hybrid_ok t"
    by (auto simp: bind_def replicate_add Let_def)
qed

lemma report_rates_described: "described 4 (report_rates tv)"
proof -
  have "described (1 + (1 + (1 + 1))) (report_rates tv)"
    unfolding report_rates_def by (intro described_bind described_one)
  then show ?thesis by (simp add: numeral_eq_Suc)
qed

lemma report_rates_null:
  assumes "hy_rates s n = None" shows "is_panic (fst (report_rates tv s))"
proof -
  have step: "is_panic (fst (bind (describe tv title ns) (\<lambda>_. m) s))"
    if "hy_rates s n = None" "\<And>s. n \<notin> set ns \<Longrightarrow> hy_rates s n = None \<Longrightarrow> is_panic (fst (m s))"
    for title ns m s
  proof -
    obtain r t where d: "describe tv title ns s = (r, t)" by fastforce
    from describe_null [OF that(1) d] that(2) [of t] d show ?thesis by (cases r) (auto simp: bind_def)
  qed
  have last: "is_panic (fst (describe tv title ns s))" if "n \<in> set ns" "hy_rates s n = None" for title ns s
    using describe_null [OF that(2), of tv title ns] that(1) by (cases "describe tv title ns s") auto
  have all: "n \<in> {RateCidsGet, RateCidsSet, RateTimer, RatePub, RateConn, RateDispose} \<union> set clock_rates"
    by (cases n; cases "case n of RateClock b \<Rightarrow> b"; auto simp: clock_rates_def)
  show ?thesis unfolding report_rates_def by (intro step last assms) (use all in auto)
qed

text \<open>
  C25. Once every rate of the program is there, the report of the hybrid server prints one line with the
  share of the processor and the memory, leaves all rates in order for the next report and one more
  object behind that nobody frees; its descriptions of the rates are empty whatever the rates are. While
  any of the fifteen rates is a null pointer, as thirteen of them always are, the report is undefined.
\<close>

theorem hybrid_report:
  assumes "\<bar>ps_rss u\<bar> < 2 ^ 61"
  shows "(hybrid_ok s \<longrightarrow> (\<exists>t. hybrid_on_timer info tv u interval s = info t \<and> hybrid_ok t \<and>
      hy_printed t = hy_printed s @ [report_line u] \<and> length (hy_alive t) = length (hy_alive s) + 1 \<and>
      hy_descs t = [[], [], [], []])) \<and>
    (hy_rates s n = None \<longrightarrow> is_panic (fst (hybrid_on_timer info tv u interval s)))"
proof -
  obtain base where base: "report_object u = Ok base" "json_dumps (JsonObject base) @ [CHR 0x0A] = report_line u"
    using report_object_line [OF assms] .
  note run = on_timer_report [OF base(1), of info tv interval s]
  show ?thesis
  proof (intro conjI impI)
    assume "hybrid_ok s"
    then have "hybrid_ok (s\<lparr>hy_descs := []\<rparr>)" by (simp add: hybrid_ok_def)
    then obtain r where r: "report_rates tv (s\<lparr>hy_descs := []\<rparr>) = (Ok (), s\<lparr>hy_rates := r, hy_descs := [[], [], [], []]\<rparr>)"
      "hybrid_ok (s\<lparr>hy_rates := r, hy_descs := [[], [], [], []]\<rparr>)"
      using report_rates_described [of tv] unfolding described_def Let_def by (force simp: numeral_eq_Suc)
    let ?t = "snd (print_object base (s\<lparr>hy_rates := r, hy_descs := [[], [], [], []]\<rparr>))"
    have "hybrid_on_timer info tv u interval s = info ?t"
      by (simp add: run bind_def r(1) print_object_def)
    moreover have "hybrid_ok ?t" using r(2) by (simp add: hybrid_ok_def print_object_def)
    moreover have "hy_printed ?t = hy_printed s @ [report_line u]" "length (hy_alive ?t) = length (hy_alive s) + 1"
      "hy_descs ?t = [[], [], [], []]" using base(2) by (simp_all add: print_object_def)
    ultimately show "\<exists>t. hybrid_on_timer info tv u interval s = info t \<and> hybrid_ok t \<and>
      hy_printed t = hy_printed s @ [report_line u] \<and> length (hy_alive t) = length (hy_alive s) + 1 \<and>
      hy_descs t = [[], [], [], []]" by blast
  next
    assume "hy_rates s n = None"
    then have "is_panic (fst (report_rates tv (s\<lparr>hy_descs := []\<rparr>)))" by (intro report_rates_null [of _ n]) simp
    then show "is_panic (fst (hybrid_on_timer info tv u interval s))"
      by (cases "report_rates tv (s\<lparr>hy_descs := []\<rparr>)"; cases "fst (report_rates tv (s\<lparr>hy_descs := []\<rparr>))") (auto simp: run bind_def)
  qed
qed

text \<open>The rates as \<open>srs_thread_initialize\<close> leaves them, and as they would be if all of them were made.\<close>

definition example_hybrid :: "bool \<Rightarrow> hybrid_state" where
  "example_hybrid every = \<lparr>hy_sys = \<lparr>st_cache = 1, st_startup = 1\<rparr>,
     hy_rates = (\<lambda>n. if every \<or> n = RateCidsGet \<or> n = RateCidsSet then Some (SrsPps_new True) else None),
     hy_alive = [], hy_descs = [], hy_printed = []\<rparr>"

lemma fixed_zero: "dbl_fixed 2 0 = ''0.00''" 
proof -
  have "dbl_mag 0 = 0" "dbl_field 0 = 0" "dbl_frac 0 = 0" "dbl_finite 0" "\<not> dbl_nan 0" "\<not> dbl_neg 0" "dbl_mant 0 = 0"
    by (simp_all add: dbl_mag_def dbl_field_def dbl_frac_def dbl_finite_def dbl_nan_def dbl_neg_def dbl_mant_def)
  moreover then have "dbl_scaled 2 0 = 0" by (simp add: dbl_scaled_def rne_div_def)
  ultimately have "dbl_fixed 2 0 = dec_of_nat 0 @ ''.'' @ pad_digits 2 0" by (simp add: dbl_fixed_def)
  also have "dec_of_nat 0 @ ''.'' @ pad_digits 2 0 = ''0.00''" by code_simp
  finally show ?thesis .
qed

lemma double_of_zero: "dbl_of_int 0 = 0" by (simp add: dbl_of_int_def dbl_of_ratio_def dbl_pack_def)

theorem hybrid_report_witness:
  "(\<exists>t. hybrid_on_timer (ret ()) None self_proc_stat 5000000 (example_hybrid True) = (Ok (), t) \<and>
     hy_printed t = [''{'' @ [CHR 0x22] @ ''app'' @ [CHR 0x22, CHR '':'', CHR 0x22] @ ''livestream'' @ [CHR 0x22, CHR '','', CHR 0x22] @
       ''prdline'' @ [CHR 0x22, CHR '':'', CHR 0x22] @ ''live'' @ [CHR 0x22, CHR '','', CHR 0x22] @ ''cpu'' @ [CHR 0x22] @
       '':0.00,'' @ [CHR 0x22] @ ''menory'' @ [CHR 0x22] @ '':0.00}'' @ [CHR 0x0A]]) \<and>
   is_panic (fst (hybrid_on_timer (ret ()) None self_proc_stat 5000000 (example_hybrid False)))"
proof -
  have ok: "hybrid_ok (example_hybrid True)" and null: "hy_rates (example_hybrid False) RateTimer = None"
    and u: "\<bar>ps_rss self_proc_stat\<bar> < 2 ^ 61"
    by (simp_all add: hybrid_ok_def example_hybrid_def pps_ok_new, simp_all add: SrsPps_new_def)
  have "int_of_i64 (0 * 4 sdiv 1024) = 0" by (simp add: int_of_i64_def)
  with fixed_zero double_of_zero have line: "report_line self_proc_stat = ''{'' @ [CHR 0x22] @ ''app'' @ [CHR 0x22, CHR '':'', CHR 0x22] @ ''livestream'' @ [CHR 0x22, CHR '','', CHR 0x22] @
       ''prdline'' @ [CHR 0x22, CHR '':'', CHR 0x22] @ ''live'' @ [CHR 0x22, CHR '','', CHR 0x22] @ ''cpu'' @ [CHR 0x22] @
       '':0.00,'' @ [CHR 0x22] @ ''menory'' @ [CHR 0x22] @ '':0.00}'' @ [CHR 0x0A]"
    by (simp add: report_line_def Let_def)
  have empty: "hy_printed (example_hybrid True) = []" by (simp add: example_hybrid_def)
  obtain t where "hybrid_on_timer (ret ()) None self_proc_stat 5000000 (example_hybrid True) = ret () t"
    "hy_printed t = [report_line self_proc_stat]"
    using hybrid_report [OF u, of "example_hybrid True" "ret ()" None 5000000 RateTimer, THEN conjunct1, rule_format, OF ok] empty
    by auto
  moreover have "is_panic (fst (hybrid_on_timer (ret ()) None self_proc_stat 5000000 (example_hybrid False)))"
    using hybrid_report [OF u, of "example_hybrid False" "ret ()" None 5000000 RateTimer, THEN conjunct2, rule_format, OF null] .
  ultimately show ?thesis unfolding line by (auto simp: ret_def)
qed

subsection \<open>Running the servers\<close>

text \<open>The group after the servers ran decides whether the thread goes on.\<close>

lemma hybrid_run_waits:
  assumes "run_servers (hs_servers h) (w, wg) = (Ok (), (w1, wg1))"
  shows "hybrid_run self h (w, wg) = (Ok (), (w1, if wg_nn wg1 > 0 then wg1\<lparr>wg_waiting := wg_waiting wg1 @ [self]\<rparr>
    else wg1\<lparr>wg_returned := wg_returned wg1 @ [self]\<rparr>))"
  using assms by (simp add: hybrid_run_def bind_def wg_wait_def)

definition running :: "('w \<times> SrsWaitGroup, unit) call \<Rightarrow> 'w hybrid_server" where
  "running m = \<lparr>sv_initialize = ret (), sv_run = m\<rparr>"

text \<open>A server that adds one to the group.\<close>

definition adding :: "('w \<times> SrsWaitGroup, unit) call" where
  "adding = (\<lambda>(w, wg). case wg_add 1 wg of (r, wg) \<Rightarrow> (r, (w, wg)))"

lemma run_adding:
  "int k < 2 ^ 31 - 1 - nn \<Longrightarrow> 0 \<le> nn \<Longrightarrow>
   run_servers (replicate k (running adding)) (w, \<lparr>wg_nn = nn, wg_waiting = [], wg_returned = []\<rparr>) =
     (Ok (), (w, \<lparr>wg_nn = nn + int k, wg_waiting = [], wg_returned = []\<rparr>))"
proof (induction k arbitrary: nn)
  case (Suc k)
  then have "wg_add 1 \<lparr>wg_nn = nn, wg_waiting = [], wg_returned = []\<rparr> =
      (Ok (), \<lparr>wg_nn = nn + 1, wg_waiting = [], wg_returned = []\<rparr>)"
    by (simp add: wg_add_def bind_def add_int_def wg_set_def)
  with Suc show ?case
    by (simp add: running_def adding_def bind_def wrap_err_def algebra_simps)
qed simp

text \<open>
  With the one server that the program registers, \<^verbatim>\<open>run\<close> returns as soon as that server was
  initialised: the adapter never adds to the wait group, so nothing is waited for, and the program goes on
  to stop. An error of the server is passed on, wrapped twice. With \<open>k + 1\<close> servers that do add themselves
  the thread waits for all of them.
\<close>

theorem hybrid_run_returns:
  assumes "int k < 2 ^ 31 - 2"
  shows "(case hybrid_run self (register_server (running (adapter_run init)) \<lparr>hs_servers = []\<rparr>) (w, SrsWaitGroup_new) of
      (r, (w1, wg)) \<Rightarrow> w1 = snd (init w) \<and>
        (case fst (init w) of
           Ok _ \<Rightarrow> r = Ok () \<and> wg_returned wg = [self] \<and> wg_waiting wg = []
         | Err e \<Rightarrow> r = Err (srs_error_wrap (srs_error_wrap e ''server initialize'') ''run server'') \<and> wg_returned wg = []
         | Panic q \<Rightarrow> r = Panic q)) \<and>
    (\<exists>wg. hybrid_run self \<lparr>hs_servers = replicate (Suc k) (running adding)\<rparr> (w, SrsWaitGroup_new) = (Ok (), (w, wg)) \<and>
       wg_nn wg = int k + 1 \<and> wg_waiting wg = [self] \<and> wg_returned wg = [])"
proof
  let ?h = "register_server (running (adapter_run init)) \<lparr>hs_servers = []\<rparr>"
  obtain r1 w1 where i: "init w = (r1, w1)" by fastforce
  have run: "run_servers (hs_servers ?h) (w, SrsWaitGroup_new) =
      (case r1 of Ok _ \<Rightarrow> (Ok (), (w1, SrsWaitGroup_new))
       | Err e \<Rightarrow> (Err (srs_error_wrap (srs_error_wrap e ''server initialize'') ''run server''), (w1, SrsWaitGroup_new))
       | Panic q \<Rightarrow> (Panic q, (w1, SrsWaitGroup_new)))"
    by (simp add: register_server_def running_def adapter_run_def bind_def wrap_err_def i split: outcome.split)
  show "case hybrid_run self ?h (w, SrsWaitGroup_new) of
      (r, (w1, wg)) \<Rightarrow> w1 = snd (init w) \<and>
        (case fst (init w) of
           Ok _ \<Rightarrow> r = Ok () \<and> wg_returned wg = [self] \<and> wg_waiting wg = []
         | Err e \<Rightarrow> r = Err (srs_error_wrap (srs_error_wrap e ''server initialize'') ''run server'') \<and> wg_returned wg = []
         | Panic q \<Rightarrow> r = Panic q)"
    using run by (cases r1) (simp_all add: hybrid_run_def bind_def i wg_wait_def SrsWaitGroup_new_def)
  let ?adders = "replicate (Suc k) (running adding)"
  have "run_servers (hs_servers \<lparr>hs_servers = ?adders\<rparr>) (w, SrsWaitGroup_new) =
      (Ok (), (w, \<lparr>wg_nn = int (Suc k), wg_waiting = [], wg_returned = []\<rparr>))"
    unfolding SrsWaitGroup_new_def hybrid_server.simps SrsHybridServer.simps using run_adding [of "Suc k" 0 w] assms by simp
  from hybrid_run_waits [OF this, of self]
  show "\<exists>wg. hybrid_run self \<lparr>hs_servers = ?adders\<rparr> (w, SrsWaitGroup_new) = (Ok (), (w, wg)) \<and>
       wg_nn wg = int k + 1 \<and> wg_waiting wg = [self] \<and> wg_returned wg = []"
    by (simp del: replicate.simps)
qed

theorem hybrid_run_returns_witness:
  "fst (hybrid_run 7 (register_server (running (adapter_run (\<lambda>n. (Ok (), n + 1)))) \<lparr>hs_servers = []\<rparr>)
     (3 :: nat, SrsWaitGroup_new)) = Ok () \<and>
   (\<exists>wg. hybrid_run 7 \<lparr>hs_servers = replicate (Suc 1) (running adding)\<rparr> (3 :: nat, SrsWaitGroup_new) = (Ok (), (3, wg)) \<and>
     wg_waiting wg = [7])"
proof -
  have "int 1 < 2 ^ 31 - 2" by simp
  note run = hybrid_run_returns [OF this, where self = 7 and init = "\<lambda>n. (Ok (), n + 1)" and w = "3 :: nat"]
  from run [THEN conjunct1] have "fst (hybrid_run 7 (register_server (running (adapter_run (\<lambda>n. (Ok (), n + 1)))) \<lparr>hs_servers = []\<rparr>)
     (3 :: nat, SrsWaitGroup_new)) = Ok ()" by (auto split: prod.splits)
  with run [THEN conjunct2] show ?thesis by blast
qed

end
