(* ===== verification/AppMain.thy ===== *)
theory AppMain
  imports AppHybrid AppConfig
begin

section \<open>The start of the program\<close>

text \<open>
  \<^verbatim>\<open>main\<close> and its parts (\<^verbatim>\<open>srs_main_server.cpp\<close>), the making of the global objects
  (\<^verbatim>\<open>srs_app_threads.cpp\<close>) and the start of the state-threads library (\<^verbatim>\<open>srs_service_st.cpp\<close>). What the
  library, the operating system and the functions that are only declared do is a record of arguments over a
  world \<open>'w\<close>. The macros of the profilers are not defined, and SRT and RTC are left out of the build.
\<close>

definition ERROR_ST_SET_EPOLL :: int where "ERROR_ST_SET_EPOLL = 1013"
definition ERROR_ST_INITIALIZE :: int where "ERROR_ST_INITIALIZE = 1014"

text \<open>\<open>me_self0\<close> and \<open>me_self1\<close> are what \<^verbatim>\<open>st_thread_self\<close> returns before and after \<^verbatim>\<open>st_init\<close>.\<close>

record 'w main_env =
  me_self0 :: nat
  me_self1 :: nat
  me_epoll :: bool
  me_set_eventsys :: int
  me_st_init :: int
  me_log_data :: log_buf
  me_new_managers :: "'w \<Rightarrow> 'w"
  me_little_endian :: bool
  me_detect_docker :: "('w, unit) call"
  me_parse_options :: "('w, unit) call"
  me_work_dir :: "'w \<Rightarrow> string"
  me_chdir :: "string \<Rightarrow> ('w, int) call"
  me_initialize_cwd :: "('w, unit) call"
  me_log_initialize :: "('w, unit) call"
  me_check_config :: "('w, unit) call"
  me_show_features :: "('w, unit) call"
  me_get_in_docker :: "'w \<Rightarrow> bool"
  me_get_daemon :: "'w \<Rightarrow> bool"
  me_disable_daemon :: "'w \<Rightarrow> bool"
  me_timers :: "'w timer_env"
  me_adapter_initialize :: "('w, unit) call"
  me_srs_initialize :: "('w, unit) call"
  me_circuit_breaker :: "('w, unit) call"
  me_stop :: "('w, unit) call"

text \<open>The global objects; the counters of the identities are those of the context.\<close>

record 'w program =
  pg_world :: 'w
  pg_log :: "SrsFileLog option"
  pg_context :: "SrsThreadContext option"
  pg_config :: "SrsConfig option"
  pg_clock :: bool
  pg_hybrid :: "'w SrsHybridServer option"
  pg_in_docker :: bool

definition in_world_of :: "('w, 'a) call \<Rightarrow> ('w program, 'a) call" where
  "in_world_of m p = (case m (pg_world p) of (r, w) \<Rightarrow> (r, p\<lparr>pg_world := w\<rparr>))"

definition on_context :: "(SrsThreadContext, 'a) call \<Rightarrow> ('w program, 'a) call" where
  "on_context m p = (case pg_context p of
      None \<Rightarrow> (Panic UndefinedBehaviour, p)
    | Some cx \<Rightarrow> (case m cx of (r, cx) \<Rightarrow> (r, p\<lparr>pg_context := Some cx\<rparr>)))"

definition change :: "('s \<Rightarrow> 's) \<Rightarrow> ('s, unit) call" where
  "change f s = (Ok (), f s)"

subsection \<open>The state-threads library\<close>

definition srs_st_init :: "'w main_env \<Rightarrow> (SrsThreadContext, unit) call" where
  "srs_st_init env =
     (if \<not> me_epoll env then fail (srs_error_new ERROR_ST_SET_EPOLL ''linux epoll disabled'')
      else if me_set_eventsys env = - 1 then
        fail (srs_error_new ERROR_ST_SET_EPOLL ''st enable st failed, current is %s'')
      else
        bind (get_id (me_self0 env)) (\<lambda>cid.
        bind (if cid = [] then generate_id else ret cid) (\<lambda>cid.
        if me_st_init env \<noteq> 0 then fail (srs_error_new ERROR_ST_INITIALIZE ''st initialize failed, r0=%d'')
        else bind (set_id (me_self1 env) cid) (\<lambda>_. ret ()))))"

text \<open>
  The wrappers of the other functions, with pointers as numbers and 0 as \<^verbatim>\<open>NULL\<close>. \<^verbatim>\<open>st_utime_t\<close> is unsigned: a
  negative time is a very long one.
\<close>

record 'w st_library =
  st_thread_self :: "'w \<Rightarrow> nat"
  st_usleep :: "64 word \<Rightarrow> ('w, int) call"
  st_cond_new :: "('w, nat) call"
  st_cond_destroy :: "nat \<Rightarrow> ('w, int) call"
  st_cond_signal :: "nat \<Rightarrow> ('w, int) call"
  st_cond_wait :: "nat \<Rightarrow> ('w, int) call"

definition srs_thread_self :: "'w st_library \<Rightarrow> ('w, nat) call" where
  "srs_thread_self lib = gets (st_thread_self lib)"

definition srs_usleep :: "'w st_library \<Rightarrow> int \<Rightarrow> ('w, int) call" where
  "srs_usleep lib usecs = st_usleep lib (word_of_int usecs)"

definition srs_cond_new :: "'w st_library \<Rightarrow> ('w, nat) call" where
  "srs_cond_new lib = st_cond_new lib"

definition srs_cond_destroy :: "'w st_library \<Rightarrow> nat \<Rightarrow> ('w, int) call" where
  "srs_cond_destroy lib cond = st_cond_destroy lib cond"

definition srs_cond_signal :: "'w st_library \<Rightarrow> nat \<Rightarrow> ('w, int) call" where
  "srs_cond_signal lib cond = st_cond_signal lib cond"

definition srs_cond_wait :: "'w st_library \<Rightarrow> nat \<Rightarrow> ('w, int) call" where
  "srs_cond_wait lib cond = st_cond_wait lib cond"

lemma usleep_negative: "srs_usleep lib (- 1) = st_usleep lib (- 1)" "uint (- 1 :: 64 word) = 2 ^ 64 - 1"
  by (simp_all add: srs_usleep_def unsigned_minus_1_eq_mask mask_eq_exp_minus_1)

subsection \<open>The global objects\<close>

definition root_objects :: "'w main_env \<Rightarrow> 'w program \<Rightarrow> 'w program" where
  "root_objects env p = p\<lparr>pg_log := Some (SrsFileLog_new (me_log_data env)),
     pg_context := Some ((SrsThreadContext_new None None)\<lparr>cx_gets := Some 0, cx_sets := Some 0\<rparr>),
     pg_config := Some SrsConfig_new, pg_clock := True\<rparr>"

text \<open>\<^verbatim>\<open>srs_thread_initialize\<close> makes all objects, and ends without \<^verbatim>\<open>return\<close>, though it is to return an error.\<close>

definition srs_thread_initialize :: "'w main_env \<Rightarrow> ('w program, unit) call" where
  "srs_thread_initialize env =
     bind (change (root_objects env)) (\<lambda>_.
     bind (wrap_err ''initialize st failed'' (on_context (srs_st_init env))) (\<lambda>_.
     bind (on_context (SrsHybridServer_new (me_self1 env))) (\<lambda>h.
     bind (change (\<lambda>p. p\<lparr>pg_hybrid := Some h\<rparr>)) (\<lambda>_.
     bind (change (\<lambda>p. p\<lparr>pg_world := me_new_managers env (pg_world p)\<rparr>)) (\<lambda>_.
     panic UndefinedBehaviour)))))"

subsection \<open>Running the server\<close>

definition server_adapter :: "'w main_env \<Rightarrow> 'w hybrid_server" where
  "server_adapter env = \<lparr>sv_initialize = me_adapter_initialize env, sv_run = adapter_run (me_srs_initialize env)\<rparr>"

definition with_hybrid :: "('w SrsHybridServer \<Rightarrow> ('w program, 'a) call) \<Rightarrow> ('w program, 'a) call" where
  "with_hybrid f p = (case pg_hybrid p of None \<Rightarrow> (Panic UndefinedBehaviour, p) | Some h \<Rightarrow> f h p)"

text \<open>
  The wait group lives in \<^verbatim>\<open>run\<close>. A thread that waits and is never signalled does not come back: then
  \<^verbatim>\<open>run\<close> has no result, which is \<open>OutOfFuel\<close>.
\<close>

definition run_hybrid :: "nat \<Rightarrow> 'w SrsHybridServer \<Rightarrow> ('w, unit) call" where
  "run_hybrid self h w = (case hybrid_run self h (w, SrsWaitGroup_new) of
      (Ok _, (w, wg)) \<Rightarrow> if self \<in> set (wg_returned wg) then (Ok (), w) else (Panic OutOfFuel, w)
    | (Err e, (w, wg)) \<Rightarrow> (Err e, w)
    | (Panic q, (w, wg)) \<Rightarrow> (Panic q, w))"

definition run_hybrid_server :: "'w main_env \<Rightarrow> ('w program, unit) call" where
  "run_hybrid_server env =
     bind (with_hybrid (\<lambda>h. change (\<lambda>p. p\<lparr>pg_hybrid := Some (register_server (server_adapter env) h)\<rparr>))) (\<lambda>_.
     bind (wrap_err ''hybrid initialize'' (with_hybrid (\<lambda>h. in_world_of (hybrid_initialize (me_timers env) h)))) (\<lambda>_.
     bind (wrap_err ''init circuit breaker'' (in_world_of (me_circuit_breaker env))) (\<lambda>_.
     bind (wrap_err ''hybrid run'' (with_hybrid (\<lambda>h. in_world_of (run_hybrid (me_self1 env) h)))) (\<lambda>_.
     in_world_of (me_stop env)))))"

text \<open>As a daemon the function ends without \<^verbatim>\<open>return\<close>.\<close>

definition run_directly_or_daemon :: "'w main_env \<Rightarrow> ('w program, unit) call" where
  "run_directly_or_daemon env =
     bind (change (\<lambda>p. if \<not> pg_in_docker p then p\<lparr>pg_in_docker := me_get_in_docker env (pg_world p)\<rparr> else p)) (\<lambda>_.
     bind (gets (\<lambda>p. me_get_daemon env (pg_world p) \<and> \<not> (pg_in_docker p \<and> me_disable_daemon env (pg_world p)))) (\<lambda>run_as_daemon.
     if \<not> run_as_daemon then bind (wrap_err ''run hybrid'' (run_hybrid_server env)) (\<lambda>_. ret ())
     else panic UndefinedBehaviour))"

subsection \<open>The main function\<close>

definition change_work_dir :: "'w main_env \<Rightarrow> ('w program, unit) call" where
  "change_work_dir env =
     bind (gets (\<lambda>p. me_work_dir env (pg_world p))) (\<lambda>cwd.
     if cwd \<noteq> [] \<and> cwd \<noteq> ''./'' then
       bind (in_world_of (me_chdir env cwd)) (\<lambda>r0.
       if r0 = - 1 then fail (srs_error_new (- 1) ''chdir to %s, r0=%d'') else ret ())
     else ret ())"

definition do_main :: "'w main_env \<Rightarrow> ('w program, unit) call" where
  "do_main env =
     bind (wrap_err ''thread init'' (srs_thread_initialize env)) (\<lambda>_.
     bind (on_context (bind generate_id (set_id (me_self1 env)))) (\<lambda>_.
     bind (if me_little_endian env then ret () else panic AssertFailed) (\<lambda>_.
     bind (ignore_err (in_world_of (me_detect_docker env))) (\<lambda>_.
     bind (wrap_err ''config parse options'' (in_world_of (me_parse_options env))) (\<lambda>_.
     bind (change_work_dir env) (\<lambda>_.
     bind (wrap_err ''config cwd'' (in_world_of (me_initialize_cwd env))) (\<lambda>_.
     bind (wrap_err ''log initialize'' (in_world_of (me_log_initialize env))) (\<lambda>_.
     bind (wrap_err ''check config'' (in_world_of (me_check_config env))) (\<lambda>_.
     bind (in_world_of (me_show_features env)) (\<lambda>_.
     wrap_err ''run'' (run_directly_or_daemon env)))))))))))"

text \<open>The exit value is the code of the error, 0 when there is none.\<close>

definition server_main :: "'w main_env \<Rightarrow> ('w program, int) call" where
  "server_main env p = (case do_main env p of
      (Ok _, p) \<Rightarrow> (Ok 0, p)
    | (Err e, p) \<Rightarrow> (Ok (err_code e), p)
    | (Panic q, p) \<Rightarrow> (Panic q, p))"

subsection \<open>What main does\<close>

lemma st_init_context:
  "srs_st_init env ((SrsThreadContext_new None None)\<lparr>cx_gets := Some 0, cx_sets := Some 0\<rparr>) =
     (if \<not> me_epoll env then (Err (srs_error_new ERROR_ST_SET_EPOLL ''linux epoll disabled''),
        (SrsThreadContext_new None None)\<lparr>cx_gets := Some 0, cx_sets := Some 0\<rparr>)
      else if me_set_eventsys env = - 1 then (Err (srs_error_new ERROR_ST_SET_EPOLL ''st enable st failed, current is %s''),
        (SrsThreadContext_new None None)\<lparr>cx_gets := Some 0, cx_sets := Some 0\<rparr>)
      else if me_st_init env \<noteq> 0 then (Err (srs_error_new ERROR_ST_INITIALIZE ''st initialize failed, r0=%d''),
        \<lparr>cx_cache = [me_self0 env \<mapsto> []], cx_gets = Some 1, cx_sets = Some 0\<rparr>)
      else (Ok (), \<lparr>cx_cache = [me_self0 env \<mapsto> [], me_self1 env \<mapsto> []], cx_gets = Some 1, cx_sets = Some 1\<rparr>))"
  by (auto simp: srs_st_init_def fail_def bind_def get_id_def set_id_def generate_id_def SrsThreadContext_new_def ret_def
      Let_def)

lemma hybrid_new_ok: "cx_gets cx = Some n \<Longrightarrow> \<exists>cx'. SrsHybridServer_new self cx = (Ok \<lparr>hs_servers = []\<rparr>, cx')"
  by (auto simp: SrsHybridServer_new_def bind_def get_id_def ret_def Let_def split: option.splits prod.splits outcome.splits)

lemma thread_initialize_ends:
  fixes env :: "'w main_env"
  shows "case srs_thread_initialize env p of (r, q) \<Rightarrow>
     (if \<not> me_epoll env \<or> me_set_eventsys env = - 1 then \<exists>e. r = Err e \<and> err_code e = ERROR_ST_SET_EPOLL
      else if me_st_init env \<noteq> 0 then \<exists>e. r = Err e \<and> err_code e = ERROR_ST_INITIALIZE
      else r = Panic UndefinedBehaviour) \<and>
     pg_world q = (if is_panic r then me_new_managers env (pg_world p) else pg_world p) \<and>
     pg_config q = Some SrsConfig_new \<and> pg_log q = Some (SrsFileLog_new (me_log_data env))"
proof -
  let ?cx = "\<lparr>cx_cache = [me_self0 env \<mapsto> [], me_self1 env \<mapsto> []], cx_gets = Some 1, cx_sets = Some 1\<rparr>"
  have "\<exists>cx. (SrsHybridServer_new (me_self1 env) :: (SrsThreadContext, 'w SrsHybridServer) call) ?cx = (Ok \<lparr>hs_servers = []\<rparr>, cx)"
    by (rule hybrid_new_ok) simp
  then obtain cx where cx: "(SrsHybridServer_new (me_self1 env) :: (SrsThreadContext, 'w SrsHybridServer) call) ?cx =
    (Ok \<lparr>hs_servers = []\<rparr>, cx)" ..
  note run = srs_thread_initialize_def bind_def change_def root_objects_def wrap_err_def on_context_def st_init_context
    srs_error_wrap_def srs_error_new_def panic_def
  show ?thesis
    using cx by (simp add: run)
qed

text \<open>
  C20. Whatever the environment does, \<^verbatim>\<open>main\<close> has one of two fates: the state-threads library cannot be
  started, and the exit value says so; or all global objects are made and the function that makes them ends
  without returning its error, which is undefined. No option is parsed, no log is opened and no server is
  run by any defined execution.
\<close>

theorem main_undefined:
  "case server_main env p of (r, q) \<Rightarrow>
     r = (if me_epoll env \<and> me_set_eventsys env \<noteq> - 1
          then (if me_st_init env = 0 then Panic UndefinedBehaviour else Ok ERROR_ST_INITIALIZE)
          else Ok ERROR_ST_SET_EPOLL) \<and>
     pg_world q = (if is_panic r then me_new_managers env (pg_world p) else pg_world p) \<and>
     pg_config q = Some SrsConfig_new \<and> pg_log q = Some (SrsFileLog_new (me_log_data env))"
proof -
  obtain r q where i: "srs_thread_initialize env p = (r, q)" by fastforce
  with thread_initialize_ends [of env p] show ?thesis
    by (cases r) (auto simp: server_main_def do_main_def bind_def wrap_err_def srs_error_wrap_def split: if_splits)
qed

text \<open>The calls to the rest of the system that one server makes until it has stopped.\<close>

definition server_calls :: "'w main_env \<Rightarrow> ('w, unit) call" where
  "server_calls env =
     bind (wrap_err ''hybrid initialize'' (hybrid_initialize (me_timers env) \<lparr>hs_servers = [server_adapter env]\<rparr>)) (\<lambda>_.
     bind (wrap_err ''init circuit breaker'' (me_circuit_breaker env)) (\<lambda>_.
     bind (wrap_err ''hybrid run'' (wrap_err ''run server'' (wrap_err ''server initialize'' (me_srs_initialize env)))) (\<lambda>_.
     me_stop env)))"

lemma run_hybrid_adapter:
  "run_hybrid self \<lparr>hs_servers = [server_adapter env]\<rparr> w =
     bind (wrap_err ''run server'' (wrap_err ''server initialize'' (me_srs_initialize env))) (\<lambda>_. ret ()) w"
  by (cases "me_srs_initialize env w"; cases "fst (me_srs_initialize env w)")
    (auto simp: run_hybrid_def hybrid_run_def server_adapter_def adapter_run_def bind_def wrap_err_def wg_wait_def
      SrsWaitGroup_new_def)

text \<open>A call over the program does to the rest of the system what a call over it does alone.\<close>

definition does :: "('w program, unit) call \<Rightarrow> ('w, unit) call \<Rightarrow> 'w program \<Rightarrow> bool" where
  "does m n p \<longleftrightarrow> fst (m p) = fst (n (pg_world p)) \<and> pg_world (snd (m p)) = snd (n (pg_world p)) \<and>
     pg_hybrid (snd (m p)) = pg_hybrid p"

lemma does_world: "does (in_world_of n) n p"
  by (simp add: does_def in_world_of_def split: prod.split)

lemma does_wrap: "does m n p \<Longrightarrow> does (wrap_err msg m) (wrap_err msg n) p"
  by (cases "m p"; cases "n (pg_world p)"; cases "fst (m p)") (auto simp: does_def wrap_err_def)

lemma does_bind:
  assumes "does m n p" and "\<And>q. pg_hybrid q = pg_hybrid p \<Longrightarrow> does m' n' q"
  shows "does (bind m (\<lambda>_. m')) (bind n (\<lambda>_. n')) p"
proof -
  obtain r q where m: "m p = (r, q)" by fastforce
  then have n: "n (pg_world p) = (r, pg_world q)" "pg_hybrid q = pg_hybrid p"
    using assms(1) by (auto simp: does_def prod_eq_iff)
  show ?thesis
  proof (cases r)
    case (Ok x)
    then show ?thesis using m n assms(2) [OF n(2)] by (simp add: does_def bind_def)
  qed (use m n in \<open>simp_all add: does_def bind_def\<close>)
qed

lemma does_hybrid: "pg_hybrid p = Some h \<Longrightarrow> does (f h) n p \<Longrightarrow> does (with_hybrid f) n p"
  by (simp add: does_def with_hybrid_def)

lemma does_cong: "does m n p \<Longrightarrow> n (pg_world p) = n' (pg_world p) \<Longrightarrow> does m n' p"
  by (simp add: does_def)

lemma run_hybrid_server_calls:
  assumes "pg_hybrid p = Some \<lparr>hs_servers = []\<rparr>"
  shows "fst (run_hybrid_server env p) = fst (server_calls env (pg_world p)) \<and>
    pg_world (snd (run_hybrid_server env p)) = snd (server_calls env (pg_world p))"
proof -
  let ?h = "\<lparr>hs_servers = [server_adapter env]\<rparr>"
  let ?p = "p\<lparr>pg_hybrid := Some ?h\<rparr>"
  let ?rest = "bind (wrap_err ''hybrid initialize'' (with_hybrid (\<lambda>h. in_world_of (hybrid_initialize (me_timers env) h)))) (\<lambda>_.
     bind (wrap_err ''init circuit breaker'' (in_world_of (me_circuit_breaker env))) (\<lambda>_.
     bind (wrap_err ''hybrid run'' (with_hybrid (\<lambda>h. in_world_of (run_hybrid (me_self1 env) h)))) (\<lambda>_.
     in_world_of (me_stop env))))"
  have run: "run_hybrid (me_self1 env) ?h = wrap_err ''run server'' (wrap_err ''server initialize'' (me_srs_initialize env))"
    by (rule ext) (auto simp: run_hybrid_adapter bind_def wrap_err_def ret_def split: prod.split outcome.split)
  have "does ?rest (server_calls env) ?p"
    unfolding server_calls_def run [symmetric]
    by (intro does_bind does_wrap does_world does_hybrid [where h = ?h]) simp_all
  moreover have "run_hybrid_server env p = ?rest ?p"
    using assms by (simp add: run_hybrid_server_def bind_def with_hybrid_def change_def register_server_def)
  ultimately show ?thesis by (simp add: does_def)
qed

text \<open>
  C21. Unless it is to be a daemon, the program whose objects are made makes the calls of one server in
  order, each error passed on wrapped: it starts the four timers and subscribes the clock monitor and the
  report, initialises the server, arms the circuit breaker, runs the server and stops it, without ever waiting.
  As a daemon, which only docker can switch off, it ends without a result.
\<close>

theorem server_or_daemon:
  assumes "pg_hybrid p = Some \<lparr>hs_servers = []\<rparr>"
  shows "let w = pg_world p; docker = pg_in_docker p \<or> me_get_in_docker env w;
      (r, q) = run_directly_or_daemon env p; (r', w') = wrap_err ''run hybrid'' (server_calls env) w
    in if me_get_daemon env w \<and> \<not> (docker \<and> me_disable_daemon env w) then r = Panic UndefinedBehaviour \<and> pg_world q = w
       else r = r' \<and> pg_world q = w'"
proof -
  let ?docker = "pg_in_docker p \<or> me_get_in_docker env (pg_world p)"
  let ?p = "p\<lparr>pg_in_docker := ?docker\<rparr>"
  let ?daemon = "me_get_daemon env (pg_world p) \<and> \<not> (?docker \<and> me_disable_daemon env (pg_world p))"
  have c: "change (\<lambda>p. if \<not> pg_in_docker p then p\<lparr>pg_in_docker := me_get_in_docker env (pg_world p)\<rparr> else p) p = (Ok (), ?p)"
    by (cases p) (simp add: change_def)
  have run: "run_directly_or_daemon env p =
      (if ?daemon then panic UndefinedBehaviour
       else bind (wrap_err ''run hybrid'' (run_hybrid_server env)) (\<lambda>_. ret ())) ?p"
    unfolding run_directly_or_daemon_def bind_def c by auto
  show ?thesis
  proof (cases ?daemon)
    case True
    then show ?thesis by (auto simp: run panic_def Let_def split: prod.split)
  next
    case False
    obtain r q where h: "run_hybrid_server env ?p = (r, q)" by fastforce
    then have "server_calls env (pg_world p) = (r, pg_world q)"
      using run_hybrid_server_calls [of ?p env] assms by (auto simp: prod_eq_iff)
    with False h show ?thesis
      by (cases r) (auto simp: run Let_def bind_def wrap_err_def ret_def)
  qed
qed

text \<open>A system that writes down the calls that are made.\<close>

definition example_main :: "bool \<Rightarrow> string list main_env" where
  "example_main daemon = (let say = (\<lambda>t w. (Ok (), w @ [t])) in
     \<lparr>me_self0 = 0, me_self1 = 1, me_epoll = True, me_set_eventsys = 0, me_st_init = 0, me_log_data = [],
      me_new_managers = id, me_little_endian = True, me_detect_docker = say ''docker'', me_parse_options = say ''options'',
      me_work_dir = (\<lambda>_. ''./''), me_chdir = (\<lambda>_ w. (Ok 0, w)), me_initialize_cwd = say ''cwd'',
      me_log_initialize = say ''log'', me_check_config = say ''check'', me_show_features = say ''features'',
      me_get_in_docker = (\<lambda>_. False), me_get_daemon = (\<lambda>_. daemon), me_disable_daemon = (\<lambda>_. True),
      me_timers = \<lparr>tm_start = (\<lambda>t. say ''timer''), tm_subscribe = (\<lambda>t h w. w @ [''subscribe''])\<rparr>,
      me_adapter_initialize = say ''adapter'', me_srs_initialize = say ''server'', me_circuit_breaker = say ''breaker'',
      me_stop = say ''stop''\<rparr>)"

definition example_program :: "string list program" where
  "example_program = \<lparr>pg_world = [], pg_log = None, pg_context = None, pg_config = None, pg_clock = True,
     pg_hybrid = Some \<lparr>hs_servers = []\<rparr>, pg_in_docker = False\<rparr>"

theorem server_or_daemon_witness:
  "pg_world (snd (run_directly_or_daemon (example_main False) example_program)) =
     [''timer'', ''timer'', ''timer'', ''timer'', ''subscribe'', ''subscribe'', ''adapter'', ''breaker'', ''server'', ''stop''] \<and>
   fst (run_directly_or_daemon (example_main True) example_program) = Panic UndefinedBehaviour"
proof -
  have "pg_hybrid example_program = Some \<lparr>hs_servers = []\<rparr>" by (simp add: example_program_def)
  note run = server_or_daemon [OF this]
  have "wrap_err ''run hybrid'' (server_calls (example_main False)) [] = (Ok (),
      [''timer'', ''timer'', ''timer'', ''timer'', ''subscribe'', ''subscribe'', ''adapter'', ''breaker'', ''server'', ''stop''])"
    by code_simp
  with run [of "example_main False"] run [of "example_main True"] show ?thesis
    by (simp add: example_program_def Let_def split: prod.splits) (simp add: example_main_def Let_def)
qed

end
