(* ===== verification/AppServer.thy ===== *)
theory AppServer
  imports AppThread AppLog
begin

section \<open>Making the server\<close>

text \<open>
  The constructors of \<^verbatim>\<open>SrsServer\<close> (\<^verbatim>\<open>srs_app_server.cpp\<close>), of \<^verbatim>\<open>SrsHttpServer\<close> (\<^verbatim>\<open>srs_app_http_conn.cpp\<close>) and
  of \<^verbatim>\<open>SrsServerAdapter\<close> (\<^verbatim>\<open>srs_app_hybrid.cpp\<close>); the other operations of the server are declared only. The
  classes of the parts are not in the repository: what \<^verbatim>\<open>new\<close> does for each is an argument over a world \<open>'w\<close>, an
  object of theirs is an \<open>'o\<close>.
\<close>

datatype server_part = SrsSignalManager | SrsResourceManager string bool | SrsHttpServeMux | SrsHttpStreamServer
  | SrsHttpStaticServer | SrsHttpHeartbeat | SrsIngester

record ('w, 'o) parts_env =
  sp_new :: "server_part \<Rightarrow> ('w, 'o) call"
  sp_getppid :: "'w \<Rightarrow> int"

record 'o SrsHttpServer =
  hs_http_stream :: 'o
  hs_http_static :: 'o

text \<open>\<open>sr_latest_version\<close> is the coroutine of the query of the latest version.\<close>

record 'o SrsServer =
  sr_signal_reload :: bool
  sr_signal_persistence_config :: bool
  sr_signal_gmc_stop :: bool
  sr_signal_fast_quit :: bool
  sr_signal_gracefully_quit :: bool
  sr_pid_fd :: int
  sr_listeners :: "'o list"
  sr_signal_manager :: 'o
  sr_conn_manager :: 'o
  sr_latest_version :: SrsFastCoroutine
  sr_handler :: "'o option"
  sr_ppid :: int
  sr_http_api_mux :: 'o
  sr_http_server :: "'o SrsHttpServer"
  sr_http_heartbeat :: 'o
  sr_ingester :: 'o
  sr_trd :: SrsFastCoroutine
  sr_timer :: "'o option"
  sr_wg :: "'o option"

definition SrsHttpServer_new :: "('w, 'o) parts_env \<Rightarrow> ('w, 'o SrsHttpServer) call" where
  "SrsHttpServer_new env =
     bind (sp_new env SrsHttpStreamServer) (\<lambda>http_stream.
     bind (sp_new env SrsHttpStaticServer) (\<lambda>http_static.
     ret \<lparr>hs_http_stream = http_stream, hs_http_static = http_static\<rparr>))"

definition SrsLatestVersion_trd :: SrsFastCoroutine where
  "SrsLatestVersion_trd = SrsFastCoroutine_new ''signal'' []"

definition SrsServer_new :: "('w, 'o) parts_env \<Rightarrow> nat \<Rightarrow> ('w \<times> SrsThreadContext, 'o SrsServer) call" where
  "SrsServer_new env self =
     bind (on_fst (sp_new env SrsSignalManager)) (\<lambda>signal_manager.
     bind (on_fst (sp_new env (SrsResourceManager ''TCP'' True))) (\<lambda>conn_manager.
     bind (on_fst (gets (sp_getppid env))) (\<lambda>ppid.
     bind (on_fst (sp_new env SrsHttpServeMux)) (\<lambda>http_api_mux.
     bind (on_fst (SrsHttpServer_new env)) (\<lambda>http_server.
     bind (on_fst (sp_new env SrsHttpHeartbeat)) (\<lambda>http_heartbeat.
     bind (on_fst (sp_new env SrsIngester)) (\<lambda>ingester.
     bind (on_snd (get_id self)) (\<lambda>cid.
     ret \<lparr>sr_signal_reload = False, sr_signal_persistence_config = False, sr_signal_gmc_stop = False,
       sr_signal_fast_quit = False, sr_signal_gracefully_quit = False, sr_pid_fd = - 1, sr_listeners = [],
       sr_signal_manager = signal_manager, sr_conn_manager = conn_manager, sr_latest_version = SrsLatestVersion_trd,
       sr_handler = None, sr_ppid = ppid, sr_http_api_mux = http_api_mux, sr_http_server = http_server,
       sr_http_heartbeat = http_heartbeat, sr_ingester = ingester, sr_trd = SrsFastCoroutine_new ''srs'' cid,
       sr_timer = None, sr_wg = None\<rparr>))))))))"

definition SrsServerAdapter_new :: "('w, 'o) parts_env \<Rightarrow> nat \<Rightarrow> ('w \<times> SrsThreadContext, 'o SrsServer) call" where
  "SrsServerAdapter_new env self = SrsServer_new env self"

text \<open>The order in which the parts are made.\<close>

definition server_parts :: "server_part list" where
  "server_parts = [SrsSignalManager, SrsResourceManager ''TCP'' True, SrsHttpServeMux, SrsHttpStreamServer,
     SrsHttpStaticServer, SrsHttpHeartbeat, SrsIngester]"

definition logs_parts :: "(server_part list, server_part) parts_env" where
  "logs_parts = \<lparr>sp_new = (\<lambda>c w. (Ok c, w @ [c])), sp_getppid = (\<lambda>_. 1)\<rparr>"

text \<open>
  A server is made of its parts in order, each once, and of two coroutines of which neither was started: its own
  has the identity of the thread. Without the context of the threads its constructor is undefined.
\<close>

theorem server_new:
  "(\<exists>sv. SrsServer_new logs_parts self (w, cx\<lparr>cx_gets := Some n\<rparr>) =
     (Ok sv, (w @ server_parts, snd (get_id self (cx\<lparr>cx_gets := Some n\<rparr>)))) \<and>
     sr_trd sv = SrsFastCoroutine_new ''srs'' (case cx_cache cx self of None \<Rightarrow> [] | Some v \<Rightarrow> v) \<and>
     \<not> co_started (sr_trd sv) \<and> \<not> co_started (sr_latest_version sv) \<and> sr_handler sv = None \<and> sr_pid_fd sv = - 1) \<and>
   fst (SrsServer_new logs_parts self (w, cx\<lparr>cx_gets := None\<rparr>)) = Panic UndefinedBehaviour"
  by (simp add: SrsServer_new_def SrsHttpServer_new_def logs_parts_def server_parts_def bind_def on_fst_def on_snd_def gets_def
      get_id_def SrsFastCoroutine_new_def SrsLatestVersion_trd_def Let_def split: option.split)

end
