(* ===== verification/Spec2Isabelle.thy ===== *)
theory Spec2Isabelle
  imports Amf0Roundtrip Amf0Owned AmfJson JsonRoundtrip JsonUnicode JsonSafe JsonAccess AppVersion AppHttp AppMain AppServer
begin

text \<open>
  A verification development of the media server under \<^verbatim>\<open>trunk/src\<close>: its buffers, errors, the AMF0
  and JSON values with their formats, clocks, logs, configuration and coroutines, its HTTP connections
  and clients, and the way it starts.

  \<^bold>\<open>Parts of the program and the theories that model them.\<close>

  \<^item> Theory \<open>Prelude\<close>: what a C++ call gives back (a value, an \<^verbatim>\<open>srs_error_t\<close> with its trail of
    messages, or a panic), calls over a state, bytes of words, characters, decimal numerals.
  \<^item> \<open>KernelBuffer\<close>: \<^verbatim>\<open>SrsBuffer\<close> and \<^verbatim>\<open>SrsBitBuffer\<close> of \<^verbatim>\<open>kernel/srs_kernel_buffer.cpp\<close>. A buffer is
    its bytes, its size and a cursor that may be anywhere, as a pointer may; each access checks
    that it is inside the memory.
  \<^item> \<open>KernelError\<close>: \<^verbatim>\<open>SrsCplxError\<close> of \<^verbatim>\<open>kernel/srs_kernel_error.cpp\<close> with the tables of codes, and the
    refinement of the chains of errors to the errors of the prelude that every other theory uses.
  \<^item> \<open>PropTable\<close>: \<^verbatim>\<open>SrsUnSortedHashtable\<close> of \<^verbatim>\<open>protocol/srs_protocol_amf0.cpp\<close>, and the interface
    \<open>property_table\<close> that AMF0 objects, ECMA arrays and JSON objects rest on.
  \<^item> \<open>Amf0Value\<close>, \<open>Amf0Codec\<close>, \<open>Amf0Write\<close>, \<open>Amf0Read\<close>, \<open>Amf0Roundtrip\<close>: the class \<^verbatim>\<open>SrsAmf0Any\<close> with its
    subclasses and the functions that read and write them. \<open>Codec\<close> is the interface of a
    self-delimiting format; the AMF0 values and its short strings are its interpretations.
  \<^item> \<open>Amf0Memory\<close>, \<open>Amf0Owned\<close>: the objects behind the AMF0 values, in a memory with the places where the same
    functions make and delete them: reading, the operations of the containers, copies. A memory is described by
    the trees of objects in it.
  \<^item> \<open>Double\<close>: the bits of an IEEE \<^verbatim>\<open>double\<close>, its conversions and how it is printed.
  \<^item> \<open>JsonValue\<close>, \<open>AmfJson\<close>: \<^verbatim>\<open>SrsJsonAny\<close> and its subclasses of \<^verbatim>\<open>protocol/srs_protocol_json.cpp\<close>, the
    text that \<^verbatim>\<open>dumps\<close> makes, and the conversions between AMF0 and JSON values.
  \<^item> \<open>JsonParse\<close>: \<^verbatim>\<open>json_parse_ex\<close> of the same file, its two passes over the text, and \<^verbatim>\<open>loads\<close>. The values
    are a list of nodes in the order in which the first pass makes them, a pointer is an index into it,
    the bits of \<^verbatim>\<open>flags\<close> are fields. A step is the body of the loop, split where the body branches. At the
    end \<^verbatim>\<open>json_value_free\<close> gives the nodes back, over the blocks of memory that are gone.
  \<^item> \<open>JsonGrammar\<close>: a recursive descent over the same texts, without passes, flags or nodes, the
    reference of the parser. \<open>JsonRun\<close>, \<open>JsonNodes\<close>, \<open>JsonNumber\<close>, \<open>JsonLeaves\<close>, \<open>JsonTrees\<close>, \<open>JsonEquiv\<close>: runs of steps,
    the layout of a tree in the nodes, and for each part of the grammar the run that takes it in either
    pass, up to the equivalence. \<open>JsonLanguage\<close>, \<open>JsonRoundtrip\<close>, \<open>JsonUnicode\<close>: what follows for texts.
    \<open>JsonSafe\<close>: an invariant and a measure of the first pass, with comments too. \<open>JsonFree\<close>: the walk that gives
    the nodes of a tree back. \<open>JsonAccess\<close>: the operators of a parsed value.
  \<^item> \<open>KernelTime\<close>: the cached clock of \<^verbatim>\<open>kernel/srs_kernel_utility.cpp\<close>, the rates of
    \<^verbatim>\<open>kernel/srs_kernel_kbps.cpp\<close>, the clock monitor of \<^verbatim>\<open>app/srs_app_hourglass.cpp\<close>.
  \<^item> \<open>AppConfig\<close>, \<open>AppLog\<close>: directives and subscribers of \<^verbatim>\<open>app/srs_app_config.cpp\<close>; the console log and
    the thread context of \<^verbatim>\<open>protocol/srs_service_log.cpp\<close>, the file log of \<^verbatim>\<open>app/srs_app_log.cpp\<close>.
  \<^item> \<open>AppThread\<close>: coroutines and wait groups of \<^verbatim>\<open>app/srs_app_st.cpp\<close>, the loop of \<^verbatim>\<open>SrsFastTimer\<close>.
  \<^item> \<open>AppClient\<close>: the HTTP client as a record of arguments and the heartbeat of \<^verbatim>\<open>app/srs_app_heartbeat.cpp\<close>.
    \<open>AppFeatures\<close>, \<open>AppVersion\<close>: what the server reports of itself, and the coroutine that asks for the latest
    version, of \<^verbatim>\<open>app/srs_app_latest_version.cpp\<close>.
  \<^item> \<open>AppHttp\<close>: the connections and the server of \<^verbatim>\<open>app/srs_app_http_conn.cpp\<close>. The owner of a connection is a
    record of operations with the contract \<open>conn_owner_law\<close>, the class that only responds its interpretation.
  \<^item> \<open>AppHybrid\<close>, \<open>AppMain\<close>: the report and the run of the servers of \<^verbatim>\<open>app/srs_app_hybrid.cpp\<close>; \<^verbatim>\<open>main\<close> of
    \<^verbatim>\<open>main/srs_main_server.cpp\<close>, the global objects of \<^verbatim>\<open>app/srs_app_threads.cpp\<close>, and the functions of
    \<^verbatim>\<open>protocol/srs_service_st.cpp\<close>. \<open>AppUtility\<close>: the record of \<^verbatim>\<open>app/srs_app_utility.hpp\<close> that the report reads.
    \<open>AppServer\<close>: the constructor of \<^verbatim>\<open>app/srs_app_server.cpp\<close>.

  \<^bold>\<open>How the parts interact.\<close> The AMF0 functions read and write a buffer and make errors; their tables
  are property tables; a value becomes a JSON value and back; logs ask the configuration for the file;
  a coroutine enters its context before its handler runs; a timer is a coroutine whose handlers
  include the clock monitor, which updates the cached clock, and the report of the hybrid server, which
  prints a JSON object. The heartbeat sends what \<^verbatim>\<open>dumps\<close> prints, the query of the version reads its answer
  with \<^verbatim>\<open>loads\<close>. A connection runs on a coroutine; the last section of this theory puts the two together. \<^verbatim>\<open>main\<close>
  makes the log, the context and the hybrid server and runs the servers in it.

  \<^bold>\<open>What the lemmas show.\<close> Buffers: round trips of all formats, no access outside of the memory, the
  order of bits. Errors: distinct codes, refinement, the text of a description. AMF0: writing gives
  the bytes of the format exactly when they fit, reading any bytes ends with a value or a decoding
  error, what is written is read back, sequences of values delimit themselves, and which values
  the format does not keep; in memory, that reading leaves nothing behind when it fails, that a container owns its
  values and that a copy shares none. Tables: refinement of a map. JSON: the object operations, when the
  conversion from AMF0 is defined, which values come back. The parser: \<^verbatim>\<open>loads\<close> gives what the reference
  grammar says for every text, leaves no memory, ends, overflows only in long numbers, reads back what
  \<^verbatim>\<open>dumps\<close> prints, gives its nodes back; the characters of escapes. Clock: rates against a specification,
  bounds of the cached time, ticks counted. Logs: the lines printed, cut to the buffer, and the
  lines that overflow it. Coroutines: an invariant over all interleavings, the contract of \<^verbatim>\<open>stop\<close>,
  wait groups, the rounds of a timer. HTTP: a connection frees every message and request once and removes
  itself once; the features, the queries and the heartbeat against what they are to send and to store.
  The start: the outcome of \<^verbatim>\<open>main\<close> in every environment, and the calls that a server makes.

  \<^bold>\<open>Conventions and bounds.\<close> Assertions are active, as \<^verbatim>\<open>srs_assert\<close> is \<^verbatim>\<open>assert\<close> and no build file
  defines \<^verbatim>\<open>NDEBUG\<close>. A \<^verbatim>\<open>double\<close> is its 64 bits. Messages of errors are format strings with the
  arguments not filled in. An \<^verbatim>\<open>int64_t\<close> prints as with \<^verbatim>\<open>"%ld"\<close>. Lists stand for vectors of fewer than
  \<open>2 ^ 31\<close> elements; where a size is cast to \<^verbatim>\<open>int\<close> the cast is written out. The recursive readers have
  fuel: \<open>read_fuel\<close> gives three units per byte left and two more, and \<open>Amf0Read.read_any_total\<close> shows
  that this is enough for every input. The passes
  of the JSON parser have four units for each character and eight more, as a character is looked at
  thrice at most; texts are no longer than the parser's own limit \<^verbatim>\<open>uint_max\<close>, and \<^verbatim>\<open>pow(10.0, n)\<close> is an
  argument. \<open>JsonSafe.json_first_pass\<close> and \<open>JsonEquiv.json_loads_reference\<close> show that the fuel is enough.
  The loop of a timer has one unit per round and the property
  about it says how many it takes; the loops over messages, bodies and queries likewise. Giving the nodes of
  a text back takes at most two units a node. Deleting and copying objects of AMF0 takes one unit for each level,
  and there are no more levels than objects were ever made. Log calls inside of other operations and the addresses of
  objects have no effect in the models, other than the addresses that are compared. Memory that is freed is
  tracked for the objects of AMF0, the nodes of the parser, the messages and the requests of a connection, and
  nowhere else.
  A function that ends without the \<^verbatim>\<open>return\<close> it needs is undefined behaviour. The macros \<^verbatim>\<open>SRS_DEBUG\<close>,
  \<^verbatim>\<open>SRS_RTC\<close>, \<^verbatim>\<open>SRS_SRT\<close> and those of the profilers are not defined; \<^verbatim>\<open>__linux__\<close> is.

  \<^bold>\<open>Not modelled.\<close> The functions of the system and of the state-threads library are arguments.
  \<^verbatim>\<open>SrsFastCoroutine::pfn\<close> is declared and not defined in the repository; the step relation of
  \<open>AppThread\<close> takes its effect as given. The HTTP client, parser and muxes, the sockets, the manager of
  connections, most of the configuration and the members of the servers are declared only; they are
  arguments where the modelled code calls them. What has only declarations or empty bodies (sources, reload, the
  interfaces of input and output and of HTTP) and the counters of bytes of a connection are left out. Memory is never exhausted: the paths of the JSON
  parser for that are left out, and so are the lines and columns of its messages. Writing a value of AMF0 and its
  conversions to and from JSON are modelled over values only.
\<close>

section \<open>Properties that span components\<close>

subsection \<open>A connection on its coroutine\<close>

text \<open>
  \<^verbatim>\<open>trd\<close> of an HTTP connection is the coroutine of \<open>AppThread\<close>: \<^verbatim>\<open>trd->pull()\<close> and \<^verbatim>\<open>trd->interrupt()\<close> are its
  operations, on the first part of the world.
\<close>

definition trd_pull :: "(SrsFastCoroutine \<times> 'v, unit) call" where
  "trd_pull = (\<lambda>(co, v). case co_pull co of (None, co) \<Rightarrow> (Ok (), (co, v)) | (Some r, co) \<Rightarrow> (Err (snd r), (co, v)))"

definition trd_interrupt :: "SrsFastCoroutine \<times> 'v \<Rightarrow> SrsFastCoroutine \<times> 'v" where
  "trd_interrupt = (\<lambda>(co, v). (co_interrupt co, v))"

definition on_coroutine :: "(SrsFastCoroutine \<times> 'v, 'r, 'm) conn_env \<Rightarrow> (SrsFastCoroutine \<times> 'v, 'r, 'm) conn_env" where
  "on_coroutine env = env\<lparr>ce_pull := trd_pull, ce_interrupt := trd_interrupt\<rparr>"

definition interrupted_error :: srs_error where
  "interrupted_error = srs_error_new ERROR_THREAD_INTERRUPED ''interrupted''"

lemma pull_interrupted:
  assumes "co_started co" and "\<not> co_interrupted co" and "\<not> co_cycle_done co" and "co_trd_err co = None"
  shows "\<exists>co'. trd_pull (trd_interrupt (co, v)) = (Err interrupted_error, (co', v)) \<and>
    co_interrupted co' \<and> co_signals co' = co_signals co + 1"
  using assms by (simp add: trd_pull_def trd_interrupt_def co_interrupt_def co_pull_def set_err_first_def set_err_def
      new_err_def Let_def interrupted_error_def)

lemma pull_error_ends_requests:
  assumes "ce_pull env (hn_world s) = (Err e, w)"
  shows "process_requests (Suc j) env own req_id s = (Err (srs_error_wrap e ''pull''), s\<lparr>hn_world := w\<rparr>)"
  unfolding process_requests.simps bind_def [of "wrap_err _ (in_world (ce_pull env))"]
  by (simp add: wrap_err_def in_world_def assms)

lemma pull_error_ends_pop:
  assumes "ce_pull env (re_recv_timeout rs (3 * SRS_UTIME_SECONDS) (hn_world s)) = (Err e, w)"
  shows "pop_message (Suc j) env rs s = (Err (srs_error_wrap e ''timeout''), s\<lparr>hn_world := w\<rparr>)"
  unfolding pop_message_def pop_loop.simps bind_def [of "world_do _"] bind_def [of "wrap_err _ (in_world (ce_pull env))"]
  by (simp add: wrap_err_def in_world_def world_do_def assms)



text \<open>The example connection and its owner, beside a coroutine that runs.\<close>

definition example_conn_on_coroutine :: "(SrsFastCoroutine \<times> nat list, nat, nat) conn_env" where
  "example_conn_on_coroutine = \<lparr>ce_timeout = 15000000, ce_recv_timeout = (\<lambda>_ w. w), ce_parser_init = ret (),
     ce_parse_message = on_snd (ce_parse_message example_conn), ce_set_connection = (\<lambda>_ w. w),
     ce_to_request = (\<lambda>m w. m), ce_keep_alive = (\<lambda>m w. m \<noteq> 0), ce_pull = ret (), ce_trd_start = ret (),
     ce_serve = (\<lambda>_. ret ()), ce_cors_init = (\<lambda>_. ret ()), ce_set_jsonp = (\<lambda>_ w. w), ce_interrupt = (\<lambda>w. w)\<rparr>"

definition example_resp_on_coroutine :: "(SrsFastCoroutine \<times> nat list, nat) resp_env" where
  "example_resp_on_coroutine = \<lparr>re_ssl = False, re_handshake = ret (), re_timeofday = (\<lambda>_. None), re_set_https = (\<lambda>_ w. w),
     re_content_length = (\<lambda>m w. 3), re_body_eof = (\<lambda>m w. True), re_body_read = (\<lambda>_. ret ()),
     re_read = on_snd (re_read example_resp), re_recv_timeout = (\<lambda>_ w. w), re_crossdomain = (\<lambda>w. True),
     re_init_socket = ret (), re_set_tcp_nodelay = (\<lambda>_. ret ()), re_set_socket_buffer = (\<lambda>_. ret ()),
     re_subscribe = (\<lambda>_ cf. cf)\<rparr>"

definition example_running :: "nat list \<Rightarrow> (SrsFastCoroutine \<times> nat list, nat) http_conn" where
  "example_running w = \<lparr>hn_world = (snd (co_start (Some 7) (SrsFastCoroutine_new ''http'' [])), w), hn_clock = sys_time_init,
     hn_last = None, hn_made = [], hn_freed = [], hn_messages = 0, hn_removed = 0\<rparr>"


end
